(* ===== verification/Ng_Prelude.thy ===== *)
theory Ng_Prelude
  imports Main "HOL-Library.Word" "HOL-Library.Monad_Syntax"
begin

text \<open>
  Prelude of the development. It fixes the machine model the C sources are read with
  (little-endian byte order, two's complement, the LP64 sizes of the arm64 build: \<open>int\<close> 32
  bits, \<open>long\<close> and \<open>size_t\<close> 64 bits), names the word types, gives checked access to byte buffers
  and the conversions between words and bytes, and collects the generic facts the component
  theories share.
\<close>

unbundle bit_operations_syntax

section \<open>Types and fact collections\<close>

type_synonym u8 = "8 word"
type_synonym u16 = "16 word"
type_synonym u32 = "32 word"
type_synonym u64 = "64 word"
type_synonym bytes = "8 word list"

named_theorems word_nat \<open>reading word operations as operations on naturals\<close>
named_theorems byte_simps \<open>conversions between words and their bytes\<close>

section \<open>Words as naturals\<close>

lemma unat_u8_less: "unat (x :: u8) < 256"
  using unsigned_less [of x] by simp

lemma unat_u16_less: "unat (x :: u16) < 65536"
  using unsigned_less [of x] by simp

lemma unat_u32_less: "unat (x :: u32) < 4294967296"
  using unsigned_less [of x] by simp

lemma unat_ucast_8_16 [simp, word_nat]: "unat (ucast (x :: u8) :: u16) = unat x"
  using unat_u8_less [of x] by (simp add: unsigned_ucast_eq take_bit_eq_mod)

lemma unat_ucast_8_32 [simp, word_nat]: "unat (ucast (x :: u8) :: u32) = unat x"
  using unat_u8_less [of x] by (simp add: unsigned_ucast_eq take_bit_eq_mod)

lemma unat_ucast_16_32 [simp, word_nat]: "unat (ucast (x :: u16) :: u32) = unat x"
  using unat_u16_less [of x] by (simp add: unsigned_ucast_eq take_bit_eq_mod)

lemma unat_ucast_16_8 [word_nat]: "unat (ucast (x :: u16) :: u8) = unat x mod 256"
  by (simp add: unsigned_ucast_eq take_bit_eq_mod)

lemma unat_ucast_32_8 [word_nat]: "unat (ucast (x :: u32) :: u8) = unat x mod 256"
  by (simp add: unsigned_ucast_eq take_bit_eq_mod)

lemma unat_ucast_32_16 [word_nat]: "unat (ucast (x :: u32) :: u16) = unat x mod 65536"
  by (simp add: unsigned_ucast_eq take_bit_eq_mod)

lemma unat_of_nat_16 [word_nat]: "unat (of_nat n :: u16) = n mod 65536"
  by (simp add: unsigned_of_nat take_bit_eq_mod)

lemma unat_drop_bit_div [word_nat]: "unat (drop_bit n (x :: 'a::len word)) = unat x div 2 ^ n"
proof -
  have "take_bit LENGTH('a) (unat x) = unat x"
    by (simp add: take_bit_nat_eq_self)
  then show ?thesis
    unfolding unsigned_drop_bit_eq by (simp add: drop_bit_eq_div)
qed

lemma unat_and_ffff [word_nat]: "unat ((x :: u32) AND 0xFFFF) = unat x mod 65536"
proof -
  have "x AND 0xFFFF = take_bit 16 x"
    by (simp add: take_bit_eq_mask mask_eq_exp_minus_1)
  then show ?thesis
    by (simp only: unsigned_take_bit_eq) (simp add: take_bit_eq_mod)
qed

lemma unat_not_u16 [word_nat]: "unat (NOT (x :: u16)) = 65535 - unat x"
proof -
  have "NOT x = 0xFFFF - x" by (simp add: not_eq_complement)
  moreover have "x \<le> 0xFFFF" using unat_u16_less [of x] by (simp add: word_le_nat_alt)
  ultimately show ?thesis by (simp add: unat_sub)
qed

lemma unat_minus_u32:
  "unat ((a :: u32) - b) =
     (if unat b \<le> unat a then unat a - unat b else unat a + 4294967296 - unat b)"
  by (simp add: unat_sub_if')

lemma unat_plus_u32:
  "unat ((a :: u32) + b) =
     (if unat a + unat b < 4294967296 then unat a + unat b else unat a + unat b - 4294967296)"
  by (simp add: unat_plus_if')

section \<open>Words and their bytes\<close>

text \<open>
  \<open>le16\<close> is what a load of a \<open>uint16_t\<close> from two consecutive bytes gives on a little-endian
  machine; \<open>le16b\<close> is what the store writes. \<open>be16b\<close> and \<open>be32b\<close> are the bytes of
  \<open>htons\<close>/\<open>htonl\<close> followed by a store, \<open>be16\<close> and \<open>be32\<close> a load followed by
  \<open>ntohs\<close>/\<open>ntohl\<close>.
\<close>

definition le16 :: "u8 \<Rightarrow> u8 \<Rightarrow> u16" where
  "le16 b0 b1 = ucast b1 * 256 + ucast b0"

definition be16 :: "u8 \<Rightarrow> u8 \<Rightarrow> u16" where
  "be16 b0 b1 = ucast b0 * 256 + ucast b1"

definition le32 :: "u8 \<Rightarrow> u8 \<Rightarrow> u8 \<Rightarrow> u8 \<Rightarrow> u32" where
  "le32 b0 b1 b2 b3 = ucast b3 * 16777216 + ucast b2 * 65536 + ucast b1 * 256 + ucast b0"

definition be32 :: "u8 \<Rightarrow> u8 \<Rightarrow> u8 \<Rightarrow> u8 \<Rightarrow> u32" where
  "be32 b0 b1 b2 b3 = ucast b0 * 16777216 + ucast b1 * 65536 + ucast b2 * 256 + ucast b3"

definition le16b :: "u16 \<Rightarrow> bytes" where
  "le16b x = [ucast x, ucast (drop_bit 8 x)]"

definition be16b :: "u16 \<Rightarrow> bytes" where
  "be16b x = [ucast (drop_bit 8 x), ucast x]"

definition le32b :: "u32 \<Rightarrow> bytes" where
  "le32b x = [ucast x, ucast (drop_bit 8 x), ucast (drop_bit 16 x), ucast (drop_bit 24 x)]"

definition be32b :: "u32 \<Rightarrow> bytes" where
  "be32b x = [ucast (drop_bit 24 x), ucast (drop_bit 16 x), ucast (drop_bit 8 x), ucast x]"

definition ntohs :: "u16 \<Rightarrow> u16" where
  "ntohs x = ucast (ucast x :: u8) * 256 + ucast (ucast (drop_bit 8 x) :: u8)"

lemma unat_le16 [word_nat]: "unat (le16 a b) = unat b * 256 + unat a"
  using unat_u8_less [of a] unat_u8_less [of b] by (simp add: le16_def unat_word_ariths)

lemma unat_be16 [word_nat]: "unat (be16 a b) = unat a * 256 + unat b"
  using unat_u8_less [of a] unat_u8_less [of b] by (simp add: be16_def unat_word_ariths)

lemma unat_be32 [word_nat]:
  "unat (be32 a b c d) = unat a * 16777216 + unat b * 65536 + unat c * 256 + unat d"
  using unat_u8_less [of a] unat_u8_less [of b] unat_u8_less [of c] unat_u8_less [of d]
  by (simp add: be32_def unat_word_ariths)

lemma unat_le32 [word_nat]:
  "unat (le32 a b c d) = unat d * 16777216 + unat c * 65536 + unat b * 256 + unat a"
  using unat_u8_less [of a] unat_u8_less [of b] unat_u8_less [of c] unat_u8_less [of d]
  by (simp add: le32_def unat_word_ariths)

lemma u16_split: "unat (x :: u16) div 256 < 256" "(unat x div 256) * 256 + unat x mod 256 = unat x"
  using unat_u16_less [of x] by (auto simp: less_mult_imp_div_less)

lemma unat_ntohs [word_nat]: "unat (ntohs x) = (unat x mod 256) * 256 + unat x div 256"
proof -
  have "unat x mod 256 < 256" by simp
  with u16_split(1) [of x] show ?thesis
    by (simp add: ntohs_def unat_word_ariths unat_ucast_16_8 unat_drop_bit_div)
qed

lemma le16_bytes [byte_simps, simp]:
  "le16 (ucast x) (ucast (drop_bit 8 x)) = x" for x :: u16
  using u16_split [of x] by (simp add: word_unat_eq_iff word_nat del: drop_bit_eq_div)

lemma be16_bytes [byte_simps, simp]:
  "be16 (ucast (drop_bit 8 x)) (ucast x) = x" for x :: u16
  using u16_split [of x] by (simp add: word_unat_eq_iff word_nat)

lemma nat_base256:
  "(n div 16777216) * 16777216 + (n div 65536 mod 256) * 65536 + (n div 256 mod 256) * 256
     + n mod 256 = (n::nat)"
proof -
  define a where "a = n div 256"
  define b where "b = a div 256"
  define c where "c = b div 256"
  have eqs: "n div 256 = a" "n div 65536 = b" "n div 16777216 = c"
    by (simp_all add: a_def b_def c_def div_mult2_eq [symmetric])
  have digits: "x = y * 256 + r0 \<Longrightarrow> y = z * 256 + r1 \<Longrightarrow> z = w * 256 + r2 \<Longrightarrow>
      w * 16777216 + r2 * 65536 + r1 * 256 + r0 = x" for x y z w r0 r1 r2 :: nat
    by simp
  have "n = a * 256 + n mod 256" "a = b * 256 + a mod 256" "b = c * 256 + b mod 256"
    by (simp_all add: a_def b_def c_def)
  from digits [OF this] show ?thesis by (simp add: eqs)
qed

lemma u32_top: "unat (x :: u32) div 16777216 < 256"
  using unat_u32_less [of x] by (simp add: less_mult_imp_div_less)

lemma be32_bytes [byte_simps, simp]:
  "be32 (ucast (drop_bit 24 x)) (ucast (drop_bit 16 x)) (ucast (drop_bit 8 x)) (ucast x) = x"
  for x :: u32
  using nat_base256 [of "unat x"] u32_top [of x] by (simp add: word_unat_eq_iff word_nat)

lemma ntohs_ntohs [simp]: "ntohs (ntohs x) = x"
  using u16_split [of x] by (simp add: word_unat_eq_iff word_nat)

lemma ntohs_le16 [byte_simps]: "ntohs (le16 a b) = be16 a b"
  using unat_u8_less [of a] unat_u8_less [of b] by (simp add: word_unat_eq_iff word_nat)

lemma length_bytes [simp]:
  "length (le16b x) = 2" "length (be16b x) = 2" "length (le32b y) = 4" "length (be32b y) = 4"
  by (simp_all add: le16b_def be16b_def le32b_def be32b_def)

section \<open>Checked access to buffers\<close>

text \<open>
  A C buffer is the list of the bytes that were allocated. A read outside it is undefined
  behaviour; the model makes it the value \<open>None\<close>.
\<close>

definition rd8 :: "bytes \<Rightarrow> nat \<Rightarrow> u8 option" where
  "rd8 buf i = (if i < length buf then Some (buf ! i) else None)"

definition rd_bytes :: "bytes \<Rightarrow> nat \<Rightarrow> nat \<Rightarrow> bytes option" where
  "rd_bytes buf i n = (if i + n \<le> length buf then Some (take n (drop i buf)) else None)"

definition rd16 :: "bytes \<Rightarrow> nat \<Rightarrow> u16 option" where
  "rd16 buf i = (if i + 2 \<le> length buf then Some (le16 (buf ! i) (buf ! (i + 1))) else None)"

definition rd32be :: "bytes \<Rightarrow> nat \<Rightarrow> u32 option" where
  "rd32be buf i = (if i + 4 \<le> length buf
     then Some (be32 (buf ! i) (buf ! (i + 1)) (buf ! (i + 2)) (buf ! (i + 3))) else None)"

definition wr_bytes :: "bytes \<Rightarrow> nat \<Rightarrow> bytes \<Rightarrow> bytes option" where
  "wr_bytes buf i d = (if i + length d \<le> length buf
     then Some (take i buf @ d @ drop (i + length d) buf) else None)"

text \<open>The string in a \<open>char\<close> array: the bytes before the first zero.\<close>

definition cstr :: "bytes \<Rightarrow> bytes" where
  "cstr buf = takeWhile (\<lambda>b. b \<noteq> 0) buf"

lemma wr_bytes_eq_None [simp]: "wr_bytes buf i d = None \<longleftrightarrow> length buf < i + length d"
  by (auto simp: wr_bytes_def)

lemma wr_bytes_length: "wr_bytes buf i d = Some buf' \<Longrightarrow> length buf' = length buf"
  by (auto simp: wr_bytes_def split: if_splits)

lemma rd_ok:
  "i < length buf \<Longrightarrow> rd8 buf i = Some (buf ! i)"
  "i + 2 \<le> length buf \<Longrightarrow> rd16 buf i = Some (le16 (buf ! i) (buf ! (i + 1)))"
  "i + 4 \<le> length buf \<Longrightarrow> rd32be buf i =
     Some (be32 (buf ! i) (buf ! (i + 1)) (buf ! (i + 2)) (buf ! (i + 3)))"
  "i + n \<le> length buf \<Longrightarrow> rd_bytes buf i n = Some (take n (drop i buf))"
  "i + length d \<le> length buf \<Longrightarrow>
     wr_bytes buf i d = Some (take i buf @ d @ drop (i + length d) buf)"
  by (simp_all add: rd8_def rd16_def rd32be_def rd_bytes_def wr_bytes_def)

lemma rd8_eq_None [simp]: "rd8 buf i = None \<longleftrightarrow> length buf \<le> i"
  by (auto simp: rd8_def)

lemma rd_bytes_eq_None [simp]: "rd_bytes buf i n = None \<longleftrightarrow> length buf < i + n"
  by (auto simp: rd_bytes_def)

lemma rd_bytes_length: "rd_bytes buf i n = Some d \<Longrightarrow> length d = n"
  by (auto simp: rd_bytes_def split: if_splits)

section \<open>Replacing one element of a list\<close>

text \<open>
  A C loop that walks a linked list to the first node satisfying a condition and then updates
  that node in place is \<open>update_first\<close>.
\<close>

fun update_first :: "('a \<Rightarrow> bool) \<Rightarrow> ('a \<Rightarrow> 'a) \<Rightarrow> 'a list \<Rightarrow> 'a list" where
  "update_first P f [] = []"
| "update_first P f (x # xs) = (if P x then f x # xs else x # update_first P f xs)"

lemma length_update_first [simp]: "length (update_first P f xs) = length xs"
  by (induction xs) auto

lemma update_first_none: "find P xs = None \<Longrightarrow> update_first P f xs = xs"
  by (induction xs) (auto split: if_splits)

lemma update_first_preserves:
  assumes "\<And>x. x \<in> set xs \<Longrightarrow> Q x" and "\<And>x. x \<in> set xs \<Longrightarrow> P x \<Longrightarrow> Q (f x)"
  shows "\<forall>y \<in> set (update_first P f xs). Q y"
  using assms by (induction xs) auto

lemma map_update_first:
  "(\<And>x. x \<in> set xs \<Longrightarrow> P x \<Longrightarrow> g (f x) = g x) \<Longrightarrow> map g (update_first P f xs) = map g xs"
  by (induction xs) auto

lemma find_in_set: "find P xs = Some x \<Longrightarrow> x \<in> set xs \<and> P x"
  by (auto simp: find_Some_iff)

end
