(* ===== verification/Util.thy ===== *)
theory Util
  imports Ng_Prelude
begin

text \<open>
  The helpers of \<open>netguard/util.c\<close>: the Internet checksum, serial number comparison and the
  hexadecimal and string routines. The checksum is compared with the one's complement sum of
  RFC 1071, the comparison with the serial number order of RFC 1982, and the hexadecimal
  printer with its reader.
\<close>

section \<open>Internet checksum\<close>

fun sum16 :: "u32 \<Rightarrow> bytes \<Rightarrow> u32" where
  "sum16 acc (b0 # b1 # buf) = sum16 (acc + ucast (le16 b0 b1)) buf"
| "sum16 acc [b] = acc + ucast b"
| "sum16 acc [] = acc"

lemma unat_fold_step [word_nat]:
  "unat ((s AND 0xFFFF) + drop_bit 16 (s :: u32)) = unat s mod 65536 + unat s div 65536"
proof -
  have "unat s div 65536 < 65536" using unat_u32_less [of s] by (simp add: less_mult_imp_div_less)
  moreover have "unat s mod 65536 < 65536" by simp
  ultimately show ?thesis by (simp add: unat_word_ariths word_nat del: drop_bit_eq_div)
qed

lemma fold_carry_decreases:
  assumes "drop_bit 16 s \<noteq> (0 :: u32)"
  shows "unat ((s AND 0xFFFF) + drop_bit 16 s) < unat s"
proof -
  have "unat (drop_bit 16 s) \<noteq> 0" using assms by (simp add: unsigned_eq_0_iff)
  then have "unat s div 65536 \<noteq> 0" by (simp add: unat_drop_bit_div)
  moreover have "unat s = unat s div 65536 * 65536 + unat s mod 65536" by simp
  ultimately show ?thesis unfolding unat_fold_step by linarith
qed

function fold_carry :: "u32 \<Rightarrow> u32" where
  "fold_carry acc =
     (if drop_bit 16 acc \<noteq> 0 then fold_carry ((acc AND 0xFFFF) + drop_bit 16 acc) else acc)"
  by pat_completeness auto
termination
  by (relation "measure unat") (auto simp: fold_carry_decreases simp del: drop_bit_eq_div)

declare fold_carry.simps [simp del]

definition calc_checksum :: "u16 \<Rightarrow> bytes \<Rightarrow> u16" where
  "calc_checksum start buffer = ucast (fold_carry (sum16 (ucast start) buffer))"

subsection \<open>The reference: one's complement addition\<close>

text \<open>
  RFC 1071 adds the 16 bit words of the data with end-around carry, padding an odd last byte
  with zero. \<open>oc\<close> is the value of such a sum as a function of the plain sum.
\<close>

fun words16 :: "bytes \<Rightarrow> u16 list" where
  "words16 (b0 # b1 # buf) = le16 b0 b1 # words16 buf"
| "words16 [b] = [ucast b]"
| "words16 [] = []"

definition oc_add :: "u16 \<Rightarrow> u16 \<Rightarrow> u16" where
  "oc_add x y = (if unat x + unat y < 65536 then x + y else x + y + 1)"

definition oc_sum :: "u16 \<Rightarrow> u16 list \<Rightarrow> u16" where
  "oc_sum s ws = foldl oc_add s ws"

definition oc :: "nat \<Rightarrow> nat" where
  "oc n = (if n = 0 then 0 else (n - 1) mod 65535 + 1)"

definition wsum :: "bytes \<Rightarrow> nat" where
  "wsum buf = sum_list (map unat (words16 buf))"

lemma oc_less: "oc n < 65536"
  by (simp add: oc_def)

lemma oc_small: "n < 65536 \<Longrightarrow> oc n = n"
  by (simp add: oc_def)

lemma oc_eq_0 [simp]: "oc n = 0 \<longleftrightarrow> n = 0"
  by (simp add: oc_def)

lemma oc_period: "0 < n \<Longrightarrow> oc (n + 65535 * k) = oc n"
proof -
  assume "0 < n"
  then have "n + 65535 * k - 1 = (n - 1) + 65535 * k" by simp
  then have "(n + 65535 * k - 1) mod 65535 = (n - 1) mod 65535"
    by (simp only: mod_mult_self2)
  with \<open>0 < n\<close> show ?thesis by (simp add: oc_def)
qed

lemma oc_decomp: "\<exists>k. n = oc n + 65535 * k"
proof (cases "n = 0")
  case False
  then have "oc n = (n - 1) mod 65535 + 1" by (simp only: oc_def if_False)
  with False have "n = oc n + 65535 * ((n - 1) div 65535)"
    using mod_mult_div_eq [of "n - 1" 65535] by linarith
  then show ?thesis ..
qed (simp add: oc_def)

lemma oc_absorb: "oc (oc a + b) = oc (a + b)"
proof (cases "oc a + b = 0")
  case False
  obtain k where "a = oc a + 65535 * k" using oc_decomp by blast
  then have "a + b = (oc a + b) + 65535 * k" by simp
  with False show ?thesis by (metis oc_period neq0_conv)
qed (simp add: oc_def)

lemma oc_absorb2: "oc (a + oc b) = oc (a + b)"
  using oc_absorb [of b a] by (simp add: add.commute)

lemma oc_complement: "oc (n + (65535 - oc n)) = 65535"
proof -
  obtain k where k: "n = oc n + 65535 * k" using oc_decomp by blast
  have "oc n \<le> 65535" using oc_less [of n] by simp
  with k have "n + (65535 - oc n) = 65535 + 65535 * k" by linarith
  then show ?thesis by (simp add: oc_period oc_small del: mult_Suc_right)
qed

lemma unat_oc_add [word_nat]: "unat (oc_add x y) = oc (unat x + unat y)"
proof (cases "unat x + unat y < 65536")
  case True
  then show ?thesis by (simp add: oc_add_def oc_small unat_word_ariths)
next
  case False
  have b: "unat x < 65536" "unat y < 65536" by (rule unat_u16_less)+
  define r where "r = unat x + unat y - 65535"
  have r: "unat x + unat y = r + 65535 * 1" "0 < r" "r < 65536"
    using False b by (auto simp: r_def)
  have "unat (x + y + 1) = (unat x + unat y + 1) mod 65536"
    by (simp add: unat_word_ariths mod_simps)
  also have "\<dots> = r" using r by simp
  also have "\<dots> = oc (unat x + unat y)"
    unfolding r(1) oc_period [OF r(2)] using r(3) by (simp add: oc_small)
  finally show ?thesis using False by (simp add: oc_add_def)
qed

lemma unat_oc_sum: "unat (oc_sum s ws) = oc (unat s + sum_list (map unat ws))"
proof (induction ws arbitrary: s)
  case Nil
  then show ?case by (simp add: oc_sum_def oc_small unat_u16_less)
next
  case (Cons w ws)
  then show ?case by (simp add: oc_sum_def unat_oc_add oc_absorb add.assoc)
qed

subsection \<open>Correctness of the routine\<close>

lemma wsum_simps [simp]:
  "wsum [] = 0" "wsum [b] = unat b" "wsum (b0 # b1 # buf) = unat (le16 b0 b1) + wsum buf"
  by (simp_all add: wsum_def)

lemma wsum_bound: "2 * wsum buf \<le> 65535 * (length buf + 1)"
proof (induction buf rule: words16.induct)
  case (1 b0 b1 buf)
  then show ?case using unat_u16_less [of "le16 b0 b1"] by simp
next
  case (2 b)
  then show ?case using unat_u8_less [of b] by simp
qed simp

lemma wsum_append: "even (length a) \<Longrightarrow> wsum (a @ b) = wsum a + wsum b"
  by (induction a rule: words16.induct) auto

lemma unat_sum16:
  "unat acc + wsum buf < 4294967296 \<Longrightarrow> unat (sum16 acc buf) = unat acc + wsum buf"
proof (induction acc buf rule: sum16.induct)
  case (1 acc b0 b1 buf)
  then have "unat (acc + ucast (le16 b0 b1)) = unat acc + unat (le16 b0 b1)"
    by (simp add: unat_word_ariths)
  with 1 show ?case by simp
qed (simp_all add: unat_word_ariths)

lemma unat_fold_carry: "unat (fold_carry s) = oc (unat s)"
proof (induction s rule: fold_carry.induct)
  case (1 acc)
  show ?case
  proof (cases "drop_bit 16 acc \<noteq> 0")
    case True
    have d: "unat acc = unat acc mod 65536 + unat acc div 65536 + 65535 * (unat acc div 65536)"
      using mod_mult_div_eq [of "unat acc" 65536] by linarith
    have "0 < unat acc mod 65536 + unat acc div 65536"
      using True fold_carry_decreases [of acc] d by (metis add_is_0 gr0I less_zeroE mult_0_right unat_fold_step)
    then have "oc (unat acc) = oc (unat acc mod 65536 + unat acc div 65536)"
      using oc_period d by metis
    with 1 True show ?thesis
      by (simp add: fold_carry.simps [of acc] unat_fold_step del: drop_bit_eq_div)
  next
    case False
    then have "unat acc div 65536 = 0"
      using unat_drop_bit_div [of 16 acc] by simp
    then have "unat acc < 65536" by (simp add: div_eq_0_iff)
    with False show ?thesis by (simp add: fold_carry.simps [of acc] oc_small)
  qed
qed

lemma unat_calc_checksum:
  assumes "length buf \<le> 131071"
  shows "unat (calc_checksum start buf) = oc (unat start + wsum buf)"
proof -
  have "unat start < 65536" by (rule unat_u16_less)
  then have "unat start + wsum buf < 4294967296"
  proof -
    have "65535 * (length buf + 1) \<le> 65535 * 131072" using assms by (intro mult_le_mono2) simp
    with wsum_bound [of buf] \<open>unat start < 65536\<close> show ?thesis by simp
  qed
  then have "unat (sum16 (ucast start) buf) = unat start + wsum buf"
    by (simp add: unat_sum16)
  then show ?thesis
    using oc_less [of "unat start + wsum buf"]
    by (simp add: calc_checksum_def word_nat unat_fold_carry)
qed

text \<open>
  The 32 bit accumulation with deferred carries of \<open>calc_checksum\<close> computes the one's
  complement sum of RFC 1071 (end-around carry after every addition) over the little-endian
  words of the buffer, for every buffer the program can build (up to 131071 bytes, where the
  32 bit accumulator cannot overflow).
\<close>

theorem calc_checksum_rfc1071:
  assumes "length buf \<le> 131071"
  shows "calc_checksum start buf = oc_sum start (words16 buf)"
  by (rule word_unat_eq_iff [THEN iffD2])
    (simp add: unat_calc_checksum [OF assms] unat_oc_sum wsum_def)

theorem calc_checksum_rfc1071_witness:
  "length [0x45, 0x00, 0xFF, 0xFF, 0x80 :: u8] \<le> 131071 \<and>
   calc_checksum 0xFFF0 [0x45, 0x00, 0xFF, 0xFF, 0x80]
     = oc_sum 0xFFF0 (words16 [0x45, 0x00, 0xFF, 0xFF, 0x80])"
  using calc_checksum_rfc1071 [of "[0x45, 0x00, 0xFF, 0xFF, 0x80]" "0xFFF0"] by simp

subsection \<open>The checksum interface\<close>

text \<open>
  The packet writers call \<open>calc_checksum\<close> piecewise, on a pseudo header, a header with a zeroed
  check field, the options and the data, and store the complement of the result. What they rely
  on is that sums over adjacent even pieces compose and that the complement makes the total all
  ones. The locale states this contract over any summing routine; the client lemmas are proved
  from it.
\<close>

locale inet_checksum =
  fixes csum :: "u16 \<Rightarrow> bytes \<Rightarrow> u16" and weight :: "bytes \<Rightarrow> nat" and limit :: nat
  assumes csum_value: "length buf \<le> limit \<Longrightarrow> unat (csum s buf) = oc (unat s + weight buf)"
    and weight_append: "even (length a) \<Longrightarrow> weight (a @ b) = weight a + weight b"
    and weight_store: "weight (le16b c) = unat c"
begin

lemma csum_append:
  assumes "even (length a)" "length a + length b \<le> limit"
  shows "csum (csum s a) b = csum s (a @ b)"
  using assms by (simp add: word_unat_eq_iff csum_value oc_absorb weight_append add.assoc)

lemma csum_fill:
  assumes "even (length pre)" "length pre + 2 + length post \<le> limit"
    and "c = NOT (csum 0 (pre @ [0, 0] @ post))"
  shows "csum 0 (pre @ le16b c @ post) = 0xFFFF"
proof -
  have z: "weight [0, 0] = 0"
    using weight_store [of 0] by (simp add: le16b_def)
  have "weight ([0, 0] @ post) = weight post"
    by (subst weight_append) (simp_all add: z)
  then have plain: "unat (csum 0 (pre @ [0, 0] @ post)) = oc (weight pre + weight post)"
    using assms(1,2) by (simp add: csum_value weight_append)
  have "unat c = 65535 - oc (weight pre + weight post)"
    unfolding assms(3) unat_not_u16 plain ..
  moreover have "weight (pre @ le16b c @ post) = weight pre + weight post + unat c"
    using assms(1) by (simp add: weight_append weight_store)
  ultimately have "unat (csum 0 (pre @ le16b c @ post)) = 65535"
    using assms(2) by (simp add: csum_value oc_complement)
  then show ?thesis by (simp add: word_unat_eq_iff)
qed

end

lemma wsum_le16b: "wsum (le16b c) = unat c"
  by (simp add: le16b_def)

interpretation ck: inet_checksum calc_checksum wsum 131071
  by unfold_locales (simp_all add: unat_calc_checksum wsum_append wsum_le16b)

section \<open>Serial number comparison\<close>

definition compare_u32 :: "u32 \<Rightarrow> u32 \<Rightarrow> int" where
  "compare_u32 s1 s2 =
     (if s1 = s2 then 0
      else if (s1 < s2 \<and> s2 - s1 < 0x7FFFFFFF) \<or> (s1 > s2 \<and> s1 - s2 > 0x7FFFFFFF) then -1
      else 1)"

text \<open>
  RFC 1982, section 3.2, with 32 bits: \<open>s1\<close> is less than \<open>s2\<close> when it is numerically less by
  less than \<open>2^31\<close>, or numerically greater by more than \<open>2^31\<close>.
\<close>

definition serial_less :: "u32 \<Rightarrow> u32 \<Rightarrow> bool" where
  "serial_less s1 s2 =
     ((unat s1 < unat s2 \<and> unat s2 - unat s1 < 2 ^ 31) \<or>
      (unat s1 > unat s2 \<and> unat s1 - unat s2 > 2 ^ 31))"

lemma compare_u32_unat:
  "compare_u32 s1 s2 =
     (if unat s1 = unat s2 then 0
      else if (unat s1 < unat s2 \<and> unat s2 - unat s1 < 0x7FFFFFFF) \<or>
              (unat s2 < unat s1 \<and> unat s1 - unat s2 > 0x7FFFFFFF) then -1 else 1)"
  by (auto simp: compare_u32_def word_less_nat_alt unat_minus_u32 word_unat_eq_iff)

text \<open>
  Away from the antipode (a distance of \<open>2^31\<close>, give or take one) \<open>compare_u32\<close> is the
  serial number comparison of RFC 1982 and is antisymmetric.
\<close>

lemma compare_u32_rfc1982:
  assumes "s2 - s1 \<notin> {0x7FFFFFFF, 0x80000000, 0x80000001}"
  shows "compare_u32 s1 s2 = (if s1 = s2 then 0 else if serial_less s1 s2 then -1 else 1) \<and>
         compare_u32 s2 s1 = - compare_u32 s1 s2"
proof -
  have d: "unat (s2 - s1) \<notin> {0x7FFFFFFF, 0x80000000, 0x80000001}"
    using assms by (auto simp: word_unat_eq_iff)
  show ?thesis
    using d unat_u32_less [of s1] unat_u32_less [of s2]
    unfolding compare_u32_unat serial_less_def unat_minus_u32 word_unat_eq_iff
    by (auto split: if_splits)
qed

text \<open>
  At a distance of \<open>2^31 - 1\<close>, which RFC 1982 still orders, \<open>compare_u32\<close> calls each of two
  numbers greater than the other when the subtraction does not wrap.
\<close>

lemma compare_u32_antipode:
  "compare_u32 s (s + 0x7FFFFFFF) = 1 \<and> compare_u32 (s + 0x7FFFFFFF) s = 1
     \<longleftrightarrow> unat s < 2 ^ 32 - 0x7FFFFFFF"
  using unat_u32_less [of s] unfolding compare_u32_unat unat_plus_u32 by auto

text \<open>
  Inside a window of \<open>2^31 - 1\<close> sequence numbers from any base, wrapping or not, the comparison
  is the order of the offsets. This is the fact the segment queue rests on.
\<close>

lemma compare_u32_window:
  assumes "x < 0x7FFFFFFF" "y < 0x7FFFFFFF"
  shows "compare_u32 (base + of_nat x) (base + of_nat y) = sgn (int x - int y)"
proof -
  have u: "unat (of_nat x :: u32) = x" "unat (of_nat y :: u32) = y"
    using assms by (simp_all add: unsigned_of_nat take_bit_nat_eq_self)
  have b: "unat base < 4294967296" by (rule unat_u32_less)
  show ?thesis
  proof (cases x y rule: linorder_cases)
    case less
    with assms b show ?thesis
      unfolding compare_u32_unat unat_plus_u32 u by simp arith
  next
    case greater
    with assms b show ?thesis
      unfolding compare_u32_unat unat_plus_u32 u by simp arith
  qed (simp add: compare_u32_def)
qed

section \<open>Hexadecimal and strings\<close>

definition char2nible :: "char \<Rightarrow> u8" where
  "char2nible c = (let n = (of_char c :: nat) in
     if 48 \<le> n \<and> n \<le> 57 then of_nat (n - 48)
     else if 97 \<le> n \<and> n \<le> 102 then of_nat (n - 97 + 10)
     else if 65 \<le> n \<and> n \<le> 70 then of_nat (n - 65 + 10)
     else 255)"

text \<open>For an odd length the second character read is the terminating zero.\<close>

fun hex2bytes :: "string \<Rightarrow> bytes" where
  "hex2bytes (c # d # s) = (push_bit 4 (char2nible c) OR char2nible d) # hex2bytes s"
| "hex2bytes [c] = [push_bit 4 (char2nible c) OR char2nible (CHR 0x00)]"
| "hex2bytes [] = []"

definition hex_str :: string where
  "hex_str = ''0123456789ABCDEF''"

fun hex :: "bytes \<Rightarrow> string" where
  "hex [] = []"
| "hex (b # data) =
     hex_str ! unat (drop_bit 4 b AND 0x0F) # hex_str ! unat (b AND 0x0F) # CHR '' '' # hex data"

definition isspace :: "char \<Rightarrow> bool" where
  "isspace c = (c \<in> {CHR '' '', CHR 0x09, CHR 0x0A, CHR 0x0B, CHR 0x0C, CHR 0x0D})"

text \<open>The loop \<open>while (end > str && isspace(*end)) end--\<close> on the string kept reversed.\<close>

fun trim_end :: "string \<Rightarrow> string" where
  "trim_end (c # d # rs) = (if isspace c then trim_end (d # rs) else c # d # rs)"
| "trim_end rs = rs"

definition trim :: "string \<Rightarrow> string" where
  "trim str = (let s = dropWhile isspace str in if s = [] then s else rev (trim_end (rev s)))"

lemma u8_nibbles: "push_bit 4 (drop_bit 4 b AND 15) OR (b AND 15) = (b :: u8)"
proof -
  have m: "(15 :: u8) = mask 4" by (simp add: mask_eq_exp_minus_1)
  show ?thesis
    unfolding m by (auto simp: bit_eq_iff bit_simps)
qed

lemma unat_and_15: "unat ((x :: u8) AND 15) < 16"
proof -
  have "x AND 15 \<le> 15" by (rule word_and_le1)
  then show ?thesis by (simp add: word_le_nat_alt)
qed

lemma hex_digit:
  assumes "n < 16"
  shows "char2nible (hex_str ! n) = of_nat n \<and> hex_str ! n \<noteq> CHR '' ''"
proof -
  have "\<forall>n \<in> set [0..<16]. char2nible (hex_str ! n) = of_nat n \<and> hex_str ! n \<noteq> CHR '' ''"
    by code_simp
  with assms show ?thesis by auto
qed

text \<open>
  Reading back what \<open>hex\<close> prints, without its separating spaces, gives the bytes.
\<close>

lemma hex_roundtrip: "hex2bytes (filter (\<lambda>c. c \<noteq> CHR '' '') (hex data)) = data"
proof (induction data)
  case (Cons b data)
  have "char2nible (hex_str ! unat (x AND 15)) = (x AND 15) \<and> hex_str ! unat (x AND 15) \<noteq> CHR '' ''"
    for x :: u8
    using hex_digit [OF unat_and_15 [of x]] by simp
  with Cons u8_nibbles [of b] show ?case by simp
qed simp

lemma trim_end_spec: "rs \<noteq> [] \<Longrightarrow> \<not> isspace (last rs) \<Longrightarrow> trim_end rs = dropWhile isspace rs"
  by (induction rs rule: trim_end.induct) auto

end
