(* ===== verification/Ng_Types.thy ===== *)
theory Ng_Types
  imports Util "HOL-Library.Signed_Division"
begin

text \<open>
  The data of \<open>netguard/netguard.h\<close>: the constants, the three kinds of sessions and the list node
  that holds one of them, the segment queue, and the values exchanged with the Java service. The
  end of the theory is the operating system and JNI boundary: every answer the code gets from
  outside is a component of the record \<open>os\<close>, a function of everything that happened before, and
  every effect is an event of the trace kept in \<open>world\<close>, newest first. What a block from
  \<open>malloc\<close> holds and whether the other thread has set the stop flag are such answers too. A theorem that holds for
  every \<open>os\<close> holds for every behaviour of the kernel, the network and the Java side.

  Calls to \<open>log_android\<close> only write to the Android log and are left out throughout, and so are the
  texts they are given (\<open>inet_ntop\<close>, \<open>sprintf\<close>, \<open>hex\<close>). Memory is managed by \<open>malloc\<close> and
  \<open>free\<close>; allocation is taken to succeed, as the code does not check it.
\<close>

section \<open>Constants\<close>

definition ICMP_TIMEOUT :: int where [simp]: "ICMP_TIMEOUT = 15"
definition UDP_TIMEOUT_53 :: int where [simp]: "UDP_TIMEOUT_53 = 15"
definition UDP_TIMEOUT_ANY :: int where [simp]: "UDP_TIMEOUT_ANY = 300"
definition UDP_KEEP_TIMEOUT :: int where [simp]: "UDP_KEEP_TIMEOUT = 60"
definition TCP_INIT_TIMEOUT :: int where [simp]: "TCP_INIT_TIMEOUT = 20"
definition TCP_IDLE_TIMEOUT :: int where [simp]: "TCP_IDLE_TIMEOUT = 3600"
definition TCP_CLOSE_TIMEOUT :: int where [simp]: "TCP_CLOSE_TIMEOUT = 20"
definition TCP_KEEP_TIMEOUT :: int where [simp]: "TCP_KEEP_TIMEOUT = 300"
definition EPOLL_TIMEOUT :: int where [simp]: "EPOLL_TIMEOUT = 3600"
definition EPOLL_MIN_CHECK :: int where [simp]: "EPOLL_MIN_CHECK = 100"
definition SESSION_LIMIT :: int where [simp]: "SESSION_LIMIT = 40"
definition SESSION_MAX :: int where [simp]: "SESSION_MAX = 1024 * 40 div 100"
definition TUN_YIELD :: nat where [simp]: "TUN_YIELD = 10"
definition UDP_YIELD :: nat where [simp]: "UDP_YIELD = 10"
definition SEND_BUF_DEFAULT :: int where [simp]: "SEND_BUF_DEFAULT = 163840"
definition UID_MAX_AGE :: int where [simp]: "UID_MAX_AGE = 30000"
definition UDP4_MAXMSG :: nat where [simp]: "UDP4_MAXMSG = 65535 - 20 - 8"
definition UDP6_MAXMSG :: nat where [simp]: "UDP6_MAXMSG = 65535 - 40 - 8"
definition ICMP4_MAXMSG :: nat where [simp]: "ICMP4_MAXMSG = 65535 - 20 - 8"
definition ICMP6_MAXMSG :: nat where [simp]: "ICMP6_MAXMSG = 65535 - 40 - 8"

definition IPPROTO_ICMP :: u8 where [simp]: "IPPROTO_ICMP = 1"
definition IPPROTO_TCP :: u8 where [simp]: "IPPROTO_TCP = 6"
definition IPPROTO_UDP :: u8 where [simp]: "IPPROTO_UDP = 17"
definition IPPROTO_ICMPV6 :: u8 where [simp]: "IPPROTO_ICMPV6 = 58"

definition EINTR :: int where [simp]: "EINTR = 4"
definition EAGAIN :: int where [simp]: "EAGAIN = 11"
definition EINPROGRESS :: int where [simp]: "EINPROGRESS = 115"

section \<open>Sessions\<close>

text \<open>
  The states of \<open>netinet/tcp.h\<close> and the \<open>SOCKS5_*\<close> constants. \<open>TCP_ZERO\<close> and \<open>SOCKS5_ZERO\<close> are
  the value 0 of the fields, which \<open>memset\<close> and the failure branches store.
\<close>

datatype tcp_state =
  TCP_ZERO | TCP_ESTABLISHED | TCP_SYN_SENT | TCP_SYN_RECV | TCP_FIN_WAIT1 | TCP_FIN_WAIT2
  | TCP_TIME_WAIT | TCP_CLOSE | TCP_CLOSE_WAIT | TCP_LAST_ACK | TCP_LISTEN | TCP_CLOSING

datatype socks5_state =
  SOCKS5_ZERO | SOCKS5_NONE | SOCKS5_HELLO | SOCKS5_AUTH | SOCKS5_CONNECT | SOCKS5_CONNECTED

datatype udp_state = UDP_ACTIVE | UDP_FINISHING | UDP_CLOSED | UDP_BLOCKED

definition strstate :: "tcp_state \<Rightarrow> string" where
  "strstate state = (case state of
       TCP_ESTABLISHED \<Rightarrow> ''ESTABLISHED'' | TCP_SYN_SENT \<Rightarrow> ''SYN_SENT''
     | TCP_SYN_RECV \<Rightarrow> ''SYN_RECV'' | TCP_FIN_WAIT1 \<Rightarrow> ''FIN_WAIT1''
     | TCP_FIN_WAIT2 \<Rightarrow> ''FIN_WAIT2'' | TCP_TIME_WAIT \<Rightarrow> ''TIME_WAIT''
     | TCP_CLOSE \<Rightarrow> ''CLOSE'' | TCP_CLOSE_WAIT \<Rightarrow> ''CLOSE_WAIT''
     | TCP_LAST_ACK \<Rightarrow> ''LAST_ACK'' | TCP_LISTEN \<Rightarrow> ''LISTEN''
     | TCP_CLOSING \<Rightarrow> ''CLOSING'' | _ \<Rightarrow> ''UNKNOWN'')"

text \<open>The flags of an epoll event mask that the code sets or tests.\<close>

record epoll_events =
  ep_in :: bool
  ep_out :: bool
  ep_err :: bool

record segment =
  sg_seq :: u32
  sg_len :: u16
  sg_sent :: u16
  sg_psh :: bool
  sg_data :: bytes

text \<open>
  The \<open>struct ng_session\<close> node holds its protocol, a union of the three session structs, the
  socket, the epoll registration and the link. Here the union is a datatype, each alternative
  carries the socket and the registered events of its node, and the linked list is a list. An
  address union is the list of its 4 or 16 bytes in memory order; \<open>__be16\<close> ports are kept as the
  raw 16 bit values the code compares and copies. The \<open>_ptr\<close> component is the address of the
  node, which epoll hands back with an event.
\<close>

record icmp_session =
  icmp_ptr :: nat
  icmp_time :: int
  icmp_uid :: int
  icmp_version :: nat
  icmp_saddr :: bytes
  icmp_daddr :: bytes
  icmp_id :: u16
  icmp_stop :: bool
  icmp_socket :: int

record udp_session =
  udp_ptr :: nat
  udp_time :: int
  udp_uid :: int
  udp_version :: nat
  udp_mss :: u16
  udp_sent :: u64
  udp_received :: u64
  udp_saddr :: bytes
  udp_source :: u16
  udp_daddr :: bytes
  udp_dest :: u16
  udp_state :: udp_state
  udp_socket :: int

record tcp_session =
  tcp_ptr :: nat
  tcp_uid :: int
  tcp_time :: int
  tcp_version :: nat
  tcp_mss :: u16
  tcp_recv_scale :: u8
  tcp_send_scale :: u8
  tcp_recv_window :: u32
  tcp_send_window :: u32
  tcp_unconfirmed :: u16
  tcp_remote_seq :: u32
  tcp_local_seq :: u32
  tcp_remote_start :: u32
  tcp_local_start :: u32
  tcp_acked :: u32
  tcp_last_keep_alive :: int
  tcp_sent :: u64
  tcp_received :: u64
  tcp_saddr :: bytes
  tcp_source :: u16
  tcp_daddr :: bytes
  tcp_dest :: u16
  tcp_state :: tcp_state
  tcp_socks5 :: socks5_state
  tcp_forward :: "segment list"
  tcp_socket :: int
  tcp_events :: epoll_events

datatype ng_session = Icmp icmp_session | Udp udp_session | Tcp tcp_session

fun ng_ptr :: "ng_session \<Rightarrow> nat" where
  "ng_ptr (Icmp i) = icmp_ptr i"
| "ng_ptr (Udp u) = udp_ptr u"
| "ng_ptr (Tcp t) = tcp_ptr t"

fun ng_socket :: "ng_session \<Rightarrow> int" where
  "ng_socket (Icmp i) = icmp_socket i"
| "ng_socket (Udp u) = udp_socket u"
| "ng_socket (Tcp t) = tcp_socket t"

fun ng_protocol :: "ng_session \<Rightarrow> u8" where
  "ng_protocol (Icmp i) = (if icmp_version i = 4 then IPPROTO_ICMP else IPPROTO_ICMPV6)"
| "ng_protocol (Udp u) = IPPROTO_UDP"
| "ng_protocol (Tcp t) = IPPROTO_TCP"

text \<open>
  \<open>struct context\<close>: the stop flag and the session list. The mutex and the pipe only serve to wake
  and exclude the other thread. \<open>ctx_next\<close> is an address above every node allocated so far.
\<close>

record ng_context =
  ctx_stopping :: bool
  ctx_sessions :: "ng_session list"
  ctx_next :: nat

section \<open>Configuration and values exchanged with Java\<close>

text \<open>
  The fields of \<open>struct arguments\<close> and the global settings the JNI setters store; the handlers
  only read them.
\<close>

record config =
  cfg_fwd53 :: bool
  cfg_rcode :: u16
  cfg_sdk :: int
  cfg_loglevel_below_warn :: bool
  socks5_addr :: string
  socks5_port :: int
  socks5_username :: bytes
  socks5_password :: bytes
  pcap_record_size :: nat
  pcap_file_size :: int

record allowed =
  raddr :: string
  rport :: u16

text \<open>
  The free text of a packet object: none, the ICMP type and code, or the blocked DNS question.
\<close>

datatype packet_data = No_Data | Icmp_Data u8 u8 | Dns_Data u16 bytes u16

record jpacket =
  jp_time :: int
  jp_version :: nat
  jp_protocol :: u8
  jp_flags :: string
  jp_saddr :: bytes
  jp_sport :: u16
  jp_daddr :: bytes
  jp_dport :: u16
  jp_data :: packet_data
  jp_uid :: int
  jp_payload :: "bytes option"
  jp_allowed :: bool

text \<open>The peer of \<open>connect\<close> and \<open>sendto\<close>: an address and a raw port, or a text given to \<open>inet_pton\<close>.\<close>

datatype target = Target_Addr bytes u16 | Target_Text string u16

datatype recv_result = Recv_Error int | Recv_Data bytes

text \<open>
  What \<open>epoll_wait\<close> reports: the events of the stop pipe, of the tun device, or of the session
  whose address was registered with its socket.
\<close>

datatype ready = Ready_Pipe | Ready_Tun epoll_events | Ready_Session nat epoll_events

datatype wait_result = Wait_Error int | Wait_Ready "ready list"

section \<open>The outside world\<close>

datatype event =
    Time int
  | Ms int
  | Tun_Write bytes int
  | Notify_Packet bytes int
  | Fwrite bytes bool
  | Ftruncate nat
  | Send int bytes bool int
  | Send_To int bytes target int
  | Recv int nat
  | Close int
  | Open_Socket nat int
  | Protect int bool
  | Set_Nonblock int bool
  | Set_Option int
  | Connect int target int
  | Get_Sndbuf int
  | Get_Outq int
  | Epoll_Add int epoll_events
  | Epoll_Mod int epoll_events bool
  | Rand u32
  | Account_Usage nat u8 bytes u16 int u64 u64
  | Dns_Resolved bytes bytes bytes u32
  | Is_Domain_Blocked bytes
  | Is_Address_Allowed jpacket
  | Log_Packet jpacket
  | Get_Uid_Q nat u8 bytes u16 bytes u16
  | Open_Proc string
  | Report_Exit
  | Read_Tun
  | Readable int
  | Epoll_Create int
  | Epoll_Wait int
  | Pipe_Read
  | Pipe_Write

record os =
  os_time :: "event list \<Rightarrow> int"
  os_ms :: "event list \<Rightarrow> int"
  os_gettimeofday :: "event list \<Rightarrow> int"
  os_realtime :: "event list \<Rightarrow> u32 \<times> u32"
  os_tun_write :: "event list \<Rightarrow> bytes \<Rightarrow> int"
  os_fwrite :: "event list \<Rightarrow> bytes \<Rightarrow> bool"
  os_ftruncate :: "event list \<Rightarrow> bool"
  os_send :: "event list \<Rightarrow> int \<Rightarrow> bytes \<Rightarrow> int \<times> int"
  os_sendto :: "event list \<Rightarrow> int \<Rightarrow> bytes \<Rightarrow> target \<Rightarrow> int \<times> int"
  os_recv :: "event list \<Rightarrow> int \<Rightarrow> nat \<Rightarrow> recv_result"
  os_socket :: "event list \<Rightarrow> nat \<Rightarrow> int"
  os_protect :: "event list \<Rightarrow> int \<Rightarrow> bool"
  os_nonblock :: "event list \<Rightarrow> int \<Rightarrow> bool"
  os_connect :: "event list \<Rightarrow> int \<Rightarrow> target \<Rightarrow> int \<times> int"
  os_sndbuf :: "event list \<Rightarrow> int \<Rightarrow> int option"
  os_outq :: "event list \<Rightarrow> int \<Rightarrow> int option"
  os_epoll_mod :: "event list \<Rightarrow> int \<Rightarrow> bool"
  os_rand :: "event list \<Rightarrow> u32"
  os_domain_blocked :: "event list \<Rightarrow> bytes \<Rightarrow> bool"
  os_address_allowed :: "event list \<Rightarrow> jpacket \<Rightarrow> allowed option"
  os_uid_q :: "event list \<Rightarrow> nat \<Rightarrow> u8 \<Rightarrow> bytes \<Rightarrow> u16 \<Rightarrow> bytes \<Rightarrow> u16 \<Rightarrow> int"
  os_proc :: "event list \<Rightarrow> string \<Rightarrow> string list option"
  os_readable :: "event list \<Rightarrow> int \<Rightarrow> bool"
  os_read_tun :: "event list \<Rightarrow> recv_result"
  os_heap :: "event list \<Rightarrow> nat \<Rightarrow> bytes"
  os_stop :: "event list \<Rightarrow> bool"
  os_rlimit :: "event list \<Rightarrow> u64 option"
  os_epoll_create :: "event list \<Rightarrow> int"
  os_epoll_add :: "event list \<Rightarrow> bool"
  os_epoll_wait :: "event list \<Rightarrow> int \<Rightarrow> wait_result"

text \<open>The trace and the contents of the capture file, when one is open.\<close>

record world =
  trace :: "event list"
  pcap_file :: "bytes option"

definition emit :: "event \<Rightarrow> world \<Rightarrow> world" where
  "emit e w = w\<lparr>trace := e # trace w\<rparr>"

definition sys_time :: "os \<Rightarrow> world \<Rightarrow> int \<times> world" where
  "sys_time os w = (let t = os_time os (trace w) in (t, emit (Time t) w))"

definition get_ms :: "os \<Rightarrow> world \<Rightarrow> int \<times> world" where
  "get_ms os w = (let t = os_ms os (trace w) in (t, emit (Ms t) w))"

lemma emit_simps [simp]:
  "trace (emit e w) = e # trace w" "pcap_file (emit e w) = pcap_file w"
  by (simp_all add: emit_def)

text \<open>
  \<open>extends P w w'\<close>: between the two worlds only events that satisfy \<open>P\<close> happened. The frame
  lemmas of the components, collected in \<open>frame\<close>, say which events an operation can cause.
\<close>

definition extends :: "(event \<Rightarrow> bool) \<Rightarrow> world \<Rightarrow> world \<Rightarrow> bool" where
  "extends P w w' \<longleftrightarrow> (\<exists>es. trace w' = es @ trace w \<and> (\<forall>e\<in>set es. P e))"

named_theorems frame

lemma extends_refl [simp, frame]: "extends P w w"
  by (simp add: extends_def)

lemma extends_trans: "extends P w w' \<Longrightarrow> extends P w' w'' \<Longrightarrow> extends P w w''"
  unfolding extends_def by (metis append_assoc Un_iff set_append)

lemma extends_mono: "extends P w w' \<Longrightarrow> (\<And>e. P e \<Longrightarrow> Q e) \<Longrightarrow> extends Q w w'"
  unfolding extends_def by blast

lemma extends_emit [frame]: "P e \<Longrightarrow> extends P w w' \<Longrightarrow> extends P w (emit e w')"
  unfolding extends_def by (metis append_Cons emit_simps(1) set_ConsD)

lemma extends_trace_eq: "trace w' = trace v \<Longrightarrow> extends P w v \<Longrightarrow> extends P w w'"
  by (simp add: extends_def)

section \<open>Building packet objects\<close>

definition create_packet ::
  "os \<Rightarrow> world \<Rightarrow> nat \<Rightarrow> u8 \<Rightarrow> string \<Rightarrow> bytes \<Rightarrow> u16 \<Rightarrow> bytes \<Rightarrow> u16 \<Rightarrow> packet_data \<Rightarrow> int \<Rightarrow>
   bytes option \<Rightarrow> bool \<Rightarrow> jpacket" where
  "create_packet os w version protocol flags source sport dest dport data uid payload allowed =
     \<lparr>jp_time = os_gettimeofday os (trace w), jp_version = version, jp_protocol = protocol,
      jp_flags = flags, jp_saddr = source, jp_sport = sport, jp_daddr = dest, jp_dport = dport,
      jp_data = data, jp_uid = uid,
      jp_payload = (case payload of None \<Rightarrow> None | Some p \<Rightarrow> if p = [] then None else Some p),
      jp_allowed = allowed\<rparr>"

definition is_address_allowed :: "os \<Rightarrow> jpacket \<Rightarrow> world \<Rightarrow> allowed option \<times> world" where
  "is_address_allowed os p w = (os_address_allowed os (trace w) p, emit (Is_Address_Allowed p) w)"

end
