(* ===== verification/Samples.thy ===== *)
theory Samples
  imports Ng_Types
begin

text \<open>
  A concrete environment, configuration and sessions, at which the witnesses of the properties are
  evaluated: a quiet system at time 1000 in which every call succeeds and the Java side allows
  everything.
\<close>

definition os_ok :: os where
  "os_ok = \<lparr>os_time = \<lambda>_. 1000, os_ms = \<lambda>_. 5000, os_gettimeofday = \<lambda>_. 1000000,
     os_realtime = \<lambda>_. (1000, 0), os_tun_write = \<lambda>_ b. int (length b), os_fwrite = \<lambda>_ _. True,
     os_ftruncate = \<lambda>_. True, os_send = \<lambda>_ _ d. (int (length d), 0),
     os_sendto = \<lambda>_ _ d _. (int (length d), 0), os_recv = \<lambda>_ _ _. Recv_Data [],
     os_socket = \<lambda>_ _. 7, os_protect = \<lambda>_ _. True, os_nonblock = \<lambda>_ _. True,
     os_connect = \<lambda>_ _ _. (0, 0), os_sndbuf = \<lambda>_ _. None, os_outq = \<lambda>_ _. None,
     os_epoll_mod = \<lambda>_ _. True, os_rand = \<lambda>_. 42, os_domain_blocked = \<lambda>_ _. False,
     os_address_allowed = \<lambda>_ _. Some \<lparr>raddr = [], rport = 0\<rparr>,
     os_uid_q = \<lambda>_ _ _ _ _ _ _. 10000, os_proc = \<lambda>_ _. None, os_readable = \<lambda>_ _. True,
     os_read_tun = \<lambda>_. Recv_Error EAGAIN, os_heap = \<lambda>_ n. replicate n 0, os_stop = \<lambda>_. False,
     os_rlimit = \<lambda>_. Some 1024, os_epoll_create = \<lambda>_. 4, os_epoll_add = \<lambda>_. True,
     os_epoll_wait = \<lambda>_ _. Wait_Ready []\<rparr>"

definition cfg_plain :: config where
  "cfg_plain = \<lparr>cfg_fwd53 = True, cfg_rcode = 3, cfg_sdk = 19, cfg_loglevel_below_warn = False,
     socks5_addr = [], socks5_port = 0, socks5_username = [], socks5_password = [],
     pcap_record_size = 64, pcap_file_size = 2097152\<rparr>"

definition world0 :: world where
  "world0 = \<lparr>trace = [], pcap_file = None\<rparr>"

definition ev_none :: epoll_events where
  "ev_none = \<lparr>ep_in = False, ep_out = False, ep_err = False\<rparr>"

definition tcp_sample :: tcp_session where
  "tcp_sample = \<lparr>tcp_ptr = 1, tcp_uid = 10000, tcp_time = 900, tcp_version = 4, tcp_mss = 1460,
     tcp_recv_scale = 7, tcp_send_scale = 7, tcp_recv_window = 163840, tcp_send_window = 65535,
     tcp_unconfirmed = 0, tcp_remote_seq = 1001, tcp_local_seq = 5001, tcp_remote_start = 1000,
     tcp_local_start = 5000, tcp_acked = 5001, tcp_last_keep_alive = 0, tcp_sent = 0,
     tcp_received = 0, tcp_saddr = [10, 1, 10, 1], tcp_source = 0x39C0, tcp_daddr = [8, 8, 8, 8],
     tcp_dest = 0xBB01, tcp_state = TCP_ESTABLISHED, tcp_socks5 = SOCKS5_CONNECTED,
     tcp_forward = [], tcp_socket = 5, tcp_events = ev_none\<rparr>"

definition udp_sample :: udp_session where
  "udp_sample = \<lparr>udp_ptr = 2, udp_time = 900, udp_uid = 10000, udp_version = 4, udp_mss = 1460,
     udp_sent = 0, udp_received = 0, udp_saddr = [10, 1, 10, 1], udp_source = 0x39C0,
     udp_daddr = [8, 8, 8, 8], udp_dest = 0xBB01, udp_state = UDP_ACTIVE, udp_socket = 6\<rparr>"

definition icmp_sample :: icmp_session where
  "icmp_sample = \<lparr>icmp_ptr = 3, icmp_time = 900, icmp_uid = 10000, icmp_version = 4,
     icmp_saddr = [10, 1, 10, 1], icmp_daddr = [8, 8, 8, 8], icmp_id = 7, icmp_stop = False,
     icmp_socket = 8\<rparr>"

lemma os_ok_simps [simp]:
  "os_time os_ok tr = 1000" "os_ms os_ok tr = 5000" "os_tun_write os_ok tr b = int (length b)"
  "os_send os_ok tr s b = (int (length b), 0)" "os_sendto os_ok tr s b t = (int (length b), 0)"
  "os_recv os_ok tr s n = Recv_Data []" "os_socket os_ok tr v = 7" "os_protect os_ok tr s"
  "os_nonblock os_ok tr s" "os_connect os_ok tr s t = (0, 0)" "os_sndbuf os_ok tr s = None"
  "os_outq os_ok tr s = None" "os_epoll_mod os_ok tr s" "os_rand os_ok tr = 42"
  "\<not> os_domain_blocked os_ok tr d" "os_address_allowed os_ok tr p = Some \<lparr>raddr = [], rport = 0\<rparr>"
  "os_uid_q os_ok tr v q a k c j = 10000" "os_proc os_ok tr f = None" "os_readable os_ok tr s"
  by (simp_all add: os_ok_def)

lemma world0_simps [simp]: "trace world0 = []" "pcap_file world0 = None"
  by (simp_all add: world0_def)

lemmas sample_defs = os_ok_def cfg_plain_def world0_def ev_none_def tcp_sample_def udp_sample_def
  icmp_sample_def

end
