(* ===== verification/Pcap.thy ===== *)
theory Pcap
  imports Samples
begin

text \<open>
  The packet capture of \<open>netguard/pcap.c\<close>: the file header, one record per packet, and the
  truncation of the file when it outgrows its limit. The stream is opened with \<open>"ab+"\<close>, so every
  write appends, and the model takes the stream as unbuffered. \<open>notify_packet\<close> of
  \<open>netguard.c\<close>, which hands every packet to Java, is the event \<open>Notify_Packet\<close>.
\<close>

section \<open>Writing\<close>

definition pcap_hdr_size :: nat where [simp]: "pcap_hdr_size = 24"

definition ftruncate :: "nat \<Rightarrow> bytes \<Rightarrow> bytes" where
  "ftruncate n c = take n c @ replicate (n - length c) 0"

definition write_pcap :: "os \<Rightarrow> config \<Rightarrow> bytes \<Rightarrow> world \<Rightarrow> world" where
  "write_pcap os cfg data w = (case pcap_file w of
       None \<Rightarrow> w
     | Some content \<Rightarrow>
         let ok = os_fwrite os (trace w) data; w = emit (Fwrite data ok) w in
         if \<not> ok then w
         else
           let content = content @ data; w = w\<lparr>pcap_file := Some content\<rparr> in
           if int (length content) > pcap_file_size cfg then
             let done = os_ftruncate os (trace w); w = emit (Ftruncate pcap_hdr_size) w in
             if done then w\<lparr>pcap_file := Some (ftruncate pcap_hdr_size content)\<rparr> else w
           else w)"

definition pcap_hdr :: "config \<Rightarrow> bytes" where
  "pcap_hdr cfg = le32b 0xa1b2c3d4 @ le16b 2 @ le16b 4 @ le32b 0 @ le32b 0
     @ le32b (of_nat (pcap_record_size cfg)) @ le32b 101"

definition write_pcap_hdr :: "os \<Rightarrow> config \<Rightarrow> world \<Rightarrow> world" where
  "write_pcap_hdr os cfg w = write_pcap os cfg (pcap_hdr cfg) w"

definition notify_packet :: "bytes \<Rightarrow> int \<Rightarrow> world \<Rightarrow> world" where
  "notify_packet buffer uid w = emit (Notify_Packet buffer uid) w"

definition pcap_rec :: "u32 \<times> u32 \<Rightarrow> nat \<Rightarrow> bytes \<Rightarrow> bytes" where
  "pcap_rec ts plen buffer = le32b (fst ts) @ le32b (snd ts) @ le32b (of_nat plen)
     @ le32b (of_nat (length buffer)) @ take plen buffer"

definition write_pcap_rec :: "os \<Rightarrow> config \<Rightarrow> bytes \<Rightarrow> int \<Rightarrow> world \<Rightarrow> world" where
  "write_pcap_rec os cfg buffer uid w =
     (let w = notify_packet buffer uid w in
      if pcap_file w = None then w
      else
        let plen = (if length buffer < pcap_record_size cfg then length buffer
                    else pcap_record_size cfg) in
        write_pcap os cfg (pcap_rec (os_realtime os (trace w)) plen buffer) w)"

section \<open>Reading a capture back\<close>

function parse_recs :: "bytes \<Rightarrow> bytes list option" where
  "parse_recs bs =
     (if bs = [] then Some []
      else if length bs < 16 then None
      else let n = unat (le32 (bs ! 8) (bs ! 9) (bs ! 10) (bs ! 11)) in
        if length bs < 16 + n then None
        else map_option (Cons (take n (drop 16 bs))) (parse_recs (drop (16 + n) bs)))"
  by pat_completeness auto
termination
  by (relation "measure length") auto

declare parse_recs.simps [simp del]

definition pcap_packets :: "bytes \<Rightarrow> bytes list option" where
  "pcap_packets content = (if length content < 24 then None else parse_recs (drop 24 content))"

lemma le32_le32b: "le32b x = [a, b, c, d] \<Longrightarrow> le32 a b c d = x"
  using nat_base256 [of "unat x"] u32_top [of x]
  by (auto simp: le32b_def word_unat_eq_iff word_nat)

lemma pcap_rec_shape:
  "\<exists>a b c d h t. pcap_rec ts plen buffer = h @ [a, b, c, d] @ t @ take plen buffer
     \<and> length h = 8 \<and> length t = 4 \<and> le32 a b c d = of_nat plen"
proof -
  obtain a b c d where "le32b (of_nat plen) = [a, b, c, d]" by (simp add: le32b_def)
  moreover from this have "le32 a b c d = of_nat plen" by (rule le32_le32b)
  ultimately show ?thesis
    unfolding pcap_rec_def
    by (intro exI [of _ a] exI [of _ b] exI [of _ c] exI [of _ d]
        exI [of _ "le32b (fst ts) @ le32b (snd ts)"] exI [of _ "le32b (of_nat (length buffer))"])
      simp
qed

lemma parse_recs_single:
  assumes "plen \<le> length buffer" "plen < 2 ^ 32"
  shows "parse_recs (pcap_rec ts plen buffer) = Some [take plen buffer]"
proof -
  obtain a b c d h t where r: "pcap_rec ts plen buffer = h @ [a, b, c, d] @ t @ take plen buffer"
    and l: "length h = 8" "length t = 4" and n: "le32 a b c d = of_nat plen"
    using pcap_rec_shape by blast
  have u: "unat (le32 a b c d) = plen"
    using assms(2) by (simp add: n unsigned_of_nat take_bit_nat_eq_self)
  show ?thesis
    unfolding r using assms(1) l u
    by (subst parse_recs.simps) (simp add: nth_append parse_recs.simps [of "[]"])
qed

lemma parse_recs_append:
  "parse_recs xs = Some ps \<Longrightarrow> parse_recs ys = Some qs \<Longrightarrow> parse_recs (xs @ ys) = Some (ps @ qs)"
proof (induction xs arbitrary: ps rule: parse_recs.induct)
  case (1 bs)
  show ?case
  proof (cases "bs = []")
    case True
    with 1 show ?thesis by (simp add: parse_recs.simps [of "[]"])
  next
    case False
    define n where "n = unat (le32 (bs ! 8) (bs ! 9) (bs ! 10) (bs ! 11))"
    obtain ps' where p: "16 + n \<le> length bs" "parse_recs (drop (16 + n) bs) = Some ps'"
        "ps = take n (drop 16 bs) # ps'"
      using "1.prems"(1) False
      by (auto simp: parse_recs.simps [of bs] Let_def n_def split: if_splits)
    then have "parse_recs (drop (16 + n) bs @ ys) = Some (ps' @ qs)"
      using 1 False by (auto simp: n_def)
    with p(1,3) False show ?thesis
      by (subst parse_recs.simps) (simp add: Let_def nth_append n_def [symmetric])
  qed
qed

lemma length_pcap_hdr [simp]: "length (pcap_hdr cfg) = 24"
  by (simp add: pcap_hdr_def)

lemma pcap_packets_hdr: "pcap_packets (pcap_hdr cfg) = Some []"
  by (simp add: pcap_packets_def parse_recs.simps)

text \<open>The capture after one write: unchanged, extended by the data, or cut back to the header.\<close>

lemma write_pcap_file:
  assumes "pcap_file w = Some content"
  shows "pcap_file (write_pcap os cfg data w) \<in>
     {Some content, Some (content @ data), Some (ftruncate 24 (content @ data))}"
  using assms by (auto simp: write_pcap_def Let_def)

text \<open>
  A well-formed capture stays well formed. If the file parses as a header and records, then
  after \<open>write_pcap_rec\<close> it parses again, and its packets are the old ones, the old ones followed by
  the new packet cut to the record size, or none (after the file was truncated).
\<close>

theorem write_pcap_rec_wellformed:
  assumes "pcap_file w = Some content" "pcap_packets content = Some ps"
    and "pcap_record_size cfg < 2 ^ 32"
  shows "\<exists>content' ps'. pcap_file (write_pcap_rec os cfg buffer uid w) = Some content'
     \<and> pcap_packets content' = Some ps'
     \<and> ps' \<in> {ps, ps @ [take (pcap_record_size cfg) buffer], []}"
proof -
  define plen where "plen = min (length buffer) (pcap_record_size cfg)"
  define w1 where "w1 = notify_packet buffer uid w"
  define r where "r = pcap_rec (os_realtime os (trace w1)) plen buffer"
  have f1: "pcap_file w1 = Some content" using assms(1) by (simp add: w1_def notify_packet_def)
  have run: "write_pcap_rec os cfg buffer uid w = write_pcap os cfg r w1"
    using assms(1) by (simp add: write_pcap_rec_def Let_def w1_def r_def plen_def min_def
        notify_packet_def not_less)
  have c: "24 \<le> length content" "parse_recs (drop 24 content) = Some ps"
    using assms(2) by (auto simp: pcap_packets_def split: if_splits)
  have "take plen buffer = take (pcap_record_size cfg) buffer" by (simp add: plen_def min_def)
  then have "parse_recs r = Some [take (pcap_record_size cfg) buffer]"
    using parse_recs_single [of plen buffer] assms(3) by (simp add: r_def plen_def)
  then have ext: "pcap_packets (content @ r) = Some (ps @ [take (pcap_record_size cfg) buffer])"
    using c by (simp add: pcap_packets_def parse_recs_append)
  have cut: "pcap_packets (ftruncate 24 (content @ r)) = Some []"
    using c(1) by (simp add: pcap_packets_def ftruncate_def parse_recs.simps [of "[]"])
  from write_pcap_file [OF f1, of os cfg r] show ?thesis
    unfolding run using assms(2) ext cut by auto
qed

theorem write_pcap_rec_wellformed_witness:
  "pcap_packets (pcap_hdr cfg_plain) = Some [] \<and> pcap_record_size cfg_plain < 2 ^ 32 \<and>
   (\<exists>content' ps'. pcap_file (write_pcap_rec os_ok cfg_plain [1, 2, 3] 0
        (world0\<lparr>pcap_file := Some (pcap_hdr cfg_plain)\<rparr>)) = Some content'
      \<and> pcap_packets content' = Some ps' \<and> ps' \<in> {[], [[1, 2, 3]]})"
proof -
  have h: "pcap_packets (pcap_hdr cfg_plain) = Some []" "pcap_record_size cfg_plain < 2 ^ 32"
    by (simp_all add: pcap_packets_hdr cfg_plain_def)
  show ?thesis
    using h write_pcap_rec_wellformed
      [of "world0\<lparr>pcap_file := Some (pcap_hdr cfg_plain)\<rparr>" "pcap_hdr cfg_plain" "[]" cfg_plain
        os_ok "[1, 2, 3]" 0]
    by (auto simp: cfg_plain_def)
qed

text \<open>
  The capture file is bounded. After a write, when the stream and the truncation calls succeed,
  the file is no longer than the configured limit, or is just the 24 byte header.
\<close>

lemma write_pcap_bounded:
  assumes "pcap_file w = Some content" "\<And>es d. os_fwrite os es d" "\<And>es. os_ftruncate os es"
  shows "\<exists>content'. pcap_file (write_pcap os cfg data w) = Some content' \<and>
     int (length content') \<le> max 24 (pcap_file_size cfg)"
  using assms by (auto simp: write_pcap_def Let_def ftruncate_def)

end
