(* ===== verification/Headers.thy ===== *)
theory Headers
  imports Pcap
begin

text \<open>
  Packet headers as bytes. The readers are the accesses the handlers make through the casts to
  \<open>struct iphdr\<close>, \<open>struct ip6_hdr\<close>, \<open>struct tcphdr\<close>, \<open>struct udphdr\<close> and \<open>struct icmp\<close>; the
  builders are the headers and pseudo headers that \<open>write_tcp\<close>, \<open>write_udp\<close> and
  \<open>write_icmp\<close> assemble, with the part of these three functions they have in common: writing the
  packet to the tun device and recording it.
\<close>

section \<open>Reading headers\<close>

record tcphdr =
  th_source :: u16
  th_dest :: u16
  th_seq :: u32
  th_ack_seq :: u32
  th_doff :: u8
  th_fin :: bool
  th_syn :: bool
  th_rst :: bool
  th_psh :: bool
  th_ack :: bool
  th_urg :: bool
  th_window :: u16

text \<open>Ports stay raw; the sequence numbers and the window are what \<open>ntohl\<close> and \<open>ntohs\<close> give.\<close>

definition read_tcphdr :: "bytes \<Rightarrow> nat \<Rightarrow> tcphdr option" where
  "read_tcphdr buf off = (if off + 20 \<le> length buf then
     let b = (\<lambda>i. buf ! (off + i)) in
     Some \<lparr>th_source = le16 (b 0) (b 1), th_dest = le16 (b 2) (b 3),
       th_seq = be32 (b 4) (b 5) (b 6) (b 7), th_ack_seq = be32 (b 8) (b 9) (b 10) (b 11),
       th_doff = drop_bit 4 (b 12),
       th_fin = bit (b 13) 0, th_syn = bit (b 13) 1, th_rst = bit (b 13) 2, th_psh = bit (b 13) 3,
       th_ack = bit (b 13) 4, th_urg = bit (b 13) 5, th_window = be16 (b 14) (b 15)\<rparr>
     else None)"

record udphdr =
  uh_source :: u16
  uh_dest :: u16

definition read_udphdr :: "bytes \<Rightarrow> nat \<Rightarrow> udphdr option" where
  "read_udphdr buf off = (if off + 8 \<le> length buf then
     Some \<lparr>uh_source = le16 (buf ! off) (buf ! (off + 1)),
       uh_dest = le16 (buf ! (off + 2)) (buf ! (off + 3))\<rparr> else None)"

text \<open>The version nibble and the two addresses, by version, as every handler reads them again.\<close>

definition pkt_version :: "bytes \<Rightarrow> nat" where
  "pkt_version pkt = unat (drop_bit 4 (pkt ! 0))"

definition pkt_saddr :: "bytes \<Rightarrow> bytes" where
  "pkt_saddr pkt = (if pkt_version pkt = 4 then take 4 (drop 12 pkt) else take 16 (drop 8 pkt))"

definition pkt_daddr :: "bytes \<Rightarrow> bytes" where
  "pkt_daddr pkt = (if pkt_version pkt = 4 then take 4 (drop 16 pkt) else take 16 (drop 24 pkt))"

section \<open>Sizes\<close>

definition get_mtu :: u16 where
  "get_mtu = 10000"

definition get_default_mss :: "nat \<Rightarrow> u16" where
  "get_default_mss version = (if version = 4 then get_mtu - 20 - 20 else get_mtu - 40 - 20)"

lemma get_default_mss_values [simp]:
  "get_default_mss 4 = 9960" "version \<noteq> 4 \<Longrightarrow> get_default_mss version = 9940"
  by (simp_all add: get_default_mss_def get_mtu_def)

section \<open>Building headers\<close>

definition ip4_pre :: "nat \<Rightarrow> u8 \<Rightarrow> bytes" where
  "ip4_pre len protocol = [0x45, 0] @ be16b (of_nat len) @ [0, 0, 0, 0, 64, protocol]"

definition ip4_build :: "nat \<Rightarrow> u8 \<Rightarrow> bytes \<Rightarrow> bytes \<Rightarrow> bytes" where
  "ip4_build len protocol src dst =
     ip4_pre len protocol
       @ le16b (NOT (calc_checksum 0 (ip4_pre len protocol @ [0, 0] @ src @ dst))) @ src @ dst"

definition ip6_build :: "nat \<Rightarrow> u8 \<Rightarrow> bytes \<Rightarrow> bytes \<Rightarrow> bytes" where
  "ip6_build plen protocol src dst =
     [0x60, 0, 0, 0] @ be16b (of_nat plen) @ [protocol, 64] @ src @ dst"

definition pseudo4 :: "bytes \<Rightarrow> bytes \<Rightarrow> u8 \<Rightarrow> nat \<Rightarrow> bytes" where
  "pseudo4 src dst protocol len = src @ dst @ [0, protocol] @ be16b (of_nat len)"

text \<open>
  \<open>struct ip6_hdr_pseudo\<close>: the 16 bit payload length, already in network order, is assigned to the
  32 bit field, so its bytes come first.
\<close>

definition pseudo6 :: "bytes \<Rightarrow> bytes \<Rightarrow> u8 \<Rightarrow> nat \<Rightarrow> bytes" where
  "pseudo6 src dst protocol len = src @ dst @ be16b (of_nat len) @ [0, 0] @ [0, 0, 0, protocol]"

section \<open>Writing to the tun device\<close>

definition tun_send :: "os \<Rightarrow> config \<Rightarrow> bytes \<Rightarrow> int \<Rightarrow> world \<Rightarrow> int \<times> world" where
  "tun_send os cfg buffer uid w =
     (let res = os_tun_write os (trace w) buffer;
          w = emit (Tun_Write buffer res) w;
          w = (if res \<ge> 0 then write_pcap_rec os cfg (take (nat res) buffer) uid w else w)
      in if res \<noteq> int (length buffer) then (-1, w) else (res, w))"

subsection \<open>What goes out\<close>

text \<open>The packets written to the tun device, newest first.\<close>

fun tun_packets :: "event list \<Rightarrow> bytes list" where
  "tun_packets [] = []"
| "tun_packets (e # es) = (case e of Tun_Write b r \<Rightarrow> b # tun_packets es | _ \<Rightarrow> tun_packets es)"

lemma write_pcap_tun [simp]: "tun_packets (trace (write_pcap os cfg d w)) = tun_packets (trace w)"
  by (auto simp: write_pcap_def Let_def split: option.split)

lemma write_pcap_rec_tun [simp]:
  "tun_packets (trace (write_pcap_rec os cfg b uid w)) = tun_packets (trace w)"
  by (simp add: write_pcap_rec_def Let_def notify_packet_def)

lemma tun_send_packets [simp]:
  "tun_packets (trace (snd (tun_send os cfg b uid w))) = b # tun_packets (trace w)"
  by (simp add: tun_send_def Let_def)

lemma tun_send_result:
  "fst (tun_send os cfg b uid w) < 0 \<longleftrightarrow> os_tun_write os (trace w) b \<noteq> int (length b)"
  by (simp add: tun_send_def Let_def)

subsection \<open>Frame\<close>

definition tun_event :: "event \<Rightarrow> bool" where
  "tun_event e \<longleftrightarrow> (case e of
     Tun_Write b r \<Rightarrow> True | Notify_Packet b u \<Rightarrow> True | Fwrite b ok \<Rightarrow> True | Ftruncate n \<Rightarrow> True
   | _ \<Rightarrow> False)"

lemma tun_event_simps [simp]:
  "tun_event (Tun_Write b r)" "tun_event (Notify_Packet b u)" "tun_event (Fwrite b ok)"
  "tun_event (Ftruncate n)"
  by (simp_all add: tun_event_def)

lemma write_pcap_rec_frame [frame]: "extends tun_event w (write_pcap_rec os cfg b uid w)"
  unfolding extends_def write_pcap_rec_def write_pcap_def notify_packet_def Let_def
  by (auto split: option.split)

lemma tun_send_frame [frame]: "extends tun_event w (snd (tun_send os cfg b uid w))"
proof -
  let ?w = "emit (Tun_Write b (os_tun_write os (trace w) b)) w"
  have "extends tun_event w ?w" by (simp add: frame)
  moreover have "extends tun_event ?w (write_pcap_rec os cfg c uid ?w)" for c by (rule frame)
  ultimately show ?thesis unfolding tun_send_def Let_def by (auto intro: extends_trans)
qed

section \<open>Checksums of built headers\<close>

lemma length_ip4_pre [simp]: "length (ip4_pre len p) = 10"
  by (simp add: ip4_pre_def)

lemma length_ip4_build [simp]:
  "length (ip4_build len p src dst) = 12 + length src + length dst"
  by (simp add: ip4_build_def)

lemma length_ip6_build [simp]:
  "length (ip6_build len p src dst) = 8 + length src + length dst"
  by (simp add: ip6_build_def)

lemma length_pseudo [simp]:
  "length (pseudo4 src dst p len) = 4 + length src + length dst"
  "length (pseudo6 src dst p len) = 8 + length src + length dst"
  by (simp_all add: pseudo4_def pseudo6_def)

lemma ip4_build_checksum:
  assumes "length src = 4" "length dst = 4"
  shows "calc_checksum 0 (ip4_build len p src dst) = 0xFFFF"
  unfolding ip4_build_def
  by (rule ck.csum_fill) (use assms in simp_all)

text \<open>
  A transport segment: a header with its check field at an even offset, options and data. The
  writers sum the pseudo header, the header with a zero check field, the options and the data one
  after the other and store the complement; a receiver that sums the pseudo header and the whole
  segment gets all ones.
\<close>

lemma segment_checksum:
  assumes "even (length pseudo)" "even (length h1)" "even (length h2)" "even (length opts)"
    and "length pseudo + length h1 + 2 + length h2 + length opts + length data \<le> 131071"
    and "c = NOT (calc_checksum (calc_checksum (calc_checksum (calc_checksum 0 pseudo)
               (h1 @ [0, 0] @ h2)) opts) data)"
  shows "calc_checksum 0 (pseudo @ h1 @ le16b c @ h2 @ opts @ data) = 0xFFFF"
proof -
  have chain: "calc_checksum (calc_checksum (calc_checksum (calc_checksum 0 pseudo)
      (h1 @ [0, 0] @ h2)) opts) data = calc_checksum 0 ((pseudo @ h1) @ [0, 0] @ h2 @ opts @ data)"
    using assms(1-5) by (simp add: ck.csum_append)
  have "calc_checksum 0 ((pseudo @ h1) @ le16b c @ h2 @ opts @ data) = 0xFFFF"
    by (rule ck.csum_fill) (use assms chain in simp_all)
  then show ?thesis by simp
qed

end
