(* ===== verification/Upcalls.thy ===== *)
theory Upcalls
  imports Ng_Types
begin

text \<open>
  The calls from \<open>netguard.c\<close> into the Java service. Looking up classes and methods, converting
  strings and releasing references has no effect the engine depends on; what remains of an upcall
  is the event with its arguments and, where there is one, the answer of the service. The texts
  \<open>inet_ntop\<close> makes of addresses are represented by the addresses, and the time stamps \<open>dns_resolved\<close>
  and \<open>account_usage\<close> put into their objects are left out.
\<close>

definition protect_socket :: "os \<Rightarrow> int \<Rightarrow> world \<Rightarrow> int \<times> world" where
  "protect_socket os sock w =
     (let ok = os_protect os (trace w) sock
      in (if ok then 0 else -1, emit (Protect sock ok) w))"

definition log_packet :: "jpacket \<Rightarrow> world \<Rightarrow> world" where
  "log_packet p w = emit (Log_Packet p) w"

definition dns_resolved :: "bytes \<Rightarrow> bytes \<Rightarrow> bytes \<Rightarrow> u32 \<Rightarrow> world \<Rightarrow> world" where
  "dns_resolved qname aname resource ttl w = emit (Dns_Resolved qname aname resource ttl) w"

definition is_domain_blocked :: "os \<Rightarrow> bytes \<Rightarrow> world \<Rightarrow> bool \<times> world" where
  "is_domain_blocked os name w =
     (os_domain_blocked os (trace w) name, emit (Is_Domain_Blocked name) w)"

definition get_uid_q ::
  "os \<Rightarrow> nat \<Rightarrow> u8 \<Rightarrow> bytes \<Rightarrow> u16 \<Rightarrow> bytes \<Rightarrow> u16 \<Rightarrow> world \<Rightarrow> int \<times> world" where
  "get_uid_q os version protocol source sport dest dport w =
     (os_uid_q os (trace w) version protocol source sport dest dport,
      emit (Get_Uid_Q version protocol source sport dest dport) w)"

definition account_usage ::
  "nat \<Rightarrow> u8 \<Rightarrow> bytes \<Rightarrow> u16 \<Rightarrow> int \<Rightarrow> u64 \<Rightarrow> u64 \<Rightarrow> world \<Rightarrow> world" where
  "account_usage version protocol daddr dport uid sent received w =
     emit (Account_Usage version protocol daddr dport uid sent received) w"

end
