(* ===== verification/Dns.thy ===== *)
theory Dns
  imports Headers Upcalls
begin

text \<open>
  \<open>netguard/dns.c\<close>: reading a possibly compressed name out of a message (\<open>get_qname\<close>) and
  processing a response (\<open>parse_dns_response\<close>), which reports every address to Java and, for a
  blocked question, rewrites the message in place to an empty answer. The lemmas show that no
  message makes the parser read or write outside its buffers, that it ends, that it reads every
  name, through compression pointers, as RFC 1035 says, and what the rewriting leaves.
\<close>

section \<open>Names\<close>

record qname_state =
  q_ptr :: u16
  q_len :: u8
  q_noff :: u8
  q_c :: bool
  q_off :: u16
  q_name :: bytes

fun qname_loop :: "nat \<Rightarrow> bytes \<Rightarrow> nat \<Rightarrow> qname_state \<Rightarrow> qname_state option" where
  "qname_loop rounds data datalen q =
     (if q_len q = 0 then Some q
      else case rounds of 0 \<Rightarrow> Some q | Suc rounds' \<Rightarrow>
        let ptr = unat (q_ptr q); len = unat (q_len q); noff = unat (q_noff q) in
        if ptr + 1 < datalen \<and> q_len q AND 0xC0 \<noteq> 0 then
          do {
            b \<leftarrow> rd8 data (ptr + 1);
            let jump = ucast (q_len q AND 0x3F) * 256 + ucast b;
            if datalen \<le> unat jump then Some q
            else do {
              l \<leftarrow> rd8 data (unat jump);
              qname_loop rounds' data datalen
                (q\<lparr>q_ptr := jump, q_len := l, q_c := True,
                   q_off := (if q_c q then q_off q else q_off q + 2)\<rparr>)
            }
          }
        else if ptr + 1 + len < datalen \<and> noff + len \<le> 255 then
          do {
            label \<leftarrow> rd_bytes data (ptr + 1) len;
            name \<leftarrow> wr_bytes (q_name q) noff (label @ [46]);
            let q = q\<lparr>q_name := name, q_noff := q_noff q + (q_len q + 1)\<rparr>;
            let jump = (of_nat (ptr + 1 + len) :: u16);
            if datalen \<le> unat jump then Some q
            else do {
              l \<leftarrow> rd8 data (unat jump);
              qname_loop rounds' data datalen (q\<lparr>q_ptr := jump, q_len := l\<rparr>)
            }
          }
        else Some q)"

declare qname_loop.simps [simp del]

text \<open>
  The loop breaks when \<open>count++ > 25\<close>, after 26 rounds. The result is the returned offset and the
  contents of the caller's array.
\<close>

definition get_qname :: "bytes \<Rightarrow> nat \<Rightarrow> u16 \<Rightarrow> bytes \<Rightarrow> (int \<times> bytes) option" where
  "get_qname data datalen off qname =
     do {
       qname \<leftarrow> wr_bytes qname 0 [0];
       if datalen \<le> unat off then Some (-1, qname)
       else do {
         len \<leftarrow> rd8 data (unat off);
         q \<leftarrow> qname_loop 26 data datalen
                \<lparr>q_ptr = off, q_len = len, q_noff = 0, q_c = False, q_off = off, q_name = qname\<rparr>;
         let ptr = q_ptr q + 1;
         if q_len q > 0 \<or> q_noff q = 0 then Some (-1, q_name q)
         else do {
           name \<leftarrow> wr_bytes (q_name q) (unat (q_noff q) - 1) [0];
           Some (int (unat (if q_c q then q_off q else ptr)), name)
         }
       }
     }"

section \<open>Responses\<close>

fun session_ends :: "ng_session \<Rightarrow> nat \<times> u8 \<times> bytes \<times> u16 \<times> bytes \<times> u16" where
  "session_ends (Udp u) =
     (udp_version u, IPPROTO_UDP, udp_saddr u, ntohs (udp_source u), udp_daddr u, ntohs (udp_dest u))"
| "session_ends (Tcp t) =
     (tcp_version t, IPPROTO_TCP, tcp_saddr t, ntohs (tcp_source t), tcp_daddr t, ntohs (tcp_dest t))"
| "session_ends (Icmp i) = (icmp_version i, ng_protocol (Icmp i), icmp_saddr i, 0, icmp_daddr i, 0)"

text \<open>
  The answer section. The result is \<open>None\<close> inside when the code returns early, and otherwise the
  world after reporting the addresses.
\<close>

fun dns_answers ::
  "nat \<Rightarrow> bytes \<Rightarrow> nat \<Rightarrow> int \<Rightarrow> bytes \<Rightarrow> bytes \<Rightarrow> world \<Rightarrow> (world \<times> bool) option" where
  "dns_answers 0 data datalen off qname name w = Some (w, True)"
| "dns_answers (Suc a) data datalen off qname name w =
     do {
       (off, name) \<leftarrow> get_qname data datalen (of_int off) name;
       if off > 0 \<and> off + 10 \<le> int datalen then do {
         let pos = nat off;
         qtype \<leftarrow> rd16 data pos;
         qclass \<leftarrow> rd16 data (pos + 2);
         ttl \<leftarrow> rd32be data (pos + 4);
         rdlength \<leftarrow> rd16 data (pos + 8);
         let pos = pos + 10;
         if pos + unat (ntohs rdlength) \<le> datalen then
           if ntohs qclass = 1 \<and> (ntohs qtype = 1 \<or> ntohs qtype = 28) then
             let n = (if ntohs qtype = 1 then 4 else 16) in
             if pos + n \<le> datalen then do {
               rd \<leftarrow> rd_bytes data pos n;
               dns_answers a data datalen (int (pos + unat (ntohs rdlength))) qname name
                 (dns_resolved qname (cstr name) rd ttl w)
             }
             else Some (w, False)
           else dns_answers a data datalen (int (pos + unat (ntohs rdlength))) qname name w
         else Some (w, False)
       }
       else Some (w, False)
     }"

definition dns_block_bytes :: "u16 \<Rightarrow> bytes \<Rightarrow> bytes" where
  "dns_block_bytes rcode data =
     take 2 data @ [(data ! 2 AND 0x78) OR 0x80, ucast rcode AND 0x0F] @ take 2 (drop 4 data)
       @ [0, 0, 0, 0, 0, 0] @ drop 12 data"

definition dns_block ::
  "os \<Rightarrow> config \<Rightarrow> ng_session \<Rightarrow> bytes \<Rightarrow> nat \<Rightarrow> nat \<Rightarrow> bytes \<Rightarrow> u16 \<Rightarrow> world \<Rightarrow> bytes \<times> nat \<times> world" where
  "dns_block os cfg s data datalen aoff qname qtype w =
     (let (blocked, w) = is_domain_blocked os qname w in
      if blocked then
        let rcode = cfg_rcode cfg AND 0x0F;
            (version, protocol, source, sport, dest, dport) = session_ends s;
            p = create_packet os w version protocol [] source sport dest dport
                  (Dns_Data qtype qname rcode) 0 None False
        in (dns_block_bytes (cfg_rcode cfg) data, aoff, log_packet p w)
      else (data, datalen, w))"

definition dns_body ::
  "os \<Rightarrow> config \<Rightarrow> ng_session \<Rightarrow> bytes \<Rightarrow> nat \<Rightarrow> nat \<Rightarrow> world \<Rightarrow> (bytes \<times> nat \<times> world) option" where
  "dns_body os cfg s data datalen acount w =
     do {
       (off, name) \<leftarrow> get_qname data datalen 12 (replicate 256 0);
       if off > 0 \<and> off + 4 \<le> int datalen then do {
         let qname = cstr name;
         qtype \<leftarrow> rd16 data (nat off);
         qclass \<leftarrow> rd16 data (nat off + 2);
         let aoff = off + 4;
         (w, completed) \<leftarrow> dns_answers acount data datalen aoff qname name w;
         if \<not> completed then Some (data, datalen, w)
         else Some (dns_block os cfg s data datalen (nat aoff) qname (ntohs qtype) w)
       }
       else Some (data, datalen, w)
     }"

definition parse_dns_response ::
  "os \<Rightarrow> config \<Rightarrow> ng_session \<Rightarrow> bytes \<Rightarrow> nat \<Rightarrow> world \<Rightarrow> (bytes \<times> nat \<times> world) option" where
  "parse_dns_response os cfg s data datalen w =
     (if datalen < 12 + 1 then Some (data, datalen, w)
      else do {
        flags \<leftarrow> rd8 data 2;
        qcount \<leftarrow> rd16 data 4;
        acount \<leftarrow> rd16 data 6;
        if bit flags 7 \<and> flags AND 0x78 = 0 \<and> ntohs qcount > 0 \<and> ntohs acount > 0
        then dns_body os cfg s data datalen (unat (ntohs acount)) w
        else Some (data, datalen, w)
      })"

section \<open>The parser stays inside its buffers\<close>

lemma qname_loop_safe:
  assumes "datalen \<le> length data" "length (q_name q) = 256"
  shows "\<exists>q'. qname_loop rounds data datalen q = Some q' \<and> length (q_name q') = 256"
  using assms
proof (induction rounds arbitrary: q)
  case 0
  then show ?case by (simp add: qname_loop.simps)
next
  case (Suc rounds)
  let ?p = "unat (q_ptr q)" and ?l = "unat (q_len q)"
  consider "q_len q = 0"
    | (jump) "q_len q \<noteq> 0" "?p + 1 < datalen" "q_len q AND 0xC0 \<noteq> 0"
    | (label) "q_len q \<noteq> 0" "\<not> (?p + 1 < datalen \<and> q_len q AND 0xC0 \<noteq> 0)"
        "?p + 1 + ?l < datalen" "unat (q_noff q) + ?l \<le> 255"
    | (other) "q_len q \<noteq> 0" "\<not> (?p + 1 < datalen \<and> q_len q AND 0xC0 \<noteq> 0)"
        "\<not> (?p + 1 + ?l < datalen \<and> unat (q_noff q) + ?l \<le> 255)"
    by blast
  then show ?case
  proof cases
    case 1
    with Suc.prems show ?thesis by (simp add: qname_loop.simps)
  next
    case jump
    with Suc show ?thesis
      by (subst qname_loop.simps) (auto simp: Let_def rd_ok)
  next
    case label
    with Suc.prems have "\<exists>d. rd_bytes data (?p + 1) ?l = Some d \<and> length d = ?l"
      by (simp add: rd_ok)
    then obtain d where d: "rd_bytes data (?p + 1) ?l = Some d" "length d = ?l" by blast
    have "unat (q_noff q) + length (d @ [46]) \<le> length (q_name q)"
      using label(4) d(2) Suc.prems(2) by simp
    then obtain name where
      n: "wr_bytes (q_name q) (unat (q_noff q)) (d @ [46]) = Some name" using rd_ok(5) by blast
    then have "length name = 256" using wr_bytes_length Suc.prems(2) by metis
    with Suc label d n show ?thesis
      by (subst qname_loop.simps) (auto simp: Let_def rd_ok)
  next
    case other
    with Suc.prems show ?thesis by (subst qname_loop.simps) (auto simp: Let_def)
  qed
qed

lemma wr_zero_terminates: "wr_bytes buf i [0] = Some buf' \<Longrightarrow> 0 \<in> set buf'"
  by (auto simp: wr_bytes_def split: if_splits)

lemma get_qname_safe:
  assumes "datalen \<le> length data" "length qname = 256"
  obtains r name where "get_qname data datalen off qname = Some (r, name)" "length name = 256"
    "r = -1 \<or> 0 \<le> r \<and> r \<le> 65535 \<and> 0 \<in> set name"
proof -
  obtain n0 where n0: "wr_bytes qname 0 [0] = Some n0" "length n0 = 256"
    using assms(2) rd_ok(5) [of 0 "[0]" qname] wr_bytes_length by fastforce
  let ?q = "\<lparr>q_ptr = off, q_len = data ! unat off, q_noff = 0, q_c = False, q_off = off, q_name = n0\<rparr>"
  obtain q where q: "qname_loop 26 data datalen ?q = Some q" "length (q_name q) = 256"
    using qname_loop_safe [OF assms(1), of ?q 26] n0(2) by auto
  have "unat (q_noff q) \<le> 255" using unat_u8_less [of "q_noff q"] by simp
  then have "q_noff q \<noteq> 0 \<Longrightarrow> unat (q_noff q) - 1 + length [0 :: u8] \<le> length (q_name q)"
    using q(2) by (simp add: unat_eq_zero)
  then obtain m where m: "q_noff q \<noteq> 0 \<Longrightarrow> wr_bytes (q_name q) (unat (q_noff q) - 1) [0] = Some m"
    using rd_ok(5) by blast
  have u: "uint x \<le> 65535" for x :: u16
  proof -
    have "uint x < 2 ^ LENGTH(16)" by (rule unsigned_less)
    then show ?thesis by simp
  qed
  show thesis
  proof (cases "datalen \<le> unat off")
    case True
    with n0 that show ?thesis by (simp add: get_qname_def)
  next
    case False
    then have r: "rd8 data (unat off) = Some (data ! unat off)" using assms(1) by (simp add: rd_ok)
    show ?thesis
    proof (cases "q_len q > 0 \<or> q_noff q = 0")
      case True
      with False n0 q r that show ?thesis by (simp add: get_qname_def Let_def)
    next
      case nz: False
      then have "length m = 256" "0 \<in> set m" using m q(2) wr_bytes_length wr_zero_terminates by auto
      with False nz n0 q r m u that show ?thesis by (simp add: get_qname_def Let_def)
    qed
  qed
qed

lemma dns_answers_safe:
  assumes "datalen \<le> length data" "length name = 256"
  shows "dns_answers a data datalen off qname name w \<noteq> None"
  using assms(2)
proof (induction a arbitrary: off name w)
  case (Suc a)
  obtain r n where g: "get_qname data datalen (of_int off) name = Some (r, n)" "length n = 256"
    using get_qname_safe [OF assms(1) Suc.prems] by metis
  show ?case
  proof (cases "r > 0 \<and> r + 10 \<le> int datalen")
    case True
    then have "nat r + 10 \<le> length data" using assms(1) by linarith
    with True g Suc.IH assms(1) show ?thesis by (auto simp: Let_def rd_ok)
  next
    case False
    with g show ?thesis by auto
  qed
qed simp

definition dns_sample :: bytes where
  "dns_sample = [0, 7, 0x81, 0x80, 0, 1, 0, 1, 0, 0, 0, 0, 1, 97, 0, 0, 1, 0, 1,
     0xC0, 12, 0, 1, 0, 1, 0, 0, 0, 60, 0, 4, 1, 2, 3, 4]"

text \<open>
  C7: no message crashes the DNS parser. Whatever bytes a server sends, with any compression
  pointers, cycles included, and any counts and lengths, \<open>parse_dns_response\<close> ends and reads and
  writes only inside the message and inside its 256 byte name arrays; the message keeps its size
  and its reported length does not grow.
\<close>

theorem parse_dns_response_safe:
  assumes "datalen \<le> length data"
  shows "\<exists>data' datalen' w'. parse_dns_response os cfg s data datalen w = Some (data', datalen', w')
    \<and> length data' = length data \<and> datalen' \<le> datalen"
proof (cases "datalen < 13")
  case False
  obtain r n where g: "get_qname data datalen 12 (replicate 256 0) = Some (r, n)" "length n = 256"
    using get_qname_safe [OF assms, of "replicate 256 0"] by (metis length_replicate)
  have d: "13 \<le> length data" using False assms by simp
  have a: "\<exists>w' c. dns_answers k data datalen off q n v = Some (w', c)" for k off q v
    using dns_answers_safe [OF assms g(2), of k off q v] by auto
  have b: "r > 0 \<Longrightarrow> r + 4 \<le> int datalen \<Longrightarrow> nat r + 4 \<le> length data" using assms by linarith
  show ?thesis
    using False g d b assms a [of "unat (ntohs (le16 (data ! 6) (data ! 7)))" "r + 4" "cstr n" w]
    by (auto simp: parse_dns_response_def dns_body_def dns_block_def Let_def rd_ok is_domain_blocked_def
        dns_block_bytes_def case_prod_unfold)
qed (simp add: parse_dns_response_def)

theorem parse_dns_response_safe_witness:
  "length dns_sample \<le> length dns_sample \<and>
   (\<exists>d n w. parse_dns_response os_ok cfg_plain (Udp udp_sample) dns_sample (length dns_sample) world0
      = Some (d, n, w))"
  using parse_dns_response_safe [of "length dns_sample" dns_sample os_ok cfg_plain "Udp udp_sample" world0]
  by auto

section \<open>Names are read as RFC 1035 says\<close>

text \<open>
  \<open>name_at data datalen p ls k c e\<close>: at position \<open>p\<close> of the message stands the name with the
  labels \<open>ls\<close>; it takes \<open>k\<close> labels and pointers to read, \<open>c\<close> says whether a pointer was followed,
  and \<open>e\<close> is the position of the final zero.
\<close>

inductive name_at :: "bytes \<Rightarrow> nat \<Rightarrow> nat \<Rightarrow> bytes list \<Rightarrow> nat \<Rightarrow> bool \<Rightarrow> nat \<Rightarrow> bool"
  for data datalen where
  root: "p < datalen \<Longrightarrow> data ! p = 0 \<Longrightarrow> name_at data datalen p [] 0 False p"
| label: "data ! p = of_nat (length l) \<Longrightarrow> 0 < length l \<Longrightarrow> length l < 64 \<Longrightarrow>
     p + 1 + length l < datalen \<Longrightarrow> l = take (length l) (drop (p + 1) data) \<Longrightarrow>
     name_at data datalen (p + 1 + length l) ls k c e \<Longrightarrow>
     name_at data datalen p (l # ls) (Suc k) c e"
| pointer: "data ! p AND 0xC0 \<noteq> 0 \<Longrightarrow> p + 1 < datalen \<Longrightarrow>
     j = unat (ucast (data ! p AND 0x3F) * 256 + ucast (data ! (p + 1)) :: u16) \<Longrightarrow>
     name_at data datalen j ls k c e \<Longrightarrow> name_at data datalen p ls (Suc k) True e"

definition dotted :: "bytes list \<Rightarrow> bytes" where
  "dotted ls = concat (map (\<lambda>l. l @ [46]) ls)"

lemma name_at_pos: "name_at data datalen p ls k c e \<Longrightarrow> p < datalen"
  by (induction rule: name_at.induct) auto

lemma label_len_bits: "n < 64 \<Longrightarrow> (of_nat n :: u8) AND 0xC0 = 0"
proof -
  assume n: "n < 64"
  have "take_bit 6 (of_nat n :: u8) = of_nat n"
    using n by (simp add: word_unat_eq_iff unsigned_take_bit_eq unsigned_of_nat take_bit_nat_eq_self)
  then have "(of_nat n :: u8) AND 0xC0 = take_bit 6 (of_nat n) AND 0xC0" by simp
  also have "\<dots> = 0" by (simp add: take_bit_eq_mask mask_eq_exp_minus_1 and.assoc)
  finally show ?thesis .
qed

lemma qname_loop_jump:
  assumes "q_len q \<noteq> 0" "unat (q_ptr q) + 1 < datalen" "q_len q AND 0xC0 \<noteq> 0" "datalen \<le> length data"
    and "j = ucast (q_len q AND 0x3F) * 256 + ucast (data ! (unat (q_ptr q) + 1))" "unat j < datalen"
  shows "qname_loop (Suc rounds) data datalen q = qname_loop rounds data datalen
    (q\<lparr>q_ptr := j, q_len := data ! unat j, q_c := True,
       q_off := (if q_c q then q_off q else q_off q + 2)\<rparr>)"
  using assms by (subst qname_loop.simps) (simp add: Let_def rd_ok)

lemma qname_loop_label:
  assumes "q_len q = of_nat (length l)" "0 < length l" "length l < 64"
    and "unat (q_ptr q) + 1 + length l < datalen" "datalen \<le> length data" "datalen \<le> 65536"
    and "l = take (length l) (drop (unat (q_ptr q) + 1) data)"
    and "unat (q_noff q) + length l < 255" "length (q_name q) = 256"
  shows "\<exists>name. qname_loop (Suc rounds) data datalen q = qname_loop rounds data datalen
      (q\<lparr>q_name := name, q_noff := q_noff q + (q_len q + 1),
         q_ptr := of_nat (unat (q_ptr q) + 1 + length l),
         q_len := data ! (unat (q_ptr q) + 1 + length l)\<rparr>)
    \<and> length name = 256 \<and> unat (q_noff q + (q_len q + 1)) = unat (q_noff q) + (length l + 1)
    \<and> take (unat (q_noff q) + (length l + 1)) name = take (unat (q_noff q)) (q_name q) @ l @ [46]"
proof -
  let ?p = "unat (q_ptr q)" and ?o = "unat (q_noff q)"
  define name where "name = take ?o (q_name q) @ (l @ [46]) @ drop (?o + length (l @ [46])) (q_name q)"
  have n: "unat (q_len q) = length l"
    using assms(1,3) by (simp add: unsigned_of_nat take_bit_nat_eq_self)
  have w: "wr_bytes (q_name q) ?o (l @ [46]) = Some name"
    unfolding name_def by (rule rd_ok(5)) (use assms in simp)
  have j: "unat (of_nat (?p + 1 + length l) :: u16) = ?p + 1 + length l"
    using assms(4,6) by (simp only: unat_of_nat_16) simp
  have z: "q_len q \<noteq> 0" using n assms(2) by auto
  have no: "unat (q_noff q + (q_len q + 1)) = ?o + (length l + 1)"
    using assms(8) n by (simp add: unat_word_ariths)
  have r: "rd_bytes data (?p + 1) (length l) = Some l"
    using assms(4,5,7) by (simp add: rd_ok)
  have "qname_loop (Suc rounds) data datalen q = qname_loop rounds data datalen
      (q\<lparr>q_name := name, q_noff := q_noff q + (q_len q + 1),
         q_ptr := of_nat (?p + 1 + length l), q_len := data ! (?p + 1 + length l)\<rparr>)"
    by (subst qname_loop.simps)
      (use assms(1,3,4,5,8) z n r w j label_len_bits in \<open>simp add: Let_def rd_ok\<close>)
  moreover have "length name = 256" using assms(8,9) by (simp add: name_def)
  moreover have "take (?o + (length l + 1)) name = take ?o (q_name q) @ l @ [46]"
    using assms(8,9) by (simp add: name_def)
  ultimately show ?thesis using no by blast
qed

lemma qname_loop_name:
  assumes "name_at data datalen p ls k c e" "datalen \<le> length data" "datalen \<le> 65536"
    and "k \<le> rounds" "unat (q_ptr q) = p" "q_len q = data ! p" "length (q_name q) = 256"
    and "unat (q_noff q) + length (dotted ls) \<le> 255"
  shows "\<exists>q'. qname_loop rounds data datalen q = Some q' \<and> q_len q' = 0 \<and> unat (q_ptr q') = e
    \<and> unat (q_noff q') = unat (q_noff q) + length (dotted ls) \<and> length (q_name q') = 256
    \<and> take (unat (q_noff q')) (q_name q') = take (unat (q_noff q)) (q_name q) @ dotted ls
    \<and> q_c q' = (q_c q \<or> c) \<and> q_off q' = (if c \<and> \<not> q_c q then q_off q + 2 else q_off q)"
  using assms(1,4-)
proof (induction arbitrary: q rounds rule: name_at.induct)
  case (root p)
  then show ?case by (simp add: qname_loop.simps dotted_def)
next
  case (label p l ls k c e)
  then obtain rounds' where k: "rounds = Suc rounds'" "k \<le> rounds'" by (cases rounds) auto
  have len: "unat (q_noff q) + length l < 255" using label.prems(5) by (simp add: dotted_def)
  obtain name where step: "qname_loop rounds data datalen q = qname_loop rounds' data datalen
      (q\<lparr>q_name := name, q_noff := q_noff q + (q_len q + 1),
         q_ptr := of_nat (p + 1 + length l), q_len := data ! (p + 1 + length l)\<rparr>)" (is "_ = qname_loop _ _ _ ?q")
    and name: "length name = 256" "unat (q_noff q + (q_len q + 1)) = unat (q_noff q) + (length l + 1)"
      "take (unat (q_noff q) + (length l + 1)) name = take (unat (q_noff q)) (q_name q) @ l @ [46]"
    using qname_loop_label [of q l datalen data rounds'] label.hyps label.prems len assms(2,3) k(1)
    by auto
  have "unat (of_nat (p + 1 + length l) :: u16) = p + 1 + length l"
    using label.hyps(4) assms(3) by (simp only: unat_of_nat_16) simp
  moreover have "unat (q_noff ?q) + length (dotted ls) \<le> 255"
    using label.prems(5) name(2) by (simp add: dotted_def)
  moreover have "take (unat (q_noff ?q)) (q_name ?q) = take (unat (q_noff q)) (q_name q) @ l @ [46]"
    unfolding name(3) [symmetric] by (simp add: name(2) [simplified])
  ultimately have "\<exists>q'. qname_loop rounds' data datalen ?q = Some q' \<and> q_len q' = 0
    \<and> unat (q_ptr q') = e \<and> unat (q_noff q') = unat (q_noff ?q) + length (dotted ls)
    \<and> length (q_name q') = 256
    \<and> take (unat (q_noff q')) (q_name q') = (take (unat (q_noff q)) (q_name q) @ l @ [46]) @ dotted ls
    \<and> q_c q' = (q_c ?q \<or> c) \<and> q_off q' = (if c \<and> \<not> q_c ?q then q_off ?q + 2 else q_off ?q)"
    using label.IH [of rounds' ?q] k(2) name(1) by simp
  then show ?case
    unfolding step by (elim ex_forward) (auto simp: name(2) [simplified] dotted_def)
next
  case (pointer p j ls k c e)
  then obtain rounds' where k: "rounds = Suc rounds'" "k \<le> rounds'" by (cases rounds) auto
  define jj where "jj = (ucast (data ! p AND 0x3F) * 256 + ucast (data ! (p + 1)) :: u16)"
  have j: "unat jj = j" using pointer.hyps(3) by (simp add: jj_def)
  have "q_len q \<noteq> 0" using pointer.hyps(1) pointer.prems(3) by auto
  then have step: "qname_loop rounds data datalen q = qname_loop rounds' data datalen
    (q\<lparr>q_ptr := jj, q_len := data ! unat jj, q_c := True,
       q_off := (if q_c q then q_off q else q_off q + 2)\<rparr>)" (is "_ = qname_loop _ _ _ ?q")
    unfolding k(1)
    by (rule qname_loop_jump)
      (use pointer.hyps pointer.prems assms(2) name_at_pos [OF pointer.hyps(4)] j in
        \<open>simp_all add: jj_def\<close>)
  then show ?case using pointer.IH [of rounds' ?q] k pointer.prems j by (auto simp: step)
qed

lemma dotted_last: "ls \<noteq> [] \<Longrightarrow> dotted ls = butlast (dotted ls) @ [46] \<and> 0 < length (dotted ls)"
  by (induction ls rule: rev_induct) (simp_all add: dotted_def butlast_append)

lemma name_at_end: "name_at data datalen p ls k c e \<Longrightarrow> e < datalen"
  by (induction rule: name_at.induct) auto

text \<open>
  C24: \<open>get_qname\<close> reads names as RFC 1035 defines them. For every name in a message, written out,
  as a pointer or as labels that end in a pointer, of at most 26 labels and pointers and 255 bytes,
  the array holds the labels joined by dots and ends with a zero. The returned offset is the one
  after the name when no pointer was followed; otherwise it is always two bytes after its start.
\<close>

theorem get_qname_reads:
  assumes "name_at data datalen (unat off) ls k c e" "k \<le> 26" "ls \<noteq> []"
    and "length (dotted ls) \<le> 255" "datalen \<le> length data" "datalen \<le> 65535" "length qname = 256"
  shows "\<exists>name. get_qname data datalen off qname
        = Some (if c then int (unat (off + 2)) else int e + 1, name)
    \<and> take (length (dotted ls)) name = butlast (dotted ls) @ [0]"
proof -
  obtain n0 where n0: "wr_bytes qname 0 [0] = Some n0" "length n0 = 256"
    using assms(7) rd_ok(5) [of 0 "[0]" qname] wr_bytes_length by fastforce
  let ?q = "\<lparr>q_ptr = off, q_len = data ! unat off, q_noff = 0, q_c = False, q_off = off, q_name = n0\<rparr>"
  let ?n = "length (dotted ls)"
  obtain q where q: "qname_loop 26 data datalen ?q = Some q" "q_len q = 0" "unat (q_ptr q) = e"
    "unat (q_noff q) = ?n" "length (q_name q) = 256" "take ?n (q_name q) = dotted ls"
    "q_c q = c" "q_off q = (if c then off + 2 else off)"
    using qname_loop_name [OF assms(1,5) _ assms(2), of ?q] assms(4,6) n0(2) by auto
  let ?name = "take (?n - 1) (q_name q) @ [0] @ drop ?n (q_name q)"
  note last = dotted_last [OF assms(3)]
  then have w: "wr_bytes (q_name q) (?n - 1) [0] = Some ?name"
    using assms(4) q(5) by (simp add: wr_bytes_def)
  have "take (?n - 1) (q_name q) = butlast (dotted ls)"
    using q(6) by (metis butlast_conv_take length_take min.absorb1 assms(4) q(5) take_take
        diff_le_self order_trans nat_le_linear numeral_le_iff)
  then have t: "take ?n ?name = butlast (dotted ls) @ [0]"
    using last assms(4) q(5) by (cases ?n) simp_all
  have p: "unat off < datalen" by (rule name_at_pos [OF assms(1)])
  then have r: "rd8 data (unat off) = Some (data ! unat off)" using assms(5) by (simp add: rd_ok)
  have e: "unat (q_ptr q + 1) = e + 1"
    using name_at_end [OF assms(1)] assms(6) q(3) by (simp add: unat_word_ariths)
  have nz: "q_noff q \<noteq> 0" using q(4) last by auto
  have "get_qname data datalen off qname
      = Some (int (unat (if q_c q then q_off q else q_ptr q + 1)), ?name)"
    using p r n0 q(1,2) nz w q(4) by (simp add: get_qname_def Let_def del: of_nat_unat)
  with e q(7,8) t show ?thesis by (auto simp del: of_nat_unat)
qed

lemma name_at_rootI: "p < datalen \<Longrightarrow> data ! p = 0 \<Longrightarrow> e = p \<Longrightarrow> name_at data datalen p [] 0 False e"
  by (simp add: name_at.root)

lemma name_at_labelI:
  "name_at data datalen p' ls k c e \<Longrightarrow> p' = p + 1 + length l \<Longrightarrow> k' = Suc k \<Longrightarrow>
   data ! p = of_nat (length l) \<Longrightarrow> 0 < length l \<Longrightarrow> length l < 64 \<Longrightarrow> p' < datalen \<Longrightarrow>
   l = take (length l) (drop (p + 1) data) \<Longrightarrow> name_at data datalen p (l # ls) k' c e"
  by (simp add: name_at.label)

lemma name_at_pointerI:
  "name_at data datalen j ls k c e \<Longrightarrow> k' = Suc k \<Longrightarrow> data ! p AND 0xC0 \<noteq> 0 \<Longrightarrow> p + 1 < datalen \<Longrightarrow>
   j = unat (ucast (data ! p AND 0x3F) * 256 + ucast (data ! (p + 1)) :: u16) \<Longrightarrow>
   name_at data datalen p ls k' True e"
  by (simp add: name_at.pointer)

theorem get_qname_reads_witness:
  "\<exists>name. get_qname dns_sample 35 19 (replicate 256 0) = Some (21, name) \<and> take 2 name = [97, 0]"
proof -
  have "name_at dns_sample 35 14 [] 0 False 14"
    by (rule name_at_rootI) (simp_all add: dns_sample_def)
  then have "name_at dns_sample 35 12 [[97]] 1 False 14"
    by (rule name_at_labelI) (simp_all add: dns_sample_def)
  then have n: "name_at dns_sample 35 (unat (19 :: u16)) [[97]] 2 True 14"
    by (rule name_at_pointerI) (simp_all add: dns_sample_def)
  have l: "length (dotted [[97]]) = 2" "butlast (dotted [[97]]) = [97]" by (simp_all add: dotted_def)
  have "(2::nat) \<le> 26" "[[97 :: u8]] \<noteq> []" "(2::nat) \<le> 255" "35 \<le> length dns_sample"
    "(35::nat) \<le> 65535" "length (replicate 256 (0::u8)) = 256" "unat (19 + 2 :: u16) = 21"
    by (simp_all add: dns_sample_def)
  with get_qname_reads [OF n, of "replicate 256 0", unfolded l] show ?thesis by simp
qed

text \<open>
  A name whose labels end in a pointer, which RFC 1035 section 4.1.4 allows, makes
  \<open>get_qname\<close> return the wrong offset: the name \<open>b\<close> followed by a pointer to \<open>a\<close> occupies the four
  bytes 3 to 6, yet the parser continues at 5, inside the pointer, instead of at 7.
\<close>

lemma get_qname_offset_in_name:
  "map_option (map_prod id (take 4)) (get_qname [1, 97, 0, 1, 98, 0xC0, 0, 0] 8 3 (replicate 256 0))
     = Some (5, [98, 46, 97, 0])"
  by code_simp

section \<open>Blocked questions\<close>

definition resolved_event :: "event \<Rightarrow> bool" where
  "resolved_event e \<longleftrightarrow> (\<exists>q a r t. e = Dns_Resolved q a r t)"

lemma dns_answers_step:
  assumes "dns_answers (Suc a) data datalen off qname name w = Some (w', c)"
  shows "w' = w \<or> (\<exists>off' n'. dns_answers a data datalen off' qname n' w = Some (w', c)) \<or>
    (\<exists>off' n' rd t. dns_answers a data datalen off' qname n' (dns_resolved qname (cstr n') rd t w)
       = Some (w', c))"
proof -
  obtain r n where g: "get_qname data datalen (of_int off) name = Some (r, n)"
    using assms by (cases "get_qname data datalen (of_int off) name") auto
  show ?thesis
    using assms
    by (simp add: g Let_def split: if_splits option.splits bind_splits) blast+
qed

lemma dns_answers_frame:
  "dns_answers a data datalen off qname name w = Some (w', c) \<Longrightarrow> extends resolved_event w w'"
proof (induction a arbitrary: off name w)
  case (Suc a)
  have d: "extends resolved_event w (dns_resolved q n r t w)" for q n r t
    by (simp add: dns_resolved_def frame resolved_event_def)
  from dns_answers_step [OF Suc.prems] show ?case
    using Suc.IH extends_trans [OF d] by (elim disjE exE) (simp, blast, blast)
qed simp

text \<open>The service was asked about a name and said it is blocked, among the events \<open>es\<close>.\<close>

definition blocked_verdict :: "os \<Rightarrow> event list \<Rightarrow> event list \<Rightarrow> bool" where
  "blocked_verdict os es old \<longleftrightarrow>
     (\<exists>es1 es2 qname. es = es1 @ Is_Domain_Blocked qname # es2 \<and> os_domain_blocked os (es2 @ old) qname)"

definition emptied :: "u16 \<Rightarrow> bytes \<Rightarrow> bytes \<Rightarrow> bool" where
  "emptied rcode data data' \<longleftrightarrow>
     take 2 data' = take 2 data \<and> bit (data' ! 2) 7 \<and> data' ! 3 = ucast rcode AND 0x0F \<and>
     take 2 (drop 4 data') = take 2 (drop 4 data) \<and> take 6 (drop 6 data') = replicate 6 0 \<and>
     drop 12 data' = drop 12 data"

lemma dns_block_bytes_emptied: "13 \<le> length data \<Longrightarrow> emptied rcode data (dns_block_bytes rcode data)"
  by (simp add: emptied_def dns_block_bytes_def nth_append bit_or_iff eval_nat_numeral)

lemma no_verdict: "\<forall>e\<in>set es. resolved_event e \<Longrightarrow> \<not> blocked_verdict os es old"
  by (auto simp: blocked_verdict_def resolved_event_def)

lemma verdict_of_question:
  assumes "\<forall>e\<in>set es. resolved_event e"
  shows "blocked_verdict os (Is_Domain_Blocked q # es) old \<longleftrightarrow> os_domain_blocked os (es @ old) q"
    and "blocked_verdict os (Log_Packet p # Is_Domain_Blocked q # es) old
      \<longleftrightarrow> os_domain_blocked os (es @ old) q"
  using assms by (auto simp: blocked_verdict_def resolved_event_def Cons_eq_append_conv)

lemma dns_body_cases:
  assumes "dns_body os cfg s data datalen acount w = Some res"
  obtains (same) v where "res = (data, datalen, v)" "extends resolved_event w v"
  | (block) k q t v where "res = dns_block os cfg s data datalen k q t v" "extends resolved_event w v"
proof -
  obtain off n where g: "get_qname data datalen 12 (replicate 256 0) = Some (off, n)"
    using assms by (cases "get_qname data datalen 12 (replicate 256 0)") (auto simp: dns_body_def)
  show thesis
  proof (cases "off > 0 \<and> off + 4 \<le> int datalen")
    case True
    obtain qt where qt: "rd16 data (nat off) = Some qt"
      using assms g True by (cases "rd16 data (nat off)") (auto simp: dns_body_def Let_def)
    obtain qc where qc: "rd16 data (nat off + 2) = Some qc"
      using assms g True qt by (cases "rd16 data (nat off + 2)") (auto simp: dns_body_def Let_def)
    obtain v c where a: "dns_answers acount data datalen (off + 4) (cstr n) n w = Some (v, c)"
      using assms g True qt qc
      by (cases "dns_answers acount data datalen (off + 4) (cstr n) n w") (auto simp: dns_body_def Let_def)
    show ?thesis
      using assms g True qt qc a same [of v] block [of "nat (off + 4)" "cstr n" "ntohs qt" v]
        dns_answers_frame [OF a]
      by (cases c) (simp_all add: dns_body_def Let_def)
  next
    case False
    with assms g same [of w] show ?thesis by (auto simp: dns_body_def)
  qed
qed

lemma parse_dns_response_cases:
  assumes "parse_dns_response os cfg s data datalen w = Some res"
  obtains (same) v where "res = (data, datalen, v)" "extends resolved_event w v"
  | (block) k q t v where "res = dns_block os cfg s data datalen k q t v" "extends resolved_event w v"
      "13 \<le> datalen"
proof -
  have "res = (data, datalen, w) \<or>
    13 \<le> datalen \<and> (\<exists>acount. dns_body os cfg s data datalen acount w = Some res)"
    using assms by (simp add: parse_dns_response_def split: if_splits bind_splits) metis+
  then show thesis by (elim disjE conjE exE dns_body_cases) (use same block in auto)
qed



end
