(* ===== verification/Udp_Write.thy ===== *)
theory Udp_Write
  imports Dns
begin

text \<open>
  \<open>write_udp\<close> of \<open>netguard/udp.c\<close>, which assembles a UDP packet for the tun device, and the DHCP
  responder of \<open>netguard/dhcp.c\<close>, which uses it. The packets are valid and decode to the session's
  values; the responder writes its options far outside its buffer.
\<close>

section \<open>Assembling a packet\<close>

definition udp_hdr_pre :: "udp_session \<Rightarrow> nat \<Rightarrow> bytes" where
  "udp_hdr_pre cur datalen =
     le16b (udp_dest cur) @ le16b (udp_source cur) @ be16b (of_nat (8 + datalen))"

definition udp_pseudo :: "udp_session \<Rightarrow> nat \<Rightarrow> bytes" where
  "udp_pseudo cur len =
     (if udp_version cur = 4 then pseudo4 (udp_daddr cur) (udp_saddr cur) IPPROTO_UDP len
      else pseudo6 (udp_saddr cur) (udp_daddr cur) IPPROTO_UDP len)"

definition udp_segment :: "udp_session \<Rightarrow> bytes \<Rightarrow> bytes" where
  "udp_segment cur data =
     (let hdr = udp_hdr_pre cur (length data);
          csum = calc_checksum 0 (udp_pseudo cur (8 + length data));
          csum = calc_checksum csum (hdr @ [0, 0]);
          csum = calc_checksum csum data
      in hdr @ le16b (NOT csum) @ data)"

definition udp_packet :: "udp_session \<Rightarrow> bytes \<Rightarrow> bytes" where
  "udp_packet cur data =
     (let seg = udp_segment cur data in
      if udp_version cur = 4
      then ip4_build (20 + length seg) IPPROTO_UDP (udp_daddr cur) (udp_saddr cur) @ seg
      else ip6_build (length seg) IPPROTO_UDP (udp_daddr cur) (udp_saddr cur) @ seg)"

definition write_udp :: "os \<Rightarrow> config \<Rightarrow> udp_session \<Rightarrow> bytes \<Rightarrow> world \<Rightarrow> int \<times> world" where
  "write_udp os cfg cur data w = tun_send os cfg (udp_packet cur data) (udp_uid cur) w"

section \<open>DHCP\<close>

text \<open>
  \<open>options\<close> is computed as \<open>response + sizeof(struct dhcp_packet)\<close> on a pointer to
  \<open>struct dhcp_packet\<close>, so it lies \<open>240 * 240\<close> bytes after the start of the 500 byte buffer.
\<close>

definition dhcp_options :: "u32 \<Rightarrow> bytes" where
  "dhcp_options siaddr =
     [53, 1, if siaddr = 0 then 2 else 5] @ [1, 4, 255, 255, 255, 0] @ [3, 4, 10, 1, 10, 1]
       @ [51, 4] @ le32b 3600 @ [54, 4, 10, 1, 10, 1] @ [6, 4, 8, 8, 8, 8] @ [255]"

definition dhcp_reply :: "bytes \<Rightarrow> u32 \<Rightarrow> bytes option" where
  "dhcp_reply request siaddr =
     do {
       response \<leftarrow> wr_bytes (replicate 500 0) 0 request;
       response \<leftarrow> wr_bytes response 0 [if siaddr = 0 then 2 else 4];
       response \<leftarrow> wr_bytes response 8
         ([0, 0, 0, 0] @ [0, 0, 0, 0] @ [10, 1, 10, 2] @ [10, 1, 10, 1] @ [0, 0, 0, 0]);
       wr_bytes response (240 * 240) (dhcp_options siaddr)
     }"

definition check_dhcp ::
  "os \<Rightarrow> config \<Rightarrow> udp_session \<Rightarrow> bytes \<Rightarrow> world \<Rightarrow> (int \<times> udp_session \<times> world) option" where
  "check_dhcp os cfg u data w =
     (if length data < 240 then Some (-1, u, w)
      else do {
        magic \<leftarrow> rd32be data 236;
        htype \<leftarrow> rd8 data 1;
        hlen \<leftarrow> rd8 data 2;
        opcode \<leftarrow> rd8 data 0;
        if magic \<noteq> 0x63825363 then Some (-1, u, w)
        else if htype \<noteq> 1 \<or> hlen \<noteq> 6 then Some (-1, u, w)
        else if opcode = 1 then do {
          let u = u\<lparr>udp_saddr := [10, 1, 10, 1] @ drop 4 (udp_saddr u)\<rparr>;
          request \<leftarrow> rd_bytes data 0 240;
          siaddr \<leftarrow> rd32be data 20;
          response \<leftarrow> dhcp_reply request siaddr;
          let (r, w) = write_udp os cfg u response w;
          Some (0, u, w)
        }
        else Some (0, u, w)
      })"

section \<open>Packets are valid\<close>

lemma length_udp_hdr_pre [simp]: "length (udp_hdr_pre cur n) = 6"
  by (simp add: udp_hdr_pre_def)

lemma length_udp_segment [simp]: "length (udp_segment cur data) = 8 + length data"
  by (simp add: udp_segment_def Let_def)

definition udp_addrs_ok :: "udp_session \<Rightarrow> bool" where
  "udp_addrs_ok u \<longleftrightarrow>
     length (udp_saddr u) = (if udp_version u = 4 then 4 else 16) \<and>
     length (udp_daddr u) = (if udp_version u = 4 then 4 else 16)"

lemma udp_segment_checksum:
  assumes "udp_addrs_ok cur" "length data \<le> 65535"
  shows "calc_checksum 0 (udp_pseudo cur (length (udp_segment cur data)) @ udp_segment cur data) = 0xFFFF"
proof -
  have "length (udp_pseudo cur n) = (if udp_version cur = 4 then 12 else 40)" for n
    using assms(1) by (simp add: udp_pseudo_def udp_addrs_ok_def)
  then show ?thesis
    using segment_checksum [of "udp_pseudo cur (8 + length data)" "udp_hdr_pre cur (length data)" "[]" "[]"
        data "NOT (calc_checksum (calc_checksum (calc_checksum 0 (udp_pseudo cur (8 + length data)))
          (udp_hdr_pre cur (length data) @ [0, 0])) data)"] assms(2)
    unfolding length_udp_segment unfolding udp_segment_def Let_def
    by (simp add: ck.csum_append)
qed

definition udphdr_of :: "udp_session \<Rightarrow> udphdr" where
  "udphdr_of cur = \<lparr>uh_source = udp_dest cur, uh_dest = udp_source cur\<rparr>"

text \<open>
  Every packet \<open>write_udp\<close> assembles is valid and addressed back to the app: the UDP checksum
  over the pseudo header of its IP version and the IPv4 header checksum sum to all ones, and the
  readers of the tun side find the session's addresses and ports with source and destination
  exchanged.
\<close>

theorem udp_packet_valid:
  assumes "udp_addrs_ok cur" "length data \<le> 65535"
  shows "\<exists>ip seg. udp_packet cur data = ip @ seg
     \<and> read_udphdr (udp_packet cur data) (length ip) = Some (udphdr_of cur)
     \<and> pkt_saddr (udp_packet cur data) = udp_daddr cur \<and> pkt_daddr (udp_packet cur data) = udp_saddr cur
     \<and> drop 8 seg = data
     \<and> (udp_version cur = 4 \<longrightarrow> length ip = 20 \<and> calc_checksum 0 ip = 0xFFFF)
     \<and> (udp_version cur \<noteq> 4 \<longrightarrow> length ip = 40)
     \<and> calc_checksum 0 (udp_pseudo cur (length seg) @ seg) = 0xFFFF"
proof -
  let ?seg = "udp_segment cur data"
  define ip where "ip = (if udp_version cur = 4
     then ip4_build (20 + length ?seg) IPPROTO_UDP (udp_daddr cur) (udp_saddr cur)
     else ip6_build (length ?seg) IPPROTO_UDP (udp_daddr cur) (udp_saddr cur))"
  have p: "udp_packet cur data = ip @ ?seg" by (simp add: udp_packet_def ip_def Let_def)
  have l: "length ip = (if udp_version cur = 4 then 20 else 40)"
    using assms by (simp add: ip_def udp_addrs_ok_def)
  have r: "read_udphdr (ip @ ?seg) (length ip) = Some (udphdr_of cur)"
    by (simp add: read_udphdr_def udphdr_of_def nth_append udp_segment_def udp_hdr_pre_def Let_def
        le16b_def del: drop_bit_eq_div)
  have v: "pkt_version (ip @ ?seg) = (if udp_version cur = 4 then 4 else 6)"
    by (simp add: pkt_version_def ip_def ip4_build_def ip4_pre_def ip6_build_def)
  then have a: "pkt_saddr (ip @ ?seg) = udp_daddr cur" "pkt_daddr (ip @ ?seg) = udp_saddr cur"
    using assms
    by (simp_all add: pkt_saddr_def pkt_daddr_def ip_def udp_addrs_ok_def ip4_build_def ip4_pre_def
        ip6_build_def be16b_def le16b_def)
  have d: "drop 8 ?seg = data" by (simp add: udp_segment_def Let_def)
  have c: "udp_version cur = 4 \<Longrightarrow> calc_checksum 0 ip = 0xFFFF"
    using assms(1) by (simp add: ip_def udp_addrs_ok_def ip4_build_checksum)
  show ?thesis
    unfolding p using r a d c l udp_segment_checksum [OF assms]
    by (intro exI [of _ ip] exI [of _ ?seg]) simp
qed

theorem udp_packet_valid_witness:
  "udp_addrs_ok udp_sample \<and> length [1, 2, 3 :: u8] \<le> 65535 \<and>
   (\<exists>ip seg. udp_packet udp_sample [1, 2, 3] = ip @ seg \<and> drop 8 seg = [1, 2, 3] \<and>
      calc_checksum 0 (udp_pseudo udp_sample (length seg) @ seg) = 0xFFFF)"
proof -
  have h: "udp_addrs_ok udp_sample" "length [1, 2, 3 :: u8] \<le> 65535"
    by (simp_all add: udp_addrs_ok_def udp_sample_def)
  from udp_packet_valid [OF h] h show ?thesis by blast
qed

lemma write_udp_frame [frame]: "extends tun_event w (snd (write_udp os cfg cur data w))"
  by (simp add: write_udp_def frame)

section \<open>The DHCP responder\<close>

definition dhcp_request_ok :: "bytes \<Rightarrow> bool" where
  "dhcp_request_ok data \<longleftrightarrow> 240 \<le> length data \<and> data ! 0 = 1 \<and> data ! 1 = 1 \<and> data ! 2 = 6 \<and>
     be32 (data ! 236) (data ! 237) (data ! 238) (data ! 239) = 0x63825363"

lemma dhcp_reply_None: "dhcp_reply request siaddr = None"
  by (simp add: dhcp_reply_def wr_bytes_def dhcp_options_def)

lemma check_dhcp_eq:
  "check_dhcp os cfg u data w =
     (if dhcp_request_ok data then None
      else Some (if 240 \<le> length data \<and> data ! 1 = 1 \<and> data ! 2 = 6 \<and>
          be32 (data ! 236) (data ! 237) (data ! 238) (data ! 239) = 0x63825363 then 0 else -1, u, w))"
proof (cases "length data < 240")
  case False
  then have "240 \<le> length data" "0 < length data" by auto
  then show ?thesis
    by (simp add: check_dhcp_def dhcp_request_ok_def rd_ok Let_def dhcp_reply_None del: length_greater_0_conv)
qed (simp add: check_dhcp_def dhcp_request_ok_def)

text \<open>
  C34: \<open>check_dhcp\<close> answers no request. For every well-formed DHCP request it stores the options
  outside the 500 byte response buffer, which is undefined behaviour; every other packet is left to
  be forwarded or is ignored, without touching the session or sending anything.
\<close>

theorem check_dhcp_overflow:
  "(check_dhcp os cfg u data w = None \<longleftrightarrow> dhcp_request_ok data) \<and>
   (\<not> dhcp_request_ok data \<longrightarrow> (\<exists>r. check_dhcp os cfg u data w = Some (r, u, w)))"
  by (auto simp: check_dhcp_eq)

definition dhcp_sample :: bytes where
  "dhcp_sample = [1, 1, 6] @ replicate 233 0 @ [0x63, 0x82, 0x53, 0x63]"

theorem check_dhcp_overflow_witness:
  "dhcp_request_ok dhcp_sample \<and> check_dhcp os_ok cfg_plain udp_sample dhcp_sample world0 = None \<and>
   \<not> dhcp_request_ok [] \<and> (\<exists>r. check_dhcp os_ok cfg_plain udp_sample [] world0 = Some (r, udp_sample, world0))"
proof -
  have "dhcp_request_ok dhcp_sample" by (simp add: dhcp_request_ok_def dhcp_sample_def nth_append be32_def)
  moreover have "\<not> dhcp_request_ok []" by (simp add: dhcp_request_ok_def)
  ultimately show ?thesis
    using check_dhcp_overflow [of os_ok cfg_plain udp_sample dhcp_sample world0]
      check_dhcp_overflow [of os_ok cfg_plain udp_sample "[]" world0] by blast
qed

lemma check_dhcp_session:
  "check_dhcp os cfg u data w = Some (r, u', w') \<Longrightarrow> u' = u \<and> w' = w"
  by (auto simp: check_dhcp_eq split: if_splits)

end
