(* ===== verification/Session_Check.thy ===== *)
theory Session_Check
  imports Headers Upcalls "HOL-Library.Multiset"
begin

text \<open>
  What the three protocols have in common. The idle timeouts all shrink with the number of sessions
  by the same integer formula, and \<open>handle_events\<close> walks its session list calling one of
  \<open>check_icmp_session\<close>, \<open>check_udp_session\<close> and \<open>check_tcp_session\<close> on every node and removes the
  nodes for which the answer is not zero. The locale \<open>checked_session\<close> states what the walk relies
  on; the protocols' theories interpret it.
\<close>

section \<open>Timeouts\<close>

text \<open>\<open>timeout * (100 - sessions * 100 / maxsessions) / 100\<close> with C's division, which truncates.\<close>

definition scaled_timeout :: "int \<Rightarrow> int \<Rightarrow> int \<Rightarrow> int" where
  "scaled_timeout timeout sessions maxsessions =
     (let scale = 100 - (sessions * 100) sdiv maxsessions in (timeout * scale) sdiv 100)"

lemma sdiv_nonneg: "0 \<le> a \<Longrightarrow> 0 < b \<Longrightarrow> a sdiv b = (a::int) div b"
  by (simp add: signed_divide_int_def sgn_if)

lemma scale_range:
  fixes s m :: int
  assumes "0 \<le> s" "s \<le> m" "0 < m"
  shows "0 \<le> 100 - (s * 100) sdiv m" "100 - (s * 100) sdiv m \<le> 100"
proof -
  have "s * 100 div m \<le> 100" using assms zdiv_mono1 [of "s * 100" "100 * m" m] by simp
  moreover have "0 \<le> s * 100 div m" using assms by (simp add: pos_imp_zdiv_nonneg_iff)
  ultimately show "0 \<le> 100 - (s * 100) sdiv m" "100 - (s * 100) sdiv m \<le> 100"
    using assms by (simp_all add: sdiv_nonneg)
qed

lemma scaled_timeout_range:
  assumes "0 \<le> t" "0 \<le> s" "s \<le> m" "0 < m"
  shows "0 \<le> scaled_timeout t s m" "scaled_timeout t s m \<le> t"
proof -
  let ?k = "100 - (s * 100) sdiv m"
  have k: "0 \<le> ?k" "?k \<le> 100" using scale_range [OF assms(2-4)] by simp_all
  have d: "scaled_timeout t s m = t * ?k div 100"
    using assms(1) k(1) by (simp add: scaled_timeout_def Let_def sdiv_nonneg)
  show "0 \<le> scaled_timeout t s m" using assms(1) k(1) d by (simp add: pos_imp_zdiv_nonneg_iff)
  have "t * ?k \<le> t * 100" by (rule mult_left_mono) (use k assms(1) in simp_all)
  then have "t * ?k div 100 \<le> t * 100 div 100" by (rule zdiv_mono1) simp
  then show "scaled_timeout t s m \<le> t" using d by simp
qed

lemma scaled_timeout_antimono:
  assumes "0 \<le> t" "0 \<le> s" "s \<le> s'" "s' \<le> m" "0 < m"
  shows "scaled_timeout t s' m \<le> scaled_timeout t s m"
proof -
  have "s * 100 div m \<le> s' * 100 div m" by (rule zdiv_mono1) (use assms in simp_all)
  then have "100 - (s' * 100) sdiv m \<le> 100 - (s * 100) sdiv m"
    using assms by (simp add: sdiv_nonneg)
  then have "t * (100 - (s' * 100) sdiv m) \<le> t * (100 - (s * 100) sdiv m)"
    using assms(1) by (rule mult_left_mono)
  moreover have "0 \<le> t * (100 - (s' * 100) sdiv m)"
    using assms scale_range(1) [of s' m] by simp
  ultimately show ?thesis
    by (simp add: scaled_timeout_def Let_def sdiv_nonneg zdiv_mono1)
qed

section \<open>Sockets in the trace\<close>

text \<open>The descriptors closed, newest first.\<close>

fun closes :: "event list \<Rightarrow> int list" where
  "closes [] = []"
| "closes (e # es) = (case e of Close s \<Rightarrow> s # closes es | _ \<Rightarrow> closes es)"

lemma closes_append: "closes (xs @ ys) = closes xs @ closes ys"
  by (induction xs) (auto split: event.split)

lemma closes_frame: "extends P w w' \<Longrightarrow> (\<And>s. \<not> P (Close s)) \<Longrightarrow> closes (trace w') = closes (trace w)"
proof -
  assume p: "\<And>s. \<not> P (Close s)"
  have "\<forall>e\<in>set es. P e \<Longrightarrow> closes (es @ tr) = closes tr" for es tr
    using p by (induction es) (auto split: event.split)
  then show "extends P w w' \<Longrightarrow> ?thesis" by (auto simp: extends_def)
qed

lemma closes_tun: "extends tun_event w w' \<Longrightarrow> closes (trace w') = closes (trace w)"
  by (erule closes_frame) (simp add: tun_event_def)

section \<open>The contract of a session check\<close>

text \<open>
  A check may close the socket of its session, and only that, and only if it was open; a session
  it gives up has no open socket any more; a session it keeps stays well formed.
\<close>

locale checked_session =
  fixes check :: "'s \<Rightarrow> world \<Rightarrow> bool \<times> 's \<times> world" and sock :: "'s \<Rightarrow> int" and ptr :: "'s \<Rightarrow> nat"
    and ok :: "'s \<Rightarrow> bool"
  assumes check_ok: "ok s \<Longrightarrow> check s w = (False, s', w') \<Longrightarrow> ok s'"
    and check_ptr: "ok s \<Longrightarrow> check s w = (del, s', w') \<Longrightarrow> ptr s' = ptr s"
    and check_del: "ok s \<Longrightarrow> check s w = (True, s', w') \<Longrightarrow> sock s' < 0"
    and check_sock: "ok s \<Longrightarrow> check s w = (del, s', w') \<Longrightarrow>
       sock s' = sock s \<and> closes (trace w') = closes (trace w) \<or>
       0 \<le> sock s \<and> sock s' = -1 \<and> closes (trace w') = sock s # closes (trace w)"
begin

fun check_all :: "'s list \<Rightarrow> world \<Rightarrow> 's list \<times> world" where
  "check_all [] w = ([], w)"
| "check_all (s # ss) w =
     (let (del, s', w) = check s w; (ss', w) = check_all ss w
      in (if del then ss' else s' # ss', w))"

lemma check_all_ok:
  assumes "\<forall>s\<in>set ss. ok s" "check_all ss w = (ss', w')"
  shows "\<forall>s\<in>set ss'. ok s"
  using assms
proof (induction ss arbitrary: w ss' w')
  case (Cons s ss)
  obtain del s1 w1 where c: "check s w = (del, s1, w1)" by (cases "check s w") auto
  obtain ss1 w2 where r: "check_all ss w1 = (ss1, w2)" by fastforce
  have "\<forall>s\<in>set ss1. ok s" using Cons.IH [OF _ r] Cons.prems(1) by simp
  with Cons.prems c r check_ok [of s w s1 w1] show ?case by (auto split: if_splits)
qed simp

text \<open>
  After a walk the open sockets of the remaining sessions and the sockets that were closed are
  together the sockets that were open before: none is lost and none is closed twice.
\<close>

definition open_socks :: "'s list \<Rightarrow> int list" where
  "open_socks ss = filter (\<lambda>s. 0 \<le> s) (map sock ss)"

lemma check_all_sockets:
  assumes "\<forall>s\<in>set ss. ok s" "check_all ss w = (ss', w')"
  shows "\<exists>cl. closes (trace w') = cl @ closes (trace w) \<and>
    mset cl + mset (open_socks ss') = mset (open_socks ss)"
  using assms
proof (induction ss arbitrary: w ss' w')
  case (Cons s ss)
  obtain del s1 w1 where c: "check s w = (del, s1, w1)" by (cases "check s w") auto
  obtain ss1 w2 where r: "check_all ss w1 = (ss1, w2)" by fastforce
  from Cons.prems c r have e: "w' = w2" "ss' = (if del then ss1 else s1 # ss1)" by auto
  have "\<forall>s\<in>set ss. ok s" "ok s" using Cons.prems(1) by auto
  from Cons.IH [OF this(1) r] obtain cl where
    cl: "closes (trace w2) = cl @ closes (trace w1)"
      "mset cl + mset (open_socks ss1) = mset (open_socks ss)" by blast
  from check_sock [OF \<open>ok s\<close> c] show ?case
  proof (elim disjE conjE)
    assume a: "sock s1 = sock s" "closes (trace w1) = closes (trace w)"
    have "del \<Longrightarrow> sock s < 0" using check_del [OF \<open>ok s\<close>, of w s1 w1] c a(1) by simp
    with a cl e show ?thesis
      by (intro exI [of _ cl]) (auto simp: open_socks_def)
  next
    assume a: "0 \<le> sock s" "sock s1 = -1" "closes (trace w1) = sock s # closes (trace w)"
    with cl e show ?thesis
      by (intro exI [of _ "cl @ [sock s]"]) (auto simp: open_socks_def)
  qed
qed (simp add: open_socks_def)

end

subsection \<open>Sessions that account their traffic\<close>

text \<open>The bytes reported to the service so far, modulo \<open>2^64\<close> like the counters.\<close>

fun rep_sent :: "event list \<Rightarrow> u64" where
  "rep_sent [] = 0"
| "rep_sent (e # es) = (case e of Account_Usage v p d dp u s r \<Rightarrow> s + rep_sent es | _ \<Rightarrow> rep_sent es)"

fun rep_received :: "event list \<Rightarrow> u64" where
  "rep_received [] = 0"
| "rep_received (e # es) =
     (case e of Account_Usage v p d dp u s r \<Rightarrow> r + rep_received es | _ \<Rightarrow> rep_received es)"

lemma rep_tun:
  assumes "extends tun_event w w'"
  shows "rep_sent (trace w') = rep_sent (trace w)" "rep_received (trace w') = rep_received (trace w)"
proof -
  have "\<forall>e\<in>set es. tun_event e \<Longrightarrow> rep_sent (es @ tr) = rep_sent tr \<and> rep_received (es @ tr) = rep_received tr"
    for es tr
    by (induction es) (auto simp: tun_event_def split: event.splits)
  with assms show "rep_sent (trace w') = rep_sent (trace w)"
    "rep_received (trace w') = rep_received (trace w)"
    by (auto simp: extends_def)
qed

locale accounted_session = checked_session +
  fixes sent :: "'a \<Rightarrow> u64" and received :: "'a \<Rightarrow> u64"
  assumes check_sent: "ok s \<Longrightarrow> check s w = (del, s', w') \<Longrightarrow>
       rep_sent (trace w') + sent s' = rep_sent (trace w) + sent s"
    and check_received: "ok s \<Longrightarrow> check s w = (del, s', w') \<Longrightarrow>
       rep_received (trace w') + received s' = rep_received (trace w) + received s"
    and check_del_sent: "ok s \<Longrightarrow> check s w = (True, s', w') \<Longrightarrow> sent s' = 0 \<and> received s' = 0"
begin

text \<open>No byte is left out of the reports when sessions are removed, and none is reported twice.\<close>

lemma check_all_traffic:
  assumes "\<forall>s\<in>set ss. ok s" "check_all ss w = (ss', w')"
  shows "rep_sent (trace w') + sum_list (map sent ss') = rep_sent (trace w) + sum_list (map sent ss)
    \<and> rep_received (trace w') + sum_list (map received ss')
        = rep_received (trace w) + sum_list (map received ss)"
  using assms
proof (induction ss arbitrary: w ss' w')
  case (Cons s ss)
  obtain del s1 w1 where c: "check s w = (del, s1, w1)" by (cases "check s w") auto
  obtain ss1 w2 where r: "check_all ss w1 = (ss1, w2)" by fastforce
  have ok: "ok s" "\<forall>s\<in>set ss. ok s" using Cons.prems(1) by auto
  note one = check_sent [OF ok(1) c] check_received [OF ok(1) c]
  have del: "del \<Longrightarrow> sent s1 = 0 \<and> received s1 = 0" using check_del_sent [of s w s1 w1] c ok by simp
  from Cons.IH [OF ok(2) r] one del Cons.prems(2) c r show ?case
    by (auto simp: algebra_simps)
qed simp

end

section \<open>The session list\<close>

text \<open>\<open>malloc\<close> returns a fresh node, which becomes the first of the list.\<close>

definition push_session :: "ng_session \<Rightarrow> ng_context \<Rightarrow> ng_context" where
  "push_session s ctx = ctx\<lparr>ctx_sessions := s # ctx_sessions ctx, ctx_next := ctx_next ctx + 1\<rparr>"

text \<open>The in-place update of a node, found by its address.\<close>

definition put_session :: "ng_session \<Rightarrow> ng_context \<Rightarrow> ng_context" where
  "put_session s ctx =
     ctx\<lparr>ctx_sessions := update_first (\<lambda>x. ng_ptr x = ng_ptr s) (\<lambda>_. s) (ctx_sessions ctx)\<rparr>"

subsection \<open>Its invariant\<close>

text \<open>
  Which states go with an open socket. A UDP session has one until it is closed; a TCP session has
  one while data can still come from the remote side, has none after the socket reported its end or
  after it was closed, and may have either while closing. No other TCP state occurs.
\<close>

definition icmp_ok :: "icmp_session \<Rightarrow> bool" where
  "icmp_ok i \<longleftrightarrow> 0 \<le> icmp_socket i"

definition udp_ok :: "udp_session \<Rightarrow> bool" where
  "udp_ok u \<longleftrightarrow> (case udp_state u of
       UDP_ACTIVE \<Rightarrow> 0 \<le> udp_socket u | UDP_FINISHING \<Rightarrow> 0 \<le> udp_socket u
     | UDP_CLOSED \<Rightarrow> udp_socket u = -1 | UDP_BLOCKED \<Rightarrow> udp_socket u = -1)"

definition tcp_sock_ok :: "tcp_state \<Rightarrow> int \<Rightarrow> bool" where
  "tcp_sock_ok state sock \<longleftrightarrow> (case state of
       TCP_LISTEN \<Rightarrow> 0 \<le> sock | TCP_SYN_RECV \<Rightarrow> 0 \<le> sock
     | TCP_ESTABLISHED \<Rightarrow> 0 \<le> sock | TCP_CLOSE_WAIT \<Rightarrow> 0 \<le> sock
     | TCP_FIN_WAIT1 \<Rightarrow> sock = -1 | TCP_LAST_ACK \<Rightarrow> sock = -1
     | TCP_CLOSE \<Rightarrow> sock = -1 | TCP_CLOSING \<Rightarrow> -1 \<le> sock | _ \<Rightarrow> False)"

definition tcp_ok :: "tcp_session \<Rightarrow> bool" where
  "tcp_ok t \<longleftrightarrow> tcp_sock_ok (tcp_state t) (tcp_socket t)"

lemma tcp_sock_ok_simps [simp]:
  "tcp_sock_ok TCP_LISTEN sock \<longleftrightarrow> 0 \<le> sock" "tcp_sock_ok TCP_SYN_RECV sock \<longleftrightarrow> 0 \<le> sock"
  "tcp_sock_ok TCP_ESTABLISHED sock \<longleftrightarrow> 0 \<le> sock" "tcp_sock_ok TCP_CLOSE_WAIT sock \<longleftrightarrow> 0 \<le> sock"
  "tcp_sock_ok TCP_FIN_WAIT1 sock \<longleftrightarrow> sock = -1" "tcp_sock_ok TCP_LAST_ACK sock \<longleftrightarrow> sock = -1"
  "tcp_sock_ok TCP_CLOSE sock \<longleftrightarrow> sock = -1" "tcp_sock_ok TCP_CLOSING sock \<longleftrightarrow> -1 \<le> sock"
  by (simp_all add: tcp_sock_ok_def)

lemma tcp_sock_ok_range: "tcp_sock_ok state sock \<Longrightarrow> -1 \<le> sock"
  by (auto simp: tcp_sock_ok_def split: tcp_state.splits)

fun ng_ok :: "ng_session \<Rightarrow> bool" where
  "ng_ok (Icmp i) = icmp_ok i"
| "ng_ok (Udp u) = udp_ok u"
| "ng_ok (Tcp t) = tcp_ok t"

definition ctx_ok :: "ng_context \<Rightarrow> bool" where
  "ctx_ok ctx \<longleftrightarrow> distinct (map ng_ptr (ctx_sessions ctx)) \<and>
     (\<forall>s\<in>set (ctx_sessions ctx). ng_ok s \<and> ng_ptr s < ctx_next ctx)"

lemma ctx_ok_push:
  "ctx_ok ctx \<Longrightarrow> ng_ok s \<Longrightarrow> ng_ptr s = ctx_next ctx \<Longrightarrow> ctx_ok (push_session s ctx)"
  by (auto simp: ctx_ok_def push_session_def)

lemma ctx_ok_next: "ctx_ok ctx \<Longrightarrow> ctx_ok (ctx\<lparr>ctx_next := Suc (ctx_next ctx)\<rparr>)"
  by (auto simp: ctx_ok_def)

lemma ctx_ok_put: "ctx_ok ctx \<Longrightarrow> ng_ok s \<Longrightarrow> ctx_ok (put_session s ctx)"
proof -
  assume c: "ctx_ok ctx" and s: "ng_ok s"
  have "map ng_ptr (ctx_sessions (put_session s ctx)) = map ng_ptr (ctx_sessions ctx)"
    unfolding put_session_def by (simp, rule map_update_first) simp
  moreover have "\<forall>x\<in>set (ctx_sessions (put_session s ctx)). ng_ok x \<and> ng_ptr x < ctx_next ctx"
    unfolding put_session_def
    by (simp, rule update_first_preserves) (use c s in \<open>auto simp: ctx_ok_def\<close>)
  ultimately show ?thesis using c by (auto simp: ctx_ok_def put_session_def)
qed

lemma ctx_ok_find: "ctx_ok ctx \<Longrightarrow> find P (ctx_sessions ctx) = Some s \<Longrightarrow> ng_ok s \<and> P s"
  by (auto simp: ctx_ok_def dest: find_in_set)

subsection \<open>Growth\<close>

text \<open>
  Handling a packet may add sessions at the front and change the others in place, but it neither
  removes a session nor changes its socket.
\<close>

definition ends :: "ng_context \<Rightarrow> (nat \<times> int) list" where
  "ends ctx = map (\<lambda>s. (ng_ptr s, ng_socket s)) (ctx_sessions ctx)"

definition grows :: "ng_context \<Rightarrow> ng_context \<Rightarrow> bool" where
  "grows ctx ctx' \<longleftrightarrow> ctx_ok ctx' \<and> (\<exists>new. ends ctx' = new @ ends ctx)"

lemma grows_ok: "grows ctx ctx' \<Longrightarrow> ctx_ok ctx'"
  by (simp add: grows_def)

lemma grows_refl [simp]: "grows ctx ctx \<longleftrightarrow> ctx_ok ctx"
  by (auto simp: grows_def)

lemma grows_trans: "grows ctx ctx' \<Longrightarrow> grows ctx' ctx'' \<Longrightarrow> grows ctx ctx''"
  by (auto simp: grows_def)

lemma grows_push:
  "ctx_ok ctx \<Longrightarrow> ng_ok s \<Longrightarrow> ng_ptr s = ctx_next ctx \<Longrightarrow> grows ctx (push_session s ctx)"
  using ctx_ok_push by (auto simp: grows_def ends_def push_session_def)

lemma grows_next: "ctx_ok ctx \<Longrightarrow> grows ctx (ctx\<lparr>ctx_next := Suc (ctx_next ctx)\<rparr>)"
  using ctx_ok_next by (auto simp: grows_def ends_def)

lemma set_ends_push [simp]: "set (ends (push_session s ctx)) = insert (ng_ptr s, ng_socket s) (set (ends ctx))"
  by (simp add: ends_def push_session_def)

lemma ends_find: "find P (ctx_sessions ctx) = Some s \<Longrightarrow> (ng_ptr s, ng_socket s) \<in> set (ends ctx)"
  by (auto simp: ends_def dest: find_in_set)

lemma ends_put:
  assumes "ctx_ok ctx" "(ng_ptr s, ng_socket s) \<in> set (ends ctx)"
  shows "ends (put_session s ctx) = ends ctx"
proof -
  from assms(2) obtain y where y: "y \<in> set (ctx_sessions ctx)" "ng_ptr y = ng_ptr s" "ng_socket y = ng_socket s"
    by (auto simp: ends_def)
  have "x = y" if "x \<in> set (ctx_sessions ctx)" "ng_ptr x = ng_ptr s" for x
    using assms(1) that y(1,2) inj_onD [of ng_ptr "set (ctx_sessions ctx)" x y]
    by (simp add: ctx_ok_def distinct_map)
  then show ?thesis
    unfolding ends_def put_session_def using y(3) by (simp, intro map_update_first) auto
qed

lemma grows_put:
  "ctx_ok ctx \<Longrightarrow> ng_ok s \<Longrightarrow> (ng_ptr s, ng_socket s) \<in> set (ends ctx) \<Longrightarrow> grows ctx (put_session s ctx)"
  by (simp add: grows_def ctx_ok_put ends_put)

section \<open>Shared by the handlers\<close>

definition redirect_version :: "allowed option \<Rightarrow> nat \<Rightarrow> nat" where
  "redirect_version redirect version = (case redirect of
       None \<Rightarrow> version
     | Some r \<Rightarrow> if CHR '':'' \<in> set (raddr r) then 6 else 4)"

text \<open>
  \<open>datalen\<close> is an unsigned difference: for a packet shorter than its headers it wraps around and
  the data reaches outside the buffer.
\<close>

definition payload_data :: "bytes \<Rightarrow> nat \<Rightarrow> nat \<Rightarrow> bytes option" where
  "payload_data pkt len off = rd_bytes pkt off (unat (of_nat len - of_nat off :: u64))"

end
