(* ===== verification/Udp.thy ===== *)
theory Udp
  imports Udp_Write Session_Check
begin

text \<open>
  The UDP sessions of \<open>netguard/udp.c\<close>: their timeout and life cycle (\<open>check_udp_session\<close>), data
  from the socket (\<open>check_udp_socket\<close>), and packets from the tun device (\<open>has_udp_session\<close>,
  \<open>block_udp\<close>, \<open>handle_udp\<close>, \<open>open_udp_socket\<close>). Packets are given as the whole read buffer, the
  length of the packet in it and the offset of the UDP header.
\<close>

section \<open>Life cycle\<close>

definition get_udp_timeout :: "udp_session \<Rightarrow> int \<Rightarrow> int \<Rightarrow> int" where
  "get_udp_timeout u sessions maxsessions =
     scaled_timeout (if ntohs (udp_dest u) = 53 then UDP_TIMEOUT_53 else UDP_TIMEOUT_ANY)
       sessions maxsessions"

definition udp_finish :: "os \<Rightarrow> udp_session \<Rightarrow> world \<Rightarrow> udp_session \<times> world" where
  "udp_finish os s w =
     (let w = emit (Close (udp_socket s)) w; (t, w) = sys_time os w
      in (s\<lparr>udp_socket := -1, udp_time := t, udp_state := UDP_CLOSED\<rparr>, w))"

definition udp_account :: "udp_session \<Rightarrow> world \<Rightarrow> udp_session \<times> world" where
  "udp_account s w =
     (s\<lparr>udp_sent := 0, udp_received := 0\<rparr>,
      account_usage (udp_version s) IPPROTO_UDP (udp_daddr s) (ntohs (udp_dest s)) (udp_uid s)
        (udp_sent s) (udp_received s) w)"

definition check_udp_session ::
  "os \<Rightarrow> int \<Rightarrow> int \<Rightarrow> udp_session \<Rightarrow> world \<Rightarrow> bool \<times> udp_session \<times> world" where
  "check_udp_session os sessions maxsessions s w =
     (let (now, w) = sys_time os w;
          timeout = get_udp_timeout s sessions maxsessions;
          s = (if udp_state s = UDP_ACTIVE \<and> udp_time s + timeout < now
               then s\<lparr>udp_state := UDP_FINISHING\<rparr> else s);
          (s, w) = (if udp_state s = UDP_FINISHING then udp_finish os s w else (s, w));
          (s, w) = (if udp_state s = UDP_CLOSED \<and> (udp_sent s \<noteq> 0 \<or> udp_received s \<noteq> 0)
                    then udp_account s w else (s, w))
      in ((udp_state s = UDP_CLOSED \<or> udp_state s = UDP_BLOCKED) \<and> udp_time s + UDP_KEEP_TIMEOUT < now,
          s, w))"

section \<open>Data from the socket\<close>

definition udp_received_data ::
  "os \<Rightarrow> config \<Rightarrow> udp_session \<Rightarrow> bytes \<Rightarrow> world \<Rightarrow> (udp_session \<times> world) option" where
  "udp_received_data os cfg s buffer w =
     (let s = s\<lparr>udp_received := udp_received s + of_nat (length buffer)\<rparr> in
      do {
        (buffer, bytes, w) \<leftarrow>
          (if ntohs (udp_dest s) = 53
           then parse_dns_response os cfg (Udp s) buffer (length buffer) w
           else Some (buffer, length buffer, w));
        let (r, w) = write_udp os cfg s (take bytes buffer) w;
        Some (if r < 0 \<or> ntohs (udp_dest s) = 53 then s\<lparr>udp_state := UDP_FINISHING\<rparr> else s, w)
      })"

definition check_udp_socket ::
  "os \<Rightarrow> config \<Rightarrow> epoll_events \<Rightarrow> udp_session \<Rightarrow> world \<Rightarrow> (udp_session \<times> world) option" where
  "check_udp_socket os cfg ev s w =
     (if ep_err ev then
        let (t, w) = sys_time os w in Some (s\<lparr>udp_time := t, udp_state := UDP_FINISHING\<rparr>, w)
      else if ep_in ev then
        let (t, w) = sys_time os w;
            s = s\<lparr>udp_time := t\<rparr>;
            r = os_recv os (trace w) (udp_socket s) (unat (udp_mss s));
            w = emit (Recv (udp_socket s) (unat (udp_mss s))) w in
        case r of
          Recv_Error errno \<Rightarrow>
            Some (if errno \<noteq> EINTR \<and> errno \<noteq> EAGAIN then s\<lparr>udp_state := UDP_FINISHING\<rparr> else s, w)
        | Recv_Data buffer \<Rightarrow>
            if buffer = [] then Some (s\<lparr>udp_state := UDP_FINISHING\<rparr>, w)
            else udp_received_data os cfg s buffer w
      else Some (s, w))"

section \<open>Packets from the tun device\<close>

fun udp_match :: "bytes \<Rightarrow> udphdr \<Rightarrow> ng_session \<Rightarrow> bool" where
  "udp_match pkt udphdr (Udp u) \<longleftrightarrow>
     udp_version u = pkt_version pkt \<and>
     udp_source u = uh_source udphdr \<and> udp_dest u = uh_dest udphdr \<and>
     udp_saddr u = pkt_saddr pkt \<and> udp_daddr u = pkt_daddr pkt"
| "udp_match pkt udphdr (Tcp t) \<longleftrightarrow> False"
| "udp_match pkt udphdr (Icmp i) \<longleftrightarrow> False"

definition has_udp_session :: "config \<Rightarrow> ng_context \<Rightarrow> bytes \<Rightarrow> udphdr \<Rightarrow> bool" where
  "has_udp_session cfg ctx pkt udphdr \<longleftrightarrow>
     ntohs (uh_dest udphdr) = 53 \<and> \<not> cfg_fwd53 cfg \<or>
     find (udp_match pkt udphdr) (ctx_sessions ctx) \<noteq> None"

text \<open>The fields \<open>block_udp\<close> does not set are never read.\<close>

definition new_udp :: "ng_context \<Rightarrow> bytes \<Rightarrow> udphdr \<Rightarrow> int \<Rightarrow> int \<Rightarrow> udp_session" where
  "new_udp ctx pkt udphdr uid time =
     \<lparr>udp_ptr = ctx_next ctx, udp_time = time, udp_uid = uid, udp_version = pkt_version pkt,
      udp_mss = 0, udp_sent = 0, udp_received = 0, udp_saddr = pkt_saddr pkt,
      udp_source = uh_source udphdr, udp_daddr = pkt_daddr pkt, udp_dest = uh_dest udphdr,
      udp_state = UDP_ACTIVE, udp_socket = -1\<rparr>"

definition block_udp ::
  "os \<Rightarrow> ng_context \<Rightarrow> bytes \<Rightarrow> udphdr \<Rightarrow> int \<Rightarrow> world \<Rightarrow> ng_context \<times> world" where
  "block_udp os ctx pkt udphdr uid w =
     (let (t, w) = sys_time os w
      in (push_session (Udp ((new_udp ctx pkt udphdr uid t)\<lparr>udp_state := UDP_BLOCKED\<rparr>)) ctx, w))"

definition udp_multicast :: "udp_session \<Rightarrow> int \<Rightarrow> world \<Rightarrow> world" where
  "udp_multicast cur sock w =
     (if udp_version cur = 4 then
        (if udp_daddr cur = [255, 255, 255, 255] then emit (Set_Option sock) w else w)
      else if take 1 (udp_daddr cur) = [0xFF] then
        emit (Set_Option sock) (emit (Set_Option sock) (emit (Set_Option sock) w))
      else w)"

definition open_udp_socket ::
  "os \<Rightarrow> udp_session \<Rightarrow> allowed option \<Rightarrow> world \<Rightarrow> int \<times> world" where
  "open_udp_socket os cur redirect w =
     (let version = redirect_version redirect (udp_version cur);
          sock = os_socket os (trace w) version;
          w = emit (Open_Socket version sock) w in
      if sock < 0 then (-1, w)
      else
        let (r, w) = protect_socket os sock w in
        if r < 0 then (-1, w) else (sock, udp_multicast cur sock w))"

definition udp_epoll :: epoll_events where
  "udp_epoll = \<lparr>ep_in = True, ep_out = False, ep_err = True\<rparr>"

definition udp_new_session ::
  "os \<Rightarrow> ng_context \<Rightarrow> bytes \<Rightarrow> udphdr \<Rightarrow> int \<Rightarrow> allowed option \<Rightarrow> world \<Rightarrow>
   udp_session option \<times> ng_context \<times> world" where
  "udp_new_session os ctx pkt udphdr uid redirect w =
     (let (t, w) = sys_time os w;
          s = new_udp ctx pkt udphdr uid t;
          rversion = redirect_version redirect (udp_version s);
          s = s\<lparr>udp_mss := of_nat (if rversion = 4 then UDP4_MAXMSG else UDP6_MAXMSG)\<rparr>;
          (sock, w) = open_udp_socket os s redirect w in
      if sock < 0 then (None, ctx\<lparr>ctx_next := ctx_next ctx + 1\<rparr>, w)
      else
        let s = s\<lparr>udp_socket := sock\<rparr>
        in (Some s, push_session (Udp s) ctx, emit (Epoll_Add sock udp_epoll) w))"

definition udp_target :: "udp_session \<Rightarrow> allowed option \<Rightarrow> target" where
  "udp_target cur redirect = (case redirect of
       None \<Rightarrow> Target_Addr (udp_daddr cur) (udp_dest cur)
     | Some r \<Rightarrow> Target_Text (raddr r) (ntohs (rport r)))"

definition udp_forward ::
  "os \<Rightarrow> config \<Rightarrow> bytes \<Rightarrow> nat \<Rightarrow> bytes \<Rightarrow> allowed option \<Rightarrow> udp_session \<Rightarrow> world \<Rightarrow>
   bool \<times> udp_session \<times> world" where
  "udp_forward os cfg pkt len data redirect cur w =
     (let (t, w) = sys_time os w;
          cur = cur\<lparr>udp_time := t\<rparr>;
          target = udp_target cur redirect;
          (r, errno) = os_sendto os (trace w) (udp_socket cur) data target;
          w = emit (Send_To (udp_socket cur) data target r) w in
      if r \<noteq> int (length data) then
        if errno \<noteq> EINTR \<and> errno \<noteq> EAGAIN then (False, cur\<lparr>udp_state := UDP_FINISHING\<rparr>, w)
        else (True, cur, w)
      else (True, cur\<lparr>udp_sent := udp_sent cur + of_nat (length data)\<rparr>,
            write_pcap_rec os cfg (take len pkt) (udp_uid cur) w))"

definition handle_udp ::
  "os \<Rightarrow> config \<Rightarrow> ng_context \<Rightarrow> bytes \<Rightarrow> nat \<Rightarrow> nat \<Rightarrow> int \<Rightarrow> allowed option \<Rightarrow> world \<Rightarrow>
   (bool \<times> ng_context \<times> world) option" where
  "handle_udp os cfg ctx pkt len payload uid redirect w =
     do {
       udphdr \<leftarrow> read_udphdr pkt payload;
       let (cur, ctx, w) = (case find (udp_match pkt udphdr) (ctx_sessions ctx) of
           Some (Udp u) \<Rightarrow> (if udp_state u = UDP_ACTIVE then Some u else None, ctx, w)
         | _ \<Rightarrow> udp_new_session os ctx pkt udphdr uid redirect w);
       case cur of
         None \<Rightarrow> Some (False, ctx, w)
       | Some cur \<Rightarrow>
           do {
             data \<leftarrow> payload_data pkt len (payload + 8);
             (dhcp, cur, w) \<leftarrow>
               (if ntohs (uh_source udphdr) = 68 \<or> ntohs (uh_dest udphdr) = 67
                then check_dhcp os cfg cur data w else Some (-1, cur, w));
             if dhcp \<ge> 0 then Some (True, put_session (Udp cur) ctx, w)
             else
               let (res, cur, w) = udp_forward os cfg pkt len data redirect cur w
               in Some (res, put_session (Udp cur) ctx, w)
           }
     }"

section \<open>The life cycle keeps the contract\<close>

lemma get_udp_timeout_range:
  assumes "0 \<le> sessions" "sessions \<le> maxsessions" "0 < maxsessions"
  shows "0 \<le> get_udp_timeout u sessions maxsessions" "get_udp_timeout u sessions maxsessions \<le> 300"
  using scaled_timeout_range [OF _ assms, of UDP_TIMEOUT_53] scaled_timeout_range [OF _ assms, of UDP_TIMEOUT_ANY]
  by (simp_all add: get_udp_timeout_def)

text \<open>
  The check of one session, with every intermediate value written out: an idle or finishing session
  is closed, and a closed one has its traffic reported.
\<close>

lemma udp_closing:
  assumes "check_udp_session os sessions maxsessions s w = (del, s', w')"
    and "udp_state s = UDP_FINISHING \<or> udp_state s = UDP_ACTIVE \<and>
      udp_time s + get_udp_timeout s sessions maxsessions < os_time os (trace w)"
    and "w1 = emit (Close (udp_socket s)) (emit (Time (os_time os (trace w))) w)"
    and "w2 = emit (Time (os_time os (trace w1))) w1"
  shows "udp_state s' = UDP_CLOSED \<and> udp_socket s' = -1 \<and> udp_ptr s' = udp_ptr s \<and>
    udp_sent s' = 0 \<and> udp_received s' = 0 \<and>
    w' = (if udp_sent s = 0 \<and> udp_received s = 0 then w2 else snd (udp_account s w2))"
  using assms
  by (cases "udp_sent s = 0 \<and> udp_received s = 0")
    (auto simp: check_udp_session_def Let_def sys_time_def udp_finish_def udp_account_def
      account_usage_def)

lemma check_udp_session_cases:
  assumes c: "check_udp_session os sessions maxsessions s w = (del, s', w')"
  obtains
    (keep) "udp_state s \<noteq> UDP_FINISHING" "udp_state s = UDP_CLOSED \<Longrightarrow> udp_sent s = 0 \<and> udp_received s = 0"
      "s' = s" "w' = emit (Time (os_time os (trace w))) w" "del \<Longrightarrow> udp_state s \<noteq> UDP_ACTIVE"
  | (report) "udp_state s = UDP_CLOSED" "s' = s\<lparr>udp_sent := 0, udp_received := 0\<rparr>"
      "w' = snd (udp_account s (emit (Time (os_time os (trace w))) w))"
  | (closed) t1 t2 w2 where "udp_state s = UDP_ACTIVE \<or> udp_state s = UDP_FINISHING"
      "w2 = emit (Time t2) (emit (Close (udp_socket s)) (emit (Time t1) w))"
      "udp_state s' = UDP_CLOSED" "udp_socket s' = -1" "udp_ptr s' = udp_ptr s"
      "udp_sent s' = 0" "udp_received s' = 0"
      "w' = (if udp_sent s = 0 \<and> udp_received s = 0 then w2 else snd (udp_account s w2))"
proof (cases "udp_state s = UDP_FINISHING \<or> udp_state s = UDP_ACTIVE \<and>
      udp_time s + get_udp_timeout s sessions maxsessions < os_time os (trace w)")
  case True
  from udp_closing [OF c True refl refl] show ?thesis using True closed [OF _ refl] by blast
next
  case False
  show ?thesis
  proof (cases "udp_state s = UDP_CLOSED \<and> (udp_sent s \<noteq> 0 \<or> udp_received s \<noteq> 0)")
    case True
    with c show ?thesis
      by (intro report) (auto simp: check_udp_session_def Let_def sys_time_def udp_account_def)
  next
    case ns: False
    then have "s' = s" "w' = emit (Time (os_time os (trace w))) w"
      "del \<Longrightarrow> udp_state s = UDP_CLOSED \<or> udp_state s = UDP_BLOCKED"
      using False c by (auto simp: check_udp_session_def Let_def sys_time_def split: if_splits)
    with False ns show ?thesis by (intro keep) auto
  qed
qed

lemmas udp_check_simps = udp_account_def account_usage_def udp_ok_def

interpretation uc: accounted_session "check_udp_session os sessions maxsessions" udp_socket udp_ptr
  udp_ok "\<lambda>u. if udp_state u = UDP_BLOCKED then 0 else udp_sent u"
  "\<lambda>u. if udp_state u = UDP_BLOCKED then 0 else udp_received u"
  for os sessions maxsessions
proof (unfold_locales, goal_cases)
  case (1 s w s' w')
  from 1(2) show ?case
    by (rule check_udp_session_cases) (use 1(1) in \<open>auto simp: udp_check_simps\<close>)
next
  case (2 s w del s' w')
  from 2(2) show ?case by (rule check_udp_session_cases) auto
next
  case (3 s w s' w')
  from 3(2) show ?case
    by (rule check_udp_session_cases)
      (use 3(1) in \<open>auto simp: udp_check_simps split: udp_state.splits\<close>)
next
  case (4 s w del s' w')
  from 4(2) show ?case
    by (rule check_udp_session_cases)
      (use 4(1) in \<open>auto simp: udp_check_simps split: udp_state.splits\<close>)
next
  case (5 s w del s' w')
  from 5(2) show ?case by (rule check_udp_session_cases) (auto simp: udp_check_simps)
next
  case (6 s w del s' w')
  from 6(2) show ?case by (rule check_udp_session_cases) (auto simp: udp_check_simps)
next
  case (7 s w s' w')
  from 7(2) show ?case
    by (rule check_udp_session_cases) (cases "udp_state s"; auto simp: udp_check_simps)+
qed

section \<open>Other operations keep the invariant\<close>

lemma check_udp_socket_ok:
  assumes "udp_ok s" "0 \<le> udp_socket s" "check_udp_socket os cfg ev s w = Some (s', w')"
  shows "udp_ok s' \<and> udp_socket s' = udp_socket s \<and> udp_ptr s' = udp_ptr s"
proof -
  have st: "udp_state s = UDP_ACTIVE \<or> udp_state s = UDP_FINISHING"
    using assms(1,2) by (auto simp: udp_ok_def split: udp_state.splits)
  have r: "udp_ok v' \<and> udp_socket v' = udp_socket v \<and> udp_ptr v' = udp_ptr v"
    if "udp_received_data os cfg v b w1 = Some (v', w2)" "udp_state v = udp_state s"
      "udp_socket v = udp_socket s" for v b w1 v' w2
    using that st assms(2)
    by (auto simp: udp_received_data_def udp_ok_def Let_def bind_eq_Some_conv case_prod_unfold split: if_splits)
  show ?thesis
  proof (cases "ep_err ev \<or> \<not> ep_in ev")
    case True
    with assms st show ?thesis
      by (auto simp: check_udp_socket_def sys_time_def Let_def udp_ok_def split: if_splits)
  next
    case False
    with assms st show ?thesis
      by (auto simp: check_udp_socket_def sys_time_def Let_def udp_ok_def split: if_splits recv_result.splits
          dest!: r)
  qed
qed

lemma udp_new_session_ok:
  assumes "ctx_ok ctx" "udp_new_session os ctx pkt h uid redirect w = (s, ctx', w')"
  shows "grows ctx ctx' \<and> (\<forall>u. s = Some u \<longrightarrow> udp_ok u \<and> udp_state u = UDP_ACTIVE \<and>
    (udp_ptr u, udp_socket u) \<in> set (ends ctx'))"
  using assms
  by (auto simp: udp_new_session_def Let_def case_prod_unfold udp_ok_def new_udp_def
      intro!: grows_push grows_next split: if_splits)

lemma udp_forward_ok:
  assumes "udp_forward os cfg pkt len data redirect u w = (r, u', w')" "udp_ok u" "udp_state u = UDP_ACTIVE"
  shows "udp_ok u' \<and> udp_ptr u' = udp_ptr u \<and> udp_socket u' = udp_socket u"
  using assms by (auto simp: udp_forward_def Let_def sys_time_def udp_ok_def split: if_splits prod.splits)

lemma handle_udp_grows:
  assumes "ctx_ok ctx" "handle_udp os cfg ctx pkt len payload uid redirect w = Some (r, ctx', w')"
  shows "grows ctx ctx'"
proof -
  obtain h where h: "read_udphdr pkt payload = Some h"
    using assms(2) by (cases "read_udphdr pkt payload") (auto simp: handle_udp_def)
  define st where "st = (case find (udp_match pkt h) (ctx_sessions ctx) of
           Some (Udp u) \<Rightarrow> (if udp_state u = UDP_ACTIVE then Some u else None, ctx, w)
         | _ \<Rightarrow> udp_new_session os ctx pkt h uid redirect w)"
  obtain cur c1 w1 where st1: "st = (cur, c1, w1)" by (cases st)
  have ok: "grows ctx c1 \<and> (\<forall>u. cur = Some u \<longrightarrow> udp_ok u \<and> udp_state u = UDP_ACTIVE \<and>
      (udp_ptr u, udp_socket u) \<in> set (ends c1))"
    using assms(1) st1 ctx_ok_find [OF assms(1), of "udp_match pkt h"] ends_find [of "udp_match pkt h" ctx]
      udp_new_session_ok [OF assms(1)]
    unfolding st_def by (fastforce split: option.splits ng_session.splits if_splits)
  have put: "grows ctx (put_session (Udp v) c1)" if "udp_ok v" "(udp_ptr v, udp_socket v) \<in> set (ends c1)" for v
    using grows_trans [OF _ grows_put [of c1 "Udp v"]] ok that by (simp add: grows_ok)
  show ?thesis
  proof (cases cur)
    case None
    with assms(2) h st1 ok show ?thesis by (simp add: handle_udp_def st_def [symmetric])
  next
    case (Some u)
    obtain data where d: "payload_data pkt len (payload + 8) = Some data"
      using assms(2) h st1 Some
      by (cases "payload_data pkt len (payload + 8)") (auto simp: handle_udp_def st_def [symmetric])
    let ?dhcp = "if ntohs (uh_source h) = 68 \<or> ntohs (uh_dest h) = 67
      then check_dhcp os cfg u data w1 else Some (-1, u, w1)"
    obtain k u1 w2 where k: "?dhcp = Some (k, u1, w2)"
      using assms(2) h st1 Some d
      by (cases ?dhcp) (auto simp: handle_udp_def st_def [symmetric] split: if_splits)
    then have "u1 = u" "w2 = w1" by (auto dest: check_dhcp_session split: if_splits)
    obtain r3 u3 w3 where f: "udp_forward os cfg pkt len data redirect u w1 = (r3, u3, w3)"
      by (cases "udp_forward os cfg pkt len data redirect u w1") auto
    have "udp_ok u3 \<and> udp_ptr u3 = udp_ptr u \<and> udp_socket u3 = udp_socket u"
      using udp_forward_ok [OF f] ok Some by simp
    then show ?thesis
      using assms(2) h st1 ok Some d k \<open>u1 = u\<close> \<open>w2 = w1\<close> f
      by (auto simp: handle_udp_def st_def [symmetric] Let_def split: if_splits intro!: put)
  qed
qed

section \<open>Blocked flows\<close>

definition same_flow :: "bytes \<Rightarrow> bytes \<Rightarrow> bool" where
  "same_flow pkt pkt' \<longleftrightarrow> pkt_version pkt' = pkt_version pkt \<and> pkt_saddr pkt' = pkt_saddr pkt \<and>
     pkt_daddr pkt' = pkt_daddr pkt"

lemma udp_match_flow: "same_flow pkt pkt' \<Longrightarrow> udp_match pkt' h s = udp_match pkt h s"
  by (cases s) (auto simp: same_flow_def)

text \<open>
  A blocked UDP flow stays silent. After \<open>block_udp\<close> the flow has a session, so that the service
  is not asked again, and every further packet of the flow is dropped: nothing is sent, opened or
  recorded and no session changes.
\<close>

lemma block_udp_silences:
  assumes "block_udp os ctx pkt h uid w = (ctx', w')"
    and "same_flow pkt pkt'" "read_udphdr pkt' payload = Some h"
  shows "has_udp_session cfg ctx' pkt' h \<and>
    handle_udp os cfg ctx' pkt' len payload uid' redirect v = Some (False, ctx', v)"
proof -
  have m: "udp_match pkt' h = udp_match pkt h" using udp_match_flow [OF assms(2)] by blast
  have "find (udp_match pkt h) (ctx_sessions ctx') =
      Some (Udp ((new_udp ctx pkt h uid (os_time os (trace w)))\<lparr>udp_state := UDP_BLOCKED\<rparr>))"
    using assms(1) by (auto simp: block_udp_def sys_time_def push_session_def new_udp_def Let_def)
  then show ?thesis
    using assms(3) by (simp add: has_udp_session_def handle_udp_def m)
qed

definition udp_pkt_sample :: bytes where
  "udp_pkt_sample = [0x45, 0, 0, 29, 0, 0, 0, 0, 64, 17, 0, 0, 10, 1, 10, 1, 8, 8, 8, 8,
     0xC0, 0x39, 0x01, 0xBB, 0, 9, 0, 0, 42]"

definition udphdr_sample :: udphdr where
  "udphdr_sample = \<lparr>uh_source = 0x39C0, uh_dest = 0xBB01\<rparr>"

definition ctx_empty :: ng_context where
  "ctx_empty = \<lparr>ctx_stopping = False, ctx_sessions = [], ctx_next = 10\<rparr>"

section \<open>Forwarding\<close>

lemma payload_data_ok:
  assumes "off \<le> len" "len \<le> length pkt" "length pkt < 2 ^ 64"
  shows "payload_data pkt len off = Some (drop off (take len pkt))"
proof -
  have "(of_nat len - of_nat off :: u64) = of_nat (len - off)" using assms(1) by simp
  moreover have "len - off < 2 ^ 64" using assms by linarith
  ultimately have "unat (of_nat len - of_nat off :: u64) = len - off"
    by (simp add: unsigned_of_nat take_bit_nat_eq_self)
  then show ?thesis using assms by (simp add: payload_data_def rd_ok drop_take)
qed

lemma handle_udp_active:
  assumes "read_udphdr pkt payload = Some h" "find (udp_match pkt h) (ctx_sessions ctx) = Some (Udp u)"
    and "udp_state u = UDP_ACTIVE" "ntohs (uh_source h) \<noteq> 68" "ntohs (uh_dest h) \<noteq> 67"
    and "payload_data pkt len (payload + 8) = Some data"
  shows "handle_udp os cfg ctx pkt len payload uid redirect w =
    (let (res, cur, w) = udp_forward os cfg pkt len data redirect u w in Some (res, put_session (Udp cur) ctx, w))"
  using assms by (simp add: handle_udp_def)

lemma udp_forward_result:
  assumes "os_sendto os (Time (os_time os (trace w)) # trace w) (udp_socket u) data target = (r, errno)"
    and "target = udp_target u redirect"
  shows "\<exists>res u' w'. udp_forward os cfg pkt len data redirect u w = (res, u', w')
    \<and> extends tun_event (emit (Send_To (udp_socket u) data target r) (emit (Time (os_time os (trace w))) w)) w'
    \<and> (if r = int (length data)
        then res \<and> u' = u\<lparr>udp_time := os_time os (trace w), udp_sent := udp_sent u + of_nat (length data)\<rparr>
        else if errno = EINTR \<or> errno = EAGAIN then res \<and> u' = u\<lparr>udp_time := os_time os (trace w)\<rparr>
        else \<not> res \<and> udp_state u' = UDP_FINISHING)"
proof -
  have "udp_target (u\<lparr>udp_time := x\<rparr>) redirect = target" for x
    using assms(2) by (simp add: udp_target_def split: option.split)
  then show ?thesis
    using assms(1) by (auto simp: udp_forward_def Let_def sys_time_def intro: frame)
qed



end
