(* ===== verification/Icmp.thy ===== *)
theory Icmp
  imports Session_Check
begin

text \<open>
  ICMP echo sessions, \<open>netguard/icmp.c\<close>. Echo requests from the tun device are sent through an
  unprivileged ICMP socket with the complement of their identification, and replies get the
  session's identification back; in both directions the checksum is computed again.
\<close>

section \<open>Writing to the tun device\<close>

definition icmp_packet :: "icmp_session \<Rightarrow> bytes \<Rightarrow> bytes" where
  "icmp_packet cur data =
     (if icmp_version cur = 4
      then ip4_build (20 + length data) IPPROTO_ICMP (icmp_daddr cur) (icmp_saddr cur) @ data
      else ip6_build (length data) IPPROTO_ICMPV6 (icmp_daddr cur) (icmp_saddr cur) @ data)"

definition write_icmp :: "os \<Rightarrow> config \<Rightarrow> icmp_session \<Rightarrow> bytes \<Rightarrow> world \<Rightarrow> int \<times> world" where
  "write_icmp os cfg cur data w = tun_send os cfg (icmp_packet cur data) (icmp_uid cur) w"

section \<open>Life cycle\<close>

definition get_icmp_timeout :: "icmp_session \<Rightarrow> int \<Rightarrow> int \<Rightarrow> int" where
  "get_icmp_timeout i sessions maxsessions = scaled_timeout ICMP_TIMEOUT sessions maxsessions"

definition check_icmp_session ::
  "os \<Rightarrow> int \<Rightarrow> int \<Rightarrow> icmp_session \<Rightarrow> world \<Rightarrow> bool \<times> icmp_session \<times> world" where
  "check_icmp_session os sessions maxsessions s w =
     (let (now, w) = sys_time os w;
          timeout = get_icmp_timeout s sessions maxsessions in
      if icmp_stop s \<or> icmp_time s + timeout < now
      then (True, s\<lparr>icmp_socket := -1\<rparr>, emit (Close (icmp_socket s)) w)
      else (False, s, w))"

section \<open>Data from the socket\<close>

text \<open>
  Both directions store an identification in the message, zero its checksum, and store the complement
  of the sum over its \<open>n\<close> bytes. The buffer holds at least the eight bytes of the header, whatever
  \<open>n\<close> is. For a version 6 reply the pseudo header has the length in host order, less the size of an
  IP header that is not there.
\<close>

definition icmp_rewrite :: "u16 \<Rightarrow> u16 \<Rightarrow> nat \<Rightarrow> bytes \<Rightarrow> bytes" where
  "icmp_rewrite csum ident n buf =
     (let buf = take 2 buf @ [0, 0] @ le16b ident @ drop 6 buf
      in take 2 buf @ le16b (NOT (calc_checksum csum (take n buf))) @ drop 4 buf)"

definition icmp_reply :: "icmp_session \<Rightarrow> bytes \<Rightarrow> bytes" where
  "icmp_reply s buffer =
     (let bytes = length buffer;
          csum = (if icmp_version s = 6
                  then calc_checksum 0 (icmp_daddr s @ icmp_saddr s
                         @ le32b (of_int (int bytes - 40)) @ [0, 0, 0, IPPROTO_ICMPV6])
                  else 0)
      in take bytes (icmp_rewrite csum (icmp_id s) bytes (buffer @ replicate (8 - bytes) 0)))"

definition check_icmp_socket ::
  "os \<Rightarrow> config \<Rightarrow> epoll_events \<Rightarrow> icmp_session \<Rightarrow> world \<Rightarrow> icmp_session \<times> world" where
  "check_icmp_socket os cfg ev s w =
     (if ep_err ev then
        let (t, w) = sys_time os w in (s\<lparr>icmp_time := t, icmp_stop := True\<rparr>, w)
      else if ep_in ev then
        let (t, w) = sys_time os w;
            s = s\<lparr>icmp_time := t\<rparr>;
            blen = (if icmp_version s = 4 then ICMP4_MAXMSG else ICMP6_MAXMSG);
            r = os_recv os (trace w) (icmp_socket s) blen;
            w = emit (Recv (icmp_socket s) blen) w in
        case r of
          Recv_Error errno \<Rightarrow>
            (if errno \<noteq> EINTR \<and> errno \<noteq> EAGAIN then s\<lparr>icmp_stop := True\<rparr> else s, w)
        | Recv_Data buffer \<Rightarrow>
            if buffer = [] then (s\<lparr>icmp_stop := True\<rparr>, w)
            else
              let (r, w) = write_icmp os cfg s (icmp_reply s buffer) w
              in (if r < 0 then s\<lparr>icmp_stop := True\<rparr> else s, w)
      else (s, w))"

section \<open>Packets from the tun device\<close>

fun icmp_match :: "bytes \<Rightarrow> ng_session \<Rightarrow> bool" where
  "icmp_match pkt (Icmp i) \<longleftrightarrow>
     \<not> icmp_stop i \<and> icmp_version i = pkt_version pkt \<and>
     icmp_saddr i = pkt_saddr pkt \<and> icmp_daddr i = pkt_daddr pkt"
| "icmp_match pkt (Udp u) \<longleftrightarrow> False"
| "icmp_match pkt (Tcp t) \<longleftrightarrow> False"

definition open_icmp_socket :: "os \<Rightarrow> icmp_session \<Rightarrow> world \<Rightarrow> int \<times> world" where
  "open_icmp_socket os cur w =
     (let sock = os_socket os (trace w) (icmp_version cur);
          w = emit (Open_Socket (icmp_version cur) sock) w in
      if sock < 0 then (-1, w)
      else let (r, w) = protect_socket os sock w in (if r < 0 then -1 else sock, w))"

definition icmp_new_session ::
  "os \<Rightarrow> ng_context \<Rightarrow> bytes \<Rightarrow> u16 \<Rightarrow> int \<Rightarrow> world \<Rightarrow> icmp_session option \<times> ng_context \<times> world" where
  "icmp_new_session os ctx pkt ident uid w =
     (let (t, w) = sys_time os w;
          s = \<lparr>icmp_ptr = ctx_next ctx, icmp_time = t, icmp_uid = uid,
               icmp_version = pkt_version pkt, icmp_saddr = pkt_saddr pkt,
               icmp_daddr = pkt_daddr pkt, icmp_id = ident, icmp_stop = False, icmp_socket = -1\<rparr>;
          (sock, w) = open_icmp_socket os s w in
      if sock < 0 then (None, ctx\<lparr>ctx_next := ctx_next ctx + 1\<rparr>, w)
      else
        let s = s\<lparr>icmp_socket := sock\<rparr>
        in (Some s, push_session (Icmp s) ctx,
            emit (Epoll_Add sock \<lparr>ep_in = True, ep_out = False, ep_err = True\<rparr>) w))"

text \<open>The request with the complemented identification and its new checksum.\<close>

definition icmp_request :: "bytes \<Rightarrow> u16 \<Rightarrow> nat \<Rightarrow> bytes \<Rightarrow> bytes" where
  "icmp_request pkt ident n buf =
     (let csum = (if pkt_version pkt = 6
                  then calc_checksum 0 (take 16 (drop 24 pkt) @ take 16 (drop 8 pkt)
                         @ take 2 (drop 4 pkt) @ [0, 0] @ [0, 0, 0, pkt ! 6])
                  else 0)
      in icmp_rewrite csum (NOT ident) n buf)"

definition icmp_send ::
  "os \<Rightarrow> config \<Rightarrow> bytes \<Rightarrow> nat \<Rightarrow> bytes \<Rightarrow> icmp_session \<Rightarrow> world \<Rightarrow> bool \<times> icmp_session \<times> world" where
  "icmp_send os cfg pkt len msg cur w =
     (let (t, w) = sys_time os w;
          cur = cur\<lparr>icmp_time := t\<rparr>;
          w = write_pcap_rec os cfg (take len pkt) (icmp_uid cur) w;
          target = Target_Addr (pkt_daddr pkt) 0;
          (r, errno) = os_sendto os (trace w) (icmp_socket cur) msg target;
          w = emit (Send_To (icmp_socket cur) msg target r) w in
      if r \<noteq> int (length msg) \<and> errno \<noteq> EINTR \<and> errno \<noteq> EAGAIN
      then (False, cur\<lparr>icmp_stop := True\<rparr>, w) else (True, cur, w))"

text \<open>
  The handler. It changes the message in the packet buffer, so the recorded packet has the changed
  identification; the buffer is not used again afterwards.
\<close>

definition handle_icmp ::
  "os \<Rightarrow> config \<Rightarrow> ng_context \<Rightarrow> bytes \<Rightarrow> nat \<Rightarrow> nat \<Rightarrow> int \<Rightarrow> world \<Rightarrow>
   (bool \<times> ng_context \<times> world) option" where
  "handle_icmp os cfg ctx pkt len payload uid w =
     do {
       type \<leftarrow> rd8 pkt payload;
       if type \<noteq> 8 then Some (False, ctx, w)
       else do {
         ident \<leftarrow> rd16 pkt (payload + 4);
         let (cur, ctx, w) = (case find (icmp_match pkt) (ctx_sessions ctx) of
             Some (Icmp i) \<Rightarrow> (Some i, ctx, w)
           | _ \<Rightarrow> icmp_new_session os ctx pkt ident uid w);
         case cur of
           None \<Rightarrow> Some (False, ctx, w)
         | Some cur \<Rightarrow>
             do {
               msg \<leftarrow> payload_data pkt len payload;
               hdr \<leftarrow> rd_bytes pkt payload 8;
               let req = icmp_request pkt ident (length msg) (msg @ drop (length msg) hdr);
               pkt' \<leftarrow> wr_bytes pkt payload req;
               let (res, cur, w) = icmp_send os cfg pkt' len (take (length msg) req) cur w;
               Some (res, put_session (Icmp cur) ctx, w)
             }
       }
     }"

section \<open>The contract and the invariant\<close>

interpretation ic: checked_session "check_icmp_session os sessions maxsessions" icmp_socket icmp_ptr icmp_ok
  for os sessions maxsessions
  by unfold_locales
    (auto simp: check_icmp_session_def sys_time_def Let_def icmp_ok_def split: if_splits)

lemma check_icmp_socket_ok:
  assumes "icmp_ok s" "check_icmp_socket os cfg ev s w = (s', w')"
  shows "icmp_ok s' \<and> icmp_socket s' = icmp_socket s \<and> icmp_ptr s' = icmp_ptr s"
  using assms
  by (auto simp: check_icmp_socket_def sys_time_def Let_def icmp_ok_def case_prod_unfold
      split: if_splits recv_result.splits)

lemma icmp_new_session_ok:
  assumes "ctx_ok ctx" "icmp_new_session os ctx pkt ident uid w = (s, ctx', w')"
  shows "grows ctx ctx' \<and> (\<forall>i. s = Some i \<longrightarrow> icmp_ok i \<and> (icmp_ptr i, icmp_socket i) \<in> set (ends ctx'))"
  using assms
  by (auto simp: icmp_new_session_def Let_def case_prod_unfold icmp_ok_def
      intro!: grows_push grows_next split: if_splits)

lemma handle_icmp_grows:
  assumes "ctx_ok ctx" "handle_icmp os cfg ctx pkt len payload uid w = Some (r, ctx', w')"
  shows "grows ctx ctx'"
proof (cases "rd8 pkt payload = Some 8")
  case False
  with assms show ?thesis by (auto simp: handle_icmp_def bind_eq_Some_conv)
next
  case True
  obtain ident where h: "rd16 pkt (payload + 4) = Some ident"
    using True assms(2) by (cases "rd16 pkt (payload + 4)") (auto simp: handle_icmp_def)
  define st where "st = (case find (icmp_match pkt) (ctx_sessions ctx) of
             Some (Icmp i) \<Rightarrow> (Some i, ctx, w)
           | _ \<Rightarrow> icmp_new_session os ctx pkt ident uid w)"
  obtain cur c1 w1 where st1: "st = (cur, c1, w1)" by (cases st)
  have ok: "grows ctx c1 \<and> (\<forall>i. cur = Some i \<longrightarrow> icmp_ok i \<and> (icmp_ptr i, icmp_socket i) \<in> set (ends c1))"
    using assms(1) st1 ctx_ok_find [OF assms(1), of "icmp_match pkt"] ends_find [of "icmp_match pkt" ctx]
      icmp_new_session_ok [OF assms(1)]
    unfolding st_def by (fastforce split: option.splits ng_session.splits)
  have put: "grows ctx (put_session (Icmp v) c1)" if "icmp_ok v" "(icmp_ptr v, icmp_socket v) \<in> set (ends c1)" for v
    using grows_trans [OF _ grows_put [of c1 "Icmp v"]] ok that by (simp add: grows_ok)
  have send: "icmp_ok (fst (snd (icmp_send os cfg p n m i v)))"
    "icmp_ptr (fst (snd (icmp_send os cfg p n m i v))) = icmp_ptr i"
    "icmp_socket (fst (snd (icmp_send os cfg p n m i v))) = icmp_socket i" if "icmp_ok i" for p n m i v
    using that by (simp_all add: icmp_send_def Let_def icmp_ok_def case_prod_unfold)
  show ?thesis
    using assms(2) True h st1 ok send
    by (cases cur)
      (auto simp: handle_icmp_def st_def [symmetric] bind_eq_Some_conv Let_def case_prod_unfold
        intro!: put)
qed

section \<open>Messages\<close>

lemma icmp_rewrite_valid:
  assumes "8 \<le> length buf" "length buf \<le> 131071"
  shows "length (icmp_rewrite 0 ident (length buf) buf) = length buf
    \<and> calc_checksum 0 (icmp_rewrite 0 ident (length buf) buf) = 0xFFFF
    \<and> take 2 (drop 4 (icmp_rewrite 0 ident (length buf) buf)) = le16b ident
    \<and> take 2 (icmp_rewrite 0 ident (length buf) buf) = take 2 buf
    \<and> drop 6 (icmp_rewrite 0 ident (length buf) buf) = drop 6 buf"
proof -
  let ?r = "icmp_rewrite 0 ident (length buf) buf" and ?post = "le16b ident @ drop 6 buf"
  let ?c = "NOT (calc_checksum 0 (take 2 buf @ [0, 0] @ ?post))"
  have l: "length (take 2 buf) = 2" using assms(1) by simp
  have t: "take (length buf) (take 2 buf @ [0, 0] @ ?post) = take 2 buf @ [0, 0] @ ?post"
    using assms(1) by simp
  have r: "?r = take 2 buf @ le16b ?c @ ?post"
    unfolding icmp_rewrite_def Let_def t using assms(1) by simp
  have "calc_checksum 0 (take 2 buf @ le16b ?c @ ?post) = 0xFFFF"
    by (rule ck.csum_fill) (use assms in auto)
  with assms(1) l show ?thesis unfolding r by simp
qed

text \<open>
  Echo messages stay valid in both directions. The request sent to the network carries the
  complement of the app's identification and the reply written back to the app carries the
  session's; type, code, sequence number and payload are untouched, and the ICMP checksum over the
  whole message sums to all ones.
\<close>

theorem icmp_messages_valid:
  assumes "8 \<le> length msg" "length msg \<le> 65535" "icmp_version s = 4" "pkt_version pkt = 4"
    and "req = icmp_request pkt ident (length msg) msg" "rep = icmp_reply s msg"
  shows "length req = length msg \<and> calc_checksum 0 req = 0xFFFF \<and>
      take 2 (drop 4 req) = le16b (NOT ident) \<and> take 2 req = take 2 msg \<and> drop 6 req = drop 6 msg \<and>
    length rep = length msg \<and> calc_checksum 0 rep = 0xFFFF \<and>
      take 2 (drop 4 rep) = le16b (icmp_id s) \<and> take 2 rep = take 2 msg \<and> drop 6 rep = drop 6 msg"
proof -
  have "req = icmp_rewrite 0 (NOT ident) (length msg) msg"
    using assms(4,5) by (simp add: icmp_request_def)
  moreover have "rep = icmp_rewrite 0 (icmp_id s) (length msg) msg"
    using assms(1,3,6) icmp_rewrite_valid [of msg "icmp_id s"] assms(2) by (simp add: icmp_reply_def)
  ultimately show ?thesis
    using icmp_rewrite_valid [of msg "NOT ident"] icmp_rewrite_valid [of msg "icmp_id s"] assms(1,2)
    by simp
qed

theorem icmp_messages_valid_witness:
  "let msg = [0, 0, 0, 0, 0xF8, 0xFF, 0, 1, 42 :: u8] in
   8 \<le> length msg \<and> calc_checksum 0 (icmp_reply icmp_sample msg) = 0xFFFF \<and>
   take 2 (drop 4 (icmp_reply icmp_sample msg)) = le16b 7"
proof -
  let ?msg = "[0, 0, 0, 0, 0xF8, 0xFF, 0, 1, 42 :: u8]"
  have "8 \<le> length ?msg" "length ?msg \<le> 65535" "icmp_version icmp_sample = 4" "pkt_version [0x45] = 4"
    "icmp_id icmp_sample = 7"
    by (simp_all add: icmp_sample_def pkt_version_def)
  from icmp_messages_valid [OF this(1-4) refl refl] this show ?thesis unfolding Let_def by metis
qed

text \<open>
  A second program that pings the same host loses its replies. A request from an app finds the
  running session of its addresses whatever its identification, and the session keeps the
  identification of the first request, so every later reply is rewritten to that one.
\<close>

lemma icmp_keeps_first_id:
  assumes "ctx_ok ctx" "handle_icmp os cfg ctx pkt len payload uid w = Some (r, ctx', w')"
    and "find (icmp_match pkt) (ctx_sessions ctx) = Some (Icmp i)"
    and "rd8 pkt payload = Some 8" "rd16 pkt (payload + 4) = Some ident" "ident \<noteq> icmp_id i"
  shows "\<exists>i'. ctx' = put_session (Icmp i') ctx \<and> icmp_ptr i' = icmp_ptr i \<and> icmp_id i' = icmp_id i \<and>
    icmp_reply i' = icmp_reply i"
proof -
  obtain p n m v where c: "ctx' = put_session (Icmp (fst (snd (icmp_send os cfg p n m i v)))) ctx"
    using assms(2-5) by (auto simp: handle_icmp_def bind_eq_Some_conv Let_def case_prod_unfold)
  define i' where "i' = fst (snd (icmp_send os cfg p n m i v))"
  have "icmp_ptr i' = icmp_ptr i" "icmp_id i' = icmp_id i" "icmp_version i' = icmp_version i"
    "icmp_saddr i' = icmp_saddr i" "icmp_daddr i' = icmp_daddr i"
    by (simp_all add: i'_def icmp_send_def Let_def case_prod_unfold)
  then show ?thesis
    using c by (intro exI [of _ i']) (simp add: i'_def [symmetric] icmp_reply_def Let_def fun_eq_iff)
qed

end
