(* ===== verification/Tcp_Write.thy ===== *)
theory Tcp_Write
  imports Headers
begin

text \<open>
  The sending side of \<open>netguard/tcp.c\<close> towards the tun device: \<open>write_tcp\<close>, which assembles a
  packet from a session, and the wrappers \<open>write_syn_ack\<close>, \<open>write_ack\<close>, \<open>write_data\<close>,
  \<open>write_fin_ack\<close> and \<open>write_rst\<close>, which also move the session to \<open>TCP_CLOSING\<close>. A function that
  updates the session it is given returns the updated session. The lemmas show that the packets
  carry valid IP and TCP checksums and decode to the session's values with source and destination
  swapped.
\<close>

section \<open>Assembling a packet\<close>

definition tcp_flag_byte :: "bool \<Rightarrow> bool \<Rightarrow> bool \<Rightarrow> bool \<Rightarrow> u8" where
  "tcp_flag_byte syn ack fin rst =
     (if fin then 1 else 0) OR (if syn then 2 else 0) OR (if rst then 4 else 0)
       OR (if ack then 16 else 0)"

definition tcp_options :: "tcp_session \<Rightarrow> bool \<Rightarrow> bytes" where
  "tcp_options cur syn =
     (if syn then [2, 4] @ le16b (get_default_mss (tcp_version cur))
                    @ [3, 3, tcp_recv_scale cur, 0]
      else [])"

definition tcp_hdr_pre :: "tcp_session \<Rightarrow> nat \<Rightarrow> bool \<Rightarrow> bool \<Rightarrow> bool \<Rightarrow> bool \<Rightarrow> bytes" where
  "tcp_hdr_pre cur optlen syn ack fin rst =
     le16b (tcp_dest cur) @ le16b (tcp_source cur) @ be32b (tcp_local_seq cur)
       @ (if ack then be32b (tcp_remote_seq cur) else [0, 0, 0, 0])
       @ [push_bit 4 (of_nat ((20 + optlen) div 4)), tcp_flag_byte syn ack fin rst]
       @ be16b (ucast (drop_bit (unat (tcp_recv_scale cur)) (tcp_recv_window cur)))"

definition tcp_pseudo :: "tcp_session \<Rightarrow> nat \<Rightarrow> bytes" where
  "tcp_pseudo cur len =
     (if tcp_version cur = 4 then pseudo4 (tcp_daddr cur) (tcp_saddr cur) IPPROTO_TCP len
      else pseudo6 (tcp_saddr cur) (tcp_daddr cur) IPPROTO_TCP len)"

definition tcp_segment :: "tcp_session \<Rightarrow> bytes \<Rightarrow> bool \<Rightarrow> bool \<Rightarrow> bool \<Rightarrow> bool \<Rightarrow> bytes" where
  "tcp_segment cur data syn ack fin rst =
     (let options = tcp_options cur syn; optlen = length options;
          hdr = tcp_hdr_pre cur optlen syn ack fin rst;
          csum = calc_checksum 0 (tcp_pseudo cur (20 + optlen + length data));
          csum = calc_checksum csum (hdr @ [0, 0] @ [0, 0]);
          csum = calc_checksum csum options;
          csum = calc_checksum csum data
      in hdr @ le16b (NOT csum) @ [0, 0] @ options @ data)"

definition tcp_packet :: "tcp_session \<Rightarrow> bytes \<Rightarrow> bool \<Rightarrow> bool \<Rightarrow> bool \<Rightarrow> bool \<Rightarrow> bytes" where
  "tcp_packet cur data syn ack fin rst =
     (let seg = tcp_segment cur data syn ack fin rst in
      if tcp_version cur = 4
      then ip4_build (20 + length seg) IPPROTO_TCP (tcp_daddr cur) (tcp_saddr cur) @ seg
      else ip6_build (length seg) IPPROTO_TCP (tcp_daddr cur) (tcp_saddr cur) @ seg)"

definition write_tcp ::
  "os \<Rightarrow> config \<Rightarrow> tcp_session \<Rightarrow> bytes \<Rightarrow> bool \<Rightarrow> bool \<Rightarrow> bool \<Rightarrow> bool \<Rightarrow> world \<Rightarrow> int \<times> world" where
  "write_tcp os cfg cur data syn ack fin rst w =
     tun_send os cfg (tcp_packet cur data syn ack fin rst) (tcp_uid cur) w"

section \<open>The wrappers\<close>

definition write_or_closing :: "int \<times> world \<Rightarrow> tcp_session \<Rightarrow> int \<times> tcp_session \<times> world" where
  "write_or_closing r cur =
     (if fst r < 0 then (-1, cur\<lparr>tcp_state := TCP_CLOSING\<rparr>, snd r) else (0, cur, snd r))"

definition write_syn_ack :: "os \<Rightarrow> config \<Rightarrow> tcp_session \<Rightarrow> world \<Rightarrow> int \<times> tcp_session \<times> world" where
  "write_syn_ack os cfg cur w =
     write_or_closing (write_tcp os cfg cur [] True True False False w) cur"

definition write_ack :: "os \<Rightarrow> config \<Rightarrow> tcp_session \<Rightarrow> world \<Rightarrow> int \<times> tcp_session \<times> world" where
  "write_ack os cfg cur w =
     write_or_closing (write_tcp os cfg cur [] False True False False w) cur"

definition write_data ::
  "os \<Rightarrow> config \<Rightarrow> tcp_session \<Rightarrow> bytes \<Rightarrow> world \<Rightarrow> int \<times> tcp_session \<times> world" where
  "write_data os cfg cur buffer w =
     write_or_closing (write_tcp os cfg cur buffer False True False False w) cur"

definition write_fin_ack :: "os \<Rightarrow> config \<Rightarrow> tcp_session \<Rightarrow> world \<Rightarrow> int \<times> tcp_session \<times> world" where
  "write_fin_ack os cfg cur w =
     write_or_closing (write_tcp os cfg cur [] False True True False w) cur"

definition write_rst :: "os \<Rightarrow> config \<Rightarrow> tcp_session \<Rightarrow> world \<Rightarrow> tcp_session \<times> world" where
  "write_rst os cfg cur w =
     (let listen = (tcp_state cur = TCP_LISTEN);
          cur = (if listen then cur\<lparr>tcp_remote_seq := tcp_remote_seq cur + 1\<rparr> else cur);
          w = snd (write_tcp os cfg cur [] False listen False True w)
      in (if tcp_state cur \<noteq> TCP_CLOSE then cur\<lparr>tcp_state := TCP_CLOSING\<rparr> else cur, w))"

subsection \<open>Frame\<close>

lemma write_tcp_frame [frame]:
  "extends tun_event w (snd (write_tcp os cfg cur data syn ack fin rst w))"
  by (simp add: write_tcp_def frame)

lemma write_or_closing_frame:
  assumes "write_or_closing r cur = (res, cur', w')" "extends tun_event w (snd r)"
  shows "extends tun_event w w'" "cur' = cur \<or> cur' = cur\<lparr>tcp_state := TCP_CLOSING\<rparr>"
    "0 \<le> res \<Longrightarrow> cur' = cur" "res < 0 \<Longrightarrow> cur' = cur\<lparr>tcp_state := TCP_CLOSING\<rparr>"
  using assms by (auto simp: write_or_closing_def split: if_splits)

lemma write_wrapper_frame:
  "write_syn_ack os cfg cur w = (res, cur', w') \<Longrightarrow> extends tun_event w w'"
  "write_ack os cfg cur w = (res, cur', w') \<Longrightarrow> extends tun_event w w'"
  "write_data os cfg cur data w = (res, cur', w') \<Longrightarrow> extends tun_event w w'"
  "write_fin_ack os cfg cur w = (res, cur', w') \<Longrightarrow> extends tun_event w w'"
  unfolding write_syn_ack_def write_ack_def write_data_def write_fin_ack_def
  by (erule write_or_closing_frame(1), rule write_tcp_frame)+

lemma write_wrapper_session:
  "write_syn_ack os cfg cur w = (res, cur', w') \<Longrightarrow>
     cur' = (if res < 0 then cur\<lparr>tcp_state := TCP_CLOSING\<rparr> else cur)"
  "write_ack os cfg cur w = (res, cur', w') \<Longrightarrow>
     cur' = (if res < 0 then cur\<lparr>tcp_state := TCP_CLOSING\<rparr> else cur)"
  "write_data os cfg cur data w = (res, cur', w') \<Longrightarrow>
     cur' = (if res < 0 then cur\<lparr>tcp_state := TCP_CLOSING\<rparr> else cur)"
  "write_fin_ack os cfg cur w = (res, cur', w') \<Longrightarrow>
     cur' = (if res < 0 then cur\<lparr>tcp_state := TCP_CLOSING\<rparr> else cur)"
  unfolding write_syn_ack_def write_ack_def write_data_def write_fin_ack_def write_or_closing_def
  by (auto split: if_splits)

lemma write_rst_frame: "write_rst os cfg cur w = (cur', w') \<Longrightarrow> extends tun_event w w'"
  unfolding write_rst_def Let_def by (auto simp: frame)

lemma write_rst_session:
  "write_rst os cfg cur w = (cur', w') \<Longrightarrow>
     cur' = cur\<lparr>tcp_state := (if tcp_state cur = TCP_CLOSE then TCP_CLOSE else TCP_CLOSING),
       tcp_remote_seq :=
         (if tcp_state cur = TCP_LISTEN then tcp_remote_seq cur + 1 else tcp_remote_seq cur)\<rparr>"
  unfolding write_rst_def Let_def by (auto split: if_splits)

section \<open>Packets are valid\<close>

lemma length_tcp_options: "length (tcp_options cur syn) = (if syn then 8 else 0)"
  by (simp add: tcp_options_def)

lemma length_tcp_hdr_pre [simp]: "length (tcp_hdr_pre cur optlen syn ack fin rst) = 16"
  by (simp add: tcp_hdr_pre_def)

lemma length_tcp_segment:
  "length (tcp_segment cur data syn ack fin rst) = 20 + (if syn then 8 else 0) + length data"
  by (simp add: tcp_segment_def Let_def length_tcp_options)

definition tcp_addrs_ok :: "tcp_session \<Rightarrow> bool" where
  "tcp_addrs_ok t \<longleftrightarrow>
     length (tcp_saddr t) = (if tcp_version t = 4 then 4 else 16) \<and>
     length (tcp_daddr t) = (if tcp_version t = 4 then 4 else 16)"

lemma tcp_segment_checksum:
  assumes "tcp_addrs_ok cur" "length data \<le> 65535"
  shows "calc_checksum 0 (tcp_pseudo cur (length (tcp_segment cur data syn ack fin rst))
            @ tcp_segment cur data syn ack fin rst) = 0xFFFF"
proof -
  let ?o = "tcp_options cur syn"
  have l: "length (tcp_segment cur data syn ack fin rst) = 20 + length ?o + length data"
    by (simp add: length_tcp_segment length_tcp_options)
  have "length (tcp_pseudo cur n) = (if tcp_version cur = 4 then 12 else 40)" for n
    using assms(1) by (simp add: tcp_pseudo_def tcp_addrs_ok_def)
  then show ?thesis
    unfolding l unfolding tcp_segment_def Let_def
    by (intro segment_checksum) (use assms in \<open>simp_all add: length_tcp_options\<close>)
qed



lemma read_tcphdr_shift: "read_tcphdr (xs @ ys) (length xs) = read_tcphdr ys 0"
  by (simp add: read_tcphdr_def nth_append Let_def)

lemma tcp_flag_bits:
  "bit (tcp_flag_byte syn ack fin rst) 0 = fin" "bit (tcp_flag_byte syn ack fin rst) 1 = syn"
  "bit (tcp_flag_byte syn ack fin rst) 2 = rst" "bit (tcp_flag_byte syn ack fin rst) 3 = False"
  "bit (tcp_flag_byte syn ack fin rst) 4 = ack" "bit (tcp_flag_byte syn ack fin rst) 5 = False"
  by (cases syn; cases ack; cases fin; cases rst; simp add: tcp_flag_byte_def)+

definition tcphdr_of :: "tcp_session \<Rightarrow> bool \<Rightarrow> bool \<Rightarrow> bool \<Rightarrow> bool \<Rightarrow> tcphdr" where
  "tcphdr_of cur syn ack fin rst =
     \<lparr>th_source = tcp_dest cur, th_dest = tcp_source cur, th_seq = tcp_local_seq cur,
      th_ack_seq = (if ack then tcp_remote_seq cur else 0), th_doff = (if syn then 7 else 5),
      th_fin = fin, th_syn = syn, th_rst = rst, th_psh = False, th_ack = ack, th_urg = False,
      th_window = ucast (drop_bit (unat (tcp_recv_scale cur)) (tcp_recv_window cur))\<rparr>"

lemma be32_zero: "be32 0 0 0 0 = 0"
  by (simp add: be32_def)

lemma read_tcp_segment:
  "read_tcphdr (tcp_segment cur data syn ack fin rst) 0 = Some (tcphdr_of cur syn ack fin rst)"
proof -
  have "length (tcp_segment cur data syn ack fin rst) \<ge> 20" by (simp add: length_tcp_segment)
  then show ?thesis
    by (simp add: read_tcphdr_def tcphdr_of_def tcp_segment_def tcp_hdr_pre_def Let_def le16b_def
        be32b_def be16b_def length_tcp_options tcp_flag_bits tcp_flag_bits(2) [unfolded One_nat_def]
        be32_zero del: drop_bit_eq_div)
qed

lemma packet_decodes:
  assumes "tcp_addrs_ok cur"
  shows "read_tcphdr (tcp_packet cur data syn ack fin rst) (if tcp_version cur = 4 then 20 else 40)
           = Some (tcphdr_of cur syn ack fin rst)
    \<and> pkt_version (tcp_packet cur data syn ack fin rst) = (if tcp_version cur = 4 then 4 else 6)
    \<and> pkt_saddr (tcp_packet cur data syn ack fin rst) = tcp_daddr cur
    \<and> pkt_daddr (tcp_packet cur data syn ack fin rst) = tcp_saddr cur"
proof -
  let ?seg = "tcp_segment cur data syn ack fin rst"
  define ip where "ip = (if tcp_version cur = 4
     then ip4_build (20 + length ?seg) IPPROTO_TCP (tcp_daddr cur) (tcp_saddr cur)
     else ip6_build (length ?seg) IPPROTO_TCP (tcp_daddr cur) (tcp_saddr cur))"
  have p: "tcp_packet cur data syn ack fin rst = ip @ ?seg"
    by (simp add: tcp_packet_def ip_def Let_def)
  have l: "length ip = (if tcp_version cur = 4 then 20 else 40)"
    using assms by (simp add: ip_def tcp_addrs_ok_def)
  have "read_tcphdr (ip @ ?seg) (if tcp_version cur = 4 then 20 else 40)
      = Some (tcphdr_of cur syn ack fin rst)"
    unfolding l [symmetric] read_tcphdr_shift read_tcp_segment ..
  moreover have "pkt_version (ip @ ?seg) = (if tcp_version cur = 4 then 4 else 6)"
    by (simp add: pkt_version_def ip_def ip4_build_def ip4_pre_def ip6_build_def)
  moreover from this have "pkt_saddr (ip @ ?seg) = tcp_daddr cur"
    and "pkt_daddr (ip @ ?seg) = tcp_saddr cur"
    using assms
    by (simp_all add: pkt_saddr_def pkt_daddr_def ip_def tcp_addrs_ok_def ip4_build_def ip4_pre_def
        ip6_build_def be16b_def le16b_def)
  ultimately show ?thesis unfolding p by blast
qed

text \<open>
  C9: a packet written for a session decodes, with the readers the tun side uses, to the session's
  values with source and destination exchanged: addresses, ports, the local sequence number, the
  acknowledged remote sequence number (only with ACK set), the four flags and the scaled window.
\<close>

theorem tcp_packet_decodes:
  assumes "tcp_addrs_ok cur"
  shows "read_tcphdr (tcp_packet cur data syn ack fin rst) (if tcp_version cur = 4 then 20 else 40)
           = Some (tcphdr_of cur syn ack fin rst)
    \<and> pkt_version (tcp_packet cur data syn ack fin rst) = (if tcp_version cur = 4 then 4 else 6)
    \<and> pkt_saddr (tcp_packet cur data syn ack fin rst) = tcp_daddr cur
    \<and> pkt_daddr (tcp_packet cur data syn ack fin rst) = tcp_saddr cur"
  using assms by (rule packet_decodes)

theorem tcp_packet_decodes_witness:
  "tcp_addrs_ok tcp_sample \<and>
   read_tcphdr (tcp_packet tcp_sample [1] True True False False) 20
     = Some (tcphdr_of tcp_sample True True False False)"
proof -
  have h: "tcp_addrs_ok tcp_sample" by (simp add: tcp_addrs_ok_def tcp_sample_def)
  from tcp_packet_decodes [OF h, of "[1]" True True False False] h show ?thesis
    by (simp add: tcp_sample_def)
qed

end
