(* ===== verification/Tcp_Queue.thy ===== *)
theory Tcp_Queue
  imports Tcp_Write "HOL-Library.Multiset"
begin

text \<open>
  The data paths of a TCP session in \<open>netguard/tcp.c\<close>: the queue of segments that came from the
  tun device and wait for the socket (\<open>queue_tcp\<close>), the loop of \<open>check_tcp_socket\<close> that forwards
  them, and the send and receive windows. The queue is a map from sequence numbers to data that is
  kept sorted; the forwarding loop neither loses, repeats nor reorders a byte.
\<close>

section \<open>Queueing data from the tun device\<close>

definition new_segment :: "u32 \<Rightarrow> bool \<Rightarrow> bytes \<Rightarrow> segment" where
  "new_segment seq psh data =
     \<lparr>sg_seq = seq, sg_len = of_nat (length data), sg_sent = 0, sg_psh = psh, sg_data = data\<rparr>"

fun queue_insert :: "u32 \<Rightarrow> bool \<Rightarrow> bytes \<Rightarrow> segment list \<Rightarrow> segment list" where
  "queue_insert seq psh data [] = [new_segment seq psh data]"
| "queue_insert seq psh data (s # ss) =
     (if compare_u32 (sg_seq s) seq < 0 then s # queue_insert seq psh data ss
      else if compare_u32 (sg_seq s) seq > 0 then new_segment seq psh data # s # ss
      else if sg_len s = of_nat (length data) then s # ss
      else s\<lparr>sg_len := of_nat (length data), sg_data := data\<rparr> # ss)"

definition queue_tcp :: "tcphdr \<Rightarrow> tcp_session \<Rightarrow> bytes \<Rightarrow> tcp_session" where
  "queue_tcp tcphdr cur data =
     (if compare_u32 (th_seq tcphdr) (tcp_remote_seq cur) < 0 then cur
      else cur\<lparr>tcp_forward :=
        queue_insert (th_seq tcphdr) (th_psh tcphdr) data (tcp_forward cur)\<rparr>)"

text \<open>\<open>clear_tcp_data\<close> frees every queued segment and leaves the pointer to the first dangling.\<close>

fun clear_tcp_data :: "segment list \<Rightarrow> nat" where
  "clear_tcp_data [] = 0"
| "clear_tcp_data (s # ss) = Suc (clear_tcp_data ss)"

section \<open>Windows\<close>

definition get_send_window :: "tcp_session \<Rightarrow> u32" where
  "get_send_window cur =
     (let behind = (if tcp_acked cur \<le> tcp_local_seq cur
                    then tcp_local_seq cur - tcp_acked cur
                    else 0x10000 + tcp_local_seq cur - tcp_acked cur);
          behind = behind + (ucast (tcp_unconfirmed cur) + 1) * 40
      in if behind < tcp_send_window cur then tcp_send_window cur - behind else 0)"

definition get_receive_buffer :: "os \<Rightarrow> tcp_session \<Rightarrow> world \<Rightarrow> u32 \<times> world" where
  "get_receive_buffer os cur w =
     (if tcp_socket cur < 0 then (0, w)
      else
        let sendbuf = (case os_sndbuf os (trace w) (tcp_socket cur) of None \<Rightarrow> 0 | Some n \<Rightarrow> n);
            w = emit (Get_Sndbuf (tcp_socket cur)) w;
            sendbuf = (if sendbuf = 0 then SEND_BUF_DEFAULT else sendbuf);
            unsent = (case os_outq os (trace w) (tcp_socket cur) of None \<Rightarrow> 0 | Some n \<Rightarrow> n);
            w = emit (Get_Outq (tcp_socket cur)) w
        in (of_int (if unsent < sendbuf then sendbuf - unsent else 0), w))"

text \<open>The bytes a segment still has to send, as the unsigned value the code compares.\<close>

definition sg_left :: "segment \<Rightarrow> u32" where
  "sg_left s = ucast (sg_len s) - ucast (sg_sent s)"

definition get_receive_window :: "os \<Rightarrow> tcp_session \<Rightarrow> world \<Rightarrow> u32 \<times> world" where
  "get_receive_window os cur w =
     (let toforward = sum_list (map sg_left (tcp_forward cur));
          (window, w) = get_receive_buffer os cur w;
          max = push_bit (unat (tcp_recv_scale cur)) 0xFFFF;
          window = (if window > max then max else window)
      in (if toforward < window then window - toforward else 0, w))"

section \<open>Forwarding to the socket\<close>

fun fwd_loop :: "os \<Rightarrow> config \<Rightarrow> segment list \<Rightarrow> u32 \<Rightarrow> bool \<Rightarrow> tcp_session \<Rightarrow> world \<Rightarrow>
    bool \<times> tcp_session \<times> world" where
  "fwd_loop os cfg [] buffer_size fwd t w = (fwd, t\<lparr>tcp_forward := []\<rparr>, w)"
| "fwd_loop os cfg (f # fs) buffer_size fwd t w =
     (if sg_seq f = tcp_remote_seq t \<and> sg_left f < buffer_size then
        let data = drop (unat (sg_sent f)) (take (unat (sg_len f)) (sg_data f));
            (sent, errno) = os_send os (trace w) (tcp_socket t) data;
            w = emit (Send (tcp_socket t) data (\<not> sg_psh f) sent) w in
        if sent < 0 then
          (if errno = EINTR \<or> errno = EAGAIN then (fwd, t\<lparr>tcp_forward := f # fs\<rparr>, w)
           else let (t, w) = write_rst os cfg (t\<lparr>tcp_forward := f # fs\<rparr>) w in (fwd, t, w))
        else
          let t = t\<lparr>tcp_sent := tcp_sent t + of_int sent\<rparr>;
              f = f\<lparr>sg_sent := sg_sent f + of_int sent\<rparr> in
          if sg_len f = sg_sent f then
            fwd_loop os cfg fs (buffer_size - of_int sent) True
              (t\<lparr>tcp_remote_seq := sg_seq f + ucast (sg_sent f)\<rparr>) w
          else (True, t\<lparr>tcp_forward := f # fs\<rparr>, w)
      else (fwd, t\<lparr>tcp_forward := f # fs\<rparr>, w))"

definition forward_data :: "os \<Rightarrow> config \<Rightarrow> tcp_session \<Rightarrow> world \<Rightarrow> bool \<times> tcp_session \<times> world" where
  "forward_data os cfg t w =
     (let (buffer_size, w) = get_receive_buffer os t w
      in fwd_loop os cfg (tcp_forward t) buffer_size False t w)"

section \<open>The queue as a store of segments\<close>

subsection \<open>The interface\<close>

text \<open>
  What the TCP session relies on: a store keyed by sequence numbers, in which putting a value at a
  key joins it with what is there and changes nothing else, and which is determined by what can be
  looked up. From this contract it follows that the order of arrival does not matter and that a
  repeated arrival changes nothing.
\<close>

locale segment_store =
  fixes ok :: "'q \<Rightarrow> bool" and key_ok :: "'k \<Rightarrow> bool"
    and put :: "'k \<Rightarrow> 'v \<Rightarrow> 'q \<Rightarrow> 'q" and get :: "'k \<Rightarrow> 'q \<Rightarrow> 's option"
    and join :: "'k \<Rightarrow> 'v \<Rightarrow> 's option \<Rightarrow> 's"
  assumes ok_put: "ok q \<Longrightarrow> key_ok k \<Longrightarrow> ok (put k v q)"
    and get_put: "ok q \<Longrightarrow> key_ok k \<Longrightarrow>
       get j (put k v q) = (if j = k then Some (join k v (get k q)) else get j q)"
    and ext: "ok q \<Longrightarrow> ok q' \<Longrightarrow> (\<And>k. get k q = get k q') \<Longrightarrow> q = q'"
    and join_join: "join k v (Some (join k v s)) = join k v s"
begin

lemma put_commute:
  assumes "ok q" "key_ok k" "key_ok l" "k \<noteq> l"
  shows "put k v (put l u q) = put l u (put k v q)"
  by (rule ext) (use assms in \<open>auto simp: ok_put get_put\<close>)

lemma put_twice:
  assumes "ok q" "key_ok k"
  shows "put k v (put k v q) = put k v q"
  by (rule ext) (use assms in \<open>auto simp: ok_put get_put join_join\<close>)

definition put_all :: "('k \<times> 'v) list \<Rightarrow> 'q \<Rightarrow> 'q" where
  "put_all kvs q = fold (\<lambda>(k, v). put k v) kvs q"

lemma ok_put_all:
  assumes "ok q" "\<forall>k\<in>fst ` set kvs. key_ok k"
  shows "ok (put_all kvs q)"
  using assms unfolding put_all_def by (induction kvs arbitrary: q) (auto simp: ok_put)

lemma get_put_all:
  assumes "ok q" "\<forall>k\<in>fst ` set kvs. key_ok k" "distinct (map fst kvs)"
  shows "get j (put_all kvs q) =
    (case map_of kvs j of None \<Rightarrow> get j q | Some v \<Rightarrow> Some (join j v (get j q)))"
  using assms
proof (induction kvs arbitrary: q)
  case (Cons kv kvs)
  then obtain k v where kv: "kv = (k, v)" "key_ok k" "k \<notin> fst ` set kvs" by (cases kv) auto
  then have n: "map_of kvs k = None" by (simp add: map_of_eq_None_iff)
  have "get j (put_all (kv # kvs) q) =
    (case map_of kvs j of None \<Rightarrow> get j (put k v q) | Some u \<Rightarrow> Some (join j u (get j (put k v q))))"
    using Cons kv by (simp add: put_all_def ok_put)
  with Cons.prems kv n show ?case by (cases "j = k") (auto simp: get_put split: option.split)
qed (simp add: put_all_def)

lemma put_all_order:
  assumes "ok q" "\<forall>k\<in>fst ` set kvs. key_ok k" "distinct (map fst kvs)" "mset kvs = mset kvs'"
  shows "put_all kvs q = put_all kvs' q"
proof (rule ext)
  have s: "set kvs' = set kvs" using assms(4) by (metis set_mset_mset)
  have d: "distinct (map fst kvs')"
    using assms(3,4) by (metis mset_eq_imp_distinct_iff mset_map)
  show "ok (put_all kvs q)" "ok (put_all kvs' q)" by (use assms s in \<open>simp_all add: ok_put_all\<close>)
  have "map_of kvs = map_of kvs'" by (rule map_of_inject_set [THEN iffD2]) (use assms d s in simp_all)
  then show "get j (put_all kvs q) = get j (put_all kvs' q)" for j
    using assms d s by (simp add: get_put_all)
qed

end

subsection \<open>The sorted list implements it\<close>

text \<open>
  Sequence numbers are compared within a window: every number the queue holds lies less than
  \<open>2^31 - 1\<close> above a base, as it does for a peer that respects a receive window (at most
  \<open>65535 << 14\<close>).
\<close>

definition soff :: "u32 \<Rightarrow> u32 \<Rightarrow> nat" where
  "soff base seq = unat (seq - base)"

definition seq_ok :: "u32 \<Rightarrow> u32 \<Rightarrow> bool" where
  "seq_ok base seq \<longleftrightarrow> soff base seq < 0x7FFFFFFF"

definition queue_ok :: "u32 \<Rightarrow> segment list \<Rightarrow> bool" where
  "queue_ok base q \<longleftrightarrow> (\<forall>s\<in>set q. seq_ok base (sg_seq s)) \<and>
     sorted_wrt (\<lambda>a b. soff base (sg_seq a) < soff base (sg_seq b)) q"

definition queue_find :: "u32 \<Rightarrow> segment list \<Rightarrow> segment option" where
  "queue_find seq q = find (\<lambda>s. sg_seq s = seq) q"

definition queue_join :: "u32 \<Rightarrow> bool \<times> bytes \<Rightarrow> segment option \<Rightarrow> segment" where
  "queue_join seq v old = (case old of
       None \<Rightarrow> new_segment seq (fst v) (snd v)
     | Some s \<Rightarrow> if sg_len s = of_nat (length (snd v)) then s
               else s\<lparr>sg_len := of_nat (length (snd v)), sg_data := snd v\<rparr>)"

lemma soff_eq_iff [simp]: "soff base a = soff base b \<longleftrightarrow> a = b"
  by (simp add: soff_def word_unat_eq_iff [symmetric])

lemma compare_u32_soff:
  assumes "seq_ok base a" "seq_ok base b"
  shows "compare_u32 a b = sgn (int (soff base a) - int (soff base b))"
  using compare_u32_window [of "soff base a" "soff base b" base] assms
  by (simp add: seq_ok_def soff_def)

lemma compare_u32_soff_cases:
  assumes "seq_ok base a" "seq_ok base b"
  shows "compare_u32 a b < 0 \<longleftrightarrow> soff base a < soff base b"
    and "compare_u32 a b > 0 \<longleftrightarrow> soff base b < soff base a"
  using compare_u32_soff [OF assms]
  by (cases "soff base a" "soff base b" rule: linorder_cases; simp)+

lemma new_segment_seq [simp]: "sg_seq (new_segment seq psh data) = seq"
  by (simp add: new_segment_def)

lemma queue_ok_Nil [simp]: "queue_ok base []"
  by (simp add: queue_ok_def)

lemma queue_ok_Cons:
  "queue_ok base (s # q) \<longleftrightarrow> seq_ok base (sg_seq s) \<and> queue_ok base q \<and>
     (\<forall>x\<in>set q. soff base (sg_seq s) < soff base (sg_seq x))"
  by (auto simp: queue_ok_def)

lemma seqs_queue_insert:
  "sg_seq ` set (queue_insert seq psh data q) \<subseteq> insert seq (sg_seq ` set q)"
  by (induction q) auto

lemma queue_ok_insert:
  assumes "queue_ok base q" "seq_ok base seq"
  shows "queue_ok base (queue_insert seq psh data q)"
  using assms
proof (induction q)
  case (Cons s q)
  have c: "compare_u32 (sg_seq s) seq < 0 \<longleftrightarrow> soff base (sg_seq s) < soff base seq"
    "compare_u32 (sg_seq s) seq > 0 \<longleftrightarrow> soff base seq < soff base (sg_seq s)"
    using Cons.prems by (auto simp: queue_ok_Cons compare_u32_soff_cases)
  have "\<forall>x\<in>set (queue_insert seq psh data q). soff base (sg_seq s) < soff base (sg_seq x)"
    if "soff base (sg_seq s) < soff base seq"
    using that Cons.prems seqs_queue_insert [of seq psh data q] by (force simp: queue_ok_Cons)
  with Cons c show ?case by (auto simp: queue_ok_Cons)
qed (simp add: queue_ok_Cons)

lemma queue_find_simps [simp]:
  "queue_find seq [] = None"
  "queue_find seq (s # q) = (if sg_seq s = seq then Some s else queue_find seq q)"
  by (simp_all add: queue_find_def)

lemma queue_find_None: "queue_find seq q = None \<longleftrightarrow> seq \<notin> sg_seq ` set q"
  by (induction q) auto

lemma queue_find_Some: "queue_find seq q = Some s \<Longrightarrow> s \<in> set q \<and> sg_seq s = seq"
  by (induction q) (auto split: if_splits)

lemma queue_find_insert:
  assumes "queue_ok base q" "seq_ok base seq"
  shows "queue_find j (queue_insert seq psh data q) =
    (if j = seq then Some (queue_join seq (psh, data) (queue_find seq q)) else queue_find j q)"
  using assms
proof (induction q)
  case (Cons s q)
  have c: "compare_u32 (sg_seq s) seq < 0 \<longleftrightarrow> soff base (sg_seq s) < soff base seq"
    "compare_u32 (sg_seq s) seq > 0 \<longleftrightarrow> soff base seq < soff base (sg_seq s)"
    using Cons.prems by (auto simp: queue_ok_Cons compare_u32_soff_cases)
  have n: "queue_find seq q = None" if "soff base seq < soff base (sg_seq s)"
    using that Cons.prems by (force simp: queue_find_None queue_ok_Cons)
  have e: "sg_seq s \<noteq> seq" if "soff base (sg_seq s) < soff base seq" using that by auto
  show ?case
  proof (cases "soff base (sg_seq s)" "soff base seq" rule: linorder_cases)
    case less
    with Cons c e show ?thesis by (auto simp: queue_ok_Cons)
  next
    case equal
    then show ?thesis by (simp add: queue_join_def compare_u32_def)
  next
    case greater
    then show ?thesis by (auto simp: c n queue_join_def)
  qed
qed (simp add: queue_join_def)

lemma queue_find_member: "queue_ok base q \<Longrightarrow> queue_find seq q = Some s \<longleftrightarrow> s \<in> set q \<and> sg_seq s = seq"
  by (induction q) (auto simp: queue_ok_Cons)

lemma queue_find_iff: "queue_ok base q \<Longrightarrow> s \<in> set q \<longleftrightarrow> queue_find (sg_seq s) q = Some s"
  by (simp add: queue_find_member)

lemma queue_ext:
  assumes "queue_ok base q" "queue_ok base q'" "\<And>k. queue_find k q = queue_find k q'"
  shows "q = q'"
proof -
  have "set q = set q'"
    using assms(3) by (simp add: set_eq_iff queue_find_iff [OF assms(1)] queue_find_iff [OF assms(2)])
  moreover have "sorted_wrt (\<lambda>a b. soff base (sg_seq a) < soff base (sg_seq b)) q"
    "sorted_wrt (\<lambda>a b. soff base (sg_seq a) < soff base (sg_seq b)) q'"
    using assms by (simp_all add: queue_ok_def)
  ultimately show ?thesis
  proof (induction q arbitrary: q')
    case (Cons s q)
    then obtain s' r where q': "q' = s' # r" by (cases q') auto
    have "s = s'"
    proof (rule ccontr)
      assume "s \<noteq> s'"
      with Cons.prems(1) q' have "s \<in> set r" "s' \<in> set q" by auto
      with Cons.prems(2,3) q' show False by (auto dest: less_asym)
    qed
    from Cons.prems(2,3) q' have "s \<notin> set q" "s' \<notin> set r" by auto
    with Cons.prems(1) q' \<open>s = s'\<close> have "set q = set r" by (simp add: insert_ident)
    with Cons q' \<open>s = s'\<close> show ?case by auto
  qed simp
qed

interpretation sq: segment_store "queue_ok base" "seq_ok base" "\<lambda>k v. queue_insert k (fst v) (snd v)"
  queue_find queue_join for base
  by unfold_locales
    (auto simp: queue_ok_insert queue_find_insert queue_join_def new_segment_def split: option.split
      intro: queue_ext)

subsection \<open>Arrival order\<close>

definition queue_all :: "(u32 \<times> bool \<times> bytes) list \<Rightarrow> segment list \<Rightarrow> segment list" where
  "queue_all arrivals q = fold (\<lambda>(seq, psh, data). queue_insert seq psh data) arrivals q"

lemma queue_all_put_all: "queue_all arrivals q = sq.put_all arrivals q"
  by (simp add: queue_all_def sq.put_all_def case_prod_unfold)



section \<open>Forwarding in order\<close>

text \<open>The bytes a socket has accepted, oldest first.\<close>

fun sent_stream :: "int \<Rightarrow> event list \<Rightarrow> bytes" where
  "sent_stream sock [] = []"
| "sent_stream sock (e # es) = (case e of
       Send s d m r \<Rightarrow>
         if s = sock \<and> 0 \<le> r then sent_stream sock es @ take (nat r) d else sent_stream sock es
     | _ \<Rightarrow> sent_stream sock es)"

lemma sent_stream_frame: "extends tun_event w w' \<Longrightarrow> sent_stream sock (trace w') = sent_stream sock (trace w)"
proof -
  have "\<forall>e\<in>set es. tun_event e \<Longrightarrow> sent_stream sock (es @ tr) = sent_stream sock tr" for es tr
    by (induction es) (auto simp: tun_event_def split: event.splits)
  then show "extends tun_event w w' \<Longrightarrow> ?thesis" by (auto simp: extends_def)
qed

text \<open>
  The contract of \<open>send\<close>: it accepts at most the bytes it is given. The loop never passes it a
  range outside a segment: the unsigned comparison with the free buffer space fails when more has
  been sent than the segment holds.
\<close>

definition send_contract :: "os \<Rightarrow> bool" where
  "send_contract os \<longleftrightarrow> (\<forall>tr sock data. fst (os_send os tr sock data) \<le> int (length data))"

lemma sg_left_in_range:
  assumes "sg_left f < buffer_size" "buffer_size \<le> 0x7FFFFFFF"
  shows "sg_sent f \<le> sg_len f"
proof (rule ccontr)
  assume "\<not> sg_sent f \<le> sg_len f"
  then have "unat (sg_len f) < unat (sg_sent f)" by (simp add: word_le_nat_alt)
  moreover have "unat (sg_sent f) < 65536" by (rule unat_u16_less)
  ultimately have "unat (sg_left f) > 0x7FFFFFFF"
    by (simp add: sg_left_def unat_minus_u32 word_nat)
  with assms show False by (simp add: word_less_nat_alt word_le_nat_alt)
qed

text \<open>
  The invariant of the data path, for a stream \<open>S\<close> whose first byte has the sequence number
  \<open>base\<close>: every queued segment is the piece of the stream that its number says, only the segment
  the loop works on is partly sent, and the socket got exactly the stream up to that point.
\<close>

definition piece_of :: "u32 \<Rightarrow> bytes \<Rightarrow> u32 \<Rightarrow> bytes \<Rightarrow> bool" where
  "piece_of base S seq data \<longleftrightarrow>
     soff base seq + length data \<le> length S \<and> data = take (length data) (drop (soff base seq) S)"

definition seg_ok :: "u32 \<Rightarrow> bytes \<Rightarrow> u32 \<Rightarrow> segment \<Rightarrow> bool" where
  "seg_ok base S rs s \<longleftrightarrow> piece_of base S (sg_seq s) (sg_data s) \<and>
     unat (sg_len s) = length (sg_data s) \<and> (sg_sent s \<noteq> 0 \<longrightarrow> sg_seq s = rs)"

definition sent_at :: "u32 \<Rightarrow> segment list \<Rightarrow> nat" where
  "sent_at seq q = (case queue_find seq q of None \<Rightarrow> 0 | Some s \<Rightarrow> unat (sg_sent s))"

definition flow_inv :: "u32 \<Rightarrow> bytes \<Rightarrow> segment list \<Rightarrow> u32 \<Rightarrow> bytes \<Rightarrow> bool" where
  "flow_inv base S q rs sent \<longleftrightarrow>
     length S < 0x7FFFFFFF \<and> queue_ok base q \<and> (\<forall>s\<in>set q. seg_ok base S rs s) \<and>
     soff base rs + sent_at rs q \<le> length S \<and> sent = take (soff base rs + sent_at rs q) S"

lemma flow_seq_ok: "flow_inv base S q rs sent \<Longrightarrow> seq_ok base rs"
  by (auto simp: flow_inv_def seq_ok_def)

lemma flow_send:
  assumes inv: "flow_inv base S (f # fs) (sg_seq f) sent"
    and d: "d = drop (unat (sg_sent f)) (take (unat (sg_len f)) (sg_data f))"
    and n: "n \<le> length d"
  shows "flow_inv base S (f\<lparr>sg_sent := sg_sent f + of_nat n\<rparr> # fs) (sg_seq f) (sent @ take n d)"
proof -
  let ?o = "soff base (sg_seq f)" and ?k = "unat (sg_sent f)"
  from inv have p: "piece_of base S (sg_seq f) (sg_data f)" "unat (sg_len f) = length (sg_data f)"
    and sent: "sent = take (?o + ?k) S" "?o + ?k \<le> length S"
    by (auto simp: flow_inv_def seg_ok_def sent_at_def)
  have l: "length d = length (sg_data f) - ?k" using d p by simp
  have len: "length (sg_data f) < 65536" using p(2) unat_u16_less [of "sg_len f"] by simp
  have u: "unat (sg_sent f + of_nat n) = ?k + n"
  proof -
    have "?k + n < 65536" using n l len unat_u16_less [of "sg_sent f"] by linarith
    moreover from this have "unat (of_nat n :: u16) = n" by (simp add: unat_of_nat_16)
    ultimately show ?thesis by (simp add: unat_word_ariths)
  qed
  have "sg_data f = take (length (sg_data f)) (drop ?o S)" using p(1) by (simp add: piece_of_def)
  with d p(2) have "d = drop ?k (take (length (sg_data f)) (drop ?o S))" by simp
  then have "d = take (length (sg_data f) - ?k) (drop (?o + ?k) S)"
    unfolding drop_take drop_drop by (simp add: add.commute)
  then have "take n d = take n (drop (?o + ?k) S)" using n l by (simp add: min_absorb1)
  then have "sent @ take n d = take (?o + (?k + n)) S"
    by (simp add: sent(1) take_add add.assoc [symmetric])
  moreover have "?o + (?k + n) \<le> length S"
    using n l sent(2) p(1) by (cases n) (auto simp: piece_of_def)
  moreover have "?o + (?k + n) \<le> length S \<Longrightarrow> seg_ok base S (sg_seq f) (f\<lparr>sg_sent := x\<rparr>)" for x
    using p by (simp add: seg_ok_def)
  ultimately show ?thesis
    using inv by (auto simp: flow_inv_def sent_at_def u queue_ok_Cons)
qed

lemma flow_advance:
  assumes inv: "flow_inv base S (f # fs) (sg_seq f) sent" and "sg_len f = sg_sent f"
  shows "flow_inv base S fs (sg_seq f + ucast (sg_sent f)) sent"
proof -
  let ?o = "soff base (sg_seq f)" and ?k = "unat (sg_sent f)" and ?r = "sg_seq f + ucast (sg_sent f)"
  from inv have le: "?o + ?k \<le> length S" and S: "length S < 0x7FFFFFFF"
    and sent: "sent = take (?o + ?k) S"
    by (auto simp: flow_inv_def sent_at_def)
  have r: "soff base ?r = ?o + ?k"
  proof -
    have "?r - base = (sg_seq f - base) + ucast (sg_sent f)" by simp
    then have "soff base ?r = unat ((sg_seq f - base) + ucast (sg_sent f))" by (simp only: soff_def)
    also have "\<dots> = ?o + ?k"
      using le S by (subst unat_plus_u32) (simp_all add: soff_def word_nat)
    finally show ?thesis .
  qed
  have z: "sg_sent s = 0" if "s \<in> set fs" for s
    using inv that by (fastforce simp: flow_inv_def queue_ok_Cons seg_ok_def)
  then have "sent_at ?r fs = 0"
    by (auto simp: sent_at_def dest: queue_find_Some split: option.split)
  with inv z r sent le show ?thesis by (auto simp: flow_inv_def queue_ok_Cons seg_ok_def)
qed

lemma rst_flow:
  assumes "write_rst os cfg t w = (t', w')" "tcp_state t \<noteq> TCP_LISTEN"
  shows "tcp_forward t' = tcp_forward t" "tcp_remote_seq t' = tcp_remote_seq t"
    "tcp_socket t' = tcp_socket t" "tcp_state t' \<noteq> TCP_LISTEN"
    "sent_stream sock (trace w') = sent_stream sock (trace w)"
  using write_rst_session [OF assms(1)] sent_stream_frame [OF write_rst_frame [OF assms(1)]] assms(2)
  by simp_all

lemma fwd_loop_flow:
  assumes "send_contract os" "tcp_state t \<noteq> TCP_LISTEN"
    and "flow_inv base S q (tcp_remote_seq t) (sent_stream (tcp_socket t) (trace w))"
    and "fwd_loop os cfg q buffer_size fwd t w = (fwd', t', w')"
  shows "flow_inv base S (tcp_forward t') (tcp_remote_seq t') (sent_stream (tcp_socket t) (trace w'))
    \<and> tcp_socket t' = tcp_socket t \<and> tcp_state t' \<noteq> TCP_LISTEN"
  using assms(2-4)
proof (induction q arbitrary: buffer_size fwd t w)
  case (Cons f fs)
  define d where "d = drop (unat (sg_sent f)) (take (unat (sg_len f)) (sg_data f))"
  obtain r errno where r: "os_send os (trace w) (tcp_socket t) d = (r, errno)" by fastforce
  let ?w = "emit (Send (tcp_socket t) d (\<not> sg_psh f) r) w"
  consider "\<not> (sg_seq f = tcp_remote_seq t \<and> sg_left f < buffer_size)"
    | (neg) "sg_seq f = tcp_remote_seq t" "sg_left f < buffer_size" "r < 0"
    | (pos) n where "sg_seq f = tcp_remote_seq t" "sg_left f < buffer_size" "r = int n"
    by (metis nonneg_int_cases not_le)
  then show ?case
  proof cases
    case 1
    with Cons.prems show ?thesis by (auto simp: Let_def)
  next
    case neg
    obtain u v where rst: "write_rst os cfg (t\<lparr>tcp_forward := f # fs\<rparr>) ?w = (u, v)" by fastforce
    have "tcp_state (t\<lparr>tcp_forward := f # fs\<rparr>) \<noteq> TCP_LISTEN" using Cons.prems(1) by simp
    from rst_flow [OF rst this] show ?thesis
      using Cons.prems neg r rst by (auto simp: Let_def d_def [symmetric] split: if_splits)
  next
    case pos
    have n: "n \<le> length d" using assms(1) r pos(3) by (metis fst_conv of_nat_le_iff send_contract_def)
    let ?f = "f\<lparr>sg_sent := sg_sent f + of_nat n\<rparr>"
    have "flow_inv base S (?f # fs) (sg_seq f) (sent_stream (tcp_socket t) (trace w) @ take n d)"
      by (rule flow_send [OF _ d_def n]) (use Cons.prems pos in simp)
    then have inv: "flow_inv base S (?f # fs) (sg_seq ?f) (sent_stream (tcp_socket t) (trace ?w))"
      by (simp add: pos(3))
    show ?thesis
    proof (cases "sg_len ?f = sg_sent ?f")
      case True
      let ?t = "t\<lparr>tcp_sent := tcp_sent t + of_nat n, tcp_remote_seq := sg_seq f + ucast (sg_sent ?f)\<rparr>"
      show ?thesis
        using Cons.IH [of ?t ?w "buffer_size - of_nat n" True] flow_advance [OF inv True]
          Cons.prems pos True r
        by (simp add: Let_def d_def [symmetric])
    next
      case False
      with Cons.prems pos r inv show ?thesis by (auto simp: Let_def d_def [symmetric])
    qed
  qed
qed auto

lemma get_receive_buffer_stream:
  "sent_stream sock (trace (snd (get_receive_buffer os t w))) = sent_stream sock (trace w)"
  by (simp add: get_receive_buffer_def Let_def)

lemma sent_at_insert:
  assumes "queue_ok base q" "seq_ok base seq"
  shows "sent_at rs (queue_insert seq psh data q) = sent_at rs q"
  by (auto simp: sent_at_def queue_find_insert [OF assms] queue_join_def new_segment_def
      split: option.split)

lemma flow_insert:
  assumes inv: "flow_inv base S q rs sent" and p: "piece_of base S seq data" "length data < 65536"
  shows "flow_inv base S (queue_insert seq psh data q) rs sent"
proof -
  have sq: "seq_ok base seq"
    using inv p(1) by (simp add: flow_inv_def piece_of_def seq_ok_def)
  have ok: "queue_ok base q" using inv by (simp add: flow_inv_def)
  have l: "unat (of_nat (length data) :: u16) = length data" using p(2) by (simp add: unat_of_nat_16)
  have "seg_ok base S rs s" if "s \<in> set (queue_insert seq psh data q)" for s
  proof -
    from that have f: "queue_find (sg_seq s) (queue_insert seq psh data q) = Some s"
      using queue_find_iff [OF queue_ok_insert [OF ok sq]] by simp
    have old: "queue_find k q = Some s' \<Longrightarrow> seg_ok base S rs s' \<and> sg_seq s' = k" for k s'
      using inv queue_find_Some by (auto simp: flow_inv_def)
    have j: "seg_ok base S rs (queue_join seq (psh, data) (queue_find seq q))"
    proof (cases "queue_find seq q")
      case None
      with p l show ?thesis by (simp add: queue_join_def new_segment_def seg_ok_def)
    next
      case (Some s')
      with old [of seq s'] p l show ?thesis by (auto simp: queue_join_def seg_ok_def)
    qed
    show ?thesis
      using f old [of "sg_seq s" s] j
      by (cases "sg_seq s = seq") (simp_all add: queue_find_insert [OF ok sq])
  qed
  with inv show ?thesis
    by (simp add: flow_inv_def sent_at_insert [OF ok sq] queue_ok_insert [OF ok sq])
qed

subsection \<open>The data path as a transition system\<close>

text \<open>
  The steps of the session and the world that concern the data path: a segment of the stream
  arrives and is queued, the loop forwards data, and anything else that leaves the queue, the
  acknowledged position and the socket alone and sends nothing on this socket.
\<close>

inductive flow_step :: "os \<Rightarrow> config \<Rightarrow> u32 \<Rightarrow> bytes \<Rightarrow> tcp_session \<times> world \<Rightarrow> tcp_session \<times> world \<Rightarrow> bool"
  for os cfg base S where
  arrive: "piece_of base S (th_seq h) data \<Longrightarrow> length data < 65536 \<Longrightarrow>
     flow_step os cfg base S (t, w) (queue_tcp h t data, w)"
| forward: "forward_data os cfg t w = (fwd, t', w') \<Longrightarrow> flow_step os cfg base S (t, w) (t', w')"
| other: "tcp_forward t' = tcp_forward t \<Longrightarrow> tcp_remote_seq t' = tcp_remote_seq t \<Longrightarrow>
     tcp_socket t' = tcp_socket t \<Longrightarrow> tcp_state t' \<noteq> TCP_LISTEN \<Longrightarrow>
     sent_stream (tcp_socket t) (trace w') = sent_stream (tcp_socket t) (trace w) \<Longrightarrow>
     flow_step os cfg base S (t, w) (t', w')"

definition flow_state :: "u32 \<Rightarrow> bytes \<Rightarrow> tcp_session \<times> world \<Rightarrow> bool" where
  "flow_state base S st \<longleftrightarrow> (case st of (t, w) \<Rightarrow> tcp_state t \<noteq> TCP_LISTEN \<and>
     flow_inv base S (tcp_forward t) (tcp_remote_seq t) (sent_stream (tcp_socket t) (trace w)))"

lemma flow_step_state:
  assumes "flow_step os cfg base S st st'" "send_contract os" "flow_state base S st"
  shows "flow_state base S st' \<and> tcp_socket (fst st') = tcp_socket (fst st)"
  using assms
proof (induction rule: flow_step.induct)
  case (arrive h data t w)
  then show ?case by (auto simp: flow_state_def queue_tcp_def flow_insert)
next
  case (forward t w fwd t' w')
  then have "fwd_loop os cfg (tcp_forward t) (fst (get_receive_buffer os t w)) False t
      (snd (get_receive_buffer os t w)) = (fwd, t', w')"
    by (simp add: forward_data_def case_prod_unfold Let_def)
  from fwd_loop_flow [OF forward.prems(1) _ _ this, of base S] forward.prems(2) show ?case
    by (auto simp: flow_state_def get_receive_buffer_stream)
qed (auto simp: flow_state_def)


definition hdr_sample :: "u32 \<Rightarrow> tcphdr" where
  "hdr_sample seq = \<lparr>th_source = 0x39C0, th_dest = 0xBB01, th_seq = seq, th_ack_seq = 5001,
     th_doff = 5, th_fin = False, th_syn = False, th_rst = False, th_psh = True, th_ack = True,
     th_urg = False, th_window = 1000\<rparr>"


subsection \<open>Progress\<close>

text \<open>The queue holds contiguous segments from a position on, and where they end.\<close>

fun contig :: "u32 \<Rightarrow> segment list \<Rightarrow> bool" where
  "contig rs [] = True"
| "contig rs (s # q) = (sg_seq s = rs \<and> contig (rs + ucast (sg_len s)) q)"

fun queue_end :: "u32 \<Rightarrow> segment list \<Rightarrow> u32" where
  "queue_end rs [] = rs"
| "queue_end rs (s # q) = queue_end (rs + ucast (sg_len s)) q"

definition segs_open :: "segment list \<Rightarrow> bool" where
  "segs_open q \<longleftrightarrow> (\<forall>s\<in>set q. unat (sg_len s) = length (sg_data s) \<and> sg_sent s \<le> sg_len s)"

definition queue_left :: "segment list \<Rightarrow> nat" where
  "queue_left q = sum_list (map (\<lambda>s. unat (sg_len s) - unat (sg_sent s)) q)"

lemma unat_sg_left: "sg_sent s \<le> sg_len s \<Longrightarrow> unat (sg_left s) = unat (sg_len s) - unat (sg_sent s)"
  by (simp add: sg_left_def unat_minus_u32 word_nat word_le_nat_alt)

lemma fwd_loop_complete:
  assumes "\<And>tr sock data. fst (os_send os tr sock data) = int (length data)"
    and "contig (tcp_remote_seq t) q" "segs_open q" "queue_left q < unat buffer_size"
  shows "\<exists>t' w'. fwd_loop os cfg q buffer_size fwd t w = (fwd \<or> q \<noteq> [], t', w') \<and>
    tcp_forward t' = [] \<and> tcp_remote_seq t' = queue_end (tcp_remote_seq t) q"
  using assms(2-)
proof (induction q arbitrary: buffer_size fwd t w)
  case (Cons f fs)
  define d where "d = drop (unat (sg_sent f)) (take (unat (sg_len f)) (sg_data f))"
  obtain errno where r: "os_send os (trace w) (tcp_socket t) d = (int (length d), errno)"
    using assms(1) by (metis prod.collapse)
  have le: "unat (sg_sent f) \<le> unat (sg_len f)" "sg_sent f \<le> sg_len f"
    and l: "length d = unat (sg_len f) - unat (sg_sent f)"
    using Cons.prems by (auto simp: segs_open_def d_def word_le_nat_alt)
  have len: "unat (sg_left f) = length d" using le l by (simp add: unat_sg_left)
  have b: "length d < unat buffer_size" using Cons.prems(3) l by (simp add: queue_left_def)
  have small: "length d < 65536" using l unat_u16_less [of "sg_len f"] by simp
  have s: "sg_sent f + of_nat (length d) = sg_len f"
    using le l small by (simp add: word_unat_eq_iff unat_word_ariths unat_of_nat_16)
  have "queue_left fs < unat (buffer_size - of_nat (length d))"
    using Cons.prems(3) l b small
    by (simp add: queue_left_def unat_minus_u32 unsigned_of_nat take_bit_nat_eq_self)
  moreover
  let ?t = "t\<lparr>tcp_sent := tcp_sent t + of_nat (length d), tcp_remote_seq := sg_seq f + ucast (sg_len f)\<rparr>"
  have "fwd_loop os cfg (f # fs) buffer_size fwd t w =
    fwd_loop os cfg fs (buffer_size - of_nat (length d)) True ?t
      (emit (Send (tcp_socket t) d (\<not> sg_psh f) (int (length d))) w)"
    using Cons.prems(1) len b r s by (simp add: Let_def d_def [symmetric] word_less_nat_alt)
  ultimately show ?case
    using Cons.IH [of ?t "buffer_size - of_nat (length d)" True] Cons.prems
    by (simp add: segs_open_def)
qed auto

text \<open>
  Data does not get stuck. If the queue holds contiguous segments from the acknowledged position
  on, the socket reports more free space than they need and accepts what it is given, then one
  forwarding run empties the queue, reports progress, and moves the acknowledged position to the
  end of the data.
\<close>

theorem forward_complete:
  assumes "\<And>tr sock data. fst (os_send os tr sock data) = int (length data)"
    and "contig (tcp_remote_seq t) (tcp_forward t)" "segs_open (tcp_forward t)"
    and "queue_left (tcp_forward t) < unat (fst (get_receive_buffer os t w))"
  shows "\<exists>t' w'. forward_data os cfg t w = (tcp_forward t \<noteq> [], t', w') \<and>
    tcp_forward t' = [] \<and> tcp_remote_seq t' = queue_end (tcp_remote_seq t) (tcp_forward t)"
  using fwd_loop_complete [OF assms, of cfg False "snd (get_receive_buffer os t w)"]
  by (simp add: forward_data_def case_prod_unfold Let_def)

theorem forward_complete_witness:
  "\<exists>t' w'. forward_data os_ok cfg_plain (queue_tcp (hdr_sample 1001) tcp_sample [1, 2]) world0
     = (True, t', w') \<and> tcp_forward t' = [] \<and> tcp_remote_seq t' = 1003"
proof -
  define t where "t = queue_tcp (hdr_sample 1001) tcp_sample [1, 2]"
  have q: "tcp_forward t = [new_segment 1001 True [1, 2]]" "tcp_remote_seq t = 1001" "tcp_socket t = 5"
    by (simp_all add: t_def queue_tcp_def hdr_sample_def tcp_sample_def compare_u32_def)
  have "queue_left (tcp_forward t) < unat (fst (get_receive_buffer os_ok t world0))"
    by (simp add: q queue_left_def new_segment_def get_receive_buffer_def os_ok_def)
  moreover have "contig (tcp_remote_seq t) (tcp_forward t)" "segs_open (tcp_forward t)"
    by (simp_all add: q segs_open_def new_segment_def)
  moreover have "fst (os_send os_ok tr sock data) = int (length data)" for tr sock data
    by (simp add: os_ok_def)
  ultimately show ?thesis
    using forward_complete [of os_ok t world0 cfg_plain] by (simp add: q t_def [symmetric] new_segment_def)
qed

section \<open>Windows\<close>

lemma get_send_window_le: "get_send_window cur \<le> tcp_send_window cur"
  by (simp add: get_send_window_def Let_def word_le_nat_alt unat_minus_u32 word_less_nat_alt)

lemma get_receive_window_closed: "tcp_socket cur < 0 \<Longrightarrow> get_receive_window os cur w = (0, w)"
  by (simp add: get_receive_window_def get_receive_buffer_def)

lemma unat_push_ffff: "n \<le> 16 \<Longrightarrow> unat (push_bit n (0xFFFF :: u32)) = 65535 * 2 ^ n"
proof -
  assume n: "n \<le> 16"
  have "(2::nat) ^ n \<le> 2 ^ 16" by (rule power_increasing) (use n in simp_all)
  then have "(65535 :: nat) * 2 ^ n < 2 ^ 32" by simp
  moreover have "push_bit n (0xFFFF :: u32) = of_nat (65535 * 2 ^ n)"
    by (simp add: push_bit_eq_mult)
  ultimately show ?thesis by (simp only: unsigned_of_nat) (simp add: take_bit_nat_eq_self)
qed

text \<open>
  C28: the receive window the program advertises is a promise it can keep. For every window scale
  up to 16 the scaled value fits the 16 bit header field without truncation, it rounds the window
  down, and the window plus the data already queued is at most the free space of the socket's send
  buffer, or the window is zero.
\<close>

theorem receive_window_promise:
  assumes "unat (tcp_recv_scale cur) \<le> 16" "get_receive_window os cur w = (win, w')"
  shows "unat (ucast (drop_bit (unat (tcp_recv_scale cur)) win) :: u16)
           = unat win div 2 ^ unat (tcp_recv_scale cur)
    \<and> (win = 0 \<or> unat win + unat (sum_list (map sg_left (tcp_forward cur)))
          \<le> unat (fst (get_receive_buffer os cur w)))"
proof -
  let ?n = "unat (tcp_recv_scale cur)" and ?q = "sum_list (map sg_left (tcp_forward cur))"
  let ?b = "fst (get_receive_buffer os cur w)"
  let ?m = "if ?b > push_bit ?n 0xFFFF then push_bit ?n 0xFFFF else ?b"
  have win: "win = (if ?q < ?m then ?m - ?q else 0)"
    using assms(2) by (auto simp: get_receive_window_def Let_def case_prod_unfold)
  have m: "unat ?m \<le> 65535 * 2 ^ ?n" "unat ?m \<le> unat ?b"
    using unat_push_ffff [OF assms(1)] by (auto simp: word_less_nat_alt)
  have w: "unat win = (if unat ?q < unat ?m then unat ?m - unat ?q else 0)"
    unfolding win by (simp add: word_less_nat_alt unat_minus_u32)
  then have "unat win \<le> 65535 * 2 ^ ?n" using m by auto
  then have "unat win div 2 ^ ?n \<le> 65535"
    by (metis div_le_mono div_mult_self_is_m zero_less_numeral zero_less_power)
  then have "unat (ucast (drop_bit ?n win) :: u16) = unat win div 2 ^ ?n"
    by (simp add: unat_ucast_32_16 unat_drop_bit_div del: drop_bit_eq_div)
  moreover have "win = 0 \<or> unat win + unat ?q \<le> unat ?b" using w m by (auto simp: unat_eq_zero)
  ultimately show ?thesis by simp
qed

theorem receive_window_promise_witness:
  "let t = tcp_sample\<lparr>tcp_forward := [new_segment 1001 True [1, 2]]\<rparr> in
   unat (tcp_recv_scale t) \<le> 16 \<and>
   unat (ucast (drop_bit (unat (tcp_recv_scale t)) (fst (get_receive_window os_ok t world0))) :: u16)
     = unat (fst (get_receive_window os_ok t world0)) div 2 ^ unat (tcp_recv_scale t)"
proof -
  let ?t = "tcp_sample\<lparr>tcp_forward := [new_segment 1001 True [1, 2]]\<rparr>"
  have "unat (tcp_recv_scale ?t) \<le> 16" by (simp add: tcp_sample_def)
  from receive_window_promise [OF this, of os_ok world0] this show ?thesis
    by (metis prod.collapse)
qed

end
