(* ===== verification/Tcp_Session.thy ===== *)
theory Tcp_Session
  imports Tcp_Queue Session_Check
begin

text \<open>
  The life cycle of a TCP session, \<open>netguard/tcp.c\<close>: its timeout, the periodic check that resets idle
  sessions, closes their sockets, reports their traffic and lets them linger
  (\<open>check_tcp_session\<close>), and the choice of the events to wait for (\<open>monitor_tcp_session\<close>).
\<close>

section \<open>Timeout and check\<close>

definition get_tcp_timeout :: "tcp_session \<Rightarrow> int \<Rightarrow> int \<Rightarrow> int" where
  "get_tcp_timeout t sessions maxsessions =
     scaled_timeout
       (if tcp_state t = TCP_LISTEN \<or> tcp_state t = TCP_SYN_RECV then TCP_INIT_TIMEOUT
        else if tcp_state t = TCP_ESTABLISHED then TCP_IDLE_TIMEOUT
        else TCP_CLOSE_TIMEOUT)
       sessions maxsessions"

definition tcp_expire :: "os \<Rightarrow> config \<Rightarrow> tcp_session \<Rightarrow> world \<Rightarrow> tcp_session \<times> world" where
  "tcp_expire os cfg s w =
     (if tcp_state s = TCP_LISTEN then (s\<lparr>tcp_state := TCP_CLOSING\<rparr>, w) else write_rst os cfg s w)"

definition tcp_close :: "os \<Rightarrow> tcp_session \<Rightarrow> world \<Rightarrow> tcp_session \<times> world" where
  "tcp_close os s w =
     (let (s, w) = (if tcp_socket s \<ge> 0
                    then (s\<lparr>tcp_socket := -1\<rparr>, emit (Close (tcp_socket s)) w) else (s, w));
          (t, w) = sys_time os w
      in (s\<lparr>tcp_time := t, tcp_state := TCP_CLOSE\<rparr>, w))"

definition tcp_account :: "tcp_session \<Rightarrow> world \<Rightarrow> tcp_session \<times> world" where
  "tcp_account s w =
     (s\<lparr>tcp_sent := 0, tcp_received := 0\<rparr>,
      account_usage (tcp_version s) IPPROTO_TCP (tcp_daddr s) (ntohs (tcp_dest s)) (tcp_uid s)
        (tcp_sent s) (tcp_received s) w)"

definition tcp_closed :: "tcp_session \<Rightarrow> bool" where
  "tcp_closed s \<longleftrightarrow> tcp_state s = TCP_CLOSING \<or> tcp_state s = TCP_CLOSE"

definition check_tcp_session ::
  "os \<Rightarrow> config \<Rightarrow> int \<Rightarrow> int \<Rightarrow> tcp_session \<Rightarrow> world \<Rightarrow> bool \<times> tcp_session \<times> world" where
  "check_tcp_session os cfg sessions maxsessions s w =
     (let (now, w) = sys_time os w;
          timeout = get_tcp_timeout s sessions maxsessions;
          (s, w) = (if \<not> tcp_closed s \<and> tcp_time s + timeout < now
                    then tcp_expire os cfg s w else (s, w));
          (s, w) = (if tcp_state s = TCP_CLOSING then tcp_close os s w else (s, w));
          (s, w) = (if tcp_closed s \<and> (tcp_sent s \<noteq> 0 \<or> tcp_received s \<noteq> 0)
                    then tcp_account s w else (s, w))
      in (tcp_state s = TCP_CLOSE \<and> tcp_time s + TCP_KEEP_TIMEOUT < now, s, w))"

section \<open>Events to wait for\<close>

definition tcp_keep_alive :: "os \<Rightarrow> config \<Rightarrow> tcp_session \<Rightarrow> world \<Rightarrow> tcp_session \<times> world" where
  "tcp_keep_alive os cfg s w =
     (let (ms, w) = get_ms os w in
      if ms - tcp_last_keep_alive s > EPOLL_MIN_CHECK then
        let s = s\<lparr>tcp_last_keep_alive := ms, tcp_remote_seq := tcp_remote_seq s - 1\<rparr>;
            (r, s, w) = write_ack os cfg s w
        in (s\<lparr>tcp_remote_seq := tcp_remote_seq s + 1\<rparr>, w)
      else (s, w))"

definition tcp_outgoing :: "os \<Rightarrow> tcp_session \<Rightarrow> world \<Rightarrow> bool \<times> bool \<times> world" where
  "tcp_outgoing os s w = (case tcp_forward s of
       [] \<Rightarrow> (False, False, w)
     | f # _ \<Rightarrow>
         let (buffer_size, w) = get_receive_buffer os s w;
             ready = (sg_seq f = tcp_remote_seq s \<and> sg_left f < buffer_size)
         in (ready, \<not> ready, w))"

definition tcp_wanted ::
  "os \<Rightarrow> config \<Rightarrow> tcp_session \<Rightarrow> world \<Rightarrow> bool \<times> epoll_events \<times> tcp_session \<times> world" where
  "tcp_wanted os cfg s w =
     (if tcp_state s = TCP_LISTEN then
        (False, \<lparr>ep_in = (tcp_socks5 s \<noteq> SOCKS5_NONE), ep_out = (tcp_socks5 s = SOCKS5_NONE), ep_err = True\<rparr>, s, w)
      else if tcp_state s = TCP_ESTABLISHED \<or> tcp_state s = TCP_CLOSE_WAIT then
        let open_window = (get_send_window s > 0);
            (s, w) = (if open_window then (s, w) else tcp_keep_alive os cfg s w);
            (out, again, w) = tcp_outgoing os s w
        in (\<not> open_window \<or> again, \<lparr>ep_in = open_window, ep_out = out, ep_err = True\<rparr>, s, w)
      else (False, \<lparr>ep_in = False, ep_out = False, ep_err = True\<rparr>, s, w))"

definition monitor_tcp_session ::
  "os \<Rightarrow> config \<Rightarrow> tcp_session \<Rightarrow> world \<Rightarrow> bool \<times> tcp_session \<times> world" where
  "monitor_tcp_session os cfg s w =
     (let (recheck, events, s, w) = tcp_wanted os cfg s w in
      if events \<noteq> tcp_events s then
        let s = s\<lparr>tcp_events := events\<rparr>;
            ok = os_epoll_mod os (trace w) (tcp_socket s);
            w = emit (Epoll_Mod (tcp_socket s) events ok) w
        in (recheck, if ok then s else s\<lparr>tcp_state := TCP_CLOSING\<rparr>, w)
      else (recheck, s, w))"

section \<open>The check keeps the contract\<close>

lemma tcp_ok_rst: "write_rst os cfg t w = (t', w') \<Longrightarrow> tcp_ok t \<Longrightarrow> tcp_ok t'"
  by (drule write_rst_session) (auto simp: tcp_ok_def dest: tcp_sock_ok_range)

lemma tcp_ok_wrapper:
  "write_syn_ack os cfg t w = (r, t', w') \<Longrightarrow> tcp_ok t \<Longrightarrow> tcp_ok t'"
  "write_ack os cfg t w = (r, t', w') \<Longrightarrow> tcp_ok t \<Longrightarrow> tcp_ok t'"
  "write_data os cfg t d w = (r, t', w') \<Longrightarrow> tcp_ok t \<Longrightarrow> tcp_ok t'"
  "write_fin_ack os cfg t w = (r, t', w') \<Longrightarrow> tcp_ok t \<Longrightarrow> tcp_ok t'"
  by (frule write_wrapper_session, auto simp: tcp_ok_def dest: tcp_sock_ok_range)+

text \<open>The three stages of the check, each with what it changes.\<close>

lemma tcp_expire_effect:
  assumes "tcp_expire os cfg s w = (s', w')" "tcp_state s \<noteq> TCP_CLOSE"
  shows "extends tun_event w w' \<and> tcp_state s' = TCP_CLOSING \<and> tcp_socket s' = tcp_socket s \<and>
    tcp_ptr s' = tcp_ptr s \<and> tcp_sent s' = tcp_sent s \<and> tcp_received s' = tcp_received s"
proof (cases "tcp_state s = TCP_LISTEN")
  case False
  then have r: "write_rst os cfg s w = (s', w')" using assms by (simp add: tcp_expire_def)
  show ?thesis using write_rst_frame [OF r] write_rst_session [OF r] assms(2) by simp
qed (use assms in \<open>auto simp: tcp_expire_def\<close>)

lemma tcp_close_effect:
  assumes "tcp_close os s w = (s', w')" "-1 \<le> tcp_socket s"
  shows "tcp_state s' = TCP_CLOSE \<and> tcp_socket s' = -1 \<and> tcp_ptr s' = tcp_ptr s \<and>
    tcp_sent s' = tcp_sent s \<and> tcp_received s' = tcp_received s \<and>
    rep_sent (trace w') = rep_sent (trace w) \<and> rep_received (trace w') = rep_received (trace w) \<and>
    closes (trace w') = (if tcp_socket s = -1 then [] else [tcp_socket s]) @ closes (trace w)"
  using assms by (auto simp: tcp_close_def sys_time_def Let_def split: if_splits)

text \<open>
  Either the session is left alone, or it ends up closed with its socket closed and its traffic
  reported.
\<close>

definition tcp_settle :: "os \<Rightarrow> tcp_session \<Rightarrow> world \<Rightarrow> tcp_session \<times> world" where
  "tcp_settle os s w =
     (let (s, w) = (if tcp_state s = TCP_CLOSING then tcp_close os s w else (s, w))
      in if tcp_closed s \<and> (tcp_sent s \<noteq> 0 \<or> tcp_received s \<noteq> 0) then tcp_account s w else (s, w))"

lemma tcp_settle_effect:
  assumes "tcp_settle os s w = (s', w')" "tcp_closed s" "tcp_ok s"
  shows "tcp_state s' = TCP_CLOSE \<and> tcp_socket s' = -1 \<and> tcp_ptr s' = tcp_ptr s \<and>
    tcp_sent s' = 0 \<and> tcp_received s' = 0 \<and>
    rep_sent (trace w') = tcp_sent s + rep_sent (trace w) \<and>
    rep_received (trace w') = tcp_received s + rep_received (trace w) \<and>
    closes (trace w') = (if tcp_socket s = -1 then [] else [tcp_socket s]) @ closes (trace w)"
proof (cases "tcp_state s = TCP_CLOSING")
  case True
  obtain s1 w1 where c: "tcp_close os s w = (s1, w1)" by fastforce
  have "-1 \<le> tcp_socket s" using assms(3) tcp_sock_ok_range by (auto simp: tcp_ok_def)
  from tcp_close_effect [OF c this] show ?thesis
    using assms(1) True c
    by (auto simp: tcp_settle_def tcp_closed_def tcp_account_def account_usage_def split: if_splits)
next
  case False
  with assms show ?thesis
    by (auto simp: tcp_settle_def tcp_closed_def tcp_ok_def tcp_account_def account_usage_def split: if_splits)
qed

lemma check_tcp_session_cases:
  assumes c: "check_tcp_session os cfg sessions maxsessions s w = (del, s', w')" and ok: "tcp_ok s"
  obtains (keep) "\<not> tcp_closed s" "s' = s" "w' = emit (Time (os_time os (trace w))) w" "\<not> del"
      "os_time os (trace w) \<le> tcp_time s + get_tcp_timeout s sessions maxsessions"
  | (close) "tcp_state s' = TCP_CLOSE" "tcp_socket s' = -1" "tcp_ptr s' = tcp_ptr s"
      "tcp_sent s' = 0" "tcp_received s' = 0"
      "rep_sent (trace w') = tcp_sent s + rep_sent (trace w)"
      "rep_received (trace w') = tcp_received s + rep_received (trace w)"
      "closes (trace w') = (if tcp_socket s = -1 then [] else [tcp_socket s]) @ closes (trace w)"
proof -
  let ?w = "emit (Time (os_time os (trace w))) w"
  let ?e = "\<not> tcp_closed s \<and> tcp_time s + get_tcp_timeout s sessions maxsessions < os_time os (trace w)"
  obtain s1 w1 where 1: "(if ?e then tcp_expire os cfg s ?w else (s, ?w)) = (s1, w1)" by fastforce
  obtain s2 w2 where 2: "tcp_settle os s1 w1 = (s2, w2)" by fastforce
  have r: "s' = s2" "w' = w2" "del \<longleftrightarrow> tcp_state s2 = TCP_CLOSE \<and> tcp_time s2 + TCP_KEEP_TIMEOUT < os_time os (trace w)"
    using c 1 2 by (auto simp: check_tcp_session_def sys_time_def Let_def tcp_settle_def split: prod.splits)
  show thesis
  proof (cases "?e \<or> tcp_closed s")
    case False
    with 1 2 r show ?thesis by (intro keep) (auto simp: tcp_settle_def tcp_closed_def)
  next
    case True
    have s1: "tcp_closed s1" "tcp_ok s1" "tcp_socket s1 = tcp_socket s" "tcp_ptr s1 = tcp_ptr s"
      "tcp_sent s1 = tcp_sent s" "tcp_received s1 = tcp_received s" "closes (trace w1) = closes (trace w)"
      "rep_sent (trace w1) = rep_sent (trace w)" "rep_received (trace w1) = rep_received (trace w)"
    proof -
      have "tcp_sock_ok TCP_CLOSING (tcp_socket s)" using ok tcp_sock_ok_range by (auto simp: tcp_ok_def)
      moreover have "?e \<Longrightarrow> tcp_expire os cfg s ?w = (s1, w1) \<and> tcp_state s \<noteq> TCP_CLOSE"
        using 1 by (auto simp: tcp_closed_def)
      ultimately show "tcp_closed s1" "tcp_ok s1" "tcp_socket s1 = tcp_socket s" "tcp_ptr s1 = tcp_ptr s"
        "tcp_sent s1 = tcp_sent s" "tcp_received s1 = tcp_received s" "closes (trace w1) = closes (trace w)"
        "rep_sent (trace w1) = rep_sent (trace w)" "rep_received (trace w1) = rep_received (trace w)"
        using True 1 ok tcp_expire_effect [of os cfg s ?w s1 w1] closes_tun [of ?w w1] rep_tun [of ?w w1]
        by (auto simp: tcp_closed_def tcp_ok_def split: if_splits)
    qed
    from tcp_settle_effect [OF 2 s1(1,2)] show ?thesis by (intro close) (simp_all add: r s1(3-))
  qed
qed

interpretation tc: accounted_session "check_tcp_session os cfg sessions maxsessions" tcp_socket tcp_ptr
  tcp_ok tcp_sent tcp_received for os cfg sessions maxsessions
proof (unfold_locales, goal_cases)
  case (1 s w s' w')
  from 1(2,1) show ?case by (rule check_tcp_session_cases) (use 1 in \<open>auto simp: tcp_ok_def\<close>)
next
  case (2 s w del s' w')
  from 2(2,1) show ?case by (rule check_tcp_session_cases) auto
next
  case (3 s w s' w')
  from 3(2,1) show ?case by (rule check_tcp_session_cases) auto
next
  case (4 s w del s' w')
  have "-1 \<le> tcp_socket s" using 4(1) tcp_sock_ok_range by (auto simp: tcp_ok_def)
  with 4(2,1) show ?case by (elim check_tcp_session_cases) auto
next
  case (5 s w del s' w')
  from 5(2,1) show ?case by (rule check_tcp_session_cases) auto
next
  case (6 s w del s' w')
  from 6(2,1) show ?case by (rule check_tcp_session_cases) auto
next
  case (7 s w s' w')
  from 7(2,1) show ?case by (rule check_tcp_session_cases) auto
qed

section \<open>Monitoring keeps the invariant\<close>

lemma tcp_wanted_effect:
  assumes "tcp_wanted os cfg s w = (recheck, events, s', w')" "tcp_ok s"
  shows "tcp_ok s' \<and> tcp_ptr s' = tcp_ptr s \<and> tcp_socket s' = tcp_socket s"
proof -
  have k: "tcp_ok v' \<and> tcp_ptr v' = tcp_ptr v \<and> tcp_socket v' = tcp_socket v"
    if "tcp_keep_alive os cfg v x = (v', x')" "tcp_ok v" for v x v' x'
    using that tcp_sock_ok_range [of "tcp_state v" "tcp_socket v"]
    by (auto simp: tcp_keep_alive_def get_ms_def Let_def tcp_ok_def write_ack_def write_or_closing_def
        split: if_splits)
  have "s' = s \<or> s' = fst (tcp_keep_alive os cfg s w)"
    using assms(1) by (auto simp: tcp_wanted_def Let_def case_prod_unfold split: if_splits)
  then show ?thesis using k [of s w] assms(2) by (metis prod.collapse)
qed

lemma monitor_tcp_session_ok:
  assumes "monitor_tcp_session os cfg s w = (recheck, s', w')" "tcp_ok s"
  shows "tcp_ok s' \<and> tcp_ptr s' = tcp_ptr s \<and> tcp_socket s' = tcp_socket s"
proof -
  obtain r e s1 w1 where w: "tcp_wanted os cfg s w = (r, e, s1, w1)" by (cases "tcp_wanted os cfg s w") auto
  from tcp_wanted_effect [OF w assms(2)] show ?thesis
    using assms(1) w
    by (auto simp: monitor_tcp_session_def Let_def tcp_ok_def dest: tcp_sock_ok_range split: if_splits)
qed

end
