(* ===== verification/Tcp_Socket.thy ===== *)
theory Tcp_Socket
  imports Tcp_Session Dns
begin

text \<open>
  \<open>check_tcp_socket\<close> of \<open>netguard/tcp.c\<close>, the reaction to an event on the socket of a TCP session:
  the SOCKS5 handshake while the connection is being set up, forwarding queued data and
  acknowledging it, and reading data for the app. The branch under \<open>if (0)\<close> is dead and left out.
\<close>

section \<open>The SOCKS5 handshake\<close>

text \<open>
  What a message from the proxy does to the handshake; \<open>SOCKS5_ZERO\<close> is failure. A message of 32
  bytes at most is read.
\<close>

definition socks5_reply :: "socks5_state \<Rightarrow> nat \<Rightarrow> bytes \<Rightarrow> socks5_state" where
  "socks5_reply state version buffer =
     (let n = length buffer in
      if state = SOCKS5_HELLO \<and> n = 2 \<and> buffer ! 0 = 5 then
        (if buffer ! 1 = 0 then SOCKS5_CONNECT else if buffer ! 1 = 2 then SOCKS5_AUTH else SOCKS5_ZERO)
      else if state = SOCKS5_AUTH \<and> n = 2 \<and> (buffer ! 0 = 1 \<or> buffer ! 0 = 5) then
        (if buffer ! 1 = 0 then SOCKS5_CONNECT else SOCKS5_ZERO)
      else if state = SOCKS5_CONNECT \<and> n = 6 + (if version = 4 then 4 else 16) \<and> buffer ! 0 = 5 then
        (if buffer ! 1 = 0 then SOCKS5_CONNECTED else SOCKS5_ZERO)
      else SOCKS5_ZERO)"

definition socks5_recv :: "os \<Rightarrow> config \<Rightarrow> tcp_session \<Rightarrow> world \<Rightarrow> tcp_session \<times> world" where
  "socks5_recv os cfg s w =
     (let r = os_recv os (trace w) (tcp_socket s) 32; w = emit (Recv (tcp_socket s) 32) w in
      case r of
        Recv_Error errno \<Rightarrow> write_rst os cfg s w
      | Recv_Data buffer \<Rightarrow>
          let s = s\<lparr>tcp_socks5 := socks5_reply (tcp_socks5 s) (tcp_version s) buffer\<rparr>
          in if tcp_socks5 s = SOCKS5_ZERO then write_rst os cfg s w else (s, w))"

definition socks5_enabled :: "config \<Rightarrow> bool" where
  "socks5_enabled cfg \<longleftrightarrow> socks5_addr cfg \<noteq> [] \<and> socks5_port cfg \<noteq> 0"

definition socks5_auth :: "config \<Rightarrow> bytes" where
  "socks5_auth cfg =
     (let ulen = of_nat (length (socks5_username cfg)); plen = of_nat (length (socks5_password cfg))
      in [1, ulen] @ take (unat ulen) (socks5_username cfg)
           @ [plen] @ take (unat plen) (socks5_password cfg))"

definition socks5_connect :: "tcp_session \<Rightarrow> bytes" where
  "socks5_connect s =
     [5, 1, 0, if tcp_version s = 4 then 1 else 4] @ tcp_daddr s @ le16b (tcp_dest s)"

definition socks5_write :: "os \<Rightarrow> config \<Rightarrow> bytes \<Rightarrow> tcp_session \<Rightarrow> world \<Rightarrow> tcp_session \<times> world" where
  "socks5_write os cfg buffer s w =
     (let (sent, errno) = os_send os (trace w) (tcp_socket s) buffer;
          w = emit (Send (tcp_socket s) buffer False sent) w
      in if sent < 0 then write_rst os cfg s w else (s, w))"

definition tcp_connected :: "os \<Rightarrow> config \<Rightarrow> tcp_session \<Rightarrow> world \<Rightarrow> tcp_session \<times> world" where
  "tcp_connected os cfg s w =
     (let s = s\<lparr>tcp_remote_seq := tcp_remote_seq s + 1\<rparr>;
          (r, s, w) = write_syn_ack os cfg s w in
      if r \<ge> 0 then
        let (t, w) = sys_time os w
        in (s\<lparr>tcp_time := t, tcp_local_seq := tcp_local_seq s + 1, tcp_state := TCP_SYN_RECV\<rparr>, w)
      else (s, w))"

definition socks5_send :: "os \<Rightarrow> config \<Rightarrow> tcp_session \<Rightarrow> world \<Rightarrow> tcp_session \<times> world" where
  "socks5_send os cfg s w =
     (if tcp_socks5 s = SOCKS5_HELLO then socks5_write os cfg [5, 2, 0, 2] s w
      else if tcp_socks5 s = SOCKS5_AUTH then socks5_write os cfg (socks5_auth cfg) s w
      else if tcp_socks5 s = SOCKS5_CONNECT then socks5_write os cfg (socks5_connect s) s w
      else if tcp_socks5 s = SOCKS5_CONNECTED then tcp_connected os cfg s w
      else (s, w))"

definition tcp_listen_event ::
  "os \<Rightarrow> config \<Rightarrow> epoll_events \<Rightarrow> tcp_session \<Rightarrow> world \<Rightarrow> tcp_session \<times> world" where
  "tcp_listen_event os cfg ev s w =
     (let (s, w) =
        (if tcp_socks5 s = SOCKS5_NONE then
           (if ep_out ev
            then (s\<lparr>tcp_socks5 := (if socks5_enabled cfg then SOCKS5_HELLO else SOCKS5_CONNECTED)\<rparr>, w)
            else (s, w))
         else if ep_in ev then socks5_recv os cfg s w else (s, w))
      in socks5_send os cfg s w)"

section \<open>Acknowledging\<close>

definition tcp_acknowledge :: "os \<Rightarrow> config \<Rightarrow> bool \<Rightarrow> tcp_session \<Rightarrow> world \<Rightarrow> tcp_session \<times> world" where
  "tcp_acknowledge os cfg fwd s w =
     (let (window, w) = get_receive_window os s w;
          prev = tcp_recv_window s;
          s = s\<lparr>tcp_recv_window := window\<rparr> in
      if fwd \<or> (prev = 0 \<and> window > 0) then
        let s = (if fwd \<and> tcp_forward s = [] \<and> tcp_state s = TCP_CLOSE_WAIT
                 then s\<lparr>tcp_remote_seq := tcp_remote_seq s + 1\<rparr> else s);
            (r, s, w) = write_ack os cfg s w
        in if r \<ge> 0 then let (t, w) = sys_time os w in (s\<lparr>tcp_time := t\<rparr>, w) else (s, w)
      else (s, w))"

section \<open>Reading from the socket\<close>

definition tcp_eof :: "os \<Rightarrow> config \<Rightarrow> tcp_session \<Rightarrow> world \<Rightarrow> tcp_session \<times> world" where
  "tcp_eof os cfg s w =
     (let (s, w) =
        (if tcp_forward s = [] then
           let (r, s, w) = write_fin_ack os cfg s w;
               s = (if r \<ge> 0 then s\<lparr>tcp_local_seq := tcp_local_seq s + 1\<rparr> else s)
           in (if tcp_state s = TCP_ESTABLISHED then s\<lparr>tcp_state := TCP_FIN_WAIT1\<rparr>
               else if tcp_state s = TCP_CLOSE_WAIT then s\<lparr>tcp_state := TCP_LAST_ACK\<rparr>
               else s, w)
         else write_rst os cfg s w)
      in (s\<lparr>tcp_socket := -1\<rparr>, emit (Close (tcp_socket s)) w))"

definition tcp_received_data ::
  "os \<Rightarrow> config \<Rightarrow> tcp_session \<Rightarrow> bytes \<Rightarrow> world \<Rightarrow> (tcp_session \<times> world) option" where
  "tcp_received_data os cfg s buffer w =
     (let s = s\<lparr>tcp_received := tcp_received s + of_nat (length buffer)\<rparr> in
      do {
        (buffer, w) \<leftarrow>
          (if ntohs (tcp_dest s) = 53 \<and> length buffer > 2
           then do {
             (d, n, w) \<leftarrow> parse_dns_response os cfg (Tcp s) (drop 2 buffer) (length buffer - 2) w;
             Some (take 2 buffer @ d, w)
           }
           else Some (buffer, w));
        let (r, s, w) = write_data os cfg s buffer w;
        Some (if r \<ge> 0
              then s\<lparr>tcp_local_seq := tcp_local_seq s + of_nat (length buffer),
                     tcp_unconfirmed := tcp_unconfirmed s + 1\<rparr>
              else s, w)
      })"

definition tcp_read ::
  "os \<Rightarrow> config \<Rightarrow> epoll_events \<Rightarrow> tcp_session \<Rightarrow> world \<Rightarrow> (tcp_session \<times> world) option" where
  "tcp_read os cfg ev s w =
     (let send_window = get_send_window s in
      if ep_in ev \<and> send_window > 0 then
        let (t, w) = sys_time os w;
            s = s\<lparr>tcp_time := t\<rparr>;
            n = min (unat send_window) (unat (tcp_mss s));
            r = os_recv os (trace w) (tcp_socket s) n;
            w = emit (Recv (tcp_socket s) n) w in
        case r of
          Recv_Error errno \<Rightarrow>
            Some (if errno \<noteq> EINTR \<and> errno \<noteq> EAGAIN then write_rst os cfg s w else (s, w))
        | Recv_Data buffer \<Rightarrow>
            if buffer = [] then Some (tcp_eof os cfg s w) else tcp_received_data os cfg s buffer w
      else Some (s, w))"

section \<open>The whole handler\<close>

definition tcp_data_event ::
  "os \<Rightarrow> config \<Rightarrow> epoll_events \<Rightarrow> tcp_session \<Rightarrow> world \<Rightarrow> (tcp_session \<times> world) option" where
  "tcp_data_event os cfg ev s w =
     (let (fwd, s, w) = (if ep_out ev then forward_data os cfg s w else (False, s, w));
          (s, w) = tcp_acknowledge os cfg fwd s w in
      if tcp_state s = TCP_ESTABLISHED \<or> tcp_state s = TCP_CLOSE_WAIT
      then tcp_read os cfg ev s w else Some (s, w))"

definition check_tcp_socket ::
  "os \<Rightarrow> config \<Rightarrow> epoll_events \<Rightarrow> tcp_session \<Rightarrow> world \<Rightarrow> (tcp_session \<times> world) option" where
  "check_tcp_socket os cfg ev s w =
     (if ep_err ev then
        let (t, w) = sys_time os w in Some (write_rst os cfg (s\<lparr>tcp_time := t\<rparr>) w)
      else if tcp_state s = TCP_LISTEN then Some (tcp_listen_event os cfg ev s w)
      else tcp_data_event os cfg ev s w)"

section \<open>The handler keeps the invariant\<close>

text \<open>An event comes from an open socket; only the end of the stream closes it.\<close>

definition tcp_live :: "tcp_session \<Rightarrow> bool" where
  "tcp_live s \<longleftrightarrow> 0 \<le> tcp_socket s \<and> tcp_ok s"

definition live_step :: "tcp_session \<Rightarrow> tcp_session \<Rightarrow> bool" where
  "live_step s s' \<longleftrightarrow> (tcp_live s \<longrightarrow> tcp_live s') \<and> tcp_ptr s' = tcp_ptr s \<and> tcp_socket s' = tcp_socket s"

lemma live_refl [simp]: "live_step s s"
  by (simp add: live_step_def)

lemma live_trans: "live_step s s' \<Longrightarrow> live_step s' s'' \<Longrightarrow> live_step s s''"
  by (auto simp: live_step_def)

lemma live_fields [simp]:
  "live_step (s\<lparr>tcp_socks5 := x_tcp_socks5\<rparr>) s' = live_step s s'" "live_step s (s'\<lparr>tcp_socks5 := x_tcp_socks5\<rparr>) = live_step s s'"
  "live_step (s\<lparr>tcp_forward := x_tcp_forward\<rparr>) s' = live_step s s'" "live_step s (s'\<lparr>tcp_forward := x_tcp_forward\<rparr>) = live_step s s'"
  "live_step (s\<lparr>tcp_sent := x_tcp_sent\<rparr>) s' = live_step s s'" "live_step s (s'\<lparr>tcp_sent := x_tcp_sent\<rparr>) = live_step s s'"
  "live_step (s\<lparr>tcp_remote_seq := x_tcp_remote_seq\<rparr>) s' = live_step s s'" "live_step s (s'\<lparr>tcp_remote_seq := x_tcp_remote_seq\<rparr>) = live_step s s'"
  "live_step (s\<lparr>tcp_local_seq := x_tcp_local_seq\<rparr>) s' = live_step s s'" "live_step s (s'\<lparr>tcp_local_seq := x_tcp_local_seq\<rparr>) = live_step s s'"
  "live_step (s\<lparr>tcp_recv_window := x_tcp_recv_window\<rparr>) s' = live_step s s'" "live_step s (s'\<lparr>tcp_recv_window := x_tcp_recv_window\<rparr>) = live_step s s'"
  "live_step (s\<lparr>tcp_time := x_tcp_time\<rparr>) s' = live_step s s'" "live_step s (s'\<lparr>tcp_time := x_tcp_time\<rparr>) = live_step s s'"
  "live_step (s\<lparr>tcp_received := x_tcp_received\<rparr>) s' = live_step s s'" "live_step s (s'\<lparr>tcp_received := x_tcp_received\<rparr>) = live_step s s'"
  "live_step (s\<lparr>tcp_unconfirmed := x_tcp_unconfirmed\<rparr>) s' = live_step s s'" "live_step s (s'\<lparr>tcp_unconfirmed := x_tcp_unconfirmed\<rparr>) = live_step s s'"
  "live_step (s\<lparr>tcp_send_window := x_tcp_send_window\<rparr>) s' = live_step s s'" "live_step s (s'\<lparr>tcp_send_window := x_tcp_send_window\<rparr>) = live_step s s'"
  "live_step (s\<lparr>tcp_acked := x_tcp_acked\<rparr>) s' = live_step s s'" "live_step s (s'\<lparr>tcp_acked := x_tcp_acked\<rparr>) = live_step s s'"
  by (simp_all add: live_step_def tcp_live_def tcp_ok_def)

lemma live_rst: "write_rst os cfg s w = (s', w') \<Longrightarrow> live_step s s'"
  by (frule write_rst_session) (auto simp: live_step_def tcp_live_def tcp_ok_def)

lemma live_wrapper:
  "write_syn_ack os cfg s w = (r, s', w') \<Longrightarrow> live_step s s'"
  "write_ack os cfg s w = (r, s', w') \<Longrightarrow> live_step s s'"
  "write_data os cfg s d w = (r, s', w') \<Longrightarrow> live_step s s'"
  "write_fin_ack os cfg s w = (r, s', w') \<Longrightarrow> live_step s s'"
  by (frule write_wrapper_session, auto simp: live_step_def tcp_live_def tcp_ok_def)+

lemma live_fwd_loop: "fwd_loop os cfg q b f t w = (f', t', w') \<Longrightarrow> live_step t t'"
proof (induction q arbitrary: b f t w)
  case (Cons g q)
  show ?case
    using Cons.prems
    by (auto simp: Let_def split: if_splits prod.splits
        dest!: Cons.IH live_rst)
qed auto

lemma live_socks5_recv: "socks5_recv os cfg s w = (s', w') \<Longrightarrow> live_step s s'"
  by (auto simp: socks5_recv_def Let_def split: recv_result.splits if_splits
      dest!: live_rst)

lemma live_socks5_write: "socks5_write os cfg d s w = (s', w') \<Longrightarrow> live_step s s'"
  by (auto simp: socks5_write_def Let_def split: if_splits prod.splits dest!: live_rst)

lemma live_connected:
  assumes "tcp_connected os cfg s w = (s', w')" shows "live_step s s'"
proof -
  obtain r s1 w1 where c: "write_syn_ack os cfg (s\<lparr>tcp_remote_seq := tcp_remote_seq s + 1\<rparr>) w = (r, s1, w1)"
    by (cases "write_syn_ack os cfg (s\<lparr>tcp_remote_seq := tcp_remote_seq s + 1\<rparr>) w") auto
  from live_wrapper(1) [OF c] have "live_step s s1" by (auto simp: live_step_def tcp_live_def tcp_ok_def)
  with assms c show ?thesis
    by (auto simp: tcp_connected_def Let_def live_step_def tcp_live_def tcp_ok_def split: if_splits prod.splits)
qed

lemma live_socks5_send: "socks5_send os cfg s w = (s', w') \<Longrightarrow> live_step s s'"
  by (auto simp: socks5_send_def split: if_splits dest: live_socks5_write live_connected)

lemma live_listen: "tcp_listen_event os cfg ev s w = (s', w') \<Longrightarrow> live_step s s'"
  by (auto simp: tcp_listen_event_def Let_def split: if_splits prod.splits
      dest!: live_socks5_send live_socks5_recv intro: live_trans)

lemma live_acknowledge: "tcp_acknowledge os cfg fwd s w = (s', w') \<Longrightarrow> live_step s s'"
  by (auto simp: tcp_acknowledge_def Let_def split: if_splits prod.splits dest!: live_wrapper)

lemma eof_ok:
  assumes "tcp_eof os cfg s w = (s', w')" "tcp_live s" "tcp_state s = TCP_ESTABLISHED \<or> tcp_state s = TCP_CLOSE_WAIT"
  shows "tcp_ok s' \<and> tcp_ptr s' = tcp_ptr s \<and> tcp_socket s' = -1"
proof (cases "tcp_forward s = []")
  case True
  obtain r s1 w1 where f: "write_fin_ack os cfg s w = (r, s1, w1)" by (cases "write_fin_ack os cfg s w") auto
  from write_wrapper_session(4) [OF f] assms True f show ?thesis
    by (auto simp: tcp_eof_def Let_def tcp_ok_def split: if_splits)
next
  case False
  obtain s1 w1 where f: "write_rst os cfg s w = (s1, w1)" by fastforce
  from write_rst_session [OF f] assms False f show ?thesis
    by (auto simp: tcp_eof_def Let_def tcp_ok_def)
qed

lemma live_received:
  assumes "tcp_received_data os cfg s b w = Some (s', w')" shows "live_step s s'"
proof -
  let ?s = "s\<lparr>tcp_received := tcp_received s + of_nat (length b)\<rparr>"
  have d: "live_step s (fst (snd (write_data os cfg ?s c v)))" for c v
    using live_wrapper(3) [of os cfg ?s c v] by (metis live_fields(15) prod.collapse)
  then show ?thesis
    using assms
    by (auto simp: tcp_received_data_def Let_def bind_eq_Some_conv case_prod_unfold split: if_splits)
qed

lemma tcp_read_ok:
  assumes "tcp_read os cfg ev s w = Some (s', w')" "tcp_live s"
    and "tcp_state s = TCP_ESTABLISHED \<or> tcp_state s = TCP_CLOSE_WAIT"
  shows "tcp_ok s' \<and> tcp_ptr s' = tcp_ptr s \<and> (tcp_socket s' = tcp_socket s \<or> tcp_socket s' = -1)"
proof -
  have live: "live_step s v \<Longrightarrow> tcp_ok v \<and> tcp_ptr v = tcp_ptr s \<and> (tcp_socket v = tcp_socket s \<or> tcp_socket v = -1)" for v
    using assms(2) by (auto simp: live_step_def tcp_live_def)
  let ?s = "s\<lparr>tcp_time := os_time os (trace w)\<rparr>"
  have l: "tcp_live ?s" "tcp_state ?s = TCP_ESTABLISHED \<or> tcp_state ?s = TCP_CLOSE_WAIT"
    using assms(2,3) by (simp_all add: tcp_live_def tcp_ok_def)
  consider "live_step s s'" | v where "tcp_eof os cfg ?s v = (s', w')"
    using assms(1)
    by (auto simp: tcp_read_def Let_def sys_time_def split: if_splits recv_result.splits
        dest!: live_rst live_received)
  then show ?thesis
  proof cases
    case 2
    from eof_ok [OF 2 l] show ?thesis by simp
  qed (use live in blast)
qed

lemma check_tcp_socket_ok:
  assumes "tcp_live s" "check_tcp_socket os cfg ev s w = Some (s', w')"
  shows "tcp_ok s' \<and> tcp_ptr s' = tcp_ptr s \<and> (tcp_socket s' = tcp_socket s \<or> tcp_socket s' = -1)"
proof -
  have live: "live_step s v \<Longrightarrow> tcp_ok v \<and> tcp_ptr v = tcp_ptr s \<and> tcp_socket v = tcp_socket s \<and> tcp_live v" for v
    using assms(1) by (auto simp: live_step_def tcp_live_def)
  consider (err) "ep_err ev" | (listen) "\<not> ep_err ev" "tcp_state s = TCP_LISTEN"
    | (data) "\<not> ep_err ev" "tcp_state s \<noteq> TCP_LISTEN" by blast
  then show ?thesis
  proof cases
    case err
    then have "live_step s s'"
      using assms(2) by (auto simp: check_tcp_socket_def Let_def split: prod.splits dest!: live_rst)
    then show ?thesis using live by blast
  next
    case listen
    with assms(2) have "live_step s s'" by (auto simp: check_tcp_socket_def dest!: live_listen)
    then show ?thesis using live by blast
  next
    case data
    obtain fwd s1 w1 where f: "(if ep_out ev then forward_data os cfg s w else (False, s, w)) = (fwd, s1, w1)"
      by (cases "if ep_out ev then forward_data os cfg s w else (False, s, w)") auto
    obtain s2 w2 where a: "tcp_acknowledge os cfg fwd s1 w1 = (s2, w2)" by fastforce
    have "live_step s s1"
      using f by (auto simp: forward_data_def Let_def split: if_splits prod.splits dest!: live_fwd_loop)
    then have l2: "live_step s s2" using live_acknowledge [OF a] live_trans by blast
    have d: "(if tcp_state s2 = TCP_ESTABLISHED \<or> tcp_state s2 = TCP_CLOSE_WAIT
        then tcp_read os cfg ev s2 w2 else Some (s2, w2)) = Some (s', w')"
      using assms(2) data f a by (auto simp: check_tcp_socket_def tcp_data_event_def)
    show ?thesis
    proof (cases "tcp_state s2 = TCP_ESTABLISHED \<or> tcp_state s2 = TCP_CLOSE_WAIT")
      case True
      with d have "tcp_read os cfg ev s2 w2 = Some (s', w')" by simp
      from tcp_read_ok [OF this _ True] live [OF l2] show ?thesis by auto
    next
      case False
      with d live [OF l2] show ?thesis by auto
    qed
  qed
qed

end
