(* ===== verification/Tcp_Handle.thy ===== *)
theory Tcp_Handle
  imports Tcp_Socket
begin

text \<open>
  \<open>handle_tcp\<close> of \<open>netguard/tcp.c\<close>, the reaction to a TCP packet from the tun device: the options of
  a SYN, a new session and its socket (\<open>open_tcp_socket\<close>), the reset for packets of no session, and
  the state machine for packets of a session. \<open>None\<close> is an access outside the packet buffer or,
  for the options, a loop that does not end.
\<close>

section \<open>The header\<close>

definition tcp_optlen :: "tcphdr \<Rightarrow> u8" where
  "tcp_optlen h = of_int ((uint (th_doff h) - 5) * 4)"

definition tcp_data_off :: "tcphdr \<Rightarrow> nat \<Rightarrow> nat" where
  "tcp_data_off h payload = payload + 20 + unat (tcp_optlen h)"

definition tcp_datalen :: "tcphdr \<Rightarrow> nat \<Rightarrow> nat \<Rightarrow> u16" where
  "tcp_datalen h len payload = of_int (int len - int (tcp_data_off h payload))"

text \<open>The data is only touched when there is some.\<close>

definition tcp_payload :: "bytes \<Rightarrow> tcphdr \<Rightarrow> nat \<Rightarrow> nat \<Rightarrow> bytes option" where
  "tcp_payload pkt h len payload =
     (if tcp_datalen h len payload = 0 then Some []
      else rd_bytes pkt (tcp_data_off h payload) (unat (tcp_datalen h len payload)))"

fun tcp_match :: "bytes \<Rightarrow> tcphdr \<Rightarrow> ng_session \<Rightarrow> bool" where
  "tcp_match pkt h (Tcp t) \<longleftrightarrow>
     tcp_version t = pkt_version pkt \<and> tcp_source t = th_source h \<and> tcp_dest t = th_dest h \<and>
     tcp_saddr t = pkt_saddr pkt \<and> tcp_daddr t = pkt_daddr pkt"
| "tcp_match pkt h (Udp u) \<longleftrightarrow> False"
| "tcp_match pkt h (Icmp i) \<longleftrightarrow> False"

section \<open>The options of a SYN\<close>

partial_function (option) tcp_parse_options ::
  "bytes \<Rightarrow> nat \<Rightarrow> int \<Rightarrow> u16 \<Rightarrow> u8 \<Rightarrow> (u16 \<times> u8) option" where
  "tcp_parse_options pkt pos optlen mss ws =
     (if optlen \<le> 0 then Some (mss, ws)
      else do {
        kind \<leftarrow> rd8 pkt pos;
        len \<leftarrow> rd8 pkt (pos + 1);
        if kind = 0 then Some (mss, ws)
        else do {
          mss \<leftarrow> (if kind = 2 \<and> len = 4 then map_option ntohs (rd16 pkt (pos + 2)) else Some mss);
          ws \<leftarrow> (if kind = 3 \<and> len = 3 then rd8 pkt (pos + 2) else Some ws);
          if kind = 1 then tcp_parse_options pkt (pos + 1) (optlen - 1) mss ws
          else tcp_parse_options pkt (pos + unat len) (optlen - int (unat len)) mss ws
        }
      })"

declare tcp_parse_options.simps [code]

section \<open>The socket\<close>

definition tcp_target :: "config \<Rightarrow> tcp_session \<Rightarrow> allowed option \<Rightarrow> target" where
  "tcp_target cfg cur redirect = (case redirect of
       None \<Rightarrow> if socks5_enabled cfg
              then Target_Text (socks5_addr cfg) (ntohs (of_int (socks5_port cfg)))
              else Target_Addr (tcp_daddr cur) (tcp_dest cur)
     | Some r \<Rightarrow> Target_Text (raddr r) (ntohs (rport r)))"

definition tcp_socket_version :: "config \<Rightarrow> tcp_session \<Rightarrow> allowed option \<Rightarrow> nat" where
  "tcp_socket_version cfg cur redirect =
     redirect_version redirect
       (if socks5_enabled cfg then (if CHR '':'' \<in> set (socks5_addr cfg) then 6 else 4)
        else tcp_version cur)"

definition open_tcp_socket ::
  "os \<Rightarrow> config \<Rightarrow> tcp_session \<Rightarrow> allowed option \<Rightarrow> world \<Rightarrow> int \<times> world" where
  "open_tcp_socket os cfg cur redirect w =
     (let version = tcp_socket_version cfg cur redirect;
          sock = os_socket os (trace w) version;
          w = emit (Open_Socket version sock) w in
      if sock < 0 then (-1, w)
      else
        let (r, w) = protect_socket os sock w in
        if r < 0 then (-1, w)
        else
          let w = emit (Set_Option sock) w;
              ok = os_nonblock os (trace w) sock;
              w = emit (Set_Nonblock sock ok) w in
          if \<not> ok then (-1, w)
          else
            let target = tcp_target cfg cur redirect;
                (err, errno) = os_connect os (trace w) sock target;
                w = emit (Connect sock target err) w
            in if err < 0 \<and> errno \<noteq> EINPROGRESS then (-1, w) else (sock, w))"

section \<open>A new session\<close>

definition tcp_blank :: "ng_context \<Rightarrow> bytes \<Rightarrow> tcphdr \<Rightarrow> tcp_session" where
  "tcp_blank ctx pkt h =
     \<lparr>tcp_ptr = ctx_next ctx, tcp_uid = 0, tcp_time = 0, tcp_version = pkt_version pkt, tcp_mss = 0,
      tcp_recv_scale = 0, tcp_send_scale = 0, tcp_recv_window = 0, tcp_send_window = 0,
      tcp_unconfirmed = 0, tcp_remote_seq = 0, tcp_local_seq = 0, tcp_remote_start = 0,
      tcp_local_start = 0, tcp_acked = 0, tcp_last_keep_alive = 0, tcp_sent = 0, tcp_received = 0,
      tcp_saddr = pkt_saddr pkt, tcp_source = th_source h, tcp_daddr = pkt_daddr pkt,
      tcp_dest = th_dest h, tcp_state = TCP_ZERO, tcp_socks5 = SOCKS5_ZERO, tcp_forward = [],
      tcp_socket = -1, tcp_events = \<lparr>ep_in = False, ep_out = True, ep_err = True\<rparr>\<rparr>"

definition tcp_first ::
  "ng_context \<Rightarrow> bytes \<Rightarrow> tcphdr \<Rightarrow> int \<Rightarrow> int \<Rightarrow> u32 \<Rightarrow> u16 \<Rightarrow> u8 \<Rightarrow> bytes \<Rightarrow> tcp_session" where
  "tcp_first ctx pkt h uid time isn mss ws data =
     (tcp_blank ctx pkt h)\<lparr>
       tcp_uid := uid, tcp_time := time, tcp_mss := mss, tcp_recv_scale := ws, tcp_send_scale := ws,
       tcp_send_window := push_bit (unat ws) (ucast (th_window h)),
       tcp_remote_seq := th_seq h, tcp_local_seq := isn,
       tcp_remote_start := th_seq h, tcp_local_start := isn,
       tcp_state := TCP_LISTEN, tcp_socks5 := SOCKS5_NONE,
       tcp_forward := (if data = [] then [] else [new_segment (th_seq h) (th_psh h) data])\<rparr>"

definition tcp_new_session ::
  "os \<Rightarrow> config \<Rightarrow> ng_context \<Rightarrow> bytes \<Rightarrow> nat \<Rightarrow> nat \<Rightarrow> tcphdr \<Rightarrow> int \<Rightarrow> bool \<Rightarrow> allowed option \<Rightarrow> world \<Rightarrow>
   (bool \<times> ng_context \<times> world) option" where
  "tcp_new_session os cfg ctx pkt len payload h uid allowed redirect w =
     do {
       (mss, ws) \<leftarrow> tcp_parse_options pkt (payload + 20) (int (unat (tcp_optlen h)))
                     (get_default_mss (pkt_version pkt)) 0;
       data \<leftarrow> tcp_payload pkt h len payload;
       let (t, w) = sys_time os w;
       let isn = os_rand os (trace w);
       let w = emit (Rand isn) w;
       let s = tcp_first ctx pkt h uid t isn mss ws data;
       let (sock, w) = open_tcp_socket os cfg s redirect w;
       if sock < 0 then Some (False, ctx\<lparr>ctx_next := ctx_next ctx + 1\<rparr>, w)
       else
         let s = s\<lparr>tcp_socket := sock\<rparr>;
             (window, w) = get_receive_window os s w;
             s = s\<lparr>tcp_recv_window := window\<rparr>;
             w = emit (Epoll_Add sock (tcp_events s)) w;
             (s, w) = (if allowed then (s, w) else write_rst os cfg s w)
         in Some (True, push_session (Tcp s) ctx, w)
     }"

section \<open>A packet of no session\<close>

definition tcp_reject ::
  "os \<Rightarrow> config \<Rightarrow> ng_context \<Rightarrow> bytes \<Rightarrow> tcphdr \<Rightarrow> u16 \<Rightarrow> world \<Rightarrow> world" where
  "tcp_reject os cfg ctx pkt h datalen w =
     snd (write_rst os cfg
       ((tcp_blank ctx pkt h)\<lparr>
          tcp_local_seq := th_ack_seq h,
          tcp_remote_seq := th_seq h + ucast datalen + (if th_syn h \<or> th_fin h then 1 else 0)\<rparr>) w)"

section \<open>A packet of a session\<close>

definition tcp_fin ::
  "os \<Rightarrow> config \<Rightarrow> tcp_session \<Rightarrow> world \<Rightarrow> bool \<times> tcp_session \<times> world" where
  "tcp_fin os cfg cur w =
     (if tcp_state cur = TCP_ESTABLISHED then
        if tcp_forward cur = [] then
          let (r, cur, w) = write_ack os cfg (cur\<lparr>tcp_remote_seq := tcp_remote_seq cur + 1\<rparr>) w
          in (True, if r \<ge> 0 then cur\<lparr>tcp_state := TCP_CLOSE_WAIT\<rparr> else cur, w)
        else (True, cur\<lparr>tcp_state := TCP_CLOSE_WAIT\<rparr>, w)
      else if tcp_state cur = TCP_CLOSE_WAIT then (True, cur, w)
      else if tcp_state cur = TCP_FIN_WAIT1 then
        let (r, cur, w) = write_ack os cfg (cur\<lparr>tcp_remote_seq := tcp_remote_seq cur + 1\<rparr>) w
        in (True, if r \<ge> 0 then cur\<lparr>tcp_state := TCP_CLOSE\<rparr> else cur, w)
      else (False, cur, w))"

definition tcp_ack :: "tcphdr \<Rightarrow> tcp_session \<Rightarrow> bool \<times> tcp_session" where
  "tcp_ack h cur =
     (let cur = cur\<lparr>tcp_acked := th_ack_seq h\<rparr> in
      if tcp_state cur = TCP_SYN_RECV then (True, cur\<lparr>tcp_state := TCP_ESTABLISHED\<rparr>)
      else if tcp_state cur = TCP_ESTABLISHED then (True, cur)
      else if tcp_state cur = TCP_LAST_ACK then (True, cur\<lparr>tcp_state := TCP_CLOSING\<rparr>)
      else if tcp_state cur = TCP_CLOSE_WAIT then (True, cur)
      else if tcp_state cur = TCP_FIN_WAIT1 then (True, cur)
      else (False, cur))"

definition tcp_out_of_order ::
  "os \<Rightarrow> config \<Rightarrow> tcphdr \<Rightarrow> tcp_session \<Rightarrow> world \<Rightarrow> bool \<times> tcp_session \<times> world" where
  "tcp_out_of_order os cfg h cur w =
     (let ack = th_ack_seq h in
      if ack + 1 = tcp_local_seq cur then
        (True, cur, if tcp_state cur = TCP_ESTABLISHED then emit (Set_Option (tcp_socket cur)) w else w)
      else if compare_u32 ack (tcp_local_seq cur) < 0 then
        (True, if compare_u32 ack (tcp_acked cur) \<le> 0 then cur else cur\<lparr>tcp_acked := ack\<rparr>, w)
      else let (cur, w) = write_rst os cfg cur w in (False, cur, w))"

definition tcp_segment_flags ::
  "os \<Rightarrow> config \<Rightarrow> tcphdr \<Rightarrow> tcp_session \<Rightarrow> world \<Rightarrow> bool \<times> tcp_session \<times> world" where
  "tcp_segment_flags os cfg h cur w =
     (if th_rst h then (False, cur\<lparr>tcp_state := TCP_CLOSING\<rparr>, w)
      else if \<not> th_ack h \<or> th_ack_seq h = tcp_local_seq cur then
        if th_syn h then (True, cur, w)
        else if th_fin h then tcp_fin os cfg cur w
        else if th_ack h then let (r, cur) = tcp_ack h cur in (r, cur, w)
        else (False, cur, w)
      else tcp_out_of_order os cfg h cur w)"

definition tcp_known ::
  "os \<Rightarrow> config \<Rightarrow> bytes \<Rightarrow> nat \<Rightarrow> nat \<Rightarrow> tcphdr \<Rightarrow> tcp_session \<Rightarrow> world \<Rightarrow>
   (bool \<times> tcp_session \<times> world) option" where
  "tcp_known os cfg pkt len payload h cur w =
     (if tcp_closed cur then let (cur, w) = write_rst os cfg cur w in Some (False, cur, w)
      else
        let datalen = tcp_datalen h len payload;
            (cur, w) = (if th_syn h then (cur, w)
                        else let (t, w) = sys_time os w in (cur\<lparr>tcp_time := t\<rparr>, w));
            cur = cur\<lparr>tcp_send_window := push_bit (unat (tcp_send_scale cur)) (ucast (th_window h)),
                      tcp_unconfirmed := 0\<rparr> in
        if datalen = 0 then Some (tcp_segment_flags os cfg h cur w)
        else if tcp_socket cur < 0 \<or> tcp_state cur = TCP_CLOSE_WAIT then
          let (cur, w) = write_rst os cfg cur w in Some (False, cur, w)
        else do {
          data \<leftarrow> tcp_payload pkt h len payload;
          Some (tcp_segment_flags os cfg h (queue_tcp h cur data) w)
        })"

section \<open>The handler\<close>

definition handle_tcp ::
  "os \<Rightarrow> config \<Rightarrow> ng_context \<Rightarrow> bytes \<Rightarrow> nat \<Rightarrow> nat \<Rightarrow> int \<Rightarrow> bool \<Rightarrow> allowed option \<Rightarrow> world \<Rightarrow>
   (bool \<times> ng_context \<times> world) option" where
  "handle_tcp os cfg ctx pkt len payload uid allowed redirect w =
     do {
       h \<leftarrow> read_tcphdr pkt payload;
       if th_urg h then Some (True, ctx, w)
       else case find (tcp_match pkt h) (ctx_sessions ctx) of
         Some (Tcp cur) \<Rightarrow>
           do {
             (r, cur, w) \<leftarrow> tcp_known os cfg pkt len payload h cur
                              (write_pcap_rec os cfg (take len pkt) (tcp_uid cur) w);
             Some (r, put_session (Tcp cur) ctx, w)
           }
       | _ \<Rightarrow>
           let w = write_pcap_rec os cfg (take len pkt) uid w in
           if th_syn h then tcp_new_session os cfg ctx pkt len payload h uid allowed redirect w
           else Some (False, ctx, tcp_reject os cfg ctx pkt h (tcp_datalen h len payload) w)
     }"

end
