(* ===== verification/Tcp_Machine.thy ===== *)
theory Tcp_Machine
  imports Tcp_Handle
begin

text \<open>
  The TCP state machine. The operations of the previous theories are the steps of a session; the
  abstract machine \<open>tcp_edge\<close> lists the transitions between states that the protocol allows. Every
  step of the code refines a path of the abstract machine and keeps the socket invariant, so the
  reachable sessions are exactly those the invariant describes.
\<close>

section \<open>The abstract machine\<close>

inductive tcp_edge :: "tcp_state \<Rightarrow> tcp_state \<Rightarrow> bool" where
  connected: "tcp_edge TCP_LISTEN TCP_SYN_RECV"
| opened: "tcp_edge TCP_SYN_RECV TCP_ESTABLISHED"
| app_closes: "tcp_edge TCP_ESTABLISHED TCP_CLOSE_WAIT"
| server_closes: "tcp_edge TCP_ESTABLISHED TCP_FIN_WAIT1"
| both_closed: "tcp_edge TCP_CLOSE_WAIT TCP_LAST_ACK"
| last_ack: "tcp_edge TCP_FIN_WAIT1 TCP_CLOSE"
| abort: "state \<noteq> TCP_CLOSE \<Longrightarrow> tcp_edge state TCP_CLOSING"
| closed: "tcp_edge TCP_CLOSING TCP_CLOSE"

inductive_cases tcp_edge_closeE: "tcp_edge TCP_CLOSE state"
inductive_cases tcp_edge_closingE: "tcp_edge TCP_CLOSING state"

abbreviation tcp_path :: "tcp_state \<Rightarrow> tcp_state \<Rightarrow> bool" where
  "tcp_path \<equiv> tcp_edge\<^sup>*\<^sup>*"

lemma path_edge: "tcp_edge a b \<Longrightarrow> tcp_path a b"
  by (rule r_into_rtranclp)

lemma path_edges [simp]:
  "tcp_path TCP_LISTEN TCP_SYN_RECV" "tcp_path TCP_SYN_RECV TCP_ESTABLISHED"
  "tcp_path TCP_ESTABLISHED TCP_CLOSE_WAIT" "tcp_path TCP_ESTABLISHED TCP_FIN_WAIT1"
  "tcp_path TCP_CLOSE_WAIT TCP_LAST_ACK"
  by (rule path_edge, rule tcp_edge.intros)+

lemma path_closing [simp, intro]: "state \<noteq> TCP_CLOSE \<Longrightarrow> tcp_path state TCP_CLOSING"
  by (rule path_edge) (rule tcp_edge.abort)

lemma path_close [simp, intro]: "tcp_path state TCP_CLOSE"
proof (cases "state = TCP_CLOSE")
  case False
  then have "tcp_path state TCP_CLOSING" by (rule path_closing)
  then show ?thesis by (rule rtranclp_trans) (rule path_edge, rule tcp_edge.closed)
qed simp

lemma path_from_close: "tcp_path TCP_CLOSE state \<Longrightarrow> state = TCP_CLOSE"
  by (induction rule: rtranclp_induct) (auto elim: tcp_edge_closeE)

lemma path_from_closing: "tcp_path TCP_CLOSING state \<Longrightarrow> state = TCP_CLOSING \<or> state = TCP_CLOSE"
  by (induction rule: rtranclp_induct) (auto elim: tcp_edge_closeE tcp_edge_closingE)

section \<open>Steps that keep the state or start closing\<close>

definition calm :: "tcp_session \<Rightarrow> tcp_session \<Rightarrow> bool" where
  "calm s s' \<longleftrightarrow> tcp_state s' = tcp_state s \<or> tcp_state s' = TCP_CLOSING"

lemma calm_refl [simp]: "calm s s"
  by (simp add: calm_def)

lemma calm_trans: "calm s s' \<Longrightarrow> calm s' s'' \<Longrightarrow> calm s s''"
  by (auto simp: calm_def)

lemma calm_fields [simp]:
  "calm (s\<lparr>tcp_socks5 := x_tcp_socks5\<rparr>) s' = calm s s'" "calm s (s'\<lparr>tcp_socks5 := x_tcp_socks5\<rparr>) = calm s s'"
  "calm (s\<lparr>tcp_forward := x_tcp_forward\<rparr>) s' = calm s s'" "calm s (s'\<lparr>tcp_forward := x_tcp_forward\<rparr>) = calm s s'"
  "calm (s\<lparr>tcp_sent := x_tcp_sent\<rparr>) s' = calm s s'" "calm s (s'\<lparr>tcp_sent := x_tcp_sent\<rparr>) = calm s s'"
  "calm (s\<lparr>tcp_remote_seq := x_tcp_remote_seq\<rparr>) s' = calm s s'" "calm s (s'\<lparr>tcp_remote_seq := x_tcp_remote_seq\<rparr>) = calm s s'"
  "calm (s\<lparr>tcp_local_seq := x_tcp_local_seq\<rparr>) s' = calm s s'" "calm s (s'\<lparr>tcp_local_seq := x_tcp_local_seq\<rparr>) = calm s s'"
  "calm (s\<lparr>tcp_recv_window := x_tcp_recv_window\<rparr>) s' = calm s s'" "calm s (s'\<lparr>tcp_recv_window := x_tcp_recv_window\<rparr>) = calm s s'"
  "calm (s\<lparr>tcp_time := x_tcp_time\<rparr>) s' = calm s s'" "calm s (s'\<lparr>tcp_time := x_tcp_time\<rparr>) = calm s s'"
  "calm (s\<lparr>tcp_received := x_tcp_received\<rparr>) s' = calm s s'" "calm s (s'\<lparr>tcp_received := x_tcp_received\<rparr>) = calm s s'"
  "calm (s\<lparr>tcp_unconfirmed := x_tcp_unconfirmed\<rparr>) s' = calm s s'" "calm s (s'\<lparr>tcp_unconfirmed := x_tcp_unconfirmed\<rparr>) = calm s s'"
  "calm (s\<lparr>tcp_send_window := x_tcp_send_window\<rparr>) s' = calm s s'" "calm s (s'\<lparr>tcp_send_window := x_tcp_send_window\<rparr>) = calm s s'"
  "calm (s\<lparr>tcp_acked := x_tcp_acked\<rparr>) s' = calm s s'" "calm s (s'\<lparr>tcp_acked := x_tcp_acked\<rparr>) = calm s s'"
  "calm (s\<lparr>tcp_events := x_tcp_events\<rparr>) s' = calm s s'" "calm s (s'\<lparr>tcp_events := x_tcp_events\<rparr>) = calm s s'"
  "calm (s\<lparr>tcp_last_keep_alive := x_tcp_last_keep_alive\<rparr>) s' = calm s s'" "calm s (s'\<lparr>tcp_last_keep_alive := x_tcp_last_keep_alive\<rparr>) = calm s s'"
  by (simp_all add: calm_def)

lemma calm_closing [simp]: "calm s (s'\<lparr>tcp_state := TCP_CLOSING\<rparr>)"
  by (simp add: calm_def)

lemma calm_path: "calm s s' \<Longrightarrow> tcp_state s \<noteq> TCP_CLOSE \<Longrightarrow> tcp_path (tcp_state s) (tcp_state s')"
  by (auto simp: calm_def)

lemma calm_rst: "write_rst os cfg s w = (s', w') \<Longrightarrow> calm s s'"
  by (drule write_rst_session) (simp add: calm_def)

lemma calm_wrapper:
  "write_syn_ack os cfg s w = (r, s', w') \<Longrightarrow> calm s s'"
  "write_ack os cfg s w = (r, s', w') \<Longrightarrow> calm s s'"
  "write_data os cfg s d w = (r, s', w') \<Longrightarrow> calm s s'"
  "write_fin_ack os cfg s w = (r, s', w') \<Longrightarrow> calm s s'"
  by (drule write_wrapper_session, simp add: calm_def)+

lemma calm_fwd_loop: "fwd_loop os cfg q b f t w = (f', t', w') \<Longrightarrow> calm t t'"
proof (induction q arbitrary: b f t w)
  case (Cons g q)
  show ?case
    using Cons.prems by (auto simp: Let_def split: if_splits prod.splits dest!: Cons.IH calm_rst)
qed auto

lemma calm_socks5_recv: "socks5_recv os cfg s w = (s', w') \<Longrightarrow> calm s s'"
  by (auto simp: socks5_recv_def Let_def split: recv_result.splits if_splits dest!: calm_rst)

lemma calm_socks5_write: "socks5_write os cfg d s w = (s', w') \<Longrightarrow> calm s s'"
  by (auto simp: socks5_write_def Let_def split: if_splits prod.splits dest!: calm_rst)

lemma calm_acknowledge: "tcp_acknowledge os cfg fwd s w = (s', w') \<Longrightarrow> calm s s'"
  by (auto simp: tcp_acknowledge_def Let_def split: if_splits prod.splits dest!: calm_wrapper)

lemma calm_received:
  assumes "tcp_received_data os cfg s b w = Some (s', w')" shows "calm s s'"
proof -
  let ?s = "s\<lparr>tcp_received := tcp_received s + of_nat (length b)\<rparr>"
  have d: "calm s (fst (snd (write_data os cfg ?s c v)))" for c v
    using calm_wrapper(3) [of os cfg ?s c v] by (metis calm_fields(15) prod.collapse)
  then show ?thesis
    using assms
    by (auto simp: tcp_received_data_def Let_def bind_eq_Some_conv case_prod_unfold split: if_splits)
qed

lemma calm_monitor:
  assumes "monitor_tcp_session os cfg s w = (r, s', w')" shows "calm s s'"
proof -
  have k: "calm s (fst (tcp_keep_alive os cfg s w))"
    by (auto simp: tcp_keep_alive_def Let_def case_prod_unfold write_ack_def write_or_closing_def)
  obtain r1 e s1 w1 where w: "tcp_wanted os cfg s w = (r1, e, s1, w1)" by (cases "tcp_wanted os cfg s w") auto
  have "calm s s1"
    using w k by (auto simp: tcp_wanted_def Let_def case_prod_unfold split: if_splits)
  with assms w show ?thesis by (auto simp: monitor_tcp_session_def Let_def split: if_splits)
qed

section \<open>The handshake\<close>

text \<open>
  While the session listens the handshake with the proxy has neither failed nor finished: both
  outcomes leave the state in the same step.
\<close>

definition hs_ok :: "tcp_session \<Rightarrow> bool" where
  "hs_ok s \<longleftrightarrow> (tcp_state s = TCP_LISTEN \<longrightarrow> tcp_socks5 s \<noteq> SOCKS5_ZERO \<and> tcp_socks5 s \<noteq> SOCKS5_CONNECTED)"

lemma hs_not_listen [simp]: "tcp_state s \<noteq> TCP_LISTEN \<Longrightarrow> hs_ok s"
  by (simp add: hs_ok_def)

lemma socks5_recv_cases:
  assumes "socks5_recv os cfg s w = (s', w')" "tcp_state s = TCP_LISTEN"
  obtains (reset) "tcp_state s' = TCP_CLOSING" "tcp_socks5 s' = tcp_socks5 s \<or> tcp_socks5 s' = SOCKS5_ZERO"
  | (reply) b where "os_recv os (trace w) (tcp_socket s) 32 = Recv_Data b"
      "tcp_socks5 s' = socks5_reply (tcp_socks5 s) (tcp_version s) b" "tcp_socks5 s' \<noteq> SOCKS5_ZERO"
      "tcp_state s' = TCP_LISTEN"
proof -
  have rst: "tcp_state v' = TCP_CLOSING \<and> tcp_socks5 v' = tcp_socks5 v"
    if "write_rst os cfg v x = (v', x')" "tcp_state v = TCP_LISTEN" for v x v' x'
    using write_rst_session [OF that(1)] that(2) by simp
  show thesis
    using assms
    by (auto simp: socks5_recv_def Let_def split: recv_result.splits if_splits dest!: rst
        intro: reset reply)
qed

lemma tcp_connected_state:
  assumes "tcp_connected os cfg s w = (s', w')"
  shows "tcp_state s' = TCP_SYN_RECV \<or> tcp_state s' = TCP_CLOSING"
proof -
  let ?s = "s\<lparr>tcp_remote_seq := tcp_remote_seq s + 1\<rparr>"
  obtain r s1 w1 where c: "write_syn_ack os cfg ?s w = (r, s1, w1)" by (cases "write_syn_ack os cfg ?s w") auto
  from write_wrapper_session(1) [OF c] assms c show ?thesis
    by (auto simp: tcp_connected_def Let_def split: if_splits prod.splits)
qed

lemma socks5_write_keeps:
  assumes "socks5_write os cfg d s w = (s', w')" "tcp_state s = TCP_LISTEN \<or> tcp_state s = TCP_CLOSING"
  shows "tcp_state s' = tcp_state s \<and> tcp_socks5 s' = tcp_socks5 s \<or> tcp_state s' = TCP_CLOSING"
  using assms(2) calm_socks5_write [OF assms(1)] assms(1)
  by (auto simp: socks5_write_def calm_def Let_def split: if_splits prod.splits dest!: write_rst_session)

lemma socks5_send_state:
  assumes "socks5_send os cfg s w = (s', w')" "tcp_state s = TCP_LISTEN \<or> tcp_state s = TCP_CLOSING"
  shows "(tcp_state s' = tcp_state s \<and> tcp_socks5 s' = tcp_socks5 s \<and> tcp_socks5 s \<noteq> SOCKS5_CONNECTED) \<or>
    tcp_state s' = TCP_CLOSING \<or> tcp_state s' = TCP_SYN_RECV \<and> tcp_socks5 s = SOCKS5_CONNECTED"
proof (cases "tcp_socks5 s = SOCKS5_CONNECTED")
  case True
  then have "tcp_connected os cfg s w = (s', w')" using assms(1) by (simp add: socks5_send_def)
  with tcp_connected_state True show ?thesis by blast
next
  case False
  then have "s' = s \<or> (\<exists>d. socks5_write os cfg d s w = (s', w'))"
    using assms(1) by (auto simp: socks5_send_def split: if_splits)
  with socks5_write_keeps [OF _ assms(2)] False show ?thesis by metis
qed

text \<open>An event of a listening session: it goes on listening, closes, or is connected.\<close>

lemma tcp_listen_event_first:
  assumes "tcp_listen_event os cfg ev s w = (s', w')" "tcp_state s = TCP_LISTEN"
  obtains s1 w1 where "socks5_send os cfg s1 w1 = (s', w')"
    "s1 = s \<or>
     tcp_socks5 s = SOCKS5_NONE \<and> ep_out ev \<and> tcp_state s1 = TCP_LISTEN \<and>
       tcp_socks5 s1 = (if socks5_enabled cfg then SOCKS5_HELLO else SOCKS5_CONNECTED) \<or>
     tcp_socks5 s \<noteq> SOCKS5_NONE \<and> ep_in ev \<and> socks5_recv os cfg s w = (s1, w1)"
proof -
  let ?first = "if tcp_socks5 s = SOCKS5_NONE then
      (if ep_out ev
       then (s\<lparr>tcp_socks5 := (if socks5_enabled cfg then SOCKS5_HELLO else SOCKS5_CONNECTED)\<rparr>, w) else (s, w))
    else if ep_in ev then socks5_recv os cfg s w else (s, w)"
  obtain s1 w1 where f: "?first = (s1, w1)" by fastforce
  show thesis
  proof (rule that)
    show "socks5_send os cfg s1 w1 = (s', w')" using assms(1) f by (simp add: tcp_listen_event_def)
  qed (use f assms(2) in \<open>cases "tcp_socks5 s = SOCKS5_NONE"; cases "ep_out ev"; cases "ep_in ev"; auto\<close>)
qed

lemma tcp_listen_event_cases:
  assumes "tcp_listen_event os cfg ev s w = (s', w')" "tcp_state s = TCP_LISTEN" "hs_ok s"
  obtains (listen) "tcp_state s' = TCP_LISTEN" "hs_ok s'" | (closing) "tcp_state s' = TCP_CLOSING"
  | (direct) "tcp_state s' = TCP_SYN_RECV" "tcp_socks5 s = SOCKS5_NONE" "ep_out ev" "\<not> socks5_enabled cfg"
  | (proxy) b where "tcp_state s' = TCP_SYN_RECV" "tcp_socks5 s \<noteq> SOCKS5_NONE" "ep_in ev"
      "os_recv os (trace w) (tcp_socket s) 32 = Recv_Data b"
      "socks5_reply (tcp_socks5 s) (tcp_version s) b = SOCKS5_CONNECTED"
proof -
  have hs: "tcp_socks5 s \<noteq> SOCKS5_ZERO" "tcp_socks5 s \<noteq> SOCKS5_CONNECTED"
    using assms(2,3) by (simp_all add: hs_ok_def)
  from tcp_listen_event_first [OF assms(1,2)] obtain s1 w1 where send: "socks5_send os cfg s1 w1 = (s', w')"
    and "s1 = s \<or>
      tcp_socks5 s = SOCKS5_NONE \<and> ep_out ev \<and> tcp_state s1 = TCP_LISTEN \<and>
        tcp_socks5 s1 = (if socks5_enabled cfg then SOCKS5_HELLO else SOCKS5_CONNECTED) \<or>
      tcp_socks5 s \<noteq> SOCKS5_NONE \<and> ep_in ev \<and> socks5_recv os cfg s w = (s1, w1)" .
  then show thesis
  proof (elim disjE conjE)
    assume "s1 = s"
    with socks5_send_state [OF send] assms(2) hs
    have "tcp_state s' = TCP_LISTEN \<and> hs_ok s' \<or> tcp_state s' = TCP_CLOSING" by (auto simp: hs_ok_def)
    with listen closing show thesis by blast
  next
    assume o: "tcp_socks5 s = SOCKS5_NONE" "ep_out ev" "tcp_state s1 = TCP_LISTEN"
      "tcp_socks5 s1 = (if socks5_enabled cfg then SOCKS5_HELLO else SOCKS5_CONNECTED)"
    then have "tcp_state s' = TCP_LISTEN \<and> hs_ok s' \<or> tcp_state s' = TCP_CLOSING \<or>
        tcp_state s' = TCP_SYN_RECV \<and> \<not> socks5_enabled cfg"
      using socks5_send_state [OF send] by (auto simp: hs_ok_def split: if_splits)
    with o listen closing direct show thesis by blast
  next
    assume i: "tcp_socks5 s \<noteq> SOCKS5_NONE" "ep_in ev" "socks5_recv os cfg s w = (s1, w1)"
    from i(3) assms(2) show thesis
    proof (cases rule: socks5_recv_cases)
      case reset
      with socks5_send_state [OF send] hs have "tcp_state s' = TCP_CLOSING" by auto
      then show thesis by (rule closing)
    next
      case (reply b)
      then have "tcp_state s' = TCP_LISTEN \<and> hs_ok s' \<or> tcp_state s' = TCP_CLOSING \<or>
          tcp_state s' = TCP_SYN_RECV \<and> socks5_reply (tcp_socks5 s) (tcp_version s) b = SOCKS5_CONNECTED"
        using socks5_send_state [OF send] by (auto simp: hs_ok_def)
      with reply(1) i listen closing proxy show thesis by blast
    qed
  qed
qed

section \<open>Every step refines the machine\<close>

definition refines :: "tcp_session \<Rightarrow> tcp_session \<Rightarrow> bool" where
  "refines s s' \<longleftrightarrow> tcp_ok s' \<and> tcp_ptr s' = tcp_ptr s \<and>
     (hs_ok s \<longrightarrow> hs_ok s' \<and> tcp_path (tcp_state s) (tcp_state s'))"

lemma check_refines:
  assumes "check_tcp_session os cfg sessions maxsessions s w = (del, s', w')" "tcp_ok s"
  shows "refines s s'"
  using assms(1,2)
  by (rule check_tcp_session_cases) (use assms in \<open>auto simp: refines_def tcp_ok_def\<close>)

lemma monitor_socks5:
  assumes "monitor_tcp_session os cfg s w = (r, s', w')" "tcp_state s = TCP_LISTEN"
  shows "tcp_socks5 s' = tcp_socks5 s"
  using assms by (auto simp: monitor_tcp_session_def tcp_wanted_def Let_def split: if_splits)

lemma monitor_refines:
  assumes m: "monitor_tcp_session os cfg s w = (r, s', w')" and s: "tcp_ok s" "0 \<le> tcp_socket s"
  shows "refines s s'"
proof -
  have "tcp_state s \<noteq> TCP_CLOSE" using s by (auto simp: tcp_ok_def)
  moreover have "hs_ok s \<Longrightarrow> hs_ok s'"
    using calm_monitor [OF m] monitor_socks5 [OF m] by (auto simp: calm_def hs_ok_def)
  ultimately show ?thesis
    using monitor_tcp_session_ok [OF m s(1)] calm_path [OF calm_monitor [OF m]] by (simp add: refines_def)
qed

lemma eof_path:
  assumes "tcp_eof os cfg s w = (s', w')" "tcp_state s = TCP_ESTABLISHED \<or> tcp_state s = TCP_CLOSE_WAIT"
  shows "tcp_path (tcp_state s) (tcp_state s') \<and> tcp_state s' \<noteq> TCP_LISTEN"
proof (cases "tcp_forward s = []")
  case True
  obtain r s1 w1 where f: "write_fin_ack os cfg s w = (r, s1, w1)" by (cases "write_fin_ack os cfg s w") auto
  from write_wrapper_session(4) [OF f] assms True f show ?thesis
    by (auto simp: tcp_eof_def Let_def split: if_splits)
next
  case False
  obtain s1 w1 where f: "write_rst os cfg s w = (s1, w1)" by fastforce
  from write_rst_session [OF f] assms False f show ?thesis by (auto simp: tcp_eof_def Let_def)
qed

lemma read_path:
  assumes "tcp_read os cfg ev s w = Some (s', w')" "tcp_state s = TCP_ESTABLISHED \<or> tcp_state s = TCP_CLOSE_WAIT"
  shows "tcp_path (tcp_state s) (tcp_state s') \<and> tcp_state s' \<noteq> TCP_LISTEN"
proof -
  let ?s = "s\<lparr>tcp_time := os_time os (trace w)\<rparr>"
  consider "calm s s'" | v where "tcp_eof os cfg ?s v = (s', w')"
    using assms(1)
    by (auto simp: tcp_read_def Let_def sys_time_def split: if_splits recv_result.splits
        dest!: calm_rst calm_received)
  then show ?thesis
  proof cases
    case 1
    with assms(2) calm_path [OF 1] show ?thesis by (auto simp: calm_def)
  next
    case 2
    from eof_path [OF 2] assms(2) show ?thesis by simp
  qed
qed

lemma data_event_path:
  assumes "tcp_data_event os cfg ev s w = Some (s', w')" "tcp_state s \<noteq> TCP_CLOSE" "tcp_state s \<noteq> TCP_LISTEN"
  shows "tcp_path (tcp_state s) (tcp_state s') \<and> tcp_state s' \<noteq> TCP_LISTEN"
proof -
  obtain fwd s1 w1 where f: "(if ep_out ev then forward_data os cfg s w else (False, s, w)) = (fwd, s1, w1)"
    by (cases "if ep_out ev then forward_data os cfg s w else (False, s, w)") auto
  obtain s2 w2 where a: "tcp_acknowledge os cfg fwd s1 w1 = (s2, w2)" by fastforce
  have "calm s s1"
    using f by (auto simp: forward_data_def Let_def split: if_splits prod.splits dest!: calm_fwd_loop)
  then have c: "calm s s2" using calm_acknowledge [OF a] calm_trans by blast
  then have p: "tcp_path (tcp_state s) (tcp_state s2)" "tcp_state s2 \<noteq> TCP_LISTEN"
    using calm_path assms(2,3) by (auto simp: calm_def)
  have "(if tcp_state s2 = TCP_ESTABLISHED \<or> tcp_state s2 = TCP_CLOSE_WAIT
      then tcp_read os cfg ev s2 w2 else Some (s2, w2)) = Some (s', w')"
    using assms(1) f a by (auto simp: tcp_data_event_def)
  with read_path [of os cfg ev s2 w2] p show ?thesis
    by (auto split: if_splits dest: rtranclp_trans [OF p(1)])
qed

lemma socket_refines:
  assumes c: "check_tcp_socket os cfg ev s w = Some (s', w')" and s: "tcp_ok s" "0 \<le> tcp_socket s"
  shows "refines s s'"
proof -
  have live: "tcp_live s" and nc: "tcp_state s \<noteq> TCP_CLOSE" using s by (auto simp: tcp_live_def tcp_ok_def)
  have "hs_ok s' \<and> tcp_path (tcp_state s) (tcp_state s')" if hs: "hs_ok s"
  proof (cases "ep_err ev"; cases "tcp_state s = TCP_LISTEN")
    assume l: "\<not> ep_err ev" "tcp_state s = TCP_LISTEN"
    with c have "tcp_listen_event os cfg ev s w = (s', w')" by (simp add: check_tcp_socket_def)
    from this l(2) hs show ?thesis
      by (rule tcp_listen_event_cases) (use l in auto)
  next
    assume "\<not> ep_err ev" "tcp_state s \<noteq> TCP_LISTEN"
    then show ?thesis using data_event_path [of os cfg ev s w s' w'] c nc by (simp add: check_tcp_socket_def)
  qed (use c nc in \<open>auto simp: check_tcp_socket_def Let_def dest!: write_rst_session split: prod.splits\<close>)
  with check_tcp_socket_ok [OF live c] show ?thesis by (simp add: refines_def)
qed

text \<open>A packet of the session.\<close>

lemma rst_refines:
  assumes "write_rst os cfg s w = (s', w')" "tcp_ok s"
  shows "refines s s'"
  using write_rst_session [OF assms(1)] tcp_ok_rst [OF assms] by (auto simp: refines_def)

lemma refines_fields:
  "refines s s' \<Longrightarrow> tcp_state v = tcp_state s \<Longrightarrow> tcp_socks5 v = tcp_socks5 s \<Longrightarrow> tcp_ptr v = tcp_ptr s \<Longrightarrow>
   refines v s'"
  by (simp add: refines_def hs_ok_def)

lemma refines_same:
  "tcp_ok s \<Longrightarrow> tcp_state s' = tcp_state s \<Longrightarrow> tcp_socket s' = tcp_socket s \<Longrightarrow>
   tcp_socks5 s' = tcp_socks5 s \<Longrightarrow> tcp_ptr s' = tcp_ptr s \<Longrightarrow> refines s s'"
  by (simp add: refines_def tcp_ok_def hs_ok_def)

lemma fin_refines:
  assumes "tcp_fin os cfg s w = (r, s', w')" "tcp_ok s"
  shows "refines s s'"
proof -
  let ?s = "s\<lparr>tcp_remote_seq := tcp_remote_seq s + 1\<rparr>"
  obtain a s1 w1 where k: "write_ack os cfg ?s w = (a, s1, w1)" by (cases "write_ack os cfg ?s w") auto
  from write_wrapper_session(2) [OF k] assms k show ?thesis
    by (auto simp: tcp_fin_def Let_def refines_def tcp_ok_def split: if_splits)
qed

lemma ack_refines:
  "tcp_ack h s = (r, s') \<Longrightarrow> tcp_ok s \<Longrightarrow> refines s s'"
  by (auto simp: tcp_ack_def Let_def refines_def tcp_ok_def hs_ok_def split: if_splits)

lemma out_of_order_refines:
  "tcp_out_of_order os cfg h s w = (r, s', w') \<Longrightarrow> tcp_ok s \<Longrightarrow> refines s s'"
  by (auto simp: tcp_out_of_order_def Let_def split: if_splits prod.splits intro: refines_same rst_refines)

lemma segment_flags_refines:
  assumes "tcp_segment_flags os cfg h s w = (r, s', w')" "tcp_ok s" "\<not> tcp_closed s"
  shows "refines s s'"
proof -
  have "tcp_sock_ok TCP_CLOSING (tcp_socket s)" using assms(2) tcp_sock_ok_range by (auto simp: tcp_ok_def)
  with assms show ?thesis
    by (auto simp: tcp_segment_flags_def tcp_closed_def split: if_splits prod.splits
        intro: refines_same fin_refines ack_refines out_of_order_refines)
      (simp add: refines_def tcp_ok_def)
qed

lemma known_refines:
  assumes k: "tcp_known os cfg pkt len payload h s w = Some (r, s', w')" and s: "tcp_ok s"
  shows "refines s s'"
proof (cases "tcp_closed s")
  case True
  with k show ?thesis by (auto simp: tcp_known_def split: prod.splits intro: rst_refines s)
next
  case False
  define v where "v = s\<lparr>tcp_time := (if th_syn h then tcp_time s else os_time os (trace w)),
    tcp_send_window := push_bit (unat (tcp_send_scale s)) (ucast (th_window h)), tcp_unconfirmed := 0\<rparr>"
  have v: "tcp_ok v" "\<not> tcp_closed v" "tcp_state v = tcp_state s" "tcp_socks5 v = tcp_socks5 s"
      "tcp_ptr v = tcp_ptr s"
    using s False by (simp_all add: v_def tcp_ok_def tcp_closed_def)
  have q: "tcp_ok (queue_tcp h v d) \<and> \<not> tcp_closed (queue_tcp h v d) \<and> tcp_state (queue_tcp h v d) = tcp_state v
      \<and> tcp_socks5 (queue_tcp h v d) = tcp_socks5 v \<and> tcp_ptr (queue_tcp h v d) = tcp_ptr v" for d
    using v by (simp add: queue_tcp_def tcp_ok_def tcp_closed_def)
  obtain x where "tcp_segment_flags os cfg h v x = (r, s', w') \<or> write_rst os cfg v x = (s', w')
      \<or> (\<exists>d. tcp_segment_flags os cfg h (queue_tcp h v d) x = (r, s', w'))"
    using k False
    by (auto simp: tcp_known_def v_def sys_time_def Let_def bind_eq_Some_conv split: if_splits prod.splits)
  then have "refines v s'"
    using segment_flags_refines v q rst_refines refines_fields [of "queue_tcp h v _" s' v] by metis
  then show ?thesis using refines_fields v(3-5) by metis
qed

section \<open>Reachable sessions\<close>

text \<open>
  The steps of a session: a packet of the app, an event of its socket, the periodic check and the
  choice of events before waiting, which \<open>handle_events\<close> makes only while the socket is open.
\<close>

inductive tcp_step :: "os \<Rightarrow> config \<Rightarrow> tcp_session \<times> world \<Rightarrow> tcp_session \<times> world \<Rightarrow> bool" for os cfg where
  packet: "tcp_known os cfg pkt len payload h s w = Some (r, s', w') \<Longrightarrow> tcp_step os cfg (s, w) (s', w')"
| socket: "0 \<le> tcp_socket s \<Longrightarrow> check_tcp_socket os cfg ev s w = Some (s', w') \<Longrightarrow>
    tcp_step os cfg (s, w) (s', w')"
| check: "check_tcp_session os cfg sessions maxsessions s w = (del, s', w') \<Longrightarrow>
    tcp_step os cfg (s, w) (s', w')"
| monitor: "0 \<le> tcp_socket s \<Longrightarrow> monitor_tcp_session os cfg s w = (recheck, s', w') \<Longrightarrow>
    tcp_step os cfg (s, w) (s', w')"

lemma step_refines: "tcp_step os cfg x y \<Longrightarrow> tcp_ok (fst x) \<Longrightarrow> refines (fst x) (fst y)"
  by (induction rule: tcp_step.induct)
    (auto intro: known_refines socket_refines check_refines monitor_refines)

lemma steps_refine:
  assumes "(tcp_step os cfg)\<^sup>*\<^sup>* x y" "tcp_ok (fst x)"
  shows "refines (fst x) (fst y)"
  using assms
proof (induction rule: rtranclp_induct)
  case (step y z)
  then have y: "refines (fst x) (fst y)" by simp
  with step_refines [OF step(2)] have "refines (fst y) (fst z)" by (simp add: refines_def)
  with y show ?case by (auto simp: refines_def)
qed (simp add: refines_def)

text \<open>The session \<open>handle_tcp\<close> makes for a SYN once its socket is open.\<close>

definition tcp_opened :: "tcp_session \<Rightarrow> int \<Rightarrow> u32 \<Rightarrow> tcp_session" where
  "tcp_opened s sock window = s\<lparr>tcp_socket := sock, tcp_recv_window := window\<rparr>"

lemma opened_ok:
  assumes "0 \<le> sock"
  shows "tcp_ok (tcp_opened (tcp_first ctx pkt h uid t isn mss ws data) sock win)"
    "hs_ok (tcp_opened (tcp_first ctx pkt h uid t isn mss ws data) sock win)"
    "tcp_state (tcp_opened (tcp_first ctx pkt h uid t isn mss ws data) sock win) = TCP_LISTEN"
  using assms by (simp_all add: tcp_opened_def tcp_first_def tcp_ok_def hs_ok_def)

definition tcp_new_sample :: tcp_session where
  "tcp_new_sample = tcp_opened
     (tcp_first \<lparr>ctx_stopping = False, ctx_sessions = [], ctx_next = 0\<rparr> [0x45]
        \<lparr>th_source = 0x39C0, th_dest = 0xBB01, th_seq = 1000, th_ack_seq = 0, th_doff = 5, th_fin = False,
         th_syn = True, th_rst = False, th_psh = False, th_ack = False, th_urg = False, th_window = 65535\<rparr>
        10000 900 42 1460 7 []) 5 163840"

definition ev_out :: epoll_events where
  "ev_out = \<lparr>ep_in = False, ep_out = True, ep_err = False\<rparr>"

definition ev_in :: epoll_events where
  "ev_in = \<lparr>ep_in = True, ep_out = False, ep_err = False\<rparr>"



text \<open>
  C26: with a proxy configured, the app is told that its connection is open (the step from LISTEN
  to SYN_RECV, which sends the SYN+ACK) only in the step that received the proxy's reply to the
  connect request, complete and with the code for success.
\<close>

theorem socks5_granted:
  assumes "s0 = tcp_opened (tcp_first ctx pkt h uid t isn mss ws data) sock win" "0 \<le> sock"
    and "(tcp_step os cfg)\<^sup>*\<^sup>* (s0, w0) (s, w)" "check_tcp_socket os cfg ev s w = Some (s', w')"
    and "socks5_enabled cfg" "tcp_state s = TCP_LISTEN" "tcp_state s' = TCP_SYN_RECV"
  shows "tcp_socks5 s = SOCKS5_CONNECT \<and> (\<exists>b. os_recv os (trace w) (tcp_socket s) 32 = Recv_Data b \<and>
    length b = (if tcp_version s = 4 then 10 else 22) \<and> b ! 0 = 5 \<and> b ! 1 = 0)"
proof -
  note o = opened_ok [OF assms(2), of ctx pkt h uid t isn mss ws data win, folded assms(1)]
  have "refines s0 s" using steps_refine [OF assms(3)] o by simp
  then have hs: "hs_ok s" using o by (simp add: refines_def)
  have e: "\<not> ep_err ev"
    using assms(4,6,7)
    by (auto simp: check_tcp_socket_def sys_time_def Let_def split: if_splits prod.splits dest!: write_rst_session)
  then have "tcp_listen_event os cfg ev s w = (s', w')"
    using assms(4,6) by (simp add: check_tcp_socket_def)
  from this assms(6) hs show ?thesis
  proof (cases rule: tcp_listen_event_cases)
    case (proxy b)
    then show ?thesis
      by (auto simp: socks5_reply_def Let_def split: if_splits intro!: exI [of _ b])
  qed (use assms(5,7) in auto)
qed

text \<open>The handshake with a proxy that grants everything.\<close>

definition os_proxy :: os where
  "os_proxy = os_ok\<lparr>os_recv := \<lambda>tr _ _. Recv_Data
     (if length (filter (\<lambda>e. case e of Recv s n \<Rightarrow> True | _ \<Rightarrow> False) tr) = 0 then [5, 0]
      else [5, 0, 0, 1, 0, 0, 0, 0, 0, 0])\<rparr>"

definition cfg_proxy :: config where
  "cfg_proxy = cfg_plain\<lparr>socks5_addr := ''10.0.0.1'', socks5_port := 1080\<rparr>"

lemmas proxy_eval = check_tcp_socket_def tcp_listen_event_def socks5_send_def tcp_connected_def ev_out_def
  ev_in_def socks5_enabled_def cfg_proxy_def cfg_plain_def os_proxy_def os_ok_def socks5_recv_def
  socks5_reply_def socks5_write_def write_syn_ack_def write_or_closing_def write_tcp_def tun_send_def
  sys_time_def Let_def case_prod_unfold

theorem socks5_granted_witness:
  "\<exists>s w s' w'. (tcp_step os_proxy cfg_proxy)\<^sup>*\<^sup>* (tcp_new_sample, world0) (s, w) \<and>
     check_tcp_socket os_proxy cfg_proxy ev_in s w = Some (s', w') \<and> tcp_state s' = TCP_SYN_RECV \<and>
     tcp_socks5 s = SOCKS5_CONNECT"
proof -
  let ?s = tcp_new_sample
  let ?w1 = "emit (Send 5 [5, 2, 0, 2] False 4) world0"
  let ?w2 = "emit (Send 5 (socks5_connect ?s) False (int (length (socks5_connect ?s)))) (emit (Recv 5 32) ?w1)"
  let ?s1 = "?s\<lparr>tcp_socks5 := SOCKS5_HELLO\<rparr>" and ?s2 = "?s\<lparr>tcp_socks5 := SOCKS5_CONNECT\<rparr>"
  have f: "tcp_socket ?s = 5" "tcp_state ?s = TCP_LISTEN" "tcp_socks5 ?s = SOCKS5_NONE" "tcp_version ?s = 4"
    by (simp_all add: tcp_new_sample_def tcp_opened_def tcp_first_def tcp_blank_def pkt_version_def)
  have 1: "check_tcp_socket os_proxy cfg_proxy ev_out ?s world0 = Some (?s1, ?w1)"
    by (simp add: proxy_eval f)
  have 2: "check_tcp_socket os_proxy cfg_proxy ev_in ?s1 ?w1 = Some (?s2, ?w2)"
    by (simp add: proxy_eval f socks5_connect_def)
  obtain s3 w3 where 3: "check_tcp_socket os_proxy cfg_proxy ev_in ?s2 ?w2 = Some (s3, w3)"
      "tcp_state s3 = TCP_SYN_RECV"
    by (simp add: proxy_eval f)
  have "tcp_step os_proxy cfg_proxy (?s, world0) (?s1, ?w1)" "tcp_step os_proxy cfg_proxy (?s1, ?w1) (?s2, ?w2)"
    by (rule tcp_step.socket [OF _ 1] tcp_step.socket [OF _ 2], simp add: f)+
  then have r: "(tcp_step os_proxy cfg_proxy)\<^sup>*\<^sup>* (?s, world0) (?s2, ?w2)"
    by (rule rtranclp_trans [OF r_into_rtranclp r_into_rtranclp])
  have "socks5_enabled cfg_proxy" "tcp_state ?s2 = TCP_LISTEN"
    by (simp_all add: socks5_enabled_def cfg_proxy_def f)
  from socks5_granted [OF tcp_new_sample_def _ r 3(1) this 3(2)] have "tcp_socks5 ?s2 = SOCKS5_CONNECT" by simp
  with r 3 show ?thesis by blast
qed

end
