(* ===== verification/Tcp_Packets.thy ===== *)
theory Tcp_Packets
  imports Tcp_Machine
begin

text \<open>
  What \<open>handle_tcp\<close> and \<open>check_tcp_socket\<close> do on the wire: the options of a SYN are read as RFC 793
  and RFC 7323 say, a packet of no session is answered with the reset RFC 793 asks for, the session
  list stays well formed, and data sent to the app never exceeds the window the app announced.
\<close>

section \<open>The options of a SYN\<close>

datatype tcp_option = Nop | Mss u16 | Wscale u8 | Other u8 bytes

fun enc_option :: "tcp_option \<Rightarrow> bytes" where
  "enc_option Nop = [1]"
| "enc_option (Mss m) = [2, 4] @ be16b m"
| "enc_option (Wscale n) = [3, 3, n]"
| "enc_option (Other k b) = [k, of_nat (length b + 2)] @ b"

fun option_ok :: "tcp_option \<Rightarrow> bool" where
  "option_ok (Other k b) \<longleftrightarrow> k \<notin> {0, 1, 2, 3} \<and> length b + 2 < 256"
| "option_ok _ \<longleftrightarrow> True"

fun option_mss :: "tcp_option \<Rightarrow> u16 \<Rightarrow> u16" where
  "option_mss (Mss m) mss = m"
| "option_mss _ mss = mss"

fun option_ws :: "tcp_option \<Rightarrow> u8 \<Rightarrow> u8" where
  "option_ws (Wscale n) ws = n"
| "option_ws _ ws = ws"

lemma parse_step:
  assumes "option_ok x" "rest \<noteq> []" "0 \<le> n"
  shows "tcp_parse_options (pre @ enc_option x @ rest) (length pre) (int (length (enc_option x)) + n) mss ws =
    tcp_parse_options (pre @ enc_option x @ rest) (length pre + length (enc_option x)) n
      (option_mss x mss) (option_ws x ws)"
proof (cases x)
  case Nop
  with assms show ?thesis
    by (subst tcp_parse_options.simps) (simp add: rd_ok nth_append)
next
  case (Mss m)
  have "ntohs (le16 (ucast (drop_bit 8 m)) (ucast m)) = m" by (simp add: ntohs_le16)
  with Mss assms show ?thesis
    by (subst tcp_parse_options.simps) (simp add: rd_ok nth_append be16b_def del: drop_bit_eq_div, simp add: eval_nat_numeral)
next
  case (Wscale k)
  with assms show ?thesis
    by (subst tcp_parse_options.simps) (simp add: rd_ok nth_append, simp add: eval_nat_numeral)
next
  case (Other k b)
  have "unat (of_nat (length b + 2) :: u8) = length b + 2"
    using assms(1) Other by (subst unat_of_nat) simp
  with Other assms show ?thesis
    by (subst tcp_parse_options.simps) (auto simp: rd_ok nth_append)
qed

lemma options_parsed:
  assumes "\<forall>x\<in>set opts. option_ok x" "rest \<noteq> []"
    and "pkt = pre @ concat (map enc_option opts) @ replicate pad 0 @ rest"
  shows "tcp_parse_options pkt (length pre) (int (length (concat (map enc_option opts)) + pad)) mss ws =
    Some (fold option_mss opts mss, fold option_ws opts ws)"
  using assms
proof (induction opts arbitrary: pre mss ws)
  case Nil
  then show ?case
    by (subst tcp_parse_options.simps) (cases pad; simp add: rd_ok nth_append)
next
  case (Cons x opts)
  let ?r = "concat (map enc_option opts) @ replicate pad 0 @ rest"
  have p: "pkt = pre @ enc_option x @ ?r" using Cons.prems(3) by simp
  have "tcp_parse_options pkt (length pre) (int (length (enc_option x)) +
      int (length (concat (map enc_option opts)) + pad)) mss ws =
    tcp_parse_options pkt (length (pre @ enc_option x)) (int (length (concat (map enc_option opts)) + pad))
      (option_mss x mss) (option_ws x ws)"
    unfolding p by (subst parse_step) (use Cons.prems in auto)
  also have "\<dots> = Some (fold option_mss opts (option_mss x mss), fold option_ws opts (option_ws x ws))"
    by (rule Cons.IH) (use Cons.prems in auto)
  finally show ?case by (simp add: algebra_simps)
qed

text \<open>
  A list of well-formed options, padded with end-of-list octets, is read completely: the maximum
  segment size and the window scale are those of the last option of each kind, and the given values
  where there is none. The reading always ends.
\<close>

theorem tcp_options_parsed:
  assumes "\<forall>x\<in>set opts. option_ok x" "rest \<noteq> []"
    and "pkt = pre @ concat (map enc_option opts) @ replicate pad 0 @ rest"
  shows "tcp_parse_options pkt (length pre) (int (length (concat (map enc_option opts)) + pad)) mss ws =
    Some (fold option_mss opts mss, fold option_ws opts ws)"
  using assms by (rule options_parsed)

theorem tcp_options_parsed_witness:
  "list_all option_ok [Mss 1460, Other 4 [], Nop, Wscale 7] \<and>
   tcp_parse_options [2, 4, 5, 0xB4, 4, 2, 1, 3, 3, 7, 0, 0, 9] 0 12 536 0 = Some (1460, 7)"
proof -
  let ?o = "[Mss 1460, Other 4 [], Nop, Wscale 7]"
  have p: "[2, 4, 5, 0xB4, 4, 2, 1, 3, 3, 7, 0, 0, 9] = [] @ concat (map enc_option ?o) @ replicate 2 0 @ [9]"
    by code_simp
  have o: "\<forall>x\<in>set ?o. option_ok x" by code_simp
  have l: "int (length (concat (map enc_option ?o)) + 2) = 12" by code_simp
  from tcp_options_parsed [OF o _ p, of 536 0, unfolded l] o show ?thesis by (simp add: list_all_iff)
qed

lemma options_end:
  assumes "tcp_parse_options pkt pos optlen mss ws = Some res"
  shows "0 < optlen \<longrightarrow> (\<forall>kind. rd8 pkt pos = Some kind \<longrightarrow> kind \<noteq> 0 \<longrightarrow> kind \<noteq> 1 \<longrightarrow> rd8 pkt (pos + 1) \<noteq> Some 0)"
proof (rule tcp_parse_options.raw_induct [OF _ assms,
    where P = "\<lambda>pkt pos optlen mss ws res. 0 < optlen \<longrightarrow>
      (\<forall>kind. rd8 pkt pos = Some kind \<longrightarrow> kind \<noteq> 0 \<longrightarrow> kind \<noteq> 1 \<longrightarrow> rd8 pkt (pos + 1) \<noteq> Some 0)"], goal_cases)
  case (1 parse pkt pos optlen mss ws res)
  show ?case
  proof (intro impI allI notI)
    fix kind assume k: "0 < optlen" "rd8 pkt pos = Some kind" "kind \<noteq> 0" "kind \<noteq> 1" "rd8 pkt (pos + 1) = Some 0"
    with 1(2) obtain mss' ws' where "parse pkt pos optlen mss' ws' = Some res"
      by (auto simp: bind_eq_Some_conv split: if_splits)
    from 1(1) [OF this] k show False by simp
  qed
qed

text \<open>
  An option of length zero (other than the one-octet kinds) makes the loop run forever, on any
  packet and whatever follows: no result is ever reached.
\<close>

theorem tcp_options_loop:
  assumes "0 < optlen" "rd8 pkt pos = Some kind" "kind \<noteq> 0" "kind \<noteq> 1" "rd8 pkt (pos + 1) = Some 0"
  shows "tcp_parse_options pkt pos optlen mss ws = None"
  using assms options_end [of pkt pos optlen mss ws] by (cases "tcp_parse_options pkt pos optlen mss ws") auto

theorem tcp_options_loop_witness:
  "rd8 [2, 0, 5, 0xB4] 0 = Some 2 \<and> tcp_parse_options [2, 0, 5, 0xB4] 0 4 536 0 = None"
proof -
  have r: "rd8 [2, 0, 5, 0xB4] 0 = Some 2" "rd8 [2, 0, 5, 0xB4] (0 + 1) = Some 0" by (simp_all add: rd8_def)
  from tcp_options_loop [OF _ r(1) _ _ r(2), of 4 536 0] r(1) show ?thesis by simp
qed

text \<open>
  The options of the program's own SYN+ACK, read the way it reads the options of the app, give
  the window scale it was given but the maximum segment size with its two bytes exchanged: the value
  is stored without conversion to network order.
\<close>

lemma syn_ack_mss_swapped:
  "tcp_parse_options (tcp_options cur True @ [b]) 0 8 mss ws =
     Some (ntohs (get_default_mss (tcp_version cur)), tcp_recv_scale cur) \<and>
   ntohs (get_default_mss (tcp_version cur)) \<noteq> get_default_mss (tcp_version cur)"
proof -
  let ?m = "ntohs (get_default_mss (tcp_version cur))"
  have m: "le16b (get_default_mss (tcp_version cur)) = be16b ?m"
    by (cases "tcp_version cur = 4") (simp_all add: le16b_def be16b_def ntohs_def)
  let ?o = "[Mss ?m, Wscale (tcp_recv_scale cur)]"
  have p: "tcp_options cur True @ [b] = [] @ concat (map enc_option ?o) @ replicate 1 0 @ [b]"
    by (simp add: tcp_options_def m)
  have "\<forall>x\<in>set ?o. option_ok x" "int (length (concat (map enc_option ?o)) + 1) = 8" by simp_all
  with options_parsed [OF _ _ p, of mss ws] show ?thesis
    by (cases "tcp_version cur = 4") (simp_all add: ntohs_def)
qed

section \<open>A packet of no session\<close>

text \<open>
  A packet that belongs to no session and opens none is answered by exactly one packet, a reset
  that goes back to where the packet came from, addresses and ports exchanged, with the packet's
  acknowledgement number as its sequence number; the sessions stay as they are.
\<close>

lemma unknown_packet_reset:
  assumes h: "read_tcphdr pkt payload = Some h" "\<not> th_urg h" "\<not> th_syn h" and p: "40 \<le> length pkt"
    and "find (tcp_match pkt h) (ctx_sessions ctx) = None"
  shows "\<exists>w' p rst. handle_tcp os cfg ctx pkt len payload uid allowed redirect w = Some (False, ctx, w') \<and>
    tun_packets (trace w') = p # tun_packets (trace w) \<and>
    pkt_saddr p = pkt_daddr pkt \<and> pkt_daddr p = pkt_saddr pkt \<and>
    read_tcphdr p (if pkt_version pkt = 4 then 20 else 40) = Some rst \<and>
    th_rst rst \<and> \<not> th_ack rst \<and> \<not> th_syn rst \<and> \<not> th_fin rst \<and>
    th_source rst = th_dest h \<and> th_dest rst = th_source h \<and> th_seq rst = th_ack_seq h"
proof -
  let ?w = "write_pcap_rec os cfg (take len pkt) uid w"
  let ?cur = "(tcp_blank ctx pkt h)\<lparr>tcp_local_seq := th_ack_seq h,
    tcp_remote_seq := th_seq h + ucast (tcp_datalen h len payload) + (if th_syn h \<or> th_fin h then 1 else 0)\<rparr>"
  let ?w' = "tcp_reject os cfg ctx pkt h (tcp_datalen h len payload) ?w"
  let ?p = "tcp_packet ?cur [] False False False True"
  have "handle_tcp os cfg ctx pkt len payload uid allowed redirect w = Some (False, ctx, ?w')"
    using assms by (simp add: handle_tcp_def Let_def)
  moreover have "tun_packets (trace ?w') = ?p # tun_packets (trace w)"
    by (simp add: tcp_reject_def write_rst_def tcp_blank_def Let_def write_tcp_def)
  moreover have "tcp_addrs_ok ?cur"
    using p by (simp add: tcp_addrs_ok_def tcp_blank_def pkt_saddr_def pkt_daddr_def)
  note packet_decodes [OF this, of "[]" False False False True]
  ultimately show ?thesis
    by (intro exI [of _ ?w'] exI [of _ ?p] exI [of _ "tcphdr_of ?cur False False False True"])
      (simp add: tcphdr_of_def tcp_blank_def)
qed

section \<open>The session list\<close>

lemma tcp_first_fields:
  "tcp_state (tcp_first ctx pkt h uid t isn mss ws data) = TCP_LISTEN"
  "tcp_ptr (tcp_first ctx pkt h uid t isn mss ws data) = ctx_next ctx"
  by (simp_all add: tcp_first_def tcp_blank_def)

lemma new_session_grows:
  assumes "tcp_new_session os cfg ctx pkt len payload h uid allowed redirect w = Some (r, ctx', w')" "ctx_ok ctx"
  shows "grows ctx ctx'"
proof -
  have ok: "grows ctx (push_session (Tcp t) ctx)" if "tcp_ok t" "tcp_ptr t = ctx_next ctx" for t
    using grows_push [OF assms(2), of "Tcp t"] that by simp
  have o: "tcp_ok (s\<lparr>tcp_socket := k, tcp_recv_window := v\<rparr>)" if "0 \<le> k" "tcp_state s = TCP_LISTEN" for s k v
    using that by (simp add: tcp_ok_def)
  have rst: "tcp_ok (fst (write_rst os cfg t v)) \<and> tcp_ptr (fst (write_rst os cfg t v)) = tcp_ptr t"
    if "tcp_ok t" for t v
  proof -
    obtain t' v' where e: "write_rst os cfg t v = (t', v')" by fastforce
    from tcp_ok_rst [OF e that] write_rst_session [OF e] e show ?thesis by simp
  qed
  show ?thesis
    using assms
    by (auto simp: tcp_new_session_def Let_def bind_eq_Some_conv case_prod_unfold grows_next rst o
        tcp_first_fields split: if_splits intro!: ok)
qed

lemma known_socket:
  assumes "tcp_known os cfg pkt len payload h s w = Some (r, s', w')"
  shows "tcp_socket s' = tcp_socket s"
proof -
  have rst: "tcp_socket t' = tcp_socket t" if "write_rst os cfg t v = (t', v')" for t v t' v'
    using write_rst_session [OF that] by simp
  have fin: "tcp_socket t' = tcp_socket t" if "tcp_fin os cfg t v = (b, t', v')" for t v b t' v'
    using that
    by (auto simp: tcp_fin_def Let_def case_prod_unfold write_ack_def write_or_closing_def split: if_splits)
  have flags: "tcp_socket t' = tcp_socket t" if "tcp_segment_flags os cfg h t v = (b, t', v')" for t v b t' v'
    using that
    by (auto simp: tcp_segment_flags_def tcp_ack_def tcp_out_of_order_def Let_def split: if_splits prod.splits
        dest: rst fin)
  show ?thesis
    using assms
    by (auto simp: tcp_known_def Let_def queue_tcp_def bind_eq_Some_conv split: if_splits prod.splits
        dest!: rst flags)
qed

lemma handle_tcp_grows:
  assumes "handle_tcp os cfg ctx pkt len payload uid allowed redirect w = Some (r, ctx', w')" "ctx_ok ctx"
  shows "grows ctx ctx'"
proof -
  obtain h where h: "read_tcphdr pkt payload = Some h"
    using assms(1) by (cases "read_tcphdr pkt payload") (auto simp: handle_tcp_def)
  show ?thesis
  proof (cases "find (tcp_match pkt h) (ctx_sessions ctx)")
    case None
    with assms h new_session_grows show ?thesis
      by (auto simp: handle_tcp_def Let_def split: if_splits)
  next
    case (Some s)
    then obtain t where t: "s = Tcp t" using find_in_set [OF Some] by (cases s) auto
    with ctx_ok_find [OF assms(2) Some] have ok: "tcp_ok t" by simp
    have put: "grows ctx (put_session (Tcp t') ctx)" if "refines t t'" "tcp_socket t' = tcp_socket t" for t'
      using grows_put [OF assms(2), of "Tcp t'"] ends_find [OF Some] that t by (simp add: refines_def)
    from assms h Some t show ?thesis
      by (auto simp: handle_tcp_def bind_eq_Some_conv split: if_splits intro!: put dest: known_refines [OF _ ok] known_socket)
  qed
qed

section \<open>The window of the app\<close>

text \<open>What decides how much may be sent: only reading from the socket changes it.\<close>

definition sender :: "tcp_session \<Rightarrow> u32 \<times> u32 \<times> u16 \<times> u32 \<times> u16" where
  "sender s = (tcp_local_seq s, tcp_acked s, tcp_unconfirmed s, tcp_send_window s, tcp_mss s)"

lemma sender_rst: "write_rst os cfg s w = (s', w') \<Longrightarrow> sender s' = sender s"
  by (drule write_rst_session) (simp add: sender_def)

lemma sender_ack: "write_ack os cfg s w = (r, s', w') \<Longrightarrow> sender s' = sender s"
  by (drule write_wrapper_session) (simp add: sender_def)

lemma sender_fields [simp]:
  "sender (s\<lparr>tcp_forward := q\<rparr>) = sender s" "sender (s\<lparr>tcp_sent := n\<rparr>) = sender s"
  "sender (s\<lparr>tcp_remote_seq := x\<rparr>) = sender s" "sender (s\<lparr>tcp_recv_window := x\<rparr>) = sender s"
  "sender (s\<lparr>tcp_time := t\<rparr>) = sender s" "sender (s\<lparr>tcp_received := n\<rparr>) = sender s"
  by (simp_all add: sender_def)

lemma sender_fwd_loop: "fwd_loop os cfg q b f t w = (f', t', w') \<Longrightarrow> sender t' = sender t"
proof (induction q arbitrary: b f t w)
  case (Cons g q)
  show ?case
    using Cons.prems by (auto simp: Let_def split: if_splits prod.splits dest!: Cons.IH sender_rst)
qed auto

lemma sender_acknowledge: "tcp_acknowledge os cfg fwd s w = (s', w') \<Longrightarrow> sender s' = sender s"
  by (auto simp: tcp_acknowledge_def Let_def split: if_splits prod.splits dest!: sender_ack)

lemma get_send_window_sender: "sender s' = sender s \<Longrightarrow> get_send_window s' = get_send_window s"
  by (simp add: sender_def get_send_window_def Let_def)

text \<open>\<open>recv\<close> returns at most the number of bytes asked for.\<close>

definition recv_contract :: "os \<Rightarrow> bool" where
  "recv_contract os \<longleftrightarrow> (\<forall>tr sock n b. os_recv os tr sock n = Recv_Data b \<longrightarrow> length b \<le> n)"

lemma parse_dns_length:
  assumes "parse_dns_response os cfg s data datalen w = Some (d, n, w')" "datalen \<le> length data"
  shows "length d = length data"
  using assms(1)
proof (cases rule: parse_dns_response_cases)
  case (block k q t v)
  then show ?thesis
    using assms(2)
    by (auto simp: dns_block_def Let_def is_domain_blocked_def dns_block_bytes_def case_prod_unfold split: if_splits)
qed simp

definition advanced :: "tcp_session \<Rightarrow> tcp_session \<Rightarrow> nat \<Rightarrow> bool" where
  "advanced s s' n \<longleftrightarrow> tcp_local_seq s' = tcp_local_seq s + of_nat n"

lemma sender_advanced: "sender s' = sender s \<Longrightarrow> advanced s s' 0"
  by (simp add: sender_def advanced_def)

lemma received_advanced:
  assumes "tcp_received_data os cfg s b w = Some (s', w')"
  shows "advanced s s' 0 \<or> advanced s s' (length b)"
proof -
  let ?s = "s\<lparr>tcp_received := tcp_received s + of_nat (length b)\<rparr>"
  have d: "tcp_local_seq (fst (snd (write_data os cfg ?s c v))) = tcp_local_seq s" for c v
    by (simp add: write_data_def write_or_closing_def)
  have l: "2 + of_nat (length e) = (of_nat (length b) :: u32)"
    if "parse_dns_response os cfg t (drop 2 b) (length b - 2) v = Some (e, n, v')" "2 < length b" for t e n v v'
    using parse_dns_length [OF that(1)] that(2) by (simp add: of_nat_diff)
  show ?thesis
    using assms
    by (auto simp: tcp_received_data_def Let_def bind_eq_Some_conv case_prod_unfold d l advanced_def split: if_splits)
qed

lemma eof_advanced:
  assumes "tcp_eof os cfg s w = (s', w')" shows "advanced s s' 0 \<or> advanced s s' 1"
proof (cases "tcp_forward s = []")
  case True
  obtain r s1 w1 where f: "write_fin_ack os cfg s w = (r, s1, w1)" by (cases "write_fin_ack os cfg s w") auto
  from write_wrapper_session(4) [OF f] assms True f show ?thesis
    by (auto simp: tcp_eof_def Let_def advanced_def split: if_splits)
next
  case False
  with assms show ?thesis
    by (auto simp: tcp_eof_def Let_def sender_def advanced_def dest!: sender_rst split: prod.splits)
qed

lemma read_advanced:
  assumes r: "tcp_read os cfg ev s w = Some (s', w')" and c: "recv_contract os"
  shows "\<exists>n. advanced s s' n \<and> n \<le> unat (get_send_window s)"
proof (cases "ep_in ev \<and> get_send_window s > 0")
  case True
  let ?s = "s\<lparr>tcp_time := os_time os (trace w)\<rparr>"
  let ?n = "min (unat (get_send_window s)) (unat (tcp_mss s))"
  let ?w = "emit (Recv (tcp_socket s) ?n) (emit (Time (os_time os (trace w))) w)"
  have pos: "1 \<le> unat (get_send_window s)" using True by (simp add: word_less_nat_alt)
  consider "sender s' = sender s" | "tcp_eof os cfg ?s ?w = (s', w')"
    | b where "os_recv os (Time (os_time os (trace w)) # trace w) (tcp_socket s) ?n = Recv_Data b"
        "tcp_received_data os cfg ?s b ?w = Some (s', w')"
    using r True
    by (auto simp: tcp_read_def Let_def sys_time_def split: if_splits recv_result.splits dest!: sender_rst)
  then show ?thesis
  proof cases
    case 1
    then show ?thesis by (blast dest: sender_advanced)
  next
    case 2
    from eof_advanced [OF 2] have "advanced s s' 0 \<or> advanced s s' 1" by (simp add: advanced_def)
    with pos show ?thesis by (metis le0)
  next
    case (3 b)
    then have "length b \<le> unat (get_send_window s)" using c by (fastforce simp: recv_contract_def)
    with received_advanced [OF 3(2)] show ?thesis by (auto simp: advanced_def intro: exI [of _ 0])
  qed
next
  case False
  with r show ?thesis by (auto simp: tcp_read_def Let_def advanced_def intro: exI [of _ 0])
qed

lemma data_event_advanced:
  assumes d: "tcp_data_event os cfg ev s w = Some (s', w')" and c: "recv_contract os"
  shows "\<exists>n. advanced s s' n \<and> n \<le> unat (get_send_window s)"
proof -
  obtain fwd s1 w1 where f: "(if ep_out ev then forward_data os cfg s w else (False, s, w)) = (fwd, s1, w1)"
    by (cases "if ep_out ev then forward_data os cfg s w else (False, s, w)") auto
  obtain s2 w2 where a: "tcp_acknowledge os cfg fwd s1 w1 = (s2, w2)" by fastforce
  have "sender s1 = sender s"
    using f by (auto simp: forward_data_def Let_def split: if_splits prod.splits dest!: sender_fwd_loop)
  with sender_acknowledge [OF a] have s2: "sender s2 = sender s" by simp
  have "(if tcp_state s2 = TCP_ESTABLISHED \<or> tcp_state s2 = TCP_CLOSE_WAIT
      then tcp_read os cfg ev s2 w2 else Some (s2, w2)) = Some (s', w')"
    using d f a by (auto simp: tcp_data_event_def)
  then have "\<exists>n. advanced s2 s' n \<and> n \<le> unat (get_send_window s2)"
    using read_advanced [OF _ c, of cfg ev s2 w2] by (auto simp: advanced_def intro: exI [of _ 0] split: if_splits)
  with s2 get_send_window_sender [OF s2] show ?thesis by (simp add: advanced_def sender_def)
qed

lemma get_send_window_room:
  assumes "tcp_acked s \<le> tcp_local_seq s" "0 < get_send_window s"
    and "unat (tcp_local_seq s - tcp_acked s) + (unat (tcp_unconfirmed s) + 1) * 40 < 2 ^ 32"
  shows "unat (tcp_local_seq s - tcp_acked s) + (unat (tcp_unconfirmed s) + 1) * 40 + unat (get_send_window s)
    = unat (tcp_send_window s)"
proof -
  define behind where "behind = tcp_local_seq s - tcp_acked s + (ucast (tcp_unconfirmed s) + 1) * 40"
  have b: "unat behind = unat (tcp_local_seq s - tcp_acked s) + (unat (tcp_unconfirmed s) + 1) * 40"
    using assms(3) unat_u16_less [of "tcp_unconfirmed s"] unfolding behind_def by (simp add: unat_word_ariths)
  have "get_send_window s = (if behind < tcp_send_window s then tcp_send_window s - behind else 0)"
    using assms(1) by (simp add: get_send_window_def behind_def Let_def)
  with assms(2) have "behind < tcp_send_window s" "get_send_window s = tcp_send_window s - behind"
    by (auto split: if_splits)
  with b show ?thesis by (simp add: unat_sub word_less_nat_alt word_le_nat_alt)
qed

text \<open>
  C27: what an event of the socket sends to the app never overruns the window the app announced: the
  bytes not yet acknowledged, the new ones and the headers of the packets under way together stay
  within it. This holds as long as the sequence numbers in flight have not wrapped around.
\<close>

theorem send_window_respected:
  assumes "check_tcp_socket os cfg ev s w = Some (s', w')" "recv_contract os" "tcp_state s \<noteq> TCP_LISTEN"
    and "tcp_acked s \<le> tcp_local_seq s"
    and "unat (tcp_local_seq s - tcp_acked s) + (unat (tcp_unconfirmed s) + 1) * 40 < 2 ^ 32"
  shows "\<exists>n. tcp_local_seq s' = tcp_local_seq s + of_nat n \<and>
    (n = 0 \<or> unat (tcp_local_seq s - tcp_acked s) + (unat (tcp_unconfirmed s) + 1) * 40 + n
       \<le> unat (tcp_send_window s))"
proof (cases "ep_err ev")
  case True
  with assms(1) have "tcp_local_seq s' = tcp_local_seq s"
    by (auto simp: check_tcp_socket_def sys_time_def Let_def sender_def dest!: sender_rst)
  then show ?thesis by (intro exI [of _ 0]) simp
next
  case False
  with assms(1,3) have "tcp_data_event os cfg ev s w = Some (s', w')" by (simp add: check_tcp_socket_def)
  from data_event_advanced [OF this assms(2)] obtain n where
    n: "advanced s s' n" "n \<le> unat (get_send_window s)" by blast
  show ?thesis
  proof (cases "get_send_window s = 0")
    case True
    with n show ?thesis by (intro exI [of _ 0]) (simp add: advanced_def)
  next
    case False
    then have "0 < get_send_window s" by (simp add: word_neq_0_conv)
    from get_send_window_room [OF assms(4) this assms(5)] n show ?thesis
      by (intro exI [of _ n]) (auto simp: advanced_def)
  qed
qed

definition os_hello :: os where
  "os_hello = os_ok\<lparr>os_recv := \<lambda>_ _ n. Recv_Data (take n [72, 69, 76, 76, 79])\<rparr>"

theorem send_window_respected_witness:
  "recv_contract os_hello \<and>
   (\<exists>s' w'. check_tcp_socket os_hello cfg_plain ev_in tcp_sample world0 = Some (s', w') \<and>
      tcp_local_seq s' = tcp_local_seq tcp_sample + 5 \<and> (\<exists>n. tcp_local_seq s' = tcp_local_seq tcp_sample + of_nat n))"
proof -
  have c: "recv_contract os_hello" by (simp add: recv_contract_def os_hello_def)
  obtain s' w' where e: "check_tcp_socket os_hello cfg_plain ev_in tcp_sample world0 = Some (s', w')"
      "tcp_local_seq s' = tcp_local_seq tcp_sample + 5"
    by (simp add: check_tcp_socket_def tcp_data_event_def tcp_acknowledge_def get_receive_window_def
        get_receive_buffer_def tcp_read_def tcp_received_data_def get_send_window_def sys_time_def ev_in_def
        os_hello_def tcp_sample_def ntohs_def write_data_def write_or_closing_def write_tcp_def tun_send_def Let_def)
  have h: "tcp_state tcp_sample \<noteq> TCP_LISTEN" "tcp_acked tcp_sample \<le> tcp_local_seq tcp_sample"
    "unat (tcp_local_seq tcp_sample - tcp_acked tcp_sample) + (unat (tcp_unconfirmed tcp_sample) + 1) * 40 < 2 ^ 32"
    by (simp_all add: tcp_sample_def)
  from send_window_respected [OF e(1) c h] c e show ?thesis by blast
qed

end
