(* ===== verification/Scanf.thy ===== *)
theory Scanf
  imports Util
begin

text \<open>
  The conversions of \<open>sscanf\<close> that the formats of the program use. Each skips leading white space, as C
  says, and gives the value and the rest of the line or fails; a number too long for 64 bits is clamped
  before it is stored in 32.
\<close>

definition scan_lit :: "char \<Rightarrow> string \<Rightarrow> string option" where
  "scan_lit c s = (case s of d # t \<Rightarrow> if d = c then Some t else None | [] \<Rightarrow> None)"

definition scan_str :: "nat \<Rightarrow> string \<Rightarrow> (string \<times> string) option" where
  "scan_str n s =
     (let s = dropWhile isspace s; t = takeWhile (\<lambda>c. \<not> isspace c) (take n s)
      in if t = [] then None else Some (t, drop (length t) s))"

definition hex_value :: "char \<Rightarrow> nat" where
  "hex_value c = unat (char2nible c)"

definition scan_digits :: "nat \<Rightarrow> string \<Rightarrow> (int \<times> string) option" where
  "scan_digits base s =
     (let t = takeWhile (\<lambda>c. hex_value c < base) s
      in if t = [] then None else Some (foldl (\<lambda>n c. n * int base + int (hex_value c)) 0 t, drop (length t) s))"

definition scan_sign :: "string \<Rightarrow> bool \<times> string" where
  "scan_sign s = (case s of
       c # t \<Rightarrow> if c = CHR ''-'' then (True, t) else if c = CHR ''+'' then (False, t) else (False, s)
     | [] \<Rightarrow> (False, s))"

definition strip_0x :: "string \<Rightarrow> string" where
  "strip_0x s = (case s of
       z # x # d # t \<Rightarrow> if z = CHR ''0'' \<and> (x = CHR ''x'' \<or> x = CHR ''X'') \<and> hex_value d < 16 then d # t else s
     | _ \<Rightarrow> s)"

definition scan_d :: "string \<Rightarrow> (int \<times> string) option" where
  "scan_d s =
     (let (neg, s) = scan_sign (dropWhile isspace s) in
      do {
        (n, s) \<leftarrow> scan_digits 10 s;
        Some (sint (of_int (if neg then - min n (2 ^ 63) else min n (2 ^ 63 - 1)) :: 32 word), s)
      })"

definition scan_x :: "string \<Rightarrow> (int \<times> string) option" where
  "scan_x s =
     (let (neg, s) = scan_sign (dropWhile isspace s) in
      do {
        (n, s) \<leftarrow> scan_digits 16 (strip_0x s);
        let v = (of_int (min n (2 ^ 64 - 1)) :: 32 word);
        Some (sint (if neg then - v else v), s)
      })"

definition scan_u :: "string \<Rightarrow> (u32 \<times> string) option" where
  "scan_u s =
     (let (neg, s) = scan_sign (dropWhile isspace s) in
      do {
        (n, s) \<leftarrow> scan_digits 10 s;
        let v = of_int (min n (2 ^ 64 - 1));
        Some (if neg then - v else v, s)
      })"

end
