(* ===== verification/Uid.thy ===== *)
theory Uid
  imports Ng_Types Samples Scanf
begin

text \<open>
  Who owns a connection, \<open>get_uid\<close> and \<open>get_uid_sub\<close> of \<open>netguard/ip.c\<close>: the tables of
  \<open>/proc/net\<close> are scanned line by line with \<open>sscanf\<close> and every line goes into a cache, an array
  that grows and whose entries are reused when they are older than half a minute. The theory shows
  that a repeated question is answered from the cache as the table answered it.
\<close>

section \<open>A line of the table\<close>

record proc_fields =
  pf_saddr :: bytes
  pf_sport :: int
  pf_daddr :: bytes
  pf_dport :: int
  pf_uid :: int

text \<open>\<open>htonl\<close> on every 32 bit word of the buffer.\<close>

fun swap_words :: "bytes \<Rightarrow> bytes" where
  "swap_words (a # b # c # d # r) = d # c # b # a # swap_words r"
| "swap_words r = r"

definition uid_ws :: "nat \<Rightarrow> nat" where
  "uid_ws version = (if version = 4 then 1 else 4)"

definition proc_scan :: "nat \<Rightarrow> string \<Rightarrow> (string \<times> int \<times> string \<times> int \<times> int) option" where
  "proc_scan version l =
     do {
       (_, l) \<leftarrow> scan_d l;
       l \<leftarrow> scan_lit (CHR '':'') l;
       (shex, l) \<leftarrow> scan_str (uid_ws version * 8) l;
       l \<leftarrow> scan_lit (CHR '':'') l;
       (sport, l) \<leftarrow> scan_x l;
       (dhex, l) \<leftarrow> scan_str (uid_ws version * 8) l;
       l \<leftarrow> scan_lit (CHR '':'') l;
       (dport, l) \<leftarrow> scan_x l;
       (_, l) \<leftarrow> scan_x l;
       (_, l) \<leftarrow> scan_x l;
       l \<leftarrow> scan_lit (CHR '':'') l;
       (_, l) \<leftarrow> scan_x l;
       (_, l) \<leftarrow> scan_x l;
       l \<leftarrow> scan_lit (CHR '':'') l;
       (_, l) \<leftarrow> scan_x l;
       (_, l) \<leftarrow> scan_x l;
       (uid, l) \<leftarrow> scan_d l;
       Some (shex, sport, dhex, dport, uid)
     }"

definition proc_parse :: "nat \<Rightarrow> string \<Rightarrow> proc_fields option" where
  "proc_parse version l =
     do {
       (shex, sport, dhex, dport, uid) \<leftarrow> proc_scan version l;
       if length shex = uid_ws version * 8 \<and> length dhex = uid_ws version * 8
       then Some \<lparr>pf_saddr = swap_words (hex2bytes shex), pf_sport = sport,
                  pf_daddr = swap_words (hex2bytes dhex), pf_dport = dport, pf_uid = uid\<rparr>
       else None
     }"

section \<open>The cache\<close>

record uid_entry =
  ue_version :: nat
  ue_protocol :: u8
  ue_saddr :: bytes
  ue_sport :: u16
  ue_daddr :: bytes
  ue_dport :: u16
  ue_uid :: int
  ue_time :: int

definition addr_match :: "nat \<Rightarrow> bytes \<Rightarrow> bytes \<Rightarrow> bool" where
  "addr_match n stored addr \<longleftrightarrow> take n stored = take n addr \<or> take n stored = replicate n 0"

definition uid_fresh :: "int \<Rightarrow> uid_entry \<Rightarrow> bool" where
  "uid_fresh now e \<longleftrightarrow> now - ue_time e \<le> UID_MAX_AGE"

definition uid_hit :: "nat \<Rightarrow> u8 \<Rightarrow> bytes \<Rightarrow> u16 \<Rightarrow> bytes \<Rightarrow> u16 \<Rightarrow> int \<Rightarrow> uid_entry \<Rightarrow> bool" where
  "uid_hit version protocol saddr sport daddr dport now e \<longleftrightarrow>
     uid_fresh now e \<and> ue_version e = version \<and> ue_protocol e = protocol \<and> ue_sport e = sport \<and>
     (ue_dport e = dport \<or> ue_dport e = 0) \<and>
     addr_match (uid_ws version * 4) (ue_saddr e) saddr \<and> addr_match (uid_ws version * 4) (ue_daddr e) daddr"

definition line_match :: "nat \<Rightarrow> bytes \<Rightarrow> u16 \<Rightarrow> bytes \<Rightarrow> u16 \<Rightarrow> proc_fields \<Rightarrow> bool" where
  "line_match version saddr sport daddr dport f \<longleftrightarrow>
     pf_sport f = uint sport \<and> (pf_dport f = uint dport \<or> pf_dport f = 0) \<and>
     addr_match (uid_ws version * 4) (pf_saddr f) saddr \<and> addr_match (uid_ws version * 4) (pf_daddr f) daddr"

definition uid_entry_of :: "nat \<Rightarrow> u8 \<Rightarrow> int \<Rightarrow> proc_fields \<Rightarrow> uid_entry" where
  "uid_entry_of version protocol now f =
     \<lparr>ue_version = version, ue_protocol = protocol, ue_saddr = take (uid_ws version * 4) (pf_saddr f),
      ue_sport = of_int (pf_sport f), ue_daddr = take (uid_ws version * 4) (pf_daddr f),
      ue_dport = of_int (pf_dport f), ue_uid = pf_uid f, ue_time = now\<rparr>"

text \<open>The loop that moves \<open>c\<close> to the next entry that is too old, or to the end.\<close>

function next_stale :: "int \<Rightarrow> uid_entry list \<Rightarrow> nat \<Rightarrow> nat" where
  "next_stale now cache c =
     (if c < length cache \<and> uid_fresh now (cache ! c) then next_stale now cache (c + 1) else c)"
  by auto
termination
  by (relation "measure (\<lambda>(now, cache, c). length cache - c)") auto

declare next_stale.simps [simp del]

definition uid_store :: "nat \<Rightarrow> uid_entry \<Rightarrow> uid_entry list \<Rightarrow> uid_entry list" where
  "uid_store c e cache = (if c \<ge> length cache then cache @ [e] else cache[c := e])"

fun uid_scan :: "nat \<Rightarrow> u8 \<Rightarrow> bytes \<Rightarrow> u16 \<Rightarrow> bytes \<Rightarrow> u16 \<Rightarrow> int \<Rightarrow> string list \<Rightarrow> nat \<Rightarrow> int \<Rightarrow>
    uid_entry list \<Rightarrow> int \<times> uid_entry list" where
  "uid_scan version protocol saddr sport daddr dport now [] c uid cache = (uid, cache)"
| "uid_scan version protocol saddr sport daddr dport now (l # ls) c uid cache =
     (case proc_parse version l of
        None \<Rightarrow> (-2, cache)
      | Some f \<Rightarrow>
          let uid = (if line_match version saddr sport daddr dport f then pf_uid f else uid);
              c = next_stale now cache c
          in uid_scan version protocol saddr sport daddr dport now ls c uid
               (uid_store c (uid_entry_of version protocol now f) cache))"

section \<open>The lookup\<close>

definition proc_file :: "nat \<Rightarrow> u8 \<Rightarrow> string option" where
  "proc_file version protocol =
     (if protocol = IPPROTO_ICMP \<and> version = 4 then Some ''/proc/net/icmp''
      else if protocol = IPPROTO_ICMPV6 \<and> version = 6 then Some ''/proc/net/icmp6''
      else if protocol = IPPROTO_TCP then Some (if version = 4 then ''/proc/net/tcp'' else ''/proc/net/tcp6'')
      else if protocol = IPPROTO_UDP then Some (if version = 4 then ''/proc/net/udp'' else ''/proc/net/udp6'')
      else None)"

definition get_uid_sub :: "os \<Rightarrow> nat \<Rightarrow> u8 \<Rightarrow> bytes \<Rightarrow> u16 \<Rightarrow> bytes \<Rightarrow> u16 \<Rightarrow> int \<Rightarrow> uid_entry list \<Rightarrow> world \<Rightarrow>
    int \<times> uid_entry list \<times> world" where
  "get_uid_sub os version protocol saddr sport daddr dport now cache w =
     (case find (uid_hit version protocol saddr sport daddr dport now) cache of
        Some e \<Rightarrow> (ue_uid e, cache, w)
      | None \<Rightarrow>
          case proc_file version protocol of
            None \<Rightarrow> (-1, cache, w)
          | Some fn \<Rightarrow>
              let r = os_proc os (trace w) fn; w = emit (Open_Proc fn) w in
              case r of
                None \<Rightarrow> (-2, cache, w)
              | Some lines \<Rightarrow>
                  let (uid, cache) = uid_scan version protocol saddr sport daddr dport now (drop 1 lines) 0 (-1) cache
                  in (uid, cache, w))"

definition mapped_addr :: "bytes \<Rightarrow> bytes" where
  "mapped_addr addr = replicate 10 0 @ [0xFF, 0xFF] @ take 4 addr"

definition get_uid :: "os \<Rightarrow> nat \<Rightarrow> u8 \<Rightarrow> bytes \<Rightarrow> u16 \<Rightarrow> bytes \<Rightarrow> u16 \<Rightarrow> uid_entry list \<Rightarrow> world \<Rightarrow>
    int \<times> uid_entry list \<times> world" where
  "get_uid os version protocol saddr sport daddr dport cache w =
     (let now = os_gettimeofday os (trace w);
          (uid, cache, w) =
            (if version = 4
             then get_uid_sub os 6 protocol (mapped_addr saddr) sport (mapped_addr daddr) dport now cache w
             else (-1, cache, w))
      in if uid = -1 then get_uid_sub os version protocol saddr sport daddr dport now cache w
         else (uid, cache, w))"

section \<open>A repeated question\<close>

text \<open>
  What a scan leaves in the cache: an entry for every line, and nothing but the entries of the lines
  and entries that were there before.
\<close>

lemma next_stale_spec:
  "next_stale now cache c < length cache \<Longrightarrow> \<not> uid_fresh now (cache ! next_stale now cache c)"
proof (induction now cache c rule: next_stale.induct)
  case (1 now cache c)
  then show ?case
    by (subst next_stale.simps, subst (asm) (2) next_stale.simps) (auto split: if_splits)
qed

lemma set_uid_store: "x \<in> set (uid_store c e cache) \<Longrightarrow> x = e \<or> x \<in> set cache"
  unfolding uid_store_def by (auto split: if_splits dest: set_update_subset_insert [THEN subsetD])

lemma in_uid_store: "e \<in> set (uid_store c e cache)"
  unfolding uid_store_def by (auto intro: set_update_memI)

lemma uid_store_keeps:
  assumes "x \<in> set cache" "uid_fresh now x"
  shows "x \<in> set (uid_store (next_stale now cache c) e cache)"
proof (cases "next_stale now cache c < length cache")
  case True
  from assms(1) obtain i where i: "i < length cache" "cache ! i = x" by (auto simp: in_set_conv_nth)
  with next_stale_spec [OF True] assms(2) have "i \<noteq> next_stale now cache c" by auto
  with i True show ?thesis unfolding uid_store_def by (auto simp: in_set_conv_nth intro!: exI [of _ i])
qed (use assms in \<open>simp add: uid_store_def\<close>)

text \<open>The lines that could be read, in order.\<close>

definition proc_table :: "nat \<Rightarrow> string list \<Rightarrow> proc_fields list option" where
  "proc_table version ls = those (map (proc_parse version) ls)"

lemma proc_table_simps [simp]:
  "proc_table version [] = Some []"
  "proc_table version (l # ls) = (case proc_parse version l of None \<Rightarrow> None
     | Some f \<Rightarrow> map_option (Cons f) (proc_table version ls))"
  by (simp_all add: proc_table_def split: option.split)

lemma uid_scan_table:
  assumes "proc_table version ls = Some fs"
    and "uid_scan version protocol saddr sport daddr dport now ls c uid cache = (uid', cache')"
  shows "uid' = fold (\<lambda>f u. if line_match version saddr sport daddr dport f then pf_uid f else u) fs uid
    \<and> (\<forall>f\<in>set fs. uid_entry_of version protocol now f \<in> set cache')
    \<and> (\<forall>x\<in>set cache. uid_fresh now x \<longrightarrow> x \<in> set cache')
    \<and> (\<forall>x\<in>set cache'. x \<in> set cache \<or> (\<exists>f\<in>set fs. x = uid_entry_of version protocol now f))"
  using assms
proof (induction ls arbitrary: fs c uid cache)
  case (Cons l ls)
  from Cons.prems(1) obtain f gs where f: "proc_parse version l = Some f" "proc_table version ls = Some gs" "fs = f # gs"
    by (auto split: option.splits)
  let ?e = "uid_entry_of version protocol now f" and ?c = "next_stale now cache c"
  let ?cache = "uid_store ?c ?e cache"
  have e: "uid_fresh now ?e" by (simp add: uid_fresh_def uid_entry_of_def)
  note IH = Cons.IH [OF f(2), of ?c _ ?cache]
  from Cons.prems(2) f IH show ?case
    using e in_uid_store [of ?e ?c cache] uid_store_keeps [of _ cache now c ?e] set_uid_store [of _ ?c ?e cache]
    by (fastforce simp: Let_def split: if_splits)
qed simp

definition ports_ok :: "proc_fields \<Rightarrow> bool" where
  "ports_ok f \<longleftrightarrow> 0 \<le> pf_sport f \<and> pf_sport f < 65536 \<and> 0 \<le> pf_dport f \<and> pf_dport f < 65536"

lemma u16_of_port: "0 \<le> p \<Longrightarrow> p < 65536 \<Longrightarrow> of_int p = (x :: u16) \<longleftrightarrow> p = uint x"
  by (auto simp: word_uint_eq_iff unsigned_of_int take_bit_eq_mod)

lemma hit_entry_of:
  assumes "ports_ok f" "now \<le> now'" "now' - now \<le> UID_MAX_AGE"
  shows "uid_hit version protocol saddr sport daddr dport now' (uid_entry_of version protocol now f)
    \<longleftrightarrow> line_match version saddr sport daddr dport f"
proof -
  have "of_int (pf_sport f) = sport \<longleftrightarrow> pf_sport f = uint sport" "of_int (pf_dport f) = dport \<longleftrightarrow> pf_dport f = uint dport"
    "of_int (pf_dport f) = (0 :: u16) \<longleftrightarrow> pf_dport f = 0"
    using assms(1) u16_of_port [of "pf_dport f" 0] by (simp_all add: ports_ok_def u16_of_port)
  with assms(2,3) show ?thesis
    by (simp add: uid_hit_def line_match_def uid_entry_of_def uid_fresh_def addr_match_def)
qed

lemma fold_match:
  "f \<in> set fs \<Longrightarrow> P f \<Longrightarrow> \<forall>g\<in>set fs. P g \<longrightarrow> v g = v f \<Longrightarrow> fold (\<lambda>g u. if P g then v g else u) fs u = v f"
proof (induction fs arbitrary: u)
  case (Cons g gs)
  show ?case
  proof (cases "f \<in> set gs")
    case False
    have "\<forall>h\<in>set gs. P h \<longrightarrow> v h = v f \<Longrightarrow> fold (\<lambda>g u. if P g then v g else u) gs (v f) = v f" for gs
      by (induction gs) auto
    with False Cons.prems show ?thesis by auto
  next
    case True
    with Cons.IH [OF this Cons.prems(2)] Cons.prems(3) show ?thesis by simp
  qed
qed simp

text \<open>
  C30: when the question is not answered by the cache, the table can be read and has an answer, and
  the lines that match agree about it, then that answer is given, and the same question asked again
  within the lifetime of the cache is answered alike without opening the table.
\<close>

theorem uid_cache_coherent:
  assumes "find (uid_hit version protocol saddr sport daddr dport now) cache = None"
    and "proc_file version protocol = Some fn" "os_proc os (trace w) fn = Some lines"
    and t: "proc_table version (drop 1 lines) = Some fs" "\<forall>f\<in>set fs. ports_ok f"
    and f: "f \<in> set fs" "line_match version saddr sport daddr dport f"
      "\<forall>g\<in>set fs. line_match version saddr sport daddr dport g \<longrightarrow> pf_uid g = pf_uid f"
    and now: "now \<le> now'" "now' - now \<le> UID_MAX_AGE"
  shows "\<exists>cache'. get_uid_sub os version protocol saddr sport daddr dport now cache w
      = (pf_uid f, cache', emit (Open_Proc fn) w)
    \<and> get_uid_sub os version protocol saddr sport daddr dport now' cache' w' = (pf_uid f, cache', w')"
proof -
  let ?hit = "uid_hit version protocol saddr sport daddr dport"
  obtain uid cache' where s: "uid_scan version protocol saddr sport daddr dport now (drop 1 lines) 0 (-1) cache = (uid, cache')"
    by fastforce
  note r = uid_scan_table [OF t(1) s]
  have uid: "uid = pf_uid f" using r fold_match [OF f] by simp
  have hit: "?hit now' (uid_entry_of version protocol now g) \<longleftrightarrow> line_match version saddr sport daddr dport g"
    if "g \<in> set fs" for g
    using hit_entry_of [OF _ now] t(2) that by blast
  have "\<exists>e. find (?hit now') cache' = Some e"
    using r f(1,2) hit [OF f(1)] by (auto simp: find_None_iff simp flip: not_None_eq)
  then obtain e where e: "find (?hit now') cache' = Some e" by blast
  then have eh: "e \<in> set cache'" "?hit now' e" by (auto simp: find_Some_iff)
  have "e \<notin> set cache"
    using assms(1) eh(2) now(1) by (auto simp: find_None_iff uid_hit_def uid_fresh_def)
  then obtain g where g: "g \<in> set fs" "e = uid_entry_of version protocol now g" using r eh(1) by blast
  with hit eh(2) f(3) have "ue_uid e = pf_uid f" by (auto simp: uid_entry_of_def)
  with e s uid assms(1-3) show ?thesis by (simp add: get_uid_sub_def)
qed

definition proc_line_sample :: string where
  "proc_line_sample = ''   0: 010A010A:C039 08080808:01BB 01 00000000:00000000 00:00000000 00000000 10057        0 12345''"

definition os_tcp_table :: os where
  "os_tcp_table = os_ok\<lparr>os_proc := \<lambda>_ _. Some [''  sl  local_address'', proc_line_sample]\<rparr>"

theorem uid_cache_coherent_witness:
  "\<exists>cache. get_uid_sub os_tcp_table 4 6 [10, 1, 10, 1] 0xC039 [8, 8, 8, 8] 443 1000 [] world0
      = (10057, cache, emit (Open_Proc ''/proc/net/tcp'') world0)
    \<and> get_uid_sub os_tcp_table 4 6 [10, 1, 10, 1] 0xC039 [8, 8, 8, 8] 443 31000 cache world0 = (10057, cache, world0)"
proof -
  let ?f = "\<lparr>pf_saddr = [10, 1, 10, 1], pf_sport = 0xC039, pf_daddr = [8, 8, 8, 8], pf_dport = 443, pf_uid = 10057\<rparr>"
  have p: "proc_parse 4 proc_line_sample = Some ?f" by code_simp
  have t: "proc_table 4 (drop 1 [''  sl  local_address'', proc_line_sample]) = Some [?f]" by (simp add: p)
  have m: "line_match 4 [10, 1, 10, 1] 0xC039 [8, 8, 8, 8] 443 ?f" "ports_ok ?f"
    by (simp_all add: line_match_def addr_match_def uid_ws_def ports_ok_def)
  have o: "os_proc os_tcp_table (trace world0) fn = Some [''  sl  local_address'', proc_line_sample]" for fn
    by (simp add: os_tcp_table_def)
  have "proc_file 4 6 = Some ''/proc/net/tcp''" by (simp add: proc_file_def)
  from uid_cache_coherent [OF _ this o t, of "[10, 1, 10, 1]" "0xC039" "[8, 8, 8, 8]" 443 1000 "[]" ?f 31000 world0]
  show ?thesis using m by simp
qed

end
