(* ===== verification/Ip.thy ===== *)
theory Ip
  imports Udp Icmp Tcp_Packets Uid
begin

text \<open>
  \<open>check_tun\<close> and \<open>handle_ip\<close> of \<open>netguard/ip.c\<close>: a packet is read from the tun device, its IP
  header decoded, ports and flags collected, the limit on sessions enforced, its owner looked up, the
  Java service asked whether it may pass, and then given to the handler of its protocol.
\<close>

section \<open>The IP header\<close>

definition is_lower_layer :: "u8 \<Rightarrow> bool" where
  "is_lower_layer protocol \<longleftrightarrow> protocol \<in> {0, 60, 43, 44, 51, 50, 135}"

definition is_upper_layer :: "u8 \<Rightarrow> bool" where
  "is_upper_layer protocol \<longleftrightarrow> protocol \<in> {IPPROTO_TCP, IPPROTO_UDP, IPPROTO_ICMP, IPPROTO_ICMPV6}"

text \<open>The outcome of a decoding step: the packet is dropped, or it goes on with a value.\<close>

datatype 'a verdict = Drop | Pass 'a

definition ip4_header :: "config \<Rightarrow> bytes \<Rightarrow> nat \<Rightarrow> (u8 \<times> nat) verdict option" where
  "ip4_header cfg pkt len =
     (if len < 20 then Some Drop
      else do {
        h \<leftarrow> rd_bytes pkt 0 20;
        let protocol = h ! 9;
        let ipoptlen = (of_int ((uint (h ! 0 AND 0x0F) - 5) * 4) :: u8);
        let payload = 20 + unat ipoptlen;
        if le16 (h ! 6) (h ! 7) AND 0x2000 \<noteq> 0 then Some Drop
        else if unat (be16 (h ! 2) (h ! 3)) \<noteq> len then Some Drop
        else if cfg_loglevel_below_warn cfg \<and> calc_checksum 0 h = 0 then Some Drop
        else Some (Pass (protocol, payload))
      })"

text \<open>
  The walk over the extension headers. The offset is 16 bits wide; \<open>None\<close> is a read behind the
  buffer.
\<close>

partial_function (option) ip6_skip :: "bytes \<Rightarrow> u16 \<Rightarrow> u8 \<Rightarrow> (u8 \<times> u16) option" where
  "ip6_skip pkt off protocol =
     do {
       nxt \<leftarrow> rd8 pkt (unat off);
       if is_lower_layer nxt \<and> \<not> is_upper_layer protocol then do {
         n \<leftarrow> rd8 pkt (unat off + 1);
         ip6_skip pkt (off + (8 + ucast n)) nxt
       }
       else Some (protocol, off)
     }"

declare ip6_skip.simps [code]

definition ip6_header :: "bytes \<Rightarrow> nat \<Rightarrow> (u8 \<times> nat) verdict option" where
  "ip6_header pkt len =
     (if len < 40 then Some Drop
      else do {
        nxt \<leftarrow> rd8 pkt 6;
        if is_upper_layer nxt then Some (Pass (nxt, 40))
        else do {
          (protocol, off) \<leftarrow> ip6_skip pkt 40 nxt;
          if is_upper_layer protocol then Some (Pass (protocol, 40 + unat off))
          else Some (Pass (nxt, 40))
        }
      })"

definition ip_header :: "config \<Rightarrow> bytes \<Rightarrow> nat \<Rightarrow> (u8 \<times> nat) verdict option" where
  "ip_header cfg pkt len =
     (if pkt_version pkt = 4 then ip4_header cfg pkt len
      else if pkt_version pkt = 6 then ip6_header pkt len
      else Some Drop)"

section \<open>Ports and flags\<close>

record ip_info =
  ii_sport :: u16
  ii_dport :: u16
  ii_syn :: bool
  ii_flags :: string
  ii_data :: packet_data
  ii_payload :: "(nat \<times> u16) option"

text \<open>\<open>length - (payload - pkt)\<close> is an unsigned difference.\<close>

definition ip_rest :: "nat \<Rightarrow> nat \<Rightarrow> u64" where
  "ip_rest len off = of_nat len - of_nat off"

definition ip_flags :: "tcphdr \<Rightarrow> string" where
  "ip_flags h =
     (if th_syn h then ''S'' else []) @ (if th_ack h then ''A'' else []) @ (if th_psh h then ''P'' else [])
       @ (if th_fin h then ''F'' else []) @ (if th_rst h then ''R'' else [])"

definition icmp_info :: "bytes \<Rightarrow> nat \<Rightarrow> nat \<Rightarrow> ip_info verdict option" where
  "icmp_info pkt len payload =
     (if ip_rest len payload < 8 then Some Drop
      else do {
        type \<leftarrow> rd8 pkt payload;
        code \<leftarrow> rd8 pkt (payload + 1);
        ident \<leftarrow> rd16 pkt (payload + 4);
        Some (Pass \<lparr>ii_sport = ntohs ident, ii_dport = ntohs ident, ii_syn = False, ii_flags = [],
                    ii_data = Icmp_Data type code, ii_payload = None\<rparr>)
      })"

definition udp_info :: "bytes \<Rightarrow> nat \<Rightarrow> nat \<Rightarrow> ip_info verdict option" where
  "udp_info pkt len payload =
     (if ip_rest len payload < 8 then Some Drop
      else do {
        h \<leftarrow> read_udphdr pkt payload;
        Some (Pass \<lparr>ii_sport = ntohs (uh_source h), ii_dport = ntohs (uh_dest h), ii_syn = False, ii_flags = [],
                    ii_data = No_Data, ii_payload = Some (payload + 8, ucast (ip_rest len (payload + 8)))\<rparr>)
      })"

definition tcp_info :: "bytes \<Rightarrow> nat \<Rightarrow> nat \<Rightarrow> ip_info verdict option" where
  "tcp_info pkt len payload =
     (if ip_rest len payload < 20 then Some Drop
      else do {
        h \<leftarrow> read_tcphdr pkt payload;
        let off = tcp_data_off h payload;
        Some (Pass \<lparr>ii_sport = ntohs (th_source h), ii_dport = ntohs (th_dest h), ii_syn = th_syn h,
                    ii_flags = ip_flags h, ii_data = No_Data, ii_payload = Some (off, ucast (ip_rest len off))\<rparr>)
      })"

definition other_info :: ip_info where
  "other_info = \<lparr>ii_sport = 0, ii_dport = 0, ii_syn = False, ii_flags = [], ii_data = No_Data, ii_payload = None\<rparr>"

definition is_icmp :: "u8 \<Rightarrow> bool" where
  "is_icmp protocol \<longleftrightarrow> protocol = IPPROTO_ICMP \<or> protocol = IPPROTO_ICMPV6"

definition ip_ports :: "bytes \<Rightarrow> nat \<Rightarrow> u8 \<Rightarrow> nat \<Rightarrow> ip_info verdict option" where
  "ip_ports pkt len protocol payload =
     (if is_icmp protocol then icmp_info pkt len payload
      else if protocol = IPPROTO_UDP then udp_info pkt len payload
      else if protocol = IPPROTO_TCP then tcp_info pkt len payload
      else Some (Pass other_info))"

section \<open>The decision\<close>

text \<open>Does the packet open a session, as far as \<open>handle_ip\<close> can tell?\<close>

definition ip_opens :: "u8 \<Rightarrow> ip_info \<Rightarrow> bool \<Rightarrow> bool" where
  "ip_opens protocol i known \<longleftrightarrow>
     is_icmp protocol \<or> protocol = IPPROTO_UDP \<and> \<not> known \<or> protocol = IPPROTO_TCP \<and> ii_syn i"

definition ip_uid :: "os \<Rightarrow> config \<Rightarrow> bytes \<Rightarrow> u8 \<Rightarrow> ip_info \<Rightarrow> bool \<Rightarrow> uid_entry list \<Rightarrow> world \<Rightarrow>
    int \<times> uid_entry list \<times> world" where
  "ip_uid os cfg pkt protocol i known cache w =
     (if ip_opens protocol i known then
        if cfg_sdk cfg \<le> 28
        then get_uid os (pkt_version pkt) protocol (pkt_saddr pkt) (ii_sport i) (pkt_daddr pkt) (ii_dport i) cache w
        else
          let (uid, w) = get_uid_q os (pkt_version pkt) protocol (pkt_saddr pkt) (ii_sport i)
                           (pkt_daddr pkt) (ii_dport i) w
          in (uid, cache, w)
      else (-1, cache, w))"

definition ip_packet_payload :: "bytes \<Rightarrow> ip_info \<Rightarrow> bytes option option" where
  "ip_packet_payload pkt i = (case ii_payload i of
       None \<Rightarrow> Some None
     | Some (off, n) \<Rightarrow>
         if n \<ge> get_mtu \<or> n = 0 then Some None
         else map_option Some (rd_bytes pkt off (unat n)))"

definition ip_allowed :: "os \<Rightarrow> bytes \<Rightarrow> u8 \<Rightarrow> ip_info \<Rightarrow> bool \<Rightarrow> int \<Rightarrow> world \<Rightarrow>
    (bool \<times> allowed option \<times> world) option" where
  "ip_allowed os pkt protocol i known uid w =
     (if protocol = IPPROTO_UDP \<and> known then Some (True, None, w)
      else if protocol = IPPROTO_TCP \<and> (\<not> ii_syn i \<or> uid = 0 \<and> ii_dport i = 53) then Some (True, None, w)
      else do {
        payload \<leftarrow> ip_packet_payload pkt i;
        let p = create_packet os w (pkt_version pkt) protocol (ii_flags i) (pkt_saddr pkt) (ii_sport i)
                  (pkt_daddr pkt) (ii_dport i) (ii_data i) uid payload False;
        let (redirect, w) = is_address_allowed os p w;
        Some (redirect \<noteq> None,
              case redirect of
                Some r \<Rightarrow> if raddr r = [] \<or> rport r = 0 then None else Some r
              | None \<Rightarrow> None, w)
      })"

definition ip_dispatch :: "os \<Rightarrow> config \<Rightarrow> ng_context \<Rightarrow> bytes \<Rightarrow> nat \<Rightarrow> u8 \<Rightarrow> nat \<Rightarrow> int \<Rightarrow> bool \<Rightarrow>
    allowed option \<Rightarrow> world \<Rightarrow> (ng_context \<times> world) option" where
  "ip_dispatch os cfg ctx pkt len protocol payload uid allowed redirect w =
     (if allowed then
        if is_icmp protocol then map_option snd (handle_icmp os cfg ctx pkt len payload uid w)
        else if protocol = IPPROTO_UDP then map_option snd (handle_udp os cfg ctx pkt len payload uid redirect w)
        else if protocol = IPPROTO_TCP
        then map_option snd (handle_tcp os cfg ctx pkt len payload uid allowed redirect w)
        else Some (ctx, w)
      else if protocol = IPPROTO_UDP then do {
        h \<leftarrow> read_udphdr pkt payload;
        Some (block_udp os ctx pkt h uid w)
      }
      else Some (ctx, w))"

definition ip_known :: "config \<Rightarrow> ng_context \<Rightarrow> bytes \<Rightarrow> u8 \<Rightarrow> nat \<Rightarrow> bool option" where
  "ip_known cfg ctx pkt protocol payload =
     (if protocol = IPPROTO_UDP then map_option (has_udp_session cfg ctx pkt) (read_udphdr pkt payload)
      else Some False)"

definition ip_process :: "os \<Rightarrow> config \<Rightarrow> int \<Rightarrow> int \<Rightarrow> ng_context \<Rightarrow> uid_entry list \<Rightarrow> bytes \<Rightarrow> nat \<Rightarrow> u8 \<Rightarrow> nat \<Rightarrow>
    ip_info \<Rightarrow> world \<Rightarrow> (ng_context \<times> uid_entry list \<times> world) option" where
  "ip_process os cfg sessions maxsessions ctx cache pkt len protocol payload i w =
     do {
       known \<leftarrow> ip_known cfg ctx pkt protocol payload;
       if sessions \<ge> maxsessions \<and> ip_opens protocol i known then Some (ctx, cache, w)
       else do {
         let (uid, cache, w) = ip_uid os cfg pkt protocol i known cache w;
         (allowed, redirect, w) \<leftarrow> ip_allowed os pkt protocol i known uid w;
         (ctx, w) \<leftarrow> ip_dispatch os cfg ctx pkt len protocol payload uid allowed redirect w;
         Some (ctx, cache, w)
       }
     }"

definition handle_ip :: "os \<Rightarrow> config \<Rightarrow> int \<Rightarrow> int \<Rightarrow> ng_context \<Rightarrow> uid_entry list \<Rightarrow> bytes \<Rightarrow> nat \<Rightarrow> world \<Rightarrow>
    (ng_context \<times> uid_entry list \<times> world) option" where
  "handle_ip os cfg sessions maxsessions ctx cache pkt len w =
     do {
       r \<leftarrow> ip_header cfg pkt len;
       case r of
         Drop \<Rightarrow> Some (ctx, cache, w)
       | Pass (protocol, payload) \<Rightarrow> do {
           i \<leftarrow> ip_ports pkt len protocol payload;
           case i of
             Drop \<Rightarrow> Some (ctx, cache, w)
           | Pass i \<Rightarrow> ip_process os cfg sessions maxsessions ctx cache pkt len protocol payload i w
         }
     }"

section \<open>Reading from the tun device\<close>

text \<open>The first component says whether the engine has to stop with an error.\<close>

definition check_tun :: "os \<Rightarrow> config \<Rightarrow> epoll_events \<Rightarrow> int \<Rightarrow> int \<Rightarrow> ng_context \<Rightarrow> uid_entry list \<Rightarrow> world \<Rightarrow>
    (bool \<times> ng_context \<times> uid_entry list \<times> world) option" where
  "check_tun os cfg ev sessions maxsessions ctx cache w =
     (if ep_err ev then Some (True, ctx, cache, emit Report_Exit w)
      else if ep_in ev then
        let buffer = os_heap os (trace w) (unat get_mtu);
            r = os_read_tun os (trace w);
            w = emit Read_Tun w in
        case r of
          Recv_Error errno \<Rightarrow>
            if errno = EINTR \<or> errno = EAGAIN then Some (False, ctx, cache, w)
            else Some (True, ctx, cache, emit Report_Exit w)
        | Recv_Data data \<Rightarrow>
            if data = [] then Some (True, ctx, cache, emit Report_Exit w)
            else
              map_option (Pair False)
                (handle_ip os cfg sessions maxsessions ctx cache (data @ drop (length data) buffer) (length data) w)
      else Some (False, ctx, cache, w))"

section \<open>The invariant\<close>

lemma block_udp_grows: "ctx_ok ctx \<Longrightarrow> block_udp os ctx pkt h uid w = (ctx', w') \<Longrightarrow> grows ctx ctx'"
  by (auto simp: block_udp_def Let_def new_udp_def udp_ok_def split: prod.splits intro!: grows_push)

lemma ip_dispatch_grows:
  assumes "ip_dispatch os cfg ctx pkt len protocol payload uid allowed redirect w = Some (ctx', w')" "ctx_ok ctx"
  shows "grows ctx ctx'"
  using assms
  by (auto simp: ip_dispatch_def bind_eq_Some_conv split: if_splits
      dest: handle_icmp_grows [OF assms(2)] handle_udp_grows [OF assms(2)] handle_tcp_grows [OF _ assms(2)]
        block_udp_grows [OF assms(2)])

lemma ip_process_grows:
  assumes "ip_process os cfg sessions maxsessions ctx cache pkt len protocol payload i w = Some (ctx', cache', w')"
    "ctx_ok ctx"
  shows "grows ctx ctx'"
  using assms by (auto simp: ip_process_def bind_eq_Some_conv Let_def split: if_splits prod.splits dest: ip_dispatch_grows)

lemma handle_ip_cases:
  assumes "handle_ip os cfg sessions maxsessions ctx cache pkt len w = Some (ctx', cache', w')"
  obtains (drop) "ctx' = ctx" "cache' = cache" "w' = w"
  | (process) protocol payload i where "ip_header cfg pkt len = Some (Pass (protocol, payload))"
      "ip_ports pkt len protocol payload = Some (Pass i)"
      "ip_process os cfg sessions maxsessions ctx cache pkt len protocol payload i w = Some (ctx', cache', w')"
proof -
  obtain h where h: "ip_header cfg pkt len = Some h" using assms by (auto simp: handle_ip_def bind_eq_Some_conv)
  show thesis
  proof (cases h)
    case Drop
    with assms h show thesis by (intro drop) (simp_all add: handle_ip_def)
  next
    case (Pass q)
    obtain protocol payload where q: "q = (protocol, payload)" by (cases q)
    obtain v where v: "ip_ports pkt len protocol payload = Some v"
      using assms h Pass q by (auto simp: handle_ip_def bind_eq_Some_conv)
    show thesis
      by (cases v) (use assms h Pass q v in \<open>auto simp: handle_ip_def intro: drop process\<close>)
  qed
qed

lemma handle_ip_grows:
  assumes "handle_ip os cfg sessions maxsessions ctx cache pkt len w = Some (ctx', cache', w')" "ctx_ok ctx"
  shows "grows ctx ctx'"
  using assms by (cases rule: handle_ip_cases) (auto dest: ip_process_grows)

lemma check_tun_grows:
  assumes "check_tun os cfg ev sessions maxsessions ctx cache w = Some (err, ctx', cache', w')" "ctx_ok ctx"
  shows "grows ctx ctx'"
  using assms
  by (auto simp: check_tun_def Let_def split: if_splits recv_result.splits dest: handle_ip_grows)

section \<open>The limit on sessions\<close>

definition nodes :: "ng_context \<Rightarrow> nat list" where
  "nodes ctx = map ng_ptr (ctx_sessions ctx)"

lemma nodes_put [simp]: "nodes (put_session s ctx) = nodes ctx"
  unfolding nodes_def put_session_def by (simp, rule map_update_first) simp

lemma handle_udp_nodes:
  assumes "handle_udp os cfg ctx pkt len payload uid redirect w = Some (r, ctx', w')"
    and "read_udphdr pkt payload = Some h" "find (udp_match pkt h) (ctx_sessions ctx) \<noteq> None"
  shows "nodes ctx' = nodes ctx"
proof -
  from assms(3) obtain s where s: "find (udp_match pkt h) (ctx_sessions ctx) = Some s" by blast
  then obtain u where "s = Udp u" using find_in_set [OF s] by (cases s) auto
  with assms(1,2) s show ?thesis
    by (auto simp: handle_udp_def bind_eq_Some_conv Let_def case_prod_unfold split: if_splits option.splits)
qed

lemma handle_tcp_nodes:
  assumes "handle_tcp os cfg ctx pkt len payload uid allowed redirect w = Some (r, ctx', w')"
    and "read_tcphdr pkt payload = Some h" "\<not> th_syn h"
  shows "nodes ctx' = nodes ctx"
  using assms
  by (auto simp: handle_tcp_def bind_eq_Some_conv Let_def split: if_splits option.splits ng_session.splits)



section \<open>Blocked packets\<close>

text \<open>Looking at the clock, finding the owner and asking the Java service.\<close>

definition quiet_event :: "event \<Rightarrow> bool" where
  "quiet_event e \<longleftrightarrow> (case e of
     Time t \<Rightarrow> True | Open_Proc f \<Rightarrow> True | Get_Uid_Q v p s sp d dp \<Rightarrow> True | Is_Address_Allowed p \<Rightarrow> True
   | _ \<Rightarrow> False)"

lemma quiet_event_simps [simp]:
  "quiet_event (Time t)" "quiet_event (Open_Proc f)" "quiet_event (Get_Uid_Q v p sa sp d dp)"
  "quiet_event (Is_Address_Allowed j)"
  by (simp_all add: quiet_event_def)

lemma get_uid_sub_quiet:
  "get_uid_sub os version protocol saddr sport daddr dport now cache w = (uid, cache', w') \<Longrightarrow>
   extends quiet_event w w'"
  by (auto simp: get_uid_sub_def Let_def frame split: option.splits prod.splits)

lemma ip_uid_quiet:
  assumes "ip_uid os cfg pkt protocol i known cache w = (uid, cache', w')"
  shows "extends quiet_event w w'"
proof -
  have u: "extends quiet_event v v'" if "get_uid os version protocol saddr sport daddr dport c v = (u, c', v')"
    for version saddr sport daddr dport c v u c' v'
    using that
    by (auto simp: get_uid_def Let_def split: if_splits prod.splits dest!: get_uid_sub_quiet intro: extends_trans)
  show ?thesis
    using assms by (auto simp: ip_uid_def get_uid_q_def frame split: if_splits dest!: u)
qed


definition os_deny :: os where
  "os_deny = os_ok\<lparr>os_address_allowed := \<lambda>_ _. None\<rparr>"

definition cfg_q :: config where
  "cfg_q = cfg_plain\<lparr>cfg_sdk := 29\<rparr>"


section \<open>Two checks that never work\<close>

text \<open>An extension header only leads on to another lower layer.\<close>

lemma ip6_skip_lower:
  assumes "ip6_skip pkt off protocol = Some (p, off')"
  shows "\<not> is_upper_layer protocol \<longrightarrow> \<not> is_upper_layer p"
proof (rule ip6_skip.raw_induct [OF _ assms,
    where P = "\<lambda>pkt off protocol r. \<not> is_upper_layer protocol \<longrightarrow> \<not> is_upper_layer (fst r)", simplified fst_conv],
    goal_cases)
  case (1 skip pkt off protocol r)
  have l: "\<not> is_upper_layer n" if "is_lower_layer n" for n
    using that by (auto simp: is_lower_layer_def is_upper_layer_def)
  obtain nxt where n: "rd8 pkt (unat off) = Some nxt" using 1(2) by (auto simp: bind_eq_Some_conv)
  show ?case
  proof (cases "is_lower_layer nxt \<and> \<not> is_upper_layer protocol")
    case True
    then obtain k :: u8 where "skip pkt (off + (8 + ucast k)) nxt = Some r" using 1(2) n by (auto simp: bind_eq_Some_conv)
    from 1(1) [OF this] l True show ?thesis by simp
  next
    case False
    with 1(2) n show ?thesis by auto
  qed
qed

lemma ip6_extension:
  assumes "ip6_header pkt len = Some (Pass (protocol, payload))" "rd8 pkt 6 = Some nxt" "\<not> is_upper_layer nxt"
  shows "protocol = nxt \<and> payload = 40"
  using assms by (auto simp: ip6_header_def bind_eq_Some_conv split: if_splits dest: ip6_skip_lower)

text \<open>
  An IPv6 packet that begins with an extension header never reaches a protocol handler, although
  the code walks over the headers to find the protocol: the sessions are untouched and nothing but the
  question to the service happens, whatever the answer.
\<close>

lemma ipv6_extension_ignored:
  assumes r: "handle_ip os cfg sessions maxsessions ctx cache pkt len w = Some (ctx', cache', w')"
    and v: "pkt_version pkt = 6" "rd8 pkt 6 = Some nxt" "\<not> is_upper_layer nxt"
  shows "ctx' = ctx \<and> extends quiet_event w w'"
  using r
proof (cases rule: handle_ip_cases)
  case (process protocol payload i)
  from process(1) v ip6_extension [of pkt len protocol payload nxt] have p: "\<not> is_upper_layer protocol"
    by (auto simp: ip_header_def)
  then have n: "\<not> is_icmp protocol" "protocol \<noteq> IPPROTO_UDP" "protocol \<noteq> IPPROTO_TCP"
    by (auto simp: is_upper_layer_def is_icmp_def)
  with process(3) show ?thesis
    by (auto simp: ip_process_def ip_known_def ip_opens_def ip_uid_def ip_allowed_def ip_dispatch_def
        is_address_allowed_def Let_def bind_eq_Some_conv frame split: if_splits)
qed simp

text \<open>
  The verification of the IPv4 header checksum never rejects a packet: it tests for the sum zero,
  which no IPv4 header has. Turning the test on makes no difference, however wrong the checksum is.
\<close>

lemma ip4_checksum_unchecked:
  assumes "pkt_version pkt = 4"
  shows "ip4_header (cfg\<lparr>cfg_loglevel_below_warn := True\<rparr>) pkt len
    = ip4_header (cfg\<lparr>cfg_loglevel_below_warn := False\<rparr>) pkt len"
proof -
  have "calc_checksum 0 h \<noteq> 0" if h: "rd_bytes pkt 0 20 = Some h" for h
  proof -
    from h have l: "length h = 20" "h = take 20 pkt" by (auto simp: rd_bytes_def split: if_splits)
    have "\<exists>a b r. h = a # b # r" using l(1) by (auto simp: length_Suc_conv eval_nat_numeral)
    then obtain a b r where abr: "h = a # b # r" by blast
    with l(2) have "a = pkt ! 0" by (metis nth_Cons_0 nth_take zero_less_numeral)
    with assms have "a \<noteq> 0" by (auto simp: pkt_version_def)
    then have "0 < wsum h" by (simp add: abr unat_le16 unat_gt_0)
    then have "unat (calc_checksum 0 h) \<noteq> 0" by (simp add: unat_calc_checksum l(1))
    then show ?thesis by auto
  qed
  then show ?thesis
    by (cases "rd_bytes pkt 0 20") (auto simp: ip4_header_def simp del: rd_bytes_eq_None)
qed

end
