(* ===== verification/Session.thy ===== *)
theory Session
  imports Ip
begin

text \<open>
  The event loop, \<open>netguard/session.c\<close>: clearing the sessions, terminating those that are not allowed
  any more, counting and monitoring them, checking their timeouts and removing the dead ones, waiting
  for events and giving each to its handler. The loop as a whole is a partial function, since it runs
  until it is told to stop.
\<close>

section \<open>Clearing\<close>

fun clear_sessions :: "ng_session list \<Rightarrow> world \<Rightarrow> world" where
  "clear_sessions [] w = w"
| "clear_sessions (s # ss) w =
     clear_sessions ss (if ng_socket s \<ge> 0 then emit (Close (ng_socket s)) w else w)"

definition clear :: "ng_context \<Rightarrow> world \<Rightarrow> ng_context \<times> world" where
  "clear ctx w = (ctx\<lparr>ctx_sessions := []\<rparr>, clear_sessions (ctx_sessions ctx) w)"

section \<open>The limit\<close>

definition max_sessions :: "u64 option \<Rightarrow> int" where
  "max_sessions rlim = (case rlim of
       None \<Rightarrow> SESSION_MAX
     | Some cur \<Rightarrow>
         let m = sint (ucast (cur * of_int SESSION_LIMIT div 100) :: 32 word)
         in if m > SESSION_MAX then SESSION_MAX else m)"

section \<open>Sessions that are not allowed any more\<close>

definition session_packet :: "os \<Rightarrow> world \<Rightarrow> ng_session \<Rightarrow> jpacket" where
  "session_packet os w s = (case s of
       Icmp i \<Rightarrow> create_packet os w (icmp_version i) IPPROTO_ICMP [] (icmp_saddr i) 0 (icmp_daddr i) 0
                  No_Data (icmp_uid i) None False
     | Udp u \<Rightarrow> create_packet os w (udp_version u) IPPROTO_UDP [] (udp_saddr u) (ntohs (udp_source u))
                  (udp_daddr u) (ntohs (udp_dest u)) No_Data (udp_uid u) None False
     | Tcp t \<Rightarrow> create_packet os w (tcp_version t) IPPROTO_TCP [] (tcp_saddr t) (ntohs (tcp_source t))
                  (tcp_daddr t) (ntohs (tcp_dest t)) No_Data (tcp_uid t) None False)"

fun is_active :: "ng_session \<Rightarrow> bool" where
  "is_active (Icmp i) \<longleftrightarrow> \<not> icmp_stop i"
| "is_active (Udp u) \<longleftrightarrow> udp_state u = UDP_ACTIVE"
| "is_active (Tcp t) \<longleftrightarrow> \<not> tcp_closed t"

fun terminate_session :: "os \<Rightarrow> config \<Rightarrow> ng_session \<Rightarrow> world \<Rightarrow> ng_session \<times> world" where
  "terminate_session os cfg (Icmp i) w = (Icmp (i\<lparr>icmp_stop := True\<rparr>), w)"
| "terminate_session os cfg (Udp u) w = (Udp (u\<lparr>udp_state := UDP_FINISHING\<rparr>), w)"
| "terminate_session os cfg (Tcp t) w = (let (t, w) = write_rst os cfg t w in (Tcp t, w))"

fun is_blocked :: "ng_session \<Rightarrow> bool" where
  "is_blocked (Udp u) \<longleftrightarrow> udp_state u = UDP_BLOCKED"
| "is_blocked _ \<longleftrightarrow> False"

fun allowed_pass :: "os \<Rightarrow> config \<Rightarrow> ng_session list \<Rightarrow> world \<Rightarrow> ng_session list \<times> world" where
  "allowed_pass os cfg [] w = ([], w)"
| "allowed_pass os cfg (s # ss) w =
     (if is_active s then
        let (r, w) = is_address_allowed os (session_packet os w s) w;
            (s, w) = (if r = None then terminate_session os cfg s w else (s, w));
            (ss, w) = allowed_pass os cfg ss w
        in (s # ss, w)
      else if is_blocked s then allowed_pass os cfg ss w
      else let (ss, w) = allowed_pass os cfg ss w in (s # ss, w))"

definition check_allowed :: "os \<Rightarrow> config \<Rightarrow> ng_context \<Rightarrow> world \<Rightarrow> ng_context \<times> world" where
  "check_allowed os cfg ctx w =
     (let (ss, w) = allowed_pass os cfg (ctx_sessions ctx) w in (ctx\<lparr>ctx_sessions := ss\<rparr>, w))"

section \<open>Counting and monitoring\<close>

fun monitor_pass :: "os \<Rightarrow> config \<Rightarrow> ng_session list \<Rightarrow> world \<Rightarrow> int \<times> bool \<times> ng_session list \<times> world" where
  "monitor_pass os cfg [] w = (0, False, [], w)"
| "monitor_pass os cfg (s # ss) w =
     (let (r, s', w) = (case s of
          Tcp t \<Rightarrow> if tcp_socket t \<ge> 0
                  then let (r, t, w) = monitor_tcp_session os cfg t w in (r, Tcp t, w)
                  else (False, s, w)
        | _ \<Rightarrow> (False, s, w));
          (n, recheck, ss, w) = monitor_pass os cfg ss w
      in (n + (if is_active s then 1 else 0), r \<or> recheck, s' # ss, w))"

section \<open>Checking\<close>

fun check_session :: "os \<Rightarrow> config \<Rightarrow> int \<Rightarrow> int \<Rightarrow> ng_session \<Rightarrow> world \<Rightarrow> bool \<times> ng_session \<times> world" where
  "check_session os cfg sessions maxsessions (Icmp i) w =
     (let (del, i, w) = check_icmp_session os sessions maxsessions i w in (del, Icmp i, w))"
| "check_session os cfg sessions maxsessions (Udp u) w =
     (let (del, u, w) = check_udp_session os sessions maxsessions u w in (del, Udp u, w))"
| "check_session os cfg sessions maxsessions (Tcp t) w =
     (let (del, t, w) = check_tcp_session os cfg sessions maxsessions t w in (del, Tcp t, w))"

fun session_timeout :: "int \<Rightarrow> int \<Rightarrow> ng_session \<Rightarrow> int" where
  "session_timeout sessions maxsessions (Icmp i) = icmp_time i + get_icmp_timeout i sessions maxsessions"
| "session_timeout sessions maxsessions (Udp u) = udp_time u + get_udp_timeout u sessions maxsessions"
| "session_timeout sessions maxsessions (Tcp t) = tcp_time t + get_tcp_timeout t sessions maxsessions"

definition shorter :: "int \<Rightarrow> int \<Rightarrow> int \<Rightarrow> int \<Rightarrow> ng_session \<Rightarrow> int" where
  "shorter sessions maxsessions now timeout s =
     (let stimeout = session_timeout sessions maxsessions s - now + 1
      in if is_active s \<and> stimeout > 0 \<and> stimeout < timeout then stimeout else timeout)"

fun check_pass :: "os \<Rightarrow> config \<Rightarrow> int \<Rightarrow> int \<Rightarrow> int \<Rightarrow> ng_session list \<Rightarrow> int \<Rightarrow> world \<Rightarrow>
    ng_session list \<times> int \<times> world" where
  "check_pass os cfg sessions maxsessions now [] timeout w = ([], timeout, w)"
| "check_pass os cfg sessions maxsessions now (s # ss) timeout w =
     (let (del, s, w) = check_session os cfg sessions maxsessions s w;
          timeout = (if del then timeout else shorter sessions maxsessions now timeout s);
          (ss, timeout, w) = check_pass os cfg sessions maxsessions now ss timeout w
      in (if del then ss else s # ss, timeout, w))"

section \<open>Events\<close>

definition stopping :: "os \<Rightarrow> ng_context \<Rightarrow> world \<Rightarrow> bool" where
  "stopping os ctx w \<longleftrightarrow> ctx_stopping ctx \<or> os_stop os (trace w)"

definition is_readable :: "os \<Rightarrow> int \<Rightarrow> world \<Rightarrow> bool \<times> world" where
  "is_readable os fd w = (os_readable os (trace w) fd, emit (Readable fd) w)"

fun tun_packets_in :: "os \<Rightarrow> config \<Rightarrow> int \<Rightarrow> epoll_events \<Rightarrow> int \<Rightarrow> int \<Rightarrow> nat \<Rightarrow> ng_context \<Rightarrow> uid_entry list \<Rightarrow>
    world \<Rightarrow> (bool \<times> ng_context \<times> uid_entry list \<times> world) option" where
  "tun_packets_in os cfg tun ev sessions maxsessions 0 ctx cache w = Some (False, ctx, cache, w)"
| "tun_packets_in os cfg tun ev sessions maxsessions (Suc n) ctx cache w =
     (if stopping os ctx w then Some (False, ctx, cache, w)
      else
        let (r, w) = is_readable os tun w in
        if \<not> r then Some (False, ctx, cache, w)
        else do {
          (err, ctx, cache, w) \<leftarrow> check_tun os cfg ev sessions maxsessions ctx cache w;
          if err then Some (True, ctx, cache, w)
          else tun_packets_in os cfg tun ev sessions maxsessions n ctx cache w
        })"

fun udp_datagrams_in :: "os \<Rightarrow> config \<Rightarrow> epoll_events \<Rightarrow> ng_context \<Rightarrow> nat \<Rightarrow> udp_session \<Rightarrow> world \<Rightarrow>
    (udp_session \<times> world) option" where
  "udp_datagrams_in os cfg ev ctx 0 u w = Some (u, w)"
| "udp_datagrams_in os cfg ev ctx (Suc n) u w =
     (if stopping os ctx w \<or> ep_err ev \<or> \<not> ep_in ev then Some (u, w)
      else
        let (r, w) = is_readable os (udp_socket u) w in
        if \<not> r then Some (u, w)
        else do {
          (u, w) \<leftarrow> check_udp_socket os cfg ev u w;
          udp_datagrams_in os cfg ev ctx n u w
        })"

text \<open>An event of a session that does not exist any more is an access to freed memory.\<close>

fun handle_ready :: "os \<Rightarrow> config \<Rightarrow> int \<Rightarrow> int \<Rightarrow> int \<Rightarrow> ready \<Rightarrow> ng_context \<Rightarrow> uid_entry list \<Rightarrow> world \<Rightarrow>
    (bool \<times> ng_context \<times> uid_entry list \<times> world) option" where
  "handle_ready os cfg tun sessions maxsessions Ready_Pipe ctx cache w = Some (False, ctx, cache, emit Pipe_Read w)"
| "handle_ready os cfg tun sessions maxsessions (Ready_Tun ev) ctx cache w =
     tun_packets_in os cfg tun ev sessions maxsessions TUN_YIELD ctx cache w"
| "handle_ready os cfg tun sessions maxsessions (Ready_Session ptr ev) ctx cache w =
     (case find (\<lambda>s. ng_ptr s = ptr) (ctx_sessions ctx) of
        None \<Rightarrow> None
      | Some (Icmp i) \<Rightarrow>
          let (i, w) = check_icmp_socket os cfg ev i w in Some (False, put_session (Icmp i) ctx, cache, w)
      | Some (Udp u) \<Rightarrow> do {
          (u, w) \<leftarrow> udp_datagrams_in os cfg ev ctx UDP_YIELD u w;
          Some (False, put_session (Udp u) ctx, cache, w)
        }
      | Some (Tcp t) \<Rightarrow> do {
          (t, w) \<leftarrow> check_tcp_socket os cfg ev t w;
          Some (False, put_session (Tcp t) ctx, cache, w)
        })"

fun handle_all :: "os \<Rightarrow> config \<Rightarrow> int \<Rightarrow> int \<Rightarrow> int \<Rightarrow> ready list \<Rightarrow> ng_context \<Rightarrow> uid_entry list \<Rightarrow> world \<Rightarrow>
    (bool \<times> ng_context \<times> uid_entry list \<times> world) option" where
  "handle_all os cfg tun sessions maxsessions [] ctx cache w = Some (False, ctx, cache, w)"
| "handle_all os cfg tun sessions maxsessions (r # rs) ctx cache w =
     do {
       (err, ctx, cache, w) \<leftarrow> handle_ready os cfg tun sessions maxsessions r ctx cache w;
       if err then Some (True, ctx, cache, w) else handle_all os cfg tun sessions maxsessions rs ctx cache w
     }"

section \<open>The loop\<close>

definition loop_check :: "os \<Rightarrow> config \<Rightarrow> int \<Rightarrow> int \<Rightarrow> int \<Rightarrow> bool \<Rightarrow> ng_session list \<Rightarrow> world \<Rightarrow>
    int \<times> int \<times> ng_session list \<times> world" where
  "loop_check os cfg maxsessions sessions last_check recheck ss w =
     (let (ms, w) = get_ms os w in
      if ms - last_check > EPOLL_MIN_CHECK then
        let (now, w) = sys_time os w;
            (ss, timeout, w) = check_pass os cfg sessions maxsessions now ss EPOLL_TIMEOUT w
        in (ms, if recheck then EPOLL_MIN_CHECK else timeout * 1000, ss, w)
      else (last_check, EPOLL_MIN_CHECK, ss, w))"

text \<open>The part of an iteration before the wait, and the iteration.\<close>

definition loop_prepare :: "os \<Rightarrow> config \<Rightarrow> int \<Rightarrow> int \<Rightarrow> ng_context \<Rightarrow> world \<Rightarrow>
    int \<times> int \<times> int \<times> ng_context \<times> world" where
  "loop_prepare os cfg maxsessions last_check ctx w =
     (let (sessions, recheck, ss, w) = monitor_pass os cfg (ctx_sessions ctx) w;
          (last_check, ms, ss, w) = loop_check os cfg maxsessions sessions last_check recheck ss w
      in (sessions, last_check, ms, ctx\<lparr>ctx_sessions := ss\<rparr>, w))"

definition loop_iteration :: "os \<Rightarrow> config \<Rightarrow> int \<Rightarrow> int \<Rightarrow> int \<Rightarrow> ng_context \<Rightarrow> uid_entry list \<Rightarrow> world \<Rightarrow>
    (bool \<times> int \<times> ng_context \<times> uid_entry list \<times> world) option" where
  "loop_iteration os cfg tun maxsessions last_check ctx cache w =
     (let (sessions, last_check, ms, ctx, w) = loop_prepare os cfg maxsessions last_check ctx w;
          r = os_epoll_wait os (trace w) ms;
          w = emit (Epoll_Wait ms) w in
      case r of
        Wait_Error errno \<Rightarrow>
          if errno = EINTR then Some (True, last_check, ctx, cache, w)
          else Some (False, last_check, ctx, cache, emit Report_Exit w)
      | Wait_Ready rs \<Rightarrow> do {
          (err, ctx, cache, w) \<leftarrow> handle_all os cfg tun sessions maxsessions rs ctx cache w;
          Some (\<not> err, last_check, ctx, cache, w)
        })"

partial_function (option) event_loop :: "os \<Rightarrow> config \<Rightarrow> int \<Rightarrow> int \<Rightarrow> int \<Rightarrow> ng_context \<Rightarrow> uid_entry list \<Rightarrow>
    world \<Rightarrow> (ng_context \<times> uid_entry list \<times> world) option" where
  "event_loop os cfg tun maxsessions last_check ctx cache w =
     (if stopping os ctx w then Some (ctx, cache, w)
      else do {
        (go, last_check, ctx, cache, w) \<leftarrow> loop_iteration os cfg tun maxsessions last_check ctx cache w;
        if go then event_loop os cfg tun maxsessions last_check ctx cache w else Some (ctx, cache, w)
      })"

declare event_loop.simps [code]

text \<open>A failure to set up \<open>epoll\<close> is reported and sets the stop flag.\<close>

definition unless_stop :: "bool \<Rightarrow> ng_context \<Rightarrow> world \<Rightarrow> ng_context \<times> world" where
  "unless_stop ok ctx w = (if ok then (ctx, w) else (ctx\<lparr>ctx_stopping := True\<rparr>, emit Report_Exit w))"

definition loop_setup :: "os \<Rightarrow> int \<Rightarrow> int \<Rightarrow> ng_context \<Rightarrow> world \<Rightarrow> int \<times> ng_context \<times> world" where
  "loop_setup os pipe tun ctx w =
     (let fd = os_epoll_create os (trace w);
          (ctx, w) = unless_stop (fd \<ge> 0) ctx (emit (Epoll_Create fd) w);
          ev = \<lparr>ep_in = True, ep_out = False, ep_err = True\<rparr>;
          (ctx, w) = unless_stop (os_epoll_add os (trace w)) ctx (emit (Epoll_Add pipe ev) w);
          (ctx, w) = unless_stop (os_epoll_add os (trace w)) ctx (emit (Epoll_Add tun ev) w)
      in (fd, ctx, w))"

definition handle_events :: "os \<Rightarrow> config \<Rightarrow> int \<Rightarrow> int \<Rightarrow> ng_context \<Rightarrow> uid_entry list \<Rightarrow> world \<Rightarrow>
    (ng_context \<times> uid_entry list \<times> world) option" where
  "handle_events os cfg pipe tun ctx cache w =
     (let maxsessions = max_sessions (os_rlimit os (trace w));
          (ctx, w) = check_allowed os cfg ctx w;
          (fd, ctx, w) = loop_setup os pipe tun ctx w in
      do {
        (ctx, cache, w) \<leftarrow> event_loop os cfg tun maxsessions 0 ctx cache w;
        Some (ctx, cache, if fd \<ge> 0 then emit (Close fd) w else w)
      })"

end
