(* ===== verification/Session_Props.thy ===== *)
theory Session_Props
  imports Session "HOL-Library.Sublist"
begin

text \<open>
  What the event loop guarantees: the check pass satisfies the contract of \<open>checked_session\<close> and
  \<open>accounted_session\<close> for the union of the three protocols, so sockets are closed exactly once and all
  traffic is reported; the wait never outlasts the next deadline; sessions that are refused are
  terminated; and every step keeps the session list well formed.
\<close>

section \<open>The contract of the check\<close>

fun ng_sent :: "ng_session \<Rightarrow> u64" where
  "ng_sent (Icmp i) = 0"
| "ng_sent (Udp u) = (if udp_state u = UDP_BLOCKED then 0 else udp_sent u)"
| "ng_sent (Tcp t) = tcp_sent t"

fun ng_received :: "ng_session \<Rightarrow> u64" where
  "ng_received (Icmp i) = 0"
| "ng_received (Udp u) = (if udp_state u = UDP_BLOCKED then 0 else udp_received u)"
| "ng_received (Tcp t) = tcp_received t"

lemma check_icmp_reports:
  "check_icmp_session os sessions maxsessions i w = (del, i', w') \<Longrightarrow>
   rep_sent (trace w') = rep_sent (trace w) \<and> rep_received (trace w') = rep_received (trace w)"
  by (auto simp: check_icmp_session_def sys_time_def Let_def split: if_splits)

lemma check_session_cases:
  assumes "check_session os cfg sessions maxsessions s w = (del, s', w')"
  obtains (icmp) i i' where "s = Icmp i" "s' = Icmp i'" "check_icmp_session os sessions maxsessions i w = (del, i', w')"
  | (udp) u u' where "s = Udp u" "s' = Udp u'" "check_udp_session os sessions maxsessions u w = (del, u', w')"
  | (tcp) t t' where "s = Tcp t" "s' = Tcp t'" "check_tcp_session os cfg sessions maxsessions t w = (del, t', w')"
proof (cases s)
  case (Icmp i)
  obtain d i' v where c: "check_icmp_session os sessions maxsessions i w = (d, i', v)"
    by (cases "check_icmp_session os sessions maxsessions i w") auto
  with assms Icmp show ?thesis by (intro icmp [of i i']) auto
next
  case (Udp u)
  obtain d u' v where c: "check_udp_session os sessions maxsessions u w = (d, u', v)"
    by (cases "check_udp_session os sessions maxsessions u w") auto
  with assms Udp show ?thesis by (intro udp [of u u']) auto
next
  case (Tcp t)
  obtain d t' v where c: "check_tcp_session os cfg sessions maxsessions t w = (d, t', v)"
    by (cases "check_tcp_session os cfg sessions maxsessions t w") auto
  with assms Tcp show ?thesis by (intro tcp [of t t']) auto
qed

interpretation ng: accounted_session "check_session os cfg sessions maxsessions" ng_socket ng_ptr ng_ok
  ng_sent ng_received for os cfg sessions maxsessions
proof (unfold_locales, goal_cases)
  case (1 s w s' w')
  from 1(2) show ?case
    by (cases rule: check_session_cases) (use 1(1) ic.check_ok uc.check_ok tc.check_ok in auto)
next
  case (2 s w del s' w')
  from 2(2) show ?case
    by (cases rule: check_session_cases) (use 2(1) ic.check_ptr uc.check_ptr tc.check_ptr in auto)
next
  case (3 s w s' w')
  from 3(2) show ?case
    by (cases rule: check_session_cases) (use 3(1) ic.check_del uc.check_del tc.check_del in auto)
next
  case (4 s w del s' w')
  from 4(2) show ?case
    by (cases rule: check_session_cases) (use 4(1) ic.check_sock uc.check_sock tc.check_sock in auto)
next
  case (5 s w del s' w')
  from 5(2) show ?case
    by (cases rule: check_session_cases) (use 5(1) uc.check_sent tc.check_sent check_icmp_reports in auto)
next
  case (6 s w del s' w')
  from 6(2) show ?case
    by (cases rule: check_session_cases) (use 6(1) uc.check_received tc.check_received check_icmp_reports in auto)
next
  case (7 s w s' w')
  from 7(2) show ?case
    by (cases rule: check_session_cases) (use 7(1) uc.check_del_sent tc.check_del_sent in auto)
qed

text \<open>The pass is the walk of the locale, with the timeout computed along the way.\<close>

lemma check_pass_all:
  "check_pass os cfg sessions maxsessions now ss timeout w = (ss', timeout', w') \<Longrightarrow>
   ng.check_all os cfg sessions maxsessions ss w = (ss', w')"
proof (induction ss arbitrary: timeout w ss' timeout' w')
  case (Cons s ss)
  obtain del s1 w1 where c: "check_session os cfg sessions maxsessions s w = (del, s1, w1)"
    by (cases "check_session os cfg sessions maxsessions s w") auto
  let ?t = "if del then timeout else shorter sessions maxsessions now timeout s1"
  obtain ss2 t2 w2 where r: "check_pass os cfg sessions maxsessions now ss ?t w1 = (ss2, t2, w2)"
    by (cases "check_pass os cfg sessions maxsessions now ss ?t w1") auto
  from Cons.IH [OF r] Cons.prems c r show ?case by auto
qed simp

section \<open>Sockets and traffic\<close>

definition open_sockets :: "ng_session list \<Rightarrow> int list" where
  "open_sockets ss = filter (\<lambda>s. 0 \<le> s) (map ng_socket ss)"

definition pass_sample :: "ng_session list" where
  "pass_sample = [Tcp (tcp_sample\<lparr>tcp_state := TCP_CLOSING, tcp_sent := 7\<rparr>),
     Udp (udp_sample\<lparr>udp_state := UDP_FINISHING, udp_received := 9\<rparr>), Icmp icmp_sample]"

lemma pass_sample_ok: "\<forall>s\<in>set pass_sample. ng_ok s"
  by (simp add: pass_sample_def tcp_ok_def udp_ok_def icmp_ok_def tcp_sample_def udp_sample_def icmp_sample_def)

text \<open>
  C12: a check pass over well-formed sessions loses no socket and closes none twice: the sockets still
  open in the sessions it keeps together with those it closed are exactly the ones that were open, and
  every session it keeps is well formed again.
\<close>

theorem check_pass_sockets:
  assumes "\<forall>s\<in>set ss. ng_ok s" "check_pass os cfg sessions maxsessions now ss timeout w = (ss', timeout', w')"
  shows "(\<forall>s\<in>set ss'. ng_ok s) \<and> (\<exists>cl. closes (trace w') = cl @ closes (trace w) \<and>
    mset cl + mset (open_sockets ss') = mset (open_sockets ss))"
  using ng.check_all_ok [OF assms(1) check_pass_all [OF assms(2)]]
    ng.check_all_sockets [OF assms(1) check_pass_all [OF assms(2)]]
  by (simp add: ng.open_socks_def open_sockets_def)

theorem check_pass_sockets_witness:
  "\<exists>ss' timeout' w'. check_pass os_ok cfg_plain 3 409 1000 pass_sample 3600 world0 = (ss', timeout', w') \<and>
     list_all ng_ok ss' \<and> mset (closes (trace w')) + mset (open_sockets ss') = {#5, 6, 8#}"
proof -
  obtain ss' t' w' where c: "check_pass os_ok cfg_plain 3 409 1000 pass_sample 3600 world0 = (ss', t', w')"
    by (cases "check_pass os_ok cfg_plain 3 409 1000 pass_sample 3600 world0") auto
  have "open_sockets pass_sample = [5, 6, 8]"
    by (simp add: open_sockets_def pass_sample_def tcp_sample_def udp_sample_def icmp_sample_def)
  with check_pass_sockets [OF pass_sample_ok c] c show ?thesis by (auto simp: list_all_iff)
qed

text \<open>
  C13: a check pass reports all traffic: the bytes reported so far and the bytes still counted in the
  sessions together stay the same, for what was sent and for what was received, also when sessions are
  removed.
\<close>

theorem check_pass_traffic:
  assumes "\<forall>s\<in>set ss. ng_ok s" "check_pass os cfg sessions maxsessions now ss timeout w = (ss', timeout', w')"
  shows "rep_sent (trace w') + sum_list (map ng_sent ss') = rep_sent (trace w) + sum_list (map ng_sent ss) \<and>
    rep_received (trace w') + sum_list (map ng_received ss') = rep_received (trace w) + sum_list (map ng_received ss)"
  by (rule ng.check_all_traffic [OF assms(1) check_pass_all [OF assms(2)]])

theorem check_pass_traffic_witness:
  "\<exists>ss' timeout' w'. check_pass os_ok cfg_plain 3 409 1000 pass_sample 3600 world0 = (ss', timeout', w') \<and>
     rep_sent (trace w') + sum_list (map ng_sent ss') = 7 \<and>
     rep_received (trace w') + sum_list (map ng_received ss') = 9"
proof -
  obtain ss' t' w' where c: "check_pass os_ok cfg_plain 3 409 1000 pass_sample 3600 world0 = (ss', t', w')"
    by (cases "check_pass os_ok cfg_plain 3 409 1000 pass_sample 3600 world0") auto
  have "sum_list (map ng_sent pass_sample) = 7" "sum_list (map ng_received pass_sample) = 9"
    by (simp_all add: pass_sample_def tcp_sample_def udp_sample_def)
  with check_pass_traffic [OF pass_sample_ok c] c show ?thesis by auto
qed

lemma closes_clear: "closes (trace (clear_sessions ss w)) = rev (open_sockets ss) @ closes (trace w)"
  by (induction ss arbitrary: w) (auto simp: open_sockets_def)

text \<open>
  Clearing empties the session list and closes every open socket exactly once, in the order of the
  list.
\<close>

lemma clear_closes_all:
  "ctx_sessions (fst (clear ctx w)) = [] \<and>
   closes (trace (snd (clear ctx w))) = rev (open_sockets (ctx_sessions ctx)) @ closes (trace w)"
  by (simp add: clear_def closes_clear)

section \<open>Deadlines\<close>

definition covered :: "int \<Rightarrow> int \<Rightarrow> int \<Rightarrow> int \<Rightarrow> ng_session \<Rightarrow> bool" where
  "covered sessions maxsessions now timeout s \<longleftrightarrow>
     (is_active s \<and> now \<le> session_timeout sessions maxsessions s \<longrightarrow>
      timeout \<le> session_timeout sessions maxsessions s - now + 1)"

lemma check_pass_covered:
  assumes "check_pass os cfg sessions maxsessions now ss timeout w = (ss', timeout', w')"
  shows "timeout' \<le> timeout \<and> (1 \<le> timeout \<longrightarrow> 1 \<le> timeout') \<and> (\<forall>s\<in>set ss'. covered sessions maxsessions now timeout' s)"
  using assms
proof (induction ss arbitrary: timeout w ss' timeout' w')
  case (Cons s ss)
  obtain del s1 w1 where c: "check_session os cfg sessions maxsessions s w = (del, s1, w1)"
    by (cases "check_session os cfg sessions maxsessions s w") auto
  let ?t = "if del then timeout else shorter sessions maxsessions now timeout s1"
  obtain ss2 t2 w2 where r: "check_pass os cfg sessions maxsessions now ss ?t w1 = (ss2, t2, w2)"
    by (cases "check_pass os cfg sessions maxsessions now ss ?t w1") auto
  have sh: "shorter sessions maxsessions now timeout s1 \<le> timeout"
    "1 \<le> timeout \<Longrightarrow> 1 \<le> shorter sessions maxsessions now timeout s1"
    "covered sessions maxsessions now (shorter sessions maxsessions now timeout s1) s1"
    by (auto simp: shorter_def Let_def covered_def)
  from Cons.IH [OF r] Cons.prems c r sh show ?case
    by (auto simp: covered_def split: if_splits)
qed simp

text \<open>What a check leaves active has not expired.\<close>

lemma check_session_unexpired:
  assumes "check_session os cfg sessions maxsessions s w = (del, s', w')" "ng_ok s" "is_active s'" "\<not> del"
  shows "os_time os (trace w) \<le> session_timeout sessions maxsessions s'"
  using assms(1)
proof (cases rule: check_session_cases)
  case (icmp i i')
  with assms(3,4) show ?thesis
    by (auto simp: check_icmp_session_def sys_time_def Let_def split: if_splits)
next
  case (udp u u')
  with assms(3,4) show ?thesis
    by (auto simp: check_udp_session_def udp_finish_def udp_account_def sys_time_def Let_def split: if_splits)
next
  case (tcp t t')
  then have ok: "tcp_ok t" using assms(2) by simp
  from tcp(3) ok show ?thesis
  proof (cases rule: check_tcp_session_cases)
    case keep
    with tcp show ?thesis by simp
  qed (use assms(3) tcp in \<open>auto simp: tcp_closed_def\<close>)
qed

lemma check_pass_unexpired:
  assumes "check_pass os cfg sessions maxsessions now ss timeout w = (ss', timeout', w')"
    and "\<forall>s\<in>set ss. ng_ok s" "\<forall>tr. os_time os tr = now"
  shows "\<forall>s\<in>set ss'. is_active s \<longrightarrow> now \<le> session_timeout sessions maxsessions s"
  using assms
proof (induction ss arbitrary: timeout w ss' timeout' w')
  case (Cons s ss)
  obtain del s1 w1 where c: "check_session os cfg sessions maxsessions s w = (del, s1, w1)"
    by (cases "check_session os cfg sessions maxsessions s w") auto
  let ?t = "if del then timeout else shorter sessions maxsessions now timeout s1"
  obtain ss2 t2 w2 where r: "check_pass os cfg sessions maxsessions now ss ?t w1 = (ss2, t2, w2)"
    by (cases "check_pass os cfg sessions maxsessions now ss ?t w1") auto
  have "\<not> del \<Longrightarrow> is_active s1 \<Longrightarrow> now \<le> session_timeout sessions maxsessions s1"
    using check_session_unexpired [OF c] Cons.prems(2,3) by simp
  with Cons.IH [OF r] Cons.prems c r show ?case by (auto split: if_splits)
qed simp



text \<open>
  The more sessions there are, the sooner an idle one expires: within the limit the deadline of a
  session never moves later when the number of sessions grows, and it is never before its last activity.
\<close>

lemma deadline_antimono:
  assumes "0 \<le> n" "n \<le> n'" "n' \<le> m" "0 < m"
  shows "session_timeout n' m s \<le> session_timeout n m s \<and>
    (case s of Icmp i \<Rightarrow> icmp_time i | Udp u \<Rightarrow> udp_time u | Tcp t \<Rightarrow> tcp_time t) \<le> session_timeout n' m s"
proof -
  have "scaled_timeout t n' m \<le> scaled_timeout t n m" "0 \<le> scaled_timeout t n' m" if "0 \<le> t" for t
    using scaled_timeout_antimono [OF that assms] scaled_timeout_range(1) [OF that, of n' m] assms by simp_all
  then show ?thesis
    by (cases s) (simp_all add: get_icmp_timeout_def get_udp_timeout_def get_tcp_timeout_def)
qed

section \<open>Sessions that are refused\<close>

fun ng_daddr :: "ng_session \<Rightarrow> bytes" where
  "ng_daddr (Icmp i) = icmp_daddr i"
| "ng_daddr (Udp u) = udp_daddr u"
| "ng_daddr (Tcp t) = tcp_daddr t"

lemma session_packet_daddr: "jp_daddr (session_packet os w s) = ng_daddr s"
  by (cases s) (simp_all add: session_packet_def create_packet_def)

lemma terminate_session_effect:
  assumes "terminate_session os cfg s w = (s', w')" "is_active s"
  shows "\<not> is_active s' \<and> ng_daddr s' = ng_daddr s \<and> ng_ptr s' = ng_ptr s \<and> (ng_ok s \<longrightarrow> ng_ok s') \<and> \<not> is_blocked s'"
proof (cases s)
  case (Tcp t)
  obtain t' v where r: "write_rst os cfg t w = (t', v)" by fastforce
  from write_rst_session [OF r] tcp_ok_rst [OF r] assms r Tcp show ?thesis
    by (auto simp: tcp_closed_def)
qed (use assms in \<open>auto simp: udp_ok_def icmp_ok_def\<close>)

lemma allowed_pass_denied:
  assumes "allowed_pass os cfg ss w = (ss', w')" "\<forall>tr p. jp_daddr p = d \<longrightarrow> os_address_allowed os tr p = None"
  shows "\<forall>s\<in>set ss'. \<not> is_blocked s \<and> (ng_daddr s = d \<longrightarrow> \<not> is_active s)"
  using assms
proof (induction ss arbitrary: w ss' w')
  case (Cons s ss)
  show ?case
  proof (cases "is_active s")
    case True
    let ?p = "session_packet os w s"
    let ?w = "emit (Is_Address_Allowed ?p) w"
    have nb: "\<not> is_blocked s" using True by (cases s) auto
    obtain s1 w1 where t: "(if os_address_allowed os (trace w) ?p = None then terminate_session os cfg s ?w else (s, ?w)) = (s1, w1)"
      by fastforce
    obtain ss2 w2 where r: "allowed_pass os cfg ss w1 = (ss2, w2)" by fastforce
    have ss': "ss' = s1 # ss2" using Cons.prems(1) True t r by (auto simp: is_address_allowed_def Let_def split: if_splits)
    have "\<not> is_blocked s1 \<and> (ng_daddr s1 = d \<longrightarrow> \<not> is_active s1)"
      using t True nb Cons.prems(2) session_packet_daddr [of os w s] terminate_session_effect [of os cfg s ?w s1 w1]
      by (auto split: if_splits)
    with Cons.IH [OF r Cons.prems(2)] ss' show ?thesis by simp
  next
    case False
    with Cons show ?thesis by (auto split: if_splits prod.splits)
  qed
qed simp

text \<open>
  When the engine starts, every session to a destination the service now refuses is terminated, and
  the flows that were remembered as blocked are forgotten, so that the service is asked again.
\<close>

theorem check_allowed_terminates:
  assumes "check_allowed os cfg ctx w = (ctx', w')" "\<forall>tr p. jp_daddr p = d \<longrightarrow> os_address_allowed os tr p = None"
  shows "\<forall>s\<in>set (ctx_sessions ctx'). \<not> is_blocked s \<and> (ng_daddr s = d \<longrightarrow> \<not> is_active s)"
  using assms allowed_pass_denied [of os cfg "ctx_sessions ctx" w _ _ d]
  by (auto simp: check_allowed_def split: prod.splits)

theorem check_allowed_terminates_witness:
  "\<exists>ctx' w'. check_allowed os_deny cfg_plain \<lparr>ctx_stopping = False, ctx_sessions = [Udp udp_sample], ctx_next = 10\<rparr> world0
      = (ctx', w') \<and> filter (\<lambda>s. ng_daddr s = [8, 8, 8, 8] \<and> is_active s) (ctx_sessions ctx') = []"
proof -
  let ?ctx = "\<lparr>ctx_stopping = False, ctx_sessions = [Udp udp_sample], ctx_next = 10\<rparr>"
  obtain ctx' w' where c: "check_allowed os_deny cfg_plain ?ctx world0 = (ctx', w')" by fastforce
  have "\<forall>tr p. jp_daddr p = [8, 8, 8, 8] \<longrightarrow> os_address_allowed os_deny tr p = None" by (simp add: os_deny_def)
  from check_allowed_terminates [OF c this] c show ?thesis by (auto simp: filter_empty_conv)
qed

section \<open>The invariant of the loop\<close>

text \<open>A pass over the list keeps the addresses of the sessions it keeps, in order.\<close>

lemma check_all_ptrs:
  assumes "ng.check_all os cfg sessions maxsessions ss w = (ss', w')" "\<forall>s\<in>set ss. ng_ok s"
  shows "subseq (map ng_ptr ss') (map ng_ptr ss)"
  using assms
proof (induction ss arbitrary: w ss' w')
  case (Cons s ss)
  obtain del s1 w1 where c: "check_session os cfg sessions maxsessions s w = (del, s1, w1)"
    by (cases "check_session os cfg sessions maxsessions s w") auto
  obtain ss2 w2 where r: "ng.check_all os cfg sessions maxsessions ss w1 = (ss2, w2)" by fastforce
  have "ng_ptr s1 = ng_ptr s" using ng.check_ptr [OF _ c] Cons.prems(2) by simp
  with Cons.IH [OF r] Cons.prems c r show ?case by (auto split: if_splits)
qed simp

lemma allowed_pass_ptrs:
  assumes "allowed_pass os cfg ss w = (ss', w')" "\<forall>s\<in>set ss. ng_ok s"
  shows "subseq (map ng_ptr ss') (map ng_ptr ss) \<and> (\<forall>s\<in>set ss'. ng_ok s)"
  using assms
proof (induction ss arbitrary: w ss' w')
  case (Cons s ss)
  show ?case
  proof (cases "is_active s")
    case True
    let ?p = "session_packet os w s"
    let ?w = "emit (Is_Address_Allowed ?p) w"
    obtain s1 w1 where t: "(if os_address_allowed os (trace w) ?p = None then terminate_session os cfg s ?w else (s, ?w)) = (s1, w1)"
      by fastforce
    obtain ss2 w2 where r: "allowed_pass os cfg ss w1 = (ss2, w2)" by fastforce
    have ss': "ss' = s1 # ss2" using Cons.prems(1) True t r by (auto simp: is_address_allowed_def Let_def split: if_splits)
    have "ng_ptr s1 = ng_ptr s \<and> ng_ok s1"
      using t True Cons.prems(2) terminate_session_effect [of os cfg s ?w s1 w1] by (auto split: if_splits)
    with Cons.IH [OF r] Cons.prems(2) ss' show ?thesis by simp
  next
    case False
    obtain ss2 w2 where r: "allowed_pass os cfg ss w = (ss2, w2)" by fastforce
    then have "ss' = (if is_blocked s then ss2 else s # ss2)" using Cons.prems(1) False by (simp split: if_splits)
    with Cons.IH [OF r] Cons.prems(2) show ?thesis by auto
  qed
qed simp

lemma monitor_pass_ptrs:
  assumes "monitor_pass os cfg ss w = (n, r, ss', w')" "\<forall>s\<in>set ss. ng_ok s"
  shows "map ng_ptr ss' = map ng_ptr ss \<and> (\<forall>s\<in>set ss'. ng_ok s)"
  using assms
proof (induction ss arbitrary: w n r ss' w')
  case (Cons s ss)
  let ?m = "case s of
      Tcp t \<Rightarrow> if tcp_socket t \<ge> 0 then let (r, t, w) = monitor_tcp_session os cfg t w in (r, Tcp t, w)
              else (False, s, w)
    | _ \<Rightarrow> (False, s, w)"
  obtain r1 s1 w1 where m: "?m = (r1, s1, w1)" by (cases ?m) auto
  have "ng_ptr s1 = ng_ptr s \<and> ng_ok s1"
    using m Cons.prems(2) by (cases s) (auto split: if_splits prod.splits dest!: monitor_tcp_session_ok)
  moreover obtain n2 r2 ss2 w2 where p: "monitor_pass os cfg ss w1 = (n2, r2, ss2, w2)"
    by (cases "monitor_pass os cfg ss w1") auto
  ultimately show ?case using Cons.IH [OF p] Cons.prems m p by auto
qed simp

lemma subseq_facts: "subseq xs ys \<Longrightarrow> set xs \<subseteq> set ys \<and> (distinct ys \<longrightarrow> distinct xs)"
  by (induction rule: list_emb.induct) auto

lemma ctx_ok_sessions:
  assumes "ctx_ok ctx" "subseq (map ng_ptr ss) (map ng_ptr (ctx_sessions ctx))" "\<forall>s\<in>set ss. ng_ok s"
  shows "ctx_ok (ctx\<lparr>ctx_sessions := ss\<rparr>)"
proof -
  note f = subseq_facts [OF assms(2)]
  have "ng_ptr s < ctx_next ctx" if "s \<in> set ss" for s
  proof -
    have "ng_ptr s \<in> ng_ptr ` set (ctx_sessions ctx)" using f that by auto
    then show ?thesis using assms(1) by (auto simp: ctx_ok_def)
  qed
  with f assms(1,3) show ?thesis by (simp add: ctx_ok_def)
qed

text \<open>Events of the tun device.\<close>

lemma tun_packets_in_grows:
  "tun_packets_in os cfg tun ev sessions maxsessions n ctx cache w = Some (err, ctx', cache', w') \<Longrightarrow> ctx_ok ctx \<Longrightarrow>
   grows ctx ctx'"
proof (induction n arbitrary: ctx cache w)
  case (Suc n)
  show ?case
  proof (cases "stopping os ctx w \<or> \<not> os_readable os (trace w) tun")
    case True
    with Suc.prems show ?thesis by (auto simp: is_readable_def split: if_splits)
  next
    case False
    with Suc.prems(1) obtain e c1 k1 w1 where
      t: "check_tun os cfg ev sessions maxsessions ctx cache (emit (Readable tun) w) = Some (e, c1, k1, w1)"
        "(if e then Some (True, c1, k1, w1) else tun_packets_in os cfg tun ev sessions maxsessions n c1 k1 w1)
          = Some (err, ctx', cache', w')"
      by (auto simp: is_readable_def bind_eq_Some_conv)
    have g: "grows ctx c1" by (rule check_tun_grows [OF t(1) Suc.prems(2)])
    with t(2) Suc.IH [of c1 k1 w1] show ?thesis by (auto split: if_splits intro: grows_trans dest: grows_ok)
  qed
qed simp

lemma udp_datagrams_in_ok:
  "udp_datagrams_in os cfg ev ctx n u w = Some (u', w') \<Longrightarrow> udp_ok u \<Longrightarrow> 0 \<le> udp_socket u \<Longrightarrow>
   udp_ok u' \<and> udp_socket u' = udp_socket u \<and> udp_ptr u' = udp_ptr u"
proof (induction n arbitrary: u w)
  case (Suc n)
  show ?case
  proof (cases "stopping os ctx w \<or> ep_err ev \<or> \<not> ep_in ev \<or> \<not> os_readable os (trace w) (udp_socket u)")
    case True
    with Suc.prems show ?thesis by (auto simp: is_readable_def split: if_splits)
  next
    case False
    with Suc.prems(1) obtain u1 w1 where
      c: "check_udp_socket os cfg ev u (emit (Readable (udp_socket u)) w) = Some (u1, w1)"
        "udp_datagrams_in os cfg ev ctx n u1 w1 = Some (u', w')"
      by (auto simp: is_readable_def bind_eq_Some_conv)
    from check_udp_socket_ok [OF Suc.prems(2,3) c(1)] Suc.IH [OF c(2)] Suc.prems(3) show ?thesis by simp
  qed
qed simp

text \<open>
  What the kernel promises about the events it reports: each is of a session whose socket is open, and
  no session is reported twice. Closing a descriptor removes it from the epoll set.
\<close>

fun ready_ptrs :: "ready list \<Rightarrow> nat list" where
  "ready_ptrs [] = []"
| "ready_ptrs (Ready_Session p ev # rs) = p # ready_ptrs rs"
| "ready_ptrs (_ # rs) = ready_ptrs rs"

definition ready_ok :: "ng_context \<Rightarrow> ready list \<Rightarrow> bool" where
  "ready_ok ctx rs \<longleftrightarrow> distinct (ready_ptrs rs) \<and>
     (\<forall>p\<in>set (ready_ptrs rs). \<exists>k. (p, k) \<in> set (ends ctx) \<and> 0 \<le> k)"

lemma ready_ok_grows: "grows ctx ctx' \<Longrightarrow> ready_ok ctx rs \<Longrightarrow> ready_ok ctx' rs"
  unfolding grows_def ready_ok_def by (metis Un_iff set_append)

lemma ends_put_other:
  assumes "(p, k) \<in> set (ends ctx)" "p \<noteq> ng_ptr s"
  shows "(p, k) \<in> set (ends (put_session s ctx))"
proof -
  have "x \<in> set xs \<Longrightarrow> \<not> P x \<Longrightarrow> x \<in> set (update_first P f xs)" for x P xs and f :: "ng_session \<Rightarrow> ng_session"
    by (induction xs) auto
  with assms show ?thesis by (force simp: ends_def put_session_def)
qed

lemma ready_ok_put:
  "ready_ok ctx (Ready_Session p ev # rs) \<Longrightarrow> ng_ptr s = p \<Longrightarrow> ready_ok (put_session s ctx) rs"
  unfolding ready_ok_def using ends_put_other [of _ _ ctx s]
  by (metis distinct.simps(2) list.set_intros(2) ready_ptrs.simps(2))

lemma find_open:
  assumes "ctx_ok ctx" "ready_ok ctx (Ready_Session p ev # rs)" "find (\<lambda>s. ng_ptr s = p) (ctx_sessions ctx) = Some s"
  shows "ng_ok s \<and> ng_ptr s = p \<and> 0 \<le> ng_socket s"
proof -
  from assms(2) obtain k where k: "(p, k) \<in> set (ends ctx)" "0 \<le> k" by (auto simp: ready_ok_def)
  then obtain y where y: "y \<in> set (ctx_sessions ctx)" "ng_ptr y = p" "ng_socket y = k" by (auto simp: ends_def)
  from find_in_set [OF assms(3)] have s: "s \<in> set (ctx_sessions ctx)" "ng_ptr s = p" by auto
  have "s = y"
    using assms(1) s y inj_onD [of ng_ptr "set (ctx_sessions ctx)" s y] by (simp add: ctx_ok_def distinct_map)
  with s y k assms(1) show ?thesis by (auto simp: ctx_ok_def)
qed

lemma handle_ready_ok:
  assumes h: "handle_ready os cfg tun sessions maxsessions r ctx cache w = Some (err, ctx', cache', w')"
    and c: "ctx_ok ctx" and r: "ready_ok ctx (r # rs)"
  shows "ctx_ok ctx' \<and> ready_ok ctx' rs"
proof (cases r)
  case Ready_Pipe
  with assms show ?thesis by (simp add: ready_ok_def)
next
  case (Ready_Tun ev)
  with h have g: "grows ctx ctx'" by (auto intro: tun_packets_in_grows [OF _ c])
  have "ready_ok ctx rs" using r Ready_Tun by (simp add: ready_ok_def)
  with g show ?thesis using grows_ok ready_ok_grows by blast
next
  case (Ready_Session p ev)
  with h obtain s where f: "find (\<lambda>s. ng_ptr s = p) (ctx_sessions ctx) = Some s" by (auto split: option.splits)
  from find_open [OF c r [unfolded Ready_Session] f] have s: "ng_ok s" "ng_ptr s = p" "0 \<le> ng_socket s" by auto
  have put: "ctx_ok (put_session t ctx) \<and> ready_ok (put_session t ctx) rs" if "ng_ok t" "ng_ptr t = p" for t
    using that ctx_ok_put [OF c] ready_ok_put [OF r [unfolded Ready_Session]] by blast
  show ?thesis
  proof (cases s)
    case (Icmp i)
    with s h f Ready_Session check_icmp_socket_ok [of i os cfg ev w] show ?thesis
      by (auto split: prod.splits intro!: put)
  next
    case (Udp u)
    with s h f Ready_Session show ?thesis
      by (auto simp: bind_eq_Some_conv intro!: put dest!: udp_datagrams_in_ok)
  next
    case (Tcp t)
    with s have "tcp_live t" by (simp add: tcp_live_def)
    with Tcp s h f Ready_Session show ?thesis
      by (auto simp: bind_eq_Some_conv intro!: put dest!: check_tcp_socket_ok)
  qed
qed

lemma handle_all_ok:
  "handle_all os cfg tun sessions maxsessions rs ctx cache w = Some (err, ctx', cache', w') \<Longrightarrow> ctx_ok ctx \<Longrightarrow>
   ready_ok ctx rs \<Longrightarrow> ctx_ok ctx'"
proof (induction rs arbitrary: ctx cache w)
  case (Cons r rs)
  then obtain e c1 k1 w1 where h: "handle_ready os cfg tun sessions maxsessions r ctx cache w = Some (e, c1, k1, w1)"
    by (auto simp: bind_eq_Some_conv)
  from handle_ready_ok [OF h Cons.prems(2,3)] Cons h show ?case by (auto split: if_splits)
qed simp

lemma loop_prepare_ok:
  assumes "loop_prepare os cfg maxsessions last_check ctx w = (sessions, last', ms, ctx1, w1)" "ctx_ok ctx"
  shows "ctx_ok ctx1"
proof -
  obtain n r ss v where m: "monitor_pass os cfg (ctx_sessions ctx) w = (n, r, ss, v)"
    by (cases "monitor_pass os cfg (ctx_sessions ctx) w") auto
  have s: "map ng_ptr ss = map ng_ptr (ctx_sessions ctx)" "\<forall>s\<in>set ss. ng_ok s"
    using monitor_pass_ptrs [OF m] assms(2) by (auto simp: ctx_ok_def)
  obtain l i ss2 v2 where k: "loop_check os cfg maxsessions n last_check r ss v = (l, i, ss2, v2)"
    by (cases "loop_check os cfg maxsessions n last_check r ss v") auto
  have "ss2 = ss \<or> (\<exists>now v1 t. check_pass os cfg n maxsessions now ss EPOLL_TIMEOUT v1 = (ss2, t, v2))"
    using k by (auto simp: loop_check_def get_ms_def sys_time_def Let_def split: if_splits prod.splits)
  then have "subseq (map ng_ptr ss2) (map ng_ptr ss) \<and> (\<forall>s\<in>set ss2. ng_ok s)"
    using s(2) check_all_ptrs [OF check_pass_all s(2)] ng.check_all_ok [OF s(2) check_pass_all] by auto
  with s(1) have "ctx_ok (ctx\<lparr>ctx_sessions := ss2\<rparr>)" using ctx_ok_sessions [OF assms(2)] by simp
  with assms(1) m k show ?thesis by (simp add: loop_prepare_def)
qed

section \<open>Reachable states of the engine\<close>

text \<open>One iteration of the loop, with the promise of the kernel about the events it reports.\<close>

inductive engine_step :: "os \<Rightarrow> config \<Rightarrow> int \<Rightarrow> int \<Rightarrow> int \<times> ng_context \<times> uid_entry list \<times> world \<Rightarrow>
    int \<times> ng_context \<times> uid_entry list \<times> world \<Rightarrow> bool" for os cfg tun maxsessions where
  iteration: "loop_prepare os cfg maxsessions lc ctx w = (sessions, lc1, ms, ctx1, w1) \<Longrightarrow>
    (\<forall>rs. os_epoll_wait os (trace w1) ms = Wait_Ready rs \<longrightarrow> ready_ok ctx1 rs) \<Longrightarrow>
    loop_iteration os cfg tun maxsessions lc ctx cache w = Some (go, lc', ctx', cache', w') \<Longrightarrow>
    engine_step os cfg tun maxsessions (lc, ctx, cache, w) (lc', ctx', cache', w')"

lemma engine_step_ok:
  assumes "engine_step os cfg tun maxsessions x y" "ctx_ok (fst (snd x))"
  shows "ctx_ok (fst (snd y))"
  using assms
proof cases
  case (iteration lc ctx w sessions lc1 ms ctx1 w1 cache go lc' ctx' cache' w')
  from loop_prepare_ok [OF iteration(3)] assms(2) iteration(1) have c: "ctx_ok ctx1" by simp
  show ?thesis
  proof (cases "os_epoll_wait os (trace w1) ms")
    case (Wait_Error e)
    with iteration c show ?thesis by (auto simp: loop_iteration_def Let_def split: if_splits)
  next
    case (Wait_Ready rs)
    with iteration obtain e k v where
      "handle_all os cfg tun sessions maxsessions rs ctx1 cache (emit (Epoll_Wait ms) w1) = Some (e, ctx', k, v)"
      by (auto simp: loop_iteration_def bind_eq_Some_conv)
    from handle_all_ok [OF this c] Wait_Ready iteration show ?thesis by simp
  qed
qed



end
