(* ===== verification/Jni.thy ===== *)
theory Jni
  imports Session_Props
begin

text \<open>
  The interface of the native library, \<open>netguard/netguard.c\<close>: the calls with which the Java service
  creates, configures, starts, runs, stops, clears and destroys the engine, and the record of
  allocations kept under \<open>PROFILE_MEMORY\<close>. The global variables of the library and the context are
  one record.
\<close>

section \<open>The state of the library\<close>

record jni_state =
  jn_ctx :: ng_context
  jn_cfg :: config
  jn_cache :: "uid_entry list"
  jn_pipe :: "int \<times> int"

definition ANDROID_LOG_WARN :: int where [simp]: "ANDROID_LOG_WARN = 5"

text \<open>
  Creating a context resets the settings; the cache survives. The descriptors of the pipe come from
  the system.
\<close>

definition jni_init :: "int \<Rightarrow> int \<times> int \<Rightarrow> jni_state \<Rightarrow> world \<Rightarrow> jni_state \<times> world" where
  "jni_init sdk pipefds st w =
     (st\<lparr>jn_ctx := \<lparr>ctx_stopping = False, ctx_sessions = [], ctx_next = 0\<rparr>,
         jn_cfg := (jn_cfg st)\<lparr>cfg_sdk := sdk, cfg_loglevel_below_warn := False, socks5_addr := [],
                     socks5_port := 0, socks5_username := [], socks5_password := []\<rparr>,
         jn_pipe := pipefds\<rparr>,
      w\<lparr>pcap_file := None\<rparr>)"

definition jni_start :: "int \<Rightarrow> jni_state \<Rightarrow> jni_state" where
  "jni_start loglevel st =
     st\<lparr>jn_ctx := (jn_ctx st)\<lparr>ctx_stopping := False\<rparr>,
        jn_cfg := (jn_cfg st)\<lparr>cfg_loglevel_below_warn := loglevel < ANDROID_LOG_WARN\<rparr>\<rparr>"

definition jni_run :: "os \<Rightarrow> int \<Rightarrow> bool \<Rightarrow> int \<Rightarrow> jni_state \<Rightarrow> world \<Rightarrow> (jni_state \<times> world) option" where
  "jni_run os tun fwd53 rcode st w =
     (let cfg = (jn_cfg st)\<lparr>cfg_fwd53 := fwd53, cfg_rcode := of_int rcode\<rparr> in
      do {
        (ctx, cache, w) \<leftarrow> handle_events os cfg (fst (jn_pipe st)) tun (jn_ctx st) (jn_cache st) w;
        Some (st\<lparr>jn_ctx := ctx, jn_cfg := cfg, jn_cache := cache\<rparr>, w)
      })"

text \<open>Stopping sets the flag and writes a byte to the pipe, which ends the wait of the loop.\<close>

definition jni_stop :: "jni_state \<Rightarrow> world \<Rightarrow> jni_state \<times> world" where
  "jni_stop st w = (st\<lparr>jn_ctx := (jn_ctx st)\<lparr>ctx_stopping := True\<rparr>\<rparr>, emit Pipe_Write w)"

definition jni_clear :: "jni_state \<Rightarrow> world \<Rightarrow> jni_state \<times> world" where
  "jni_clear st w = (let (ctx, w) = clear (jn_ctx st) w in (st\<lparr>jn_ctx := ctx\<rparr>, w))"

text \<open>The three counters of sessions; the other two values are about the process.\<close>

fun count_session :: "ng_session \<Rightarrow> int \<times> int \<times> int \<Rightarrow> int \<times> int \<times> int" where
  "count_session (Icmp i) (a, b, c) = (if icmp_stop i then a else a + 1, b, c)"
| "count_session (Udp u) (a, b, c) = (a, if udp_state u = UDP_ACTIVE then b + 1 else b, c)"
| "count_session (Tcp t) (a, b, c) = (a, b, if tcp_closed t then c else c + 1)"

definition jni_get_stats :: "int \<Rightarrow> int \<Rightarrow> jni_state \<Rightarrow> int list" where
  "jni_get_stats fds limit st =
     (let (i, u, t) = fold count_session (ctx_sessions (jn_ctx st)) (0, 0, 0) in [i, u, t, fds, limit])"

text \<open>
  Opening or closing the capture file. \<open>opened\<close> is the contents of the file that \<open>fopen\<close> opened for
  appending and the position \<open>ftell\<close> reports, or nothing if it could not be opened.
\<close>

definition jni_pcap :: "os \<Rightarrow> (bytes \<times> int) option option \<Rightarrow> int \<Rightarrow> int \<Rightarrow> jni_state \<Rightarrow> world \<Rightarrow> jni_state \<times> world" where
  "jni_pcap os name record_size file_size st w =
     (let cfg = (jn_cfg st)\<lparr>pcap_record_size := unat (of_int record_size :: u64), pcap_file_size := file_size\<rparr>;
          w = (case name of
                 None \<Rightarrow> w\<lparr>pcap_file := None\<rparr>
               | Some None \<Rightarrow> w\<lparr>pcap_file := None\<rparr>
               | Some (Some (content, pos)) \<Rightarrow>
                   let w = w\<lparr>pcap_file := Some content\<rparr>
                   in if pos = 0 then write_pcap_hdr os cfg w else w)
      in (st\<lparr>jn_cfg := cfg\<rparr>, w))"

text \<open>\<open>strcpy\<close> into arrays of 47 and twice 128 bytes; a longer string overruns its array.\<close>

definition jni_socks5 :: "string \<Rightarrow> int \<Rightarrow> bytes \<Rightarrow> bytes \<Rightarrow> jni_state \<Rightarrow> jni_state option" where
  "jni_socks5 addr port username password st =
     (if length addr < 47 \<and> length username < 128 \<and> length password < 128
      then Some (st\<lparr>jn_cfg := (jn_cfg st)\<lparr>socks5_addr := addr, socks5_port := port,
                     socks5_username := username, socks5_password := password\<rparr>\<rparr>)
      else None)"

definition jni_done :: "jni_state \<Rightarrow> world \<Rightarrow> jni_state \<times> world" where
  "jni_done st w =
     (let (ctx, w) = clear (jn_ctx st) w;
          w = emit (Close (snd (jn_pipe st))) (emit (Close (fst (jn_pipe st))) w)
      in (st\<lparr>jn_ctx := ctx, jn_cache := []\<rparr>, w))"

section \<open>The record of allocations\<close>

record alloc_record =
  al_tag :: string
  al_time :: int
  al_ptr :: nat

record alloc_state =
  al_records :: "alloc_record list"
  al_balance :: int

fun alloc_slot :: "alloc_record list \<Rightarrow> nat" where
  "alloc_slot [] = 0"
| "alloc_slot (r # rs) = (if al_ptr r = 0 then 0 else Suc (alloc_slot rs))"

definition ng_add_alloc :: "nat \<Rightarrow> string \<Rightarrow> int \<Rightarrow> alloc_state \<Rightarrow> alloc_state" where
  "ng_add_alloc ptr tag now st =
     (if ptr = 0 then st
      else
        let c = alloc_slot (al_records st); r = \<lparr>al_tag = tag, al_time = now, al_ptr = ptr\<rparr>
        in st\<lparr>al_records := (if c \<ge> length (al_records st) then al_records st @ [r] else (al_records st)[c := r]),
              al_balance := al_balance st + 1\<rparr>)"

definition ng_delete_alloc :: "nat \<Rightarrow> alloc_state \<Rightarrow> alloc_state" where
  "ng_delete_alloc ptr st =
     (if ptr = 0 then st
      else if find (\<lambda>r. al_ptr r = ptr) (al_records st) \<noteq> None
      then st\<lparr>al_records := update_first (\<lambda>r. al_ptr r = ptr) (\<lambda>r. r\<lparr>al_tag := ''[free]'', al_ptr := 0\<rparr>) (al_records st),
              al_balance := al_balance st - 1\<rparr>
      else st)"

definition ng_dump :: "alloc_state \<Rightarrow> alloc_record list" where
  "ng_dump st = filter (\<lambda>r. al_ptr r \<noteq> 0) (al_records st)"

section \<open>Properties\<close>

lemma fold_count:
  "fold count_session ss (a, b, c) = (a', b', c') \<Longrightarrow>
   a' + b' + c' = a + b + c + int (length (filter is_active ss))"
proof (induction ss arbitrary: a b c)
  case (Cons s ss)
  then show ?case by (cases s) (auto split: if_splits)
qed simp

lemma monitor_count: "fst (monitor_pass os cfg ss w) = int (length (filter is_active ss))"
  by (induction ss arbitrary: w) (simp_all add: case_prod_unfold Let_def)

text \<open>
  The statistics agree with the engine: the three session counters Java reads add up to the number
  of sessions the loop counts for its limit, and are none after clearing.
\<close>

lemma stats_count_sessions:
  "sum_list (take 3 (jni_get_stats fds limit st)) = fst (monitor_pass os cfg (ctx_sessions (jn_ctx st)) w) \<and>
   take 3 (jni_get_stats fds limit (fst (jni_clear st w))) = [0, 0, 0]"
proof -
  obtain i u t where f: "fold count_session (ctx_sessions (jn_ctx st)) (0, 0, 0) = (i, u, t)"
    by (cases "fold count_session (ctx_sessions (jn_ctx st)) (0, 0, 0)") auto
  from fold_count [OF f] show ?thesis
    by (simp add: jni_get_stats_def f monitor_count jni_clear_def clear_def numeral_3_eq_3)
qed

text \<open>
  What \<open>jni_socks5\<close> accepts reaches the proxy unchanged: the authentication message is version 1, the
  user name with its length and the password with its length, and the proxy is used exactly when an
  address and a port are set.
\<close>

lemma socks5_settings_sent:
  assumes "jni_socks5 addr port username password st = Some st'"
  shows "socks5_auth (jn_cfg st') =
      [1, of_nat (length username)] @ username @ [of_nat (length password)] @ password \<and>
    unat (of_nat (length username) :: u8) = length username \<and> unat (of_nat (length password) :: u8) = length password \<and>
    (socks5_enabled (jn_cfg st') \<longleftrightarrow> addr \<noteq> [] \<and> port \<noteq> 0)"
proof -
  have l: "length username < 128" "length password < 128"
    "st' = st\<lparr>jn_cfg := (jn_cfg st)\<lparr>socks5_addr := addr, socks5_port := port,
                     socks5_username := username, socks5_password := password\<rparr>\<rparr>"
    using assms by (auto simp: jni_socks5_def split: if_splits)
  then have "unat (of_nat (length username) :: u8) = length username" "unat (of_nat (length password) :: u8) = length password"
    by (simp_all add: unat_of_nat)
  with l show ?thesis by (simp add: socks5_auth_def socks5_enabled_def Let_def)
qed

inductive alloc_reach :: "alloc_state \<Rightarrow> nat set \<Rightarrow> bool" where
  start: "alloc_reach \<lparr>al_records = [], al_balance = 0\<rparr> {}"
| add: "alloc_reach st held \<Longrightarrow> ptr \<notin> held \<Longrightarrow> ptr \<noteq> 0 \<Longrightarrow> alloc_reach (ng_add_alloc ptr tag now st) (insert ptr held)"
| delete: "alloc_reach st held \<Longrightarrow> alloc_reach (ng_delete_alloc ptr st) (held - {ptr})"

definition live :: "alloc_record list \<Rightarrow> nat multiset" where
  "live rs = mset (map al_ptr (filter (\<lambda>r. al_ptr r \<noteq> 0) rs))"

lemma live_simps [simp]:
  "live [] = {#}" "live (r # rs) = (if al_ptr r = 0 then live rs else add_mset (al_ptr r) (live rs))"
  "live (xs @ ys) = live xs + live ys"
  by (simp_all add: live_def)

lemma live_add:
  assumes "al_ptr r \<noteq> 0"
  shows "live (if length rs \<le> alloc_slot rs then rs @ [r] else rs[alloc_slot rs := r]) = add_mset (al_ptr r) (live rs)"
proof (cases "length rs \<le> alloc_slot rs")
  case False
  then have "live (rs[alloc_slot rs := r]) = add_mset (al_ptr r) (live rs)"
    using assms by (induction rs) auto
  with False show ?thesis by simp
qed (use assms in simp)

lemma live_delete:
  assumes "ptr \<noteq> 0" "find (\<lambda>r. al_ptr r = ptr) rs \<noteq> None"
  shows "live (update_first (\<lambda>r. al_ptr r = ptr) (\<lambda>r. r\<lparr>al_tag := t, al_ptr := 0\<rparr>) rs) = live rs - {#ptr#} \<and> ptr \<in># live rs"
  using assms by (induction rs) (auto split: if_splits)

lemma live_absent: "ptr \<noteq> 0 \<Longrightarrow> find (\<lambda>r. al_ptr r = ptr) rs = None \<Longrightarrow> ptr \<notin># live rs"
  by (induction rs) (auto split: if_splits)

lemma alloc_reach_live:
  "alloc_reach st held \<Longrightarrow> finite held \<and> 0 \<notin> held \<and> live (al_records st) = mset_set held \<and> al_balance st = int (card held)"
proof (induction rule: alloc_reach.induct)
  case (add st held ptr tag now)
  then show ?case by (simp add: ng_add_alloc_def Let_def live_add)
next
  case (delete st held ptr)
  show ?case
  proof (cases "ptr = 0 \<or> find (\<lambda>r. al_ptr r = ptr) (al_records st) = None")
    case True
    then have "ptr \<notin> held" using delete live_absent [of ptr "al_records st"] by auto
    with True delete show ?thesis by (auto simp: ng_delete_alloc_def)
  next
    case False
    with delete live_delete [of ptr "al_records st" "''[free]''"] have "ptr \<in> held" by auto
    then have "card held \<ge> 1" using delete by (metis One_nat_def Suc_leI card_gt_0_iff empty_iff)
    with False delete live_delete [of ptr "al_records st" "''[free]''"] \<open>ptr \<in> held\<close> show ?thesis
      by (auto simp: ng_delete_alloc_def mset_set_Diff of_nat_diff)
  qed
qed simp

text \<open>
  The balance of allocations is the number of blocks held, in every state reached by recording
  allocations of blocks that are not yet held and releases, and the dump lists each block that is held
  exactly once and nothing else.
\<close>

lemma alloc_balance:
  assumes "alloc_reach st held"
  shows "al_balance st = int (card held) \<and> mset (map al_ptr (ng_dump st)) = mset_set held"
  using alloc_reach_live [OF assms] by (simp add: ng_dump_def live_def)

end
