(* ===== verification/Bufferevent.thy ===== *)
theory Bufferevent
  imports Util
begin

text \<open>
  The buffered socket of libevent 2.0 as redsocks uses it (\<open>libevent/bufferevent_sock.c\<close>,
  \<open>bufferevent.c\<close> and, for the data, \<open>buffer.c\<close>): an input and an output buffer, two events of the event
  loop, water marks and callbacks. The buffers are byte lists; a chain of chunks is what it holds.
  redsocks uses no timeouts, rate limits, locks or deferred callbacks and sets the water marks
  directly, so the callback on the input buffer that \<open>bufferevent_setwatermark\<close> installs is never there.
\<close>

section \<open>The system\<close>

text \<open>
  Reading gives data, an empty list at the end of the stream, or fails, for now or for good. Writing
  accepts a number of bytes or fails. Every answer is a function of the calls made before, newest first.
  The number given to a read is what the buffered socket asks for; \<open>evbuffer_read\<close> may ask the kernel for
  less, 4096 bytes at most, so an answer may be shorter for that reason too.
\<close>

datatype rd_answer = Rd_Data bytes | Rd_Again | Rd_Fail
datatype wr_answer = Wr_Sent nat | Wr_Again | Wr_Fail
datatype accept_answer = Acc_Fd int | Acc_No_Files | Acc_Fail
datatype shut_how = Shut_Rd | Shut_Wr | Shut_RdWr

datatype be_call =
    Be_Read int nat rd_answer
  | Be_Write int bytes
  | Be_Write_Fail int
  | Be_Event_Add int bool
  | Be_Shutdown int shut_how
  | Be_Close int
  | Be_Open int
  | Be_Getsockopt int
  | Be_Time
  | Be_Rand

type_synonym be_calls = "be_call list"

record be_os =
  bo_read :: "be_calls \<Rightarrow> int \<Rightarrow> nat \<Rightarrow> rd_answer"
  bo_write :: "be_calls \<Rightarrow> int \<Rightarrow> bytes \<Rightarrow> wr_answer"
  bo_event_add :: "be_calls \<Rightarrow> int \<Rightarrow> bool"
  bo_accept :: "be_calls \<Rightarrow> accept_answer"
  bo_getsockname :: "be_calls \<Rightarrow> int \<Rightarrow> bool"
  bo_destaddr :: "be_calls \<Rightarrow> int \<Rightarrow> (bytes \<times> u16) option"
  bo_random :: "be_calls \<Rightarrow> int"
  bo_socket :: "be_calls \<Rightarrow> int"
  bo_nonblock :: "be_calls \<Rightarrow> int \<Rightarrow> bool"
  bo_keepalive :: "be_calls \<Rightarrow> int \<Rightarrow> bool"
  bo_connect :: "be_calls \<Rightarrow> int \<Rightarrow> bool"
  bo_so_error :: "be_calls \<Rightarrow> int \<Rightarrow> int"
  bo_time :: "be_calls \<Rightarrow> int"

text \<open>
  The bytes read from and written to a descriptor since it was opened, whether it is open, and whether
  every call was made on an open one.
\<close>

fun bytes_read :: "int \<Rightarrow> be_calls \<Rightarrow> bytes" where
  "bytes_read fd [] = []"
| "bytes_read fd (Be_Read f n (Rd_Data bs) # cs) = bytes_read fd cs @ (if f = fd then bs else [])"
| "bytes_read fd (Be_Open f # cs) = (if f = fd then [] else bytes_read fd cs)"
| "bytes_read fd (_ # cs) = bytes_read fd cs"

fun bytes_written :: "int \<Rightarrow> be_calls \<Rightarrow> bytes" where
  "bytes_written fd [] = []"
| "bytes_written fd (Be_Write f bs # cs) = bytes_written fd cs @ (if f = fd then bs else [])"
| "bytes_written fd (Be_Open f # cs) = (if f = fd then [] else bytes_written fd cs)"
| "bytes_written fd (_ # cs) = bytes_written fd cs"

fun is_open :: "int \<Rightarrow> be_calls \<Rightarrow> bool" where
  "is_open fd [] \<longleftrightarrow> False"
| "is_open fd (Be_Open f # cs) \<longleftrightarrow> f = fd \<or> is_open fd cs"
| "is_open fd (Be_Close f # cs) \<longleftrightarrow> f \<noteq> fd \<and> is_open fd cs"
| "is_open fd (_ # cs) \<longleftrightarrow> is_open fd cs"

fun call_ok :: "be_call \<Rightarrow> be_calls \<Rightarrow> bool" where
  "call_ok (Be_Read fd n r) cs \<longleftrightarrow> is_open fd cs"
| "call_ok (Be_Write fd bs) cs \<longleftrightarrow> is_open fd cs"
| "call_ok (Be_Write_Fail fd) cs \<longleftrightarrow> is_open fd cs"
| "call_ok (Be_Event_Add fd w) cs \<longleftrightarrow> is_open fd cs"
| "call_ok (Be_Shutdown fd how) cs \<longleftrightarrow> is_open fd cs"
| "call_ok (Be_Close fd) cs \<longleftrightarrow> is_open fd cs"
| "call_ok (Be_Open fd) cs \<longleftrightarrow> \<not> is_open fd cs"
| "call_ok (Be_Getsockopt fd) cs \<longleftrightarrow> is_open fd cs"
| "call_ok Be_Time cs \<longleftrightarrow> True"
| "call_ok Be_Rand cs \<longleftrightarrow> True"

fun calls_ok :: "be_calls \<Rightarrow> bool" where
  "calls_ok [] \<longleftrightarrow> True"
| "calls_ok (c # cs) \<longleftrightarrow> call_ok c cs \<and> calls_ok cs"

section \<open>The buffered event\<close>

record 'cb bufferevent =
  be_fd :: int
  be_input :: bytes
  be_output :: bytes
  be_enabled_read :: bool
  be_enabled_write :: bool
  be_read_suspended :: bool
  be_ev_read :: bool
  be_ev_write :: bool
  be_read_low :: nat
  be_read_high :: nat
  be_write_low :: nat
  be_write_high :: nat
  be_readcb :: "'cb option"
  be_writecb :: "'cb option"

definition bufferevent_new :: "int \<Rightarrow> 'cb option \<Rightarrow> 'cb option \<Rightarrow> 'cb bufferevent" where
  "bufferevent_new fd readcb writecb =
     \<lparr>be_fd = fd, be_input = [], be_output = [], be_enabled_read = False, be_enabled_write = True,
      be_read_suspended = False, be_ev_read = False, be_ev_write = False,
      be_read_low = 0, be_read_high = 0, be_write_low = 0, be_write_high = 0,
      be_readcb = readcb, be_writecb = writecb\<rparr>"

text \<open>
  Adding an event to the loop may fail; removing one always removes it. The second argument of the call
  says which of the two events it is.
\<close>

definition be_socket_add_read :: "be_os \<Rightarrow> 'cb bufferevent \<Rightarrow> be_calls \<Rightarrow> bool \<times> 'cb bufferevent \<times> be_calls" where
  "be_socket_add_read os b cs =
     (let ok = bo_event_add os cs (be_fd b)
      in (ok, if ok then b\<lparr>be_ev_read := True\<rparr> else b, Be_Event_Add (be_fd b) False # cs))"

definition be_socket_add_write :: "be_os \<Rightarrow> 'cb bufferevent \<Rightarrow> be_calls \<Rightarrow> bool \<times> 'cb bufferevent \<times> be_calls" where
  "be_socket_add_write os b cs =
     (let ok = bo_event_add os cs (be_fd b)
      in (ok, if ok then b\<lparr>be_ev_write := True\<rparr> else b, Be_Event_Add (be_fd b) True # cs))"

definition be_socket_enable :: "be_os \<Rightarrow> bool \<Rightarrow> bool \<Rightarrow> 'cb bufferevent \<Rightarrow> be_calls \<Rightarrow>
    bool \<times> 'cb bufferevent \<times> be_calls" where
  "be_socket_enable os r w b cs =
     (let (ok, b, cs) = (if r then be_socket_add_read os b cs else (True, b, cs)) in
      if \<not> ok then (False, b, cs)
      else if w then be_socket_add_write os b cs
      else (True, b, cs))"

definition be_socket_disable :: "bool \<Rightarrow> bool \<Rightarrow> 'cb bufferevent \<Rightarrow> 'cb bufferevent" where
  "be_socket_disable r w b =
     b\<lparr>be_ev_read := be_ev_read b \<and> \<not> r, be_ev_write := be_ev_write b \<and> \<not> w\<rparr>"

definition bufferevent_enable :: "be_os \<Rightarrow> bool \<Rightarrow> bool \<Rightarrow> 'cb bufferevent \<Rightarrow> be_calls \<Rightarrow>
    bool \<times> 'cb bufferevent \<times> be_calls" where
  "bufferevent_enable os r w b cs =
     be_socket_enable os (r \<and> \<not> be_read_suspended b) w
       (b\<lparr>be_enabled_read := be_enabled_read b \<or> r, be_enabled_write := be_enabled_write b \<or> w\<rparr>) cs"

definition bufferevent_disable :: "bool \<Rightarrow> bool \<Rightarrow> 'cb bufferevent \<Rightarrow> 'cb bufferevent" where
  "bufferevent_disable r w b = be_socket_disable r w
     (b\<lparr>be_enabled_read := be_enabled_read b \<and> \<not> r, be_enabled_write := be_enabled_write b \<and> \<not> w\<rparr>)"

definition bufferevent_suspend_read :: "'cb bufferevent \<Rightarrow> 'cb bufferevent" where
  "bufferevent_suspend_read b =
     (if be_read_suspended b then b else be_socket_disable True False b)\<lparr>be_read_suspended := True\<rparr>"

text \<open>Data that is added to the output starts the writing.\<close>

definition bufferevent_socket_outbuf_cb :: "be_os \<Rightarrow> 'cb bufferevent \<Rightarrow> be_calls \<Rightarrow> 'cb bufferevent \<times> be_calls" where
  "bufferevent_socket_outbuf_cb os b cs =
     (if be_enabled_write b \<and> \<not> be_ev_write b then snd (be_socket_add_write os b cs) else (b, cs))"

definition bufferevent_write_buffer :: "be_os \<Rightarrow> bytes \<Rightarrow> 'cb bufferevent \<Rightarrow> be_calls \<Rightarrow> 'cb bufferevent \<times> be_calls" where
  "bufferevent_write_buffer os buf b cs =
     (if buf = [] then (b, cs)
      else bufferevent_socket_outbuf_cb os (b\<lparr>be_output := be_output b @ buf\<rparr>) cs)"

section \<open>Events of the loop\<close>

text \<open>
  The handlers of the two events. The callback of the user comes last in both, so the handlers return
  which callback is to be run.
\<close>

datatype be_what = Reading_Eof | Reading_Error | Writing_Eof | Writing_Error
datatype be_run = Run_Nothing | Run_Readcb | Run_Writecb | Run_Eventcb be_what

definition MAX_TO_READ_EVER :: nat where "MAX_TO_READ_EVER = 16384"
definition MAX_TO_WRITE_EVER :: nat where "MAX_TO_WRITE_EVER = 16384"

definition bufferevent_readcb :: "be_os \<Rightarrow> 'cb bufferevent \<Rightarrow> be_calls \<Rightarrow> be_run \<times> 'cb bufferevent \<times> be_calls" where
  "bufferevent_readcb os b cs =
     (let len = length (be_input b); high = be_read_high b in
      if high \<noteq> 0 \<and> high \<le> len then (Run_Nothing, bufferevent_suspend_read b, cs)
      else if be_read_suspended b then (Run_Nothing, b, cs)
      else
        let howmuch = (if high \<noteq> 0 then min (high - len) MAX_TO_READ_EVER else MAX_TO_READ_EVER);
            res = bo_read os cs (be_fd b) howmuch;
            cs = Be_Read (be_fd b) howmuch res # cs in
        case res of
          Rd_Again \<Rightarrow> (Run_Nothing, b, cs)
        | Rd_Fail \<Rightarrow> (Run_Eventcb Reading_Error, bufferevent_disable True False b, cs)
        | Rd_Data bs \<Rightarrow>
            if bs = [] then (Run_Eventcb Reading_Eof, bufferevent_disable True False b, cs)
            else
              let b = b\<lparr>be_input := be_input b @ bs\<rparr> in
              (if be_read_low b \<le> length (be_input b) then Run_Readcb else Run_Nothing, b, cs))"

text \<open>After writing: an empty output ends the writing and the callback is run at the low water mark.\<close>

definition bufferevent_written :: "'cb bufferevent \<Rightarrow> be_run \<times> 'cb bufferevent" where
  "bufferevent_written b =
     (let b = (if be_output b = [] then b\<lparr>be_ev_write := False\<rparr> else b)
      in (if length (be_output b) \<le> be_write_low b then Run_Writecb else Run_Nothing, b))"

definition bufferevent_writecb :: "be_os \<Rightarrow> 'cb bufferevent \<Rightarrow> be_calls \<Rightarrow> be_run \<times> 'cb bufferevent \<times> be_calls" where
  "bufferevent_writecb os b cs =
     (if be_output b = [] then let (run, b) = bufferevent_written b in (run, b, cs)
      else
        let data = take MAX_TO_WRITE_EVER (be_output b) in
        case bo_write os cs (be_fd b) data of
          Wr_Again \<Rightarrow> (Run_Nothing, b, Be_Write_Fail (be_fd b) # cs)
        | Wr_Fail \<Rightarrow> (Run_Eventcb Writing_Error, bufferevent_disable False True b, Be_Write_Fail (be_fd b) # cs)
        | Wr_Sent n \<Rightarrow>
            let cs = Be_Write (be_fd b) (take n data) # cs in
            if n = 0 then (Run_Eventcb Writing_Eof, bufferevent_disable False True b, cs)
            else
              let (run, b) = bufferevent_written (b\<lparr>be_output := drop (length (take n data)) (be_output b)\<rparr>)
              in (run, b, cs))"

end
