(* ===== verification/Base64.thy ===== *)
theory Base64
  imports Util
begin

text \<open>
  \<open>redsocks/base64.c\<close>: the encoder that shifts the bytes through a 32 bit register and the decoder
  with its table. They are inverse, and the encoder writes what RFC 4648 defines, within the size its
  macro computes.
\<close>

section \<open>Encoding\<close>

definition b64 :: string where
  "b64 = ''ABCDEFGHIJKLMNOPQRSTUVWXYZabcdefghijklmnopqrstuvwxyz0123456789+/''"

definition BASE64_SIZE :: "int \<Rightarrow> int" where
  "BASE64_SIZE x = (x + 2) div 3 * 4 + 1"

text \<open>The inner loop, which runs at least once, and the loop over the bytes.\<close>

function b64_digits :: "u32 \<Rightarrow> int \<Rightarrow> bool \<Rightarrow> string \<times> int" where
  "b64_digits i_bits i_shift final =
     (let c = b64 ! unat (drop_bit (nat i_shift) (push_bit 6 i_bits) AND 0x3F);
          i_shift = i_shift - 6 in
      if i_shift > 6 \<or> final \<and> i_shift > 0
      then let (cs, i_shift) = b64_digits i_bits i_shift final in (c # cs, i_shift)
      else ([c], i_shift))"
  by auto
termination
  by (relation "measure (\<lambda>(i_bits, i_shift, final). nat i_shift)") auto

declare b64_digits.simps [simp del]

fun b64_bytes :: "bytes \<Rightarrow> u32 \<Rightarrow> int \<Rightarrow> string" where
  "b64_bytes [] i_bits i_shift = []"
| "b64_bytes (b # bs) i_bits i_shift =
     (let i_bits = push_bit 8 i_bits + ucast b;
          (cs, i_shift) = b64_digits i_bits (i_shift + 8) (bs = [])
      in cs @ b64_bytes bs i_bits i_shift)"

definition base64_encode :: "int \<Rightarrow> bytes \<Rightarrow> string option" where
  "base64_encode out_size inp =
     (let in_size = int (length inp) in
      if in_size \<ge> 4294967295 div 4 \<or> out_size < BASE64_SIZE in_size then None
      else let dst = b64_bytes inp 0 0 in Some (dst @ replicate ((4 - length dst mod 4) mod 4) (CHR ''='')))"

section \<open>Decoding\<close>

definition map2 :: "u8 list" where
  "map2 =
     [0x3e, 0xff, 0xff, 0xff, 0x3f, 0x34, 0x35, 0x36, 0x37, 0x38, 0x39, 0x3a, 0x3b, 0x3c, 0x3d, 0xff,
      0xff, 0xff, 0xff, 0xff, 0xff, 0xff, 0x00, 0x01, 0x02, 0x03, 0x04, 0x05, 0x06, 0x07, 0x08, 0x09,
      0x0a, 0x0b, 0x0c, 0x0d, 0x0e, 0x0f, 0x10, 0x11, 0x12, 0x13, 0x14, 0x15, 0x16, 0x17, 0x18, 0x19,
      0xff, 0xff, 0xff, 0xff, 0xff, 0xff, 0x1a, 0x1b, 0x1c, 0x1d, 0x1e, 0x1f, 0x20, 0x21, 0x22, 0x23,
      0x24, 0x25, 0x26, 0x27, 0x28, 0x29, 0x2a, 0x2b, 0x2c, 0x2d, 0x2e, 0x2f, 0x30, 0x31, 0x32, 0x33]"

text \<open>
  \<open>room\<close> is what is left of the output. The register is an \<open>int\<close> in C and overflows; only its low bits
  are used.
\<close>

fun b64_decode :: "string \<Rightarrow> nat \<Rightarrow> u32 \<Rightarrow> nat \<Rightarrow> bytes option" where
  "b64_decode [] i v room = Some []"
| "b64_decode (c # cs) i v room =
     (if c = CHR ''='' then Some []
      else
        let index = unat (of_char c - 43 :: u32) in
        if index \<ge> length map2 \<or> map2 ! index = 0xff then None
        else
          let v = push_bit 6 v + ucast (map2 ! index) in
          if i mod 4 \<noteq> 0 \<and> room > 0
          then map_option (Cons (ucast (drop_bit (6 - 2 * (i mod 4)) v))) (b64_decode cs (i + 1) v (room - 1))
          else b64_decode cs (i + 1) v room)"

definition base64_decode :: "string \<Rightarrow> int \<Rightarrow> bytes option" where
  "base64_decode inp out_size = b64_decode inp 0 0 (nat out_size)"

section \<open>The reference\<close>

text \<open>RFC 4648: three bytes are four digits of six bits; one or two bytes are filled up with zero bits.\<close>

definition sextet1 :: "u8 \<Rightarrow> u8" where "sextet1 a = drop_bit 2 a"
definition sextet2 :: "u8 \<Rightarrow> u8 \<Rightarrow> u8" where "sextet2 a b = push_bit 4 (a AND 0x03) OR drop_bit 4 b"
definition sextet3 :: "u8 \<Rightarrow> u8 \<Rightarrow> u8" where "sextet3 b c = push_bit 2 (b AND 0x0F) OR drop_bit 6 c"
definition sextet4 :: "u8 \<Rightarrow> u8" where "sextet4 c = c AND 0x3F"

lemmas sextet_defs = sextet1_def sextet2_def sextet3_def sextet4_def

fun rfc4648_digits :: "bytes \<Rightarrow> u8 list" where
  "rfc4648_digits [] = []"
| "rfc4648_digits [a] = [sextet1 a, sextet2 a 0]"
| "rfc4648_digits [a, b] = [sextet1 a, sextet2 a b, sextet3 b 0]"
| "rfc4648_digits (a # b # c # r) = [sextet1 a, sextet2 a b, sextet3 b c, sextet4 c] @ rfc4648_digits r"

definition rfc4648 :: "bytes \<Rightarrow> string" where
  "rfc4648 inp = map (\<lambda>d. b64 ! unat d) (rfc4648_digits inp) @ replicate ((3 - length inp mod 3) mod 3) (CHR ''='')"

text \<open>The register: adding a byte to the shifted register sets the low bits.\<close>

lemma bit_u8D: "bit (a :: u8) n \<Longrightarrow> n < 8"
  using bit_imp_le_length [of a n] by simp

lemma bit_u8_out: "8 \<le> n \<Longrightarrow> \<not> bit (a :: u8) n"
  using bit_u8D [of a n] by auto

lemma push_add_byte: "push_bit 8 (x :: u32) + ucast (a :: u8) = push_bit 8 x OR ucast a"
  by (rule disjunctive_add_eq_or) (rule bit_word_eqI, auto simp: bit_simps dest: bit_u8D)

lemma push_add_digit:
  assumes "take_bit 6 d = (d :: u8)"
  shows "push_bit 6 (x :: u32) + ucast d = push_bit 6 x OR ucast d"
proof (rule disjunctive_add_eq_or, rule bit_word_eqI)
  fix n
  have "bit d n \<Longrightarrow> n < 6" using assms by (metis bit_take_bit_iff)
  then show "bit (push_bit 6 x AND ucast d) n \<longleftrightarrow> bit (0 :: u32) n" by (auto simp: bit_simps)
qed

lemma masks: "(0x3F :: u32) = mask 6" "(0x3F :: u8) = mask 6" "(0x0F :: u8) = mask 4" "(0x03 :: u8) = mask 2"
  by (simp_all add: mask_eq_exp_minus_1)

lemma digit_bits:
  fixes x :: u32 and a b c :: u8
  shows "drop_bit 8 (push_bit 6 (push_bit 8 x + ucast a)) AND 0x3F = ucast (sextet1 a)"
    "drop_bit 2 (push_bit 6 (push_bit 8 x + ucast a)) AND 0x3F = ucast (sextet2 a 0)"
    "drop_bit 14 (push_bit 6 (push_bit 8 x + ucast a)) AND 0x3F = x AND 0x3F"
    "drop_bit 10 (push_bit 6 (push_bit 8 (push_bit 8 x + ucast a) + ucast b)) AND 0x3F = ucast (sextet2 a b)"
    "drop_bit 4 (push_bit 6 (push_bit 8 x + ucast b)) AND 0x3F = ucast (sextet3 b 0)"
    "drop_bit 12 (push_bit 6 (push_bit 8 (push_bit 8 x + ucast b) + ucast c)) AND 0x3F = ucast (sextet3 b c)"
    "drop_bit 6 (push_bit 6 (push_bit 8 x + ucast c)) AND 0x3F = ucast (sextet4 c)"
    "(push_bit 8 x + ucast c) AND 0x3F = ucast (sextet4 c)"
  unfolding push_add_byte masks sextet_defs
  by (rule bit_word_eqI, (auto simp: bit_simps dest: bit_u8D)[1])+

abbreviation b64_at :: "u32 \<Rightarrow> nat \<Rightarrow> char" where
  "b64_at x n \<equiv> b64 ! unat (drop_bit n (push_bit 6 x) AND 0x3F)"

lemma b64_digits_eval:
  "b64_digits x 8 False = ([b64_at x 8], 2)"
  "b64_digits x 10 False = ([b64_at x 10], 4)"
  "b64_digits x 12 False = ([b64_at x 12], 6)"
  "b64_digits x 14 False = ([b64_at x 14, b64_at x 8], 2)"
  "b64_digits x 8 True = ([b64_at x 8, b64_at x 2], -4)"
  "b64_digits x 10 True = ([b64_at x 10, b64_at x 4], -2)"
  "b64_digits x 12 True = ([b64_at x 12, b64_at x 6], 0)"
  "b64_digits x 14 True = ([b64_at x 14, b64_at x 8, b64_at x 2], -4)"
  by (simp_all add: b64_digits.simps)

text \<open>
  Between groups of three bytes the loop either starts afresh or, when bytes follow, still owes the
  last digit of the group before.
\<close>

lemma b64_bytes_digits:
  "b64_bytes bs x 0 = map (\<lambda>d. b64 ! unat d) (rfc4648_digits bs) \<and>
   (bs \<noteq> [] \<longrightarrow> b64_bytes bs x 6 = b64 ! unat (x AND 0x3F) # map (\<lambda>d. b64 ! unat d) (rfc4648_digits bs))"
proof (induction bs arbitrary: x rule: rfc4648_digits.induct)
  case (4 a b c r)
  show ?case
  proof (cases "r = []")
    case False
    then have "b64_bytes r y 6 = b64 ! unat (y AND 0x3F) # map (\<lambda>d. b64 ! unat d) (rfc4648_digits r)" for y
      using 4 by blast
    with False show ?thesis by (simp add: b64_digits_eval digit_bits)
  qed (simp add: b64_digits_eval digit_bits)
qed (simp_all add: b64_digits_eval digit_bits)

lemma length_rfc4648_digits: "length (rfc4648_digits bs) = (4 * length bs + 2) div 3"
  by (induction bs rule: rfc4648_digits.induct) simp_all

lemma b64_padding:
  fixes n :: nat
  shows "(4 - (4 * n + 2) div 3 mod 4) mod 4 = (3 - n mod 3) mod 3"
    "(4 * n + 2) div 3 + (3 - n mod 3) mod 3 = (n + 2) div 3 * 4"
proof -
  define q where "q = n div 3"
  have "n = 3 * q \<or> n = 3 * q + 1 \<or> n = 3 * q + 2" unfolding q_def by presburger
  then have *: "(4 * n + 2) div 3 mod 4 = 0 \<and> n mod 3 = 0 \<and> (4 * n + 2) div 3 = 4 * q \<and> (n + 2) div 3 = q \<or>
    (4 * n + 2) div 3 mod 4 = 2 \<and> n mod 3 = 1 \<and> (4 * n + 2) div 3 = 4 * q + 2 \<and> (n + 2) div 3 = q + 1 \<or>
    (4 * n + 2) div 3 mod 4 = 3 \<and> n mod 3 = 2 \<and> (4 * n + 2) div 3 = 4 * q + 3 \<and> (n + 2) div 3 = q + 1"
    by (elim disjE) (simp, presburger)+
  show "(4 - (4 * n + 2) div 3 mod 4) mod 4 = (3 - n mod 3) mod 3" using * by (elim disjE conjE) simp_all
  show "(4 * n + 2) div 3 + (3 - n mod 3) mod 3 = (n + 2) div 3 * 4" using * by (elim disjE conjE) simp_all
qed

lemma base64_encode_rfc4648:
  assumes "length inp < 1073741823" "BASE64_SIZE (int (length inp)) \<le> out_size"
  shows "base64_encode out_size inp = Some (rfc4648 inp) \<and>
    int (length (rfc4648 inp)) + 1 = BASE64_SIZE (int (length inp))"
proof -
  have "int (length (rfc4648 inp)) = int ((length inp + 2) div 3 * 4)"
    unfolding rfc4648_def using b64_padding(2) [of "length inp"] by (simp add: length_rfc4648_digits del: of_nat_add)
  then have "int (length (rfc4648 inp)) + 1 = BASE64_SIZE (int (length inp))"
    by (simp add: BASE64_SIZE_def zdiv_int)
  with assms b64_padding(1) [of "length inp"] show ?thesis
    by (simp add: base64_encode_def rfc4648_def b64_bytes_digits [THEN conjunct1] length_rfc4648_digits)
qed

section \<open>Decoding\<close>

lemma b64_digit_table:
  assumes "d < 64"
  shows "b64 ! d \<noteq> CHR ''='' \<and> unat (of_char (b64 ! d) - 43 :: u32) < length map2 \<and>
    map2 ! unat (of_char (b64 ! d) - 43 :: u32) = of_nat d \<and> (of_nat d :: u8) \<noteq> 0xff"
proof -
  have "list_all (\<lambda>d. b64 ! d \<noteq> CHR ''='' \<and> unat (of_char (b64 ! d) - 43 :: u32) < length map2 \<and>
    map2 ! unat (of_char (b64 ! d) - 43 :: u32) = of_nat d \<and> (of_nat d :: u8) \<noteq> 0xff) [0..<64]"
    by code_simp
  with assms show ?thesis by (simp add: list_all_iff)
qed

lemma b64_decode_digit:
  assumes "take_bit 6 d = (d :: u8)"
  shows "b64_decode (b64 ! unat d # cs) i v room =
    (let v = push_bit 6 v OR ucast d in
     if i mod 4 \<noteq> 0 \<and> room > 0
     then map_option (Cons (ucast (drop_bit (6 - 2 * (i mod 4)) v))) (b64_decode cs (i + 1) v (room - 1))
     else b64_decode cs (i + 1) v room)"
proof -
  have "unat (take_bit 6 d) < 2 ^ 6" unfolding unsigned_take_bit_eq by (rule take_bit_nat_less_exp)
  with assms have "unat d < 64" by simp
  from b64_digit_table [OF this] push_add_digit [OF assms] show ?thesis by (simp add: Let_def)
qed

lemma sextet_range:
  "take_bit 6 (sextet1 a) = sextet1 a" "take_bit 6 (sextet2 a b) = sextet2 a b"
  "take_bit 6 (sextet3 b c) = sextet3 b c" "take_bit 6 (sextet4 c) = sextet4 c"
  unfolding masks sextet_defs by (rule bit_word_eqI, (auto simp: bit_simps dest: bit_u8D)[1])+

lemma u8_eqI:
  fixes x y :: u8
  assumes "bit x 0 = bit y 0" "bit x 1 = bit y 1" "bit x 2 = bit y 2" "bit x 3 = bit y 3"
    "bit x 4 = bit y 4" "bit x 5 = bit y 5" "bit x 6 = bit y 6" "bit x 7 = bit y 7"
  shows "x = y"
proof (rule bit_word_eqI)
  fix n :: nat assume "n < LENGTH(8)"
  then have "n \<in> {0, 1, 2, 3, 4, 5, 6, 7}" by auto
  then show "bit x n = bit y n" using assms by blast
qed

lemma sextet_bytes:
  fixes v :: u32
  shows "(ucast (drop_bit 4 (push_bit 6 (push_bit 6 v OR ucast (sextet1 a)) OR ucast (sextet2 a b))) :: u8) = a"
    "(ucast (drop_bit 2 (push_bit 6 (push_bit 6 v OR ucast (sextet2 a b)) OR ucast (sextet3 b c))) :: u8) = b"
    "(ucast (push_bit 6 (push_bit 6 v OR ucast (sextet3 b c)) OR ucast (sextet4 c)) :: u8) = c"
  unfolding masks sextet_defs by (rule u8_eqI; simp add: bit_simps bit_u8_out)+

lemma b64_decode_end: "b64_decode (replicate k (CHR ''='')) i v room = Some []"
  by (cases k) simp_all

lemma mod4_steps: "i mod 4 = 0 \<Longrightarrow> Suc i mod 4 = 1 \<and> Suc (Suc i) mod 4 = 2 \<and> Suc (Suc (Suc i)) mod 4 = 3 \<and> Suc (Suc (Suc (Suc i))) mod (4 :: nat) = 0"
  by presburger

lemma b64_decode_digits:
  assumes "i mod 4 = 0"
  shows "b64_decode (map (\<lambda>d. b64 ! unat d) (rfc4648_digits bs) @ replicate k (CHR ''='')) i v room = Some (take room bs)"
  using assms
proof (induction bs arbitrary: i v room rule: rfc4648_digits.induct)
  case (4 a b c r)
  from mod4_steps [OF 4(2)] 4(1) show ?case
    by (cases room; cases "room - 1"; cases "room - 2")
      (simp_all add: b64_decode_digit sextet_range sextet_bytes Let_def 4(2) del: b64_decode.simps push_bit_or drop_bit_or)
qed (simp_all add: b64_decode_digit sextet_range sextet_bytes Let_def mod4_steps b64_decode_end take_Cons' del: b64_decode.simps push_bit_or drop_bit_or)

text \<open>
  C33: encoding and decoding are inverse. For every input within the limits the encoder writes the text
  RFC 4648 defines, which with its terminating zero takes exactly the size the macro
  \<open>BASE64_SIZE\<close> computes, and the decoder gives the input back, cut to the size of its output.
\<close>

theorem base64_roundtrip:
  assumes "length inp < 1073741823" "BASE64_SIZE (int (length inp)) \<le> out_size"
  shows "\<exists>s. base64_encode out_size inp = Some s \<and> s = rfc4648 inp \<and>
    int (length s) + 1 = BASE64_SIZE (int (length inp)) \<and> base64_decode s n = Some (take (nat n) inp)"
  using base64_encode_rfc4648 [OF assms] b64_decode_digits [of 0 inp _ 0 "nat n"]
  by (simp add: base64_decode_def rfc4648_def)

theorem base64_roundtrip_witness:
  "base64_encode 9 [104, 101, 121, 33] = Some ''aGV5IQ=='' \<and> base64_decode ''aGV5IQ=='' 100 = Some [104, 101, 121, 33]"
proof -
  have e: "base64_encode 9 [104, 101, 121, 33] = Some ''aGV5IQ==''" by code_simp
  with base64_roundtrip [of "[104, 101, 121, 33]" 9 100] show ?thesis by (auto simp: BASE64_SIZE_def)
qed

end
