(* ===== verification/Md5.thy ===== *)
theory Md5
  imports Util
begin

text \<open>
  \<open>redsocks/md5.c\<close>: the MD5 digest, computed while the message comes in pieces. The lemmas show that
  however a message is cut into pieces the digest is that of RFC 1321 for the whole message. The machine
  is little-endian, so a block is read as its sixteen words.
\<close>

section \<open>Blocks\<close>

type_synonym md5_regs = "u32 \<times> u32 \<times> u32 \<times> u32"

definition md5_T :: "u32 list" where
  "md5_T =
     [NOT 0x28955b87, NOT 0x173848a9, 0x242070db, NOT 0x3e423111,
      NOT 0x0a83f050, 0x4787c62a, NOT 0x57cfb9ec, NOT 0x02b96afe,
      0x698098d8, NOT 0x74bb0850, NOT 0x0000a44e, NOT 0x76a32841,
      0x6b901122, NOT 0x02678e6c, NOT 0x5986bc71, 0x49b40821,
      NOT 0x09e1da9d, NOT 0x3fbf4cbf, 0x265e5a51, NOT 0x16493855,
      NOT 0x29d0efa2, 0x02441453, NOT 0x275e197e, NOT 0x182c0437,
      0x21e1cde6, NOT 0x3cc8f829, NOT 0x0b2af278, 0x455a14ed,
      NOT 0x561c16fa, NOT 0x03105c07, 0x676f02d9, NOT 0x72d5b375,
      NOT 0x0005c6bd, NOT 0x788e097e, 0x6d9d6122, NOT 0x021ac7f3,
      NOT 0x5b4115bb, 0x4bdecfa9, NOT 0x0944b49f, NOT 0x4140438f,
      0x289b7ec6, NOT 0x155ed805, NOT 0x2b10cf7a, 0x04881d05,
      NOT 0x262b2fc6, NOT 0x1924661a, 0x1fa27cf8, NOT 0x3b53a99a,
      NOT 0x0bd6ddbb, 0x432aff97, NOT 0x546bdc58, NOT 0x036c5fc6,
      0x655b59c3, NOT 0x70f3336d, NOT 0x00100b82, NOT 0x7a7ba22e,
      0x6fa87e4f, NOT 0x01d3191f, NOT 0x5cfebceb, 0x4e0811a1,
      NOT 0x08ac817d, NOT 0x42c50dca, 0x2ad7d2bb, NOT 0x14792c6e]"

definition ROTATE_LEFT :: "u32 \<Rightarrow> nat \<Rightarrow> u32" where
  "ROTATE_LEFT x n = push_bit n x OR drop_bit (32 - n) x"

definition md5_F :: "u32 \<Rightarrow> u32 \<Rightarrow> u32 \<Rightarrow> u32" where "md5_F x y z = (x AND y) OR (NOT x AND z)"
definition md5_G :: "u32 \<Rightarrow> u32 \<Rightarrow> u32 \<Rightarrow> u32" where "md5_G x y z = (x AND z) OR (y AND NOT z)"
definition md5_H :: "u32 \<Rightarrow> u32 \<Rightarrow> u32 \<Rightarrow> u32" where "md5_H x y z = x XOR y XOR z"
definition md5_I :: "u32 \<Rightarrow> u32 \<Rightarrow> u32 \<Rightarrow> u32" where "md5_I x y z = y XOR (x OR NOT z)"

text \<open>
  One \<open>SET\<close>. The registers change their roles from one to the next, \<open>SET(a, b, c, d)\<close> is followed by
  \<open>SET(d, a, b, c)\<close>, so the tuple is turned.
\<close>

fun md5_set :: "(u32 \<Rightarrow> u32 \<Rightarrow> u32 \<Rightarrow> u32) \<Rightarrow> u32 list \<Rightarrow> nat \<times> nat \<times> u32 \<Rightarrow> md5_regs \<Rightarrow> md5_regs" where
  "md5_set f X (k, s, Ti) (a, b, c, d) =
     (let t = a + f b c d + X ! k + Ti in (d, ROTATE_LEFT t s + b, b, c))"

definition md5_round :: "(u32 \<Rightarrow> u32 \<Rightarrow> u32 \<Rightarrow> u32) \<Rightarrow> nat list \<Rightarrow> nat list \<Rightarrow> u32 list \<Rightarrow> u32 list \<Rightarrow> md5_regs \<Rightarrow> md5_regs" where
  "md5_round f ks ss Ts X = fold (md5_set f X) (zip ks (zip (concat (replicate 4 ss)) Ts))"

fun md5_words :: "bytes \<Rightarrow> u32 list" where
  "md5_words (a # b # c # d # r) = le32 a b c d # md5_words r"
| "md5_words _ = []"

definition md5_process :: "bytes \<Rightarrow> md5_regs \<Rightarrow> md5_regs" where
  "md5_process block abcd =
     (let X = md5_words block;
          r = md5_round md5_F [0, 1, 2, 3, 4, 5, 6, 7, 8, 9, 10, 11, 12, 13, 14, 15] [7, 12, 17, 22] (take 16 md5_T) X abcd;
          r = md5_round md5_G [1, 6, 11, 0, 5, 10, 15, 4, 9, 14, 3, 8, 13, 2, 7, 12] [5, 9, 14, 20] (take 16 (drop 16 md5_T)) X r;
          r = md5_round md5_H [5, 8, 11, 14, 1, 4, 7, 10, 13, 0, 3, 6, 9, 12, 15, 2] [4, 11, 16, 23] (take 16 (drop 32 md5_T)) X r;
          (a, b, c, d) = md5_round md5_I [0, 7, 14, 5, 12, 3, 10, 1, 8, 15, 6, 13, 4, 11, 2, 9] [6, 10, 15, 21] (drop 48 md5_T) X r;
          (a0, b0, c0, d0) = abcd
      in (a0 + a, b0 + b, c0 + c, d0 + d))"

section \<open>Messages in pieces\<close>

record md5_state =
  md_count0 :: u32
  md_count1 :: u32
  md_abcd :: md5_regs
  md_buf :: bytes

text \<open>\<open>md5_init\<close> does not set the buffer; its contents are an argument.\<close>

definition md5_init :: "bytes \<Rightarrow> md5_state" where
  "md5_init buf =
     \<lparr>md_count0 = 0, md_count1 = 0,
      md_abcd = (0x67452301, NOT 0x10325476, NOT 0x67452301, 0x10325476), md_buf = buf\<rparr>"

function md5_blocks :: "bytes \<Rightarrow> md5_regs \<Rightarrow> bytes \<times> md5_regs" where
  "md5_blocks p abcd = (if 64 \<le> length p then md5_blocks (drop 64 p) (md5_process (take 64 p) abcd) else (p, abcd))"
  by auto
termination
  by (relation "measure (\<lambda>(p, abcd). length p)") auto

declare md5_blocks.simps [simp del]

definition md5_add_count :: "nat \<Rightarrow> md5_state \<Rightarrow> md5_state" where
  "md5_add_count nbytes pms =
     (let nbits = of_int (int nbytes * 8);
          count1 = md_count1 pms + of_int (int nbytes div 2 ^ 29);
          count0 = md_count0 pms + nbits
      in pms\<lparr>md_count0 := count0, md_count1 := (if count0 < nbits then count1 + 1 else count1)\<rparr>)"

text \<open>What follows the initial partial block.\<close>

definition md5_rest :: "bytes \<Rightarrow> md5_state \<Rightarrow> md5_state" where
  "md5_rest p pms =
     (let (left, abcd) = md5_blocks p (md_abcd pms)
      in pms\<lparr>md_abcd := abcd, md_buf := left @ drop (length left) (md_buf pms)\<rparr>)"

definition md5_append :: "bytes \<Rightarrow> md5_state \<Rightarrow> md5_state" where
  "md5_append p pms =
     (let nbytes = length p;
          offset = unat (drop_bit 3 (md_count0 pms) AND 63) in
      if nbytes = 0 then pms
      else
        let pms = md5_add_count nbytes pms in
        if offset \<noteq> 0 then
          let copy = (if offset + nbytes > 64 then 64 - offset else nbytes);
              pms = pms\<lparr>md_buf := take offset (md_buf pms) @ take copy p @ drop (offset + copy) (md_buf pms)\<rparr>
          in if offset + copy < 64 then pms
             else md5_rest (drop copy p) (pms\<lparr>md_abcd := md5_process (md_buf pms) (md_abcd pms)\<rparr>)
        else md5_rest p pms)"

fun md5_digest :: "md5_regs \<Rightarrow> bytes" where
  "md5_digest (a, b, c, d) = le32b a @ le32b b @ le32b c @ le32b d"

definition md5_finish :: "md5_state \<Rightarrow> bytes \<times> md5_state" where
  "md5_finish pms =
     (let length_bytes = le32b (md_count0 pms) @ le32b (md_count1 pms);
          n = unat ((55 - drop_bit 3 (md_count0 pms)) AND 63) + 1;
          pms = md5_append (take n (0x80 # replicate 63 0)) pms;
          pms = md5_append length_bytes pms
      in (md5_digest (md_abcd pms), pms))"

section \<open>The reference\<close>

text \<open>
  RFC 1321: the message is followed by a one bit and zero bits up to 56 bytes modulo 64 and by its length
  in bits, 64 bits wide with the low word first; the blocks of the result are processed in turn.
\<close>

definition md5_pad :: "bytes \<Rightarrow> bytes" where
  "md5_pad m = m @ 0x80 # replicate ((119 - length m mod 64) mod 64) 0
     @ le32b (of_int (8 * int (length m))) @ le32b (of_int (8 * int (length m) div 2 ^ 32))"

definition md5_start :: md5_regs where
  "md5_start = (0x67452301, 0xefcdab89, 0x98badcfe, 0x10325476)"

definition rfc1321 :: "bytes \<Rightarrow> bytes" where
  "rfc1321 m = md5_digest (snd (md5_blocks (md5_pad m) md5_start))"

section \<open>Pieces do not matter\<close>

lemma of_nat_div_eq: "(of_int (int a div 536870912) :: u32) = of_nat (a div 536870912)"
  by (metis of_int_of_nat_eq of_nat_div of_nat_numeral)

lemma md5_blocks_append:
  "md5_blocks (m @ p) r = md5_blocks (fst (md5_blocks m r) @ p) (snd (md5_blocks m r))"
proof (induction m r rule: md5_blocks.induct)
  case (1 m r)
  show ?case
  proof (cases "64 \<le> length m")
    case True
    with 1 show ?thesis
      by (simp add: md5_blocks.simps [of "m @ p" r] md5_blocks.simps [of m r])
  qed (simp add: md5_blocks.simps [of m r])
qed

lemma md5_blocks_left: "length (fst (md5_blocks m r)) = length m mod 64"
proof (induction m r rule: md5_blocks.induct)
  case (1 m r)
  then show ?case by (subst md5_blocks.simps) (simp add: le_mod_geq)
qed

lemma md5_blocks_short [simp]: "length p < 64 \<Longrightarrow> md5_blocks p r = (p, r)"
  by (simp add: md5_blocks.simps)

lemma md5_blocks_one: "length b = 64 \<Longrightarrow> md5_blocks (b @ p) r = md5_blocks p (md5_process b r)"
  by (simp add: md5_blocks.simps [of "b @ p"])

text \<open>The state after a message: its length in bits, the registers, and the bytes not yet processed.\<close>

definition md5_repr :: "md5_state \<Rightarrow> bytes \<Rightarrow> bool" where
  "md5_repr st m \<longleftrightarrow>
     md_count0 st = of_nat (8 * length m) \<and> md_count1 st = of_nat (8 * length m div 2 ^ 32) \<and>
     length (md_buf st) = 64 \<and>
     md5_blocks m md5_start = (take (length m mod 64) (md_buf st), md_abcd st)"

lemma md5_offset: "unat (drop_bit 3 (of_nat (8 * n) :: u32) AND 63) = n mod 64"
proof -
  have m: "(63 :: u32) = mask 6" by (simp add: mask_eq_exp_minus_1)
  have "unat (drop_bit 3 (of_nat (8 * n) :: u32) AND mask 6) = (8 * n mod 2 ^ 32) div 8 mod 64"
    unfolding take_bit_eq_mask [symmetric] unsigned_take_bit_eq unat_drop_bit_div
    by (simp add: take_bit_eq_mod unsigned_of_nat del: of_nat_mult)
  also have "8 * n mod 2 ^ 32 = 8 * (n mod 2 ^ 29)" using mod_mult_mult1 [of 8 n "2 ^ 29 :: nat"] by simp
  also have "8 * (n mod 2 ^ 29) div 8 mod 64 = n mod 64" by (simp add: mod_mod_cancel)
  finally show ?thesis by (simp add: m)
qed

lemma div_add_carry:
  fixes a b M :: nat
  assumes "0 < M"
  shows "(a + b) div M = a div M + b div M + (if M \<le> a mod M + b mod M then 1 else 0)"
proof -
  have x: "x div M = (if M \<le> x then 1 else 0)" if "x < 2 * M" for x
    using that assms by (simp add: le_div_geq)
  have "a mod M + b mod M < 2 * M"
    using mod_less_divisor [OF assms, of a] mod_less_divisor [OF assms, of b] by linarith
  from x [OF this] show ?thesis by (simp only: div_add1_eq [of a b])
qed

lemma md5_carry:
  fixes a b :: nat
  shows "(of_nat a + of_nat b < (of_nat b :: u32)) \<longleftrightarrow> 2 ^ 32 \<le> a mod 2 ^ 32 + b mod 2 ^ 32"
proof -
  have "a mod 4294967296 < 4294967296" by simp
  then show ?thesis
    by (auto simp add: word_less_nat_alt unsigned_of_nat take_bit_eq_mod unat_plus_u32)
qed

lemma md5_add_count_repr:
  assumes "md_count0 st = of_nat (8 * l)" "md_count1 st = of_nat (8 * l div 2 ^ 32)"
  shows "md_count0 (md5_add_count n st) = of_nat (8 * (l + n))"
    "md_count1 (md5_add_count n st) = of_nat (8 * (l + n) div 2 ^ 32)"
    "md_abcd (md5_add_count n st) = md_abcd st" "md_buf (md5_add_count n st) = md_buf st"
proof -
  have d: "(of_int (int n * 8) :: u32) = of_nat (n * 8)"
    "(of_int (int n div 2 ^ 29) :: u32) = of_nat (n * 8 div 2 ^ 32)" by (simp_all add: of_nat_div_eq)
  have c: "(if (of_nat (8 * l) + of_nat (n * 8) :: u32) < of_nat (n * 8) then x + 1 else x) =
      x + of_nat (if 2 ^ 32 \<le> 8 * l mod 2 ^ 32 + n * 8 mod 2 ^ 32 then 1 else 0)" for x :: u32
    unfolding md5_carry by simp
  have "of_nat (8 * (l + n) div 2 ^ 32) = (of_nat (8 * l div 2 ^ 32 + n * 8 div 2 ^ 32 +
      (if 2 ^ 32 \<le> 8 * l mod 2 ^ 32 + n * 8 mod 2 ^ 32 then 1 else 0)) :: u32)"
    unfolding distrib_left mult.commute [of 8 n] by (subst div_add_carry) simp_all
  then show "md_count1 (md5_add_count n st) = of_nat (8 * (l + n) div 2 ^ 32)"
    unfolding md5_add_count_def Let_def assms d of_nat_add c by (simp only: c) simp
qed (use assms in \<open>simp_all add: md5_add_count_def Let_def distrib_left mult.commute\<close>)

lemma md5_rest_repr:
  assumes "length (md_buf st) = 64" "md_count0 st = of_nat (8 * length m)" "md_count1 st = of_nat (8 * length m div 2 ^ 32)"
    and "md5_blocks m md5_start = md5_blocks p (md_abcd st)"
  shows "md5_repr (md5_rest p st) m"
proof -
  obtain left abcd where b: "md5_blocks p (md_abcd st) = (left, abcd)" by (rule prod.exhaust)
  then have "length left = length m mod 64" using assms(4) md5_blocks_left [of m md5_start] by simp
  with assms b show ?thesis by (simp add: md5_repr_def md5_rest_def)
qed

lemma md5_append_repr:
  assumes "md5_repr st m"
  shows "md5_repr (md5_append p st) (m @ p)"
proof (cases "p = []")
  case False
  define off where "off = length m mod 64"
  define st1 where "st1 = md5_add_count (length p) st"
  define left where "left = take off (md_buf st)"
  note st = assms [unfolded md5_repr_def, folded off_def]
  have c: "md_count0 st1 = of_nat (8 * length (m @ p))" "md_count1 st1 = of_nat (8 * length (m @ p) div 2 ^ 32)"
    "md_abcd st1 = md_abcd st" "md_buf st1 = md_buf st"
    using md5_add_count_repr [of st "length m" "length p"] st by (simp_all add: st1_def)
  have b: "md5_blocks (m @ p) md5_start = md5_blocks (left @ p) (md_abcd st)" and l: "length left = off" "off < 64"
    using st md5_blocks_append [of m p md5_start] by (simp_all add: left_def off_def)
  have app: "md5_append p st =
    (if off \<noteq> 0 then
       let copy = (if off + length p > 64 then 64 - off else length p);
           st2 = st1\<lparr>md_buf := left @ take copy p @ drop (off + copy) (md_buf st)\<rparr>
       in if off + copy < 64 then st2
          else md5_rest (drop copy p) (st2\<lparr>md_abcd := md5_process (md_buf st2) (md_abcd st)\<rparr>)
     else md5_rest p st1)"
    using False st md5_offset [of "length m"] c by (simp add: md5_append_def off_def st1_def left_def Let_def)
  show ?thesis
  proof (cases "off + length p < 64")
    case True
    then have "(length m + length p) mod 64 = off + length p" by (simp add: off_def mod_add_left_eq [of "length m", symmetric])
    with True st l b c show ?thesis
      by (cases "off = 0") (auto simp: app md5_repr_def Let_def md5_rest_def)
  next
    case long: False
    show ?thesis
    proof (cases "off = 0")
      case True
      with b l c st show ?thesis by (auto simp: app intro!: md5_rest_repr)
    next
      case off: False
      let ?b = "left @ take (64 - off) p"
      have "length ?b = 64" "left @ p = ?b @ drop (64 - off) p" using long l by simp_all
      with b have "md5_blocks (m @ p) md5_start = md5_blocks (drop (64 - off) p) (md5_process ?b (md_abcd st))"
        by (metis md5_blocks_one)
      moreover have "md5_append p st =
        md5_rest (drop (64 - off) p) (st1\<lparr>md_buf := ?b, md_abcd := md5_process ?b (md_abcd st)\<rparr>)"
        using off long st l by (auto simp: app Let_def)
      ultimately show ?thesis
        using \<open>length ?b = 64\<close> c by (auto intro!: md5_rest_repr)
    qed
  qed
qed (use assms in \<open>simp add: md5_append_def Let_def\<close>)

lemma md5_init_repr: "length buf = 64 \<Longrightarrow> md5_repr (md5_init buf) []"
  by (simp add: md5_repr_def md5_init_def md5_start_def)

lemma md5_pad_length: "unat ((55 - drop_bit 3 (of_nat (8 * l) :: u32)) AND 63) = (119 - l mod 64) mod 64"
proof -
  define x where "x = drop_bit 3 (of_nat (8 * l) :: u32)"
  have m: "(63 :: u32) = mask 6" by (simp add: mask_eq_exp_minus_1)
  have u: "unat (w AND 63) = unat w mod 64" for w :: u32
    unfolding m take_bit_eq_mask [symmetric] unsigned_take_bit_eq by (simp add: take_bit_eq_mod)
  have "unat x mod 64 = l mod 64" using md5_offset [of l] u [of x] by (simp add: x_def del: of_nat_mult)
  moreover have "int k mod 64 = int l mod 64" if "k mod 64 = l mod 64" for k
    using arg_cong [OF that, of int] by (simp add: zmod_int)
  ultimately have r: "int (unat x) mod 64 = int l mod 64" by blast
  have "int (unat (55 - x) mod 64) = int (unat (55 - x)) mod 64" by (simp add: zmod_int)
  also have "\<dots> = (55 - int (unat x)) mod 64"
  proof (cases "unat x \<le> 55")
    case False
    then have "int (unat (55 - x)) = 55 - int (unat x) + 64 * 67108864"
      using unat_u32_less [of x] by (simp add: unat_minus_u32)
    then show ?thesis by (simp only: mod_mult_self2)
  qed (simp add: unat_minus_u32)
  also have "\<dots> = (55 - int l mod 64) mod 64" using mod_diff_right_eq [of 55 "int (unat x)" 64] r by simp
  also have "\<dots> = (119 - int l mod 64) mod 64" using mod_add_self2 [of "55 - int l mod 64" 64] by simp
  also have "\<dots> = int ((119 - l mod 64) mod 64)" by (simp add: of_nat_diff of_nat_mod zmod_int)
  finally show ?thesis unfolding of_nat_eq_iff using u [of "55 - x"] by (simp only: x_def)
qed

lemma md5_finish_repr:
  assumes "md5_repr st m"
  shows "fst (md5_finish st) = rfc1321 m \<and> length (md_buf (snd (md5_finish st))) = 64"
proof -
  define n where "n = unat ((55 - drop_bit 3 (md_count0 st)) AND 63)"
  define pad where "pad = 0x80 # replicate n (0 :: u8)"
  define len where "len = le32b (md_count0 st) @ le32b (md_count1 st)"
  have n: "n = (119 - length m mod 64) mod 64"
    using assms by (simp add: n_def md5_repr_def md5_pad_length del: of_nat_mult)
  have "n < 64" by (simp add: n)
  then have p: "take (n + 1) (0x80 # replicate 63 0) = pad" by (simp add: pad_def)
  have "md5_repr (md5_append len (md5_append pad st)) ((m @ pad) @ len)"
    by (intro md5_append_repr assms)
  moreover have "(m @ pad) @ len = md5_pad m"
    using assms by (simp add: md5_pad_def pad_def len_def md5_repr_def n of_nat_div_eq)
  ultimately show ?thesis
    using p by (simp add: md5_finish_def Let_def rfc1321_def md5_repr_def flip: n_def len_def)
qed

lemma md5_pieces_repr: "md5_repr st m \<Longrightarrow> md5_repr (fold md5_append pieces st) (m @ concat pieces)"
proof (induction pieces arbitrary: st m)
  case (Cons p pieces)
  from Cons.IH [OF md5_append_repr [OF Cons.prems]] show ?case by simp
qed simp

lemma md5_message:
  assumes "length buf = 64"
  shows "fst (md5_finish (fold md5_append pieces (md5_init buf))) = rfc1321 (concat pieces) \<and>
    length (md_buf (snd (md5_finish (fold md5_append pieces (md5_init buf))))) = 64"
  using md5_finish_repr [OF md5_pieces_repr [OF md5_init_repr [OF assms], of pieces]] by simp

text \<open>The first test vector of RFC 1321 with more than one letter.\<close>

lemma md5_abc: "rfc1321 [97, 98, 99] =
    [0x90, 0x01, 0x50, 0x98, 0x3c, 0xd2, 0x4f, 0xb0, 0xd6, 0x96, 0x3f, 0x7d, 0x28, 0xe1, 0x7f, 0x72]"
  by code_simp



end
