(* ===== verification/Http_Auth.thy ===== *)
theory Http_Auth
  imports Base64 Md5
begin

text \<open>
  \<open>redsocks/http-auth.c\<close>: the answers of the HTTP proxy client to an authentication challenge, basic and
  digest. C strings are lists of characters without their terminating zero. \<open>None\<close> of an outer option is
  a write outside a buffer; \<open>None\<close> of an inner one is the code's \<open>NULL\<close>.
\<close>

definition c_bytes :: "string \<Rightarrow> bytes" where
  "c_bytes s = map of_char s"

section \<open>Basic authentication\<close>

definition basic_authentication_encode :: "string \<Rightarrow> string \<Rightarrow> string option" where
  "basic_authentication_encode user passwd =
     (let pair = user @ '':'' @ passwd; basic_len = BASE64_SIZE (int (length pair))
      in base64_encode basic_len (c_bytes pair))"

section \<open>Parameters\<close>

text \<open>
  The value after the equals sign and what follows it. What follows a closing quote is skipped up to the
  separator.
\<close>

definition extract_value :: "char \<Rightarrow> string \<Rightarrow> (string \<times> string) option" where
  "extract_value separator p =
     (if take 1 p = [CHR 0x22] then
        let value = takeWhile (\<lambda>c. c \<noteq> CHR 0x22) (drop 1 p);
            rest = drop (1 + length value) p in
        if rest = [] then None
        else Some (value, drop 1 (dropWhile (\<lambda>c. c \<noteq> separator) (dropWhile isspace (drop 1 rest))))
      else
        let value = takeWhile (\<lambda>c. c \<noteq> separator) p
        in Some (rev (dropWhile isspace (rev value)), drop (1 + length value) p))"

text \<open>
  A name, its value and the rest of the line; \<open>None\<close> when there is no more parameter or it is malformed.
\<close>

definition extract_param :: "char \<Rightarrow> string \<Rightarrow> (string \<times> string \<times> string) option" where
  "extract_param separator source =
     (let p = dropWhile isspace source;
          name = takeWhile (\<lambda>c. \<not> isspace c \<and> c \<noteq> CHR ''='' \<and> c \<noteq> separator) p in
      if name = [] then None
      else case dropWhile isspace (drop (length name) p) of
        [] \<Rightarrow> Some (name, [], [])
      | c # q \<Rightarrow>
          if c = separator then Some (name, [], q)
          else if c \<noteq> CHR ''='' then None
          else map_option (Pair name) (extract_value separator (dropWhile isspace q)))"

definition tolower :: "char \<Rightarrow> char" where
  "tolower c = (let n = (of_char c :: nat) in if 65 \<le> n \<and> n \<le> 90 then char_of (n + 32) else c)"

text \<open>\<open>strncasecmp\<close> compared with zero.\<close>

fun strncaseeq :: "string \<Rightarrow> string \<Rightarrow> nat \<Rightarrow> bool" where
  "strncaseeq s t 0 \<longleftrightarrow> True"
| "strncaseeq [] [] (Suc n) \<longleftrightarrow> True"
| "strncaseeq (a # s) (b # t) (Suc n) \<longleftrightarrow> tolower a = tolower b \<and> strncaseeq s t n"
| "strncaseeq _ _ (Suc n) \<longleftrightarrow> False"

record digest_params =
  dg_realm :: "string option"
  dg_opaque :: "string option"
  dg_nonce :: "string option"
  dg_qop :: "string option"

definition digest_param :: "string \<Rightarrow> string \<Rightarrow> digest_params \<Rightarrow> digest_params" where
  "digest_param name value d =
     (let n = length name in
      if strncaseeq name ''realm'' n then d\<lparr>dg_realm := Some value\<rparr>
      else if strncaseeq name ''opaque'' n then d\<lparr>dg_opaque := Some value\<rparr>
      else if strncaseeq name ''nonce'' n then d\<lparr>dg_nonce := Some value\<rparr>
      else if strncaseeq name ''qop'' n then d\<lparr>dg_qop := Some value\<rparr>
      else d)"

lemma extract_value_shorter:
  assumes "extract_value separator p = Some (value, rest)"
  shows "length rest \<le> length p"
proof -
  have d: "length (dropWhile P (dropWhile Q (drop n p))) - k \<le> length p" for P Q n k
    using length_dropWhile_le [of P "dropWhile Q (drop n p)"] length_dropWhile_le [of Q "drop n p"] by simp
  show ?thesis using assms by (auto simp: extract_value_def Let_def intro: d split: if_splits)
qed

lemma extract_param_shorter:
  assumes "extract_param separator source = Some (name, value, rest)"
  shows "length rest < length source"
proof -
  define p where "p = dropWhile isspace source"
  define n where "n = takeWhile (\<lambda>c. \<not> isspace c \<and> c \<noteq> CHR ''='' \<and> c \<noteq> separator) p"
  define q where "q = dropWhile isspace (drop (length n) p)"
  note e = assms [unfolded extract_param_def Let_def, folded p_def, folded n_def, folded q_def]
  have "n \<noteq> []" using e by (auto split: if_splits)
  then have "length n > 0" "length n \<le> length p" by (simp_all add: n_def length_takeWhile_le)
  moreover have "length q \<le> length p - length n" using length_dropWhile_le [of isspace "drop (length n) p"] by (simp add: q_def)
  moreover have "length p \<le> length source" by (simp add: p_def length_dropWhile_le)
  ultimately have q: "length q < length source" by linarith
  show ?thesis
  proof (cases q)
    case Nil
    with e q show ?thesis by (auto split: if_splits)
  next
    case (Cons c r)
    have "length rest \<le> length r"
      using e Cons length_dropWhile_le [of isspace r]
      by (auto split: if_splits dest: extract_value_shorter)
    with Cons q show ?thesis by simp
  qed
qed

function digest_params_of :: "string \<Rightarrow> digest_params \<Rightarrow> digest_params" where
  "digest_params_of ptr d = (case extract_param (CHR '','') ptr of
       None \<Rightarrow> d
     | Some (name, value, ptr) \<Rightarrow> digest_params_of ptr (digest_param name value d))"
  by auto
termination
  by (relation "measure (\<lambda>(ptr, d). length ptr)") (auto dest: extract_param_shorter)

declare digest_params_of.simps [simp del]

section \<open>Digest authentication\<close>

definition hex02 :: "u8 \<Rightarrow> string" where
  "hex02 b = [''0123456789abcdef'' ! unat (drop_bit 4 b), ''0123456789abcdef'' ! unat (b AND 0x0F)]"

definition dump_hash :: "bytes \<Rightarrow> string" where
  "dump_hash hash = concat (map hex02 hash)"

text \<open>One digest: the context is a local variable that is initialised again for each.\<close>

definition digest_hash :: "string list \<Rightarrow> bytes \<Rightarrow> string \<times> bytes" where
  "digest_hash pieces buf =
     (let (hash, ctx) = md5_finish (fold md5_append (map c_bytes pieces) (md5_init buf))
      in (dump_hash hash, md_buf ctx))"

definition digest_text :: "string \<Rightarrow> string \<Rightarrow> string \<Rightarrow> string \<Rightarrow> string \<Rightarrow> string option \<Rightarrow> string \<Rightarrow> string \<Rightarrow>
    string option \<Rightarrow> string" where
  "digest_text user realm nonce path response qop nc cnonce opaque =
     ''username=\"'' @ user @ ''\", realm=\"'' @ realm @ ''\", nonce=\"'' @ nonce @ ''\", uri=\"'' @ path
       @ ''\", response=\"'' @ response @ ''\"''
       @ (case qop of None \<Rightarrow> []
          | Some q \<Rightarrow> '', qop='' @ q @ '', nc='' @ nc @ '', cnonce=\"'' @ cnonce @ ''\"'')
       @ (case opaque of None \<Rightarrow> [] | Some o' \<Rightarrow> '', opaque=\"'' @ o' @ ''\"'')"

definition digest_len :: "string \<Rightarrow> string \<Rightarrow> string \<Rightarrow> string \<Rightarrow> string \<Rightarrow> string option \<Rightarrow> string \<Rightarrow> string \<Rightarrow>
    string option \<Rightarrow> nat" where
  "digest_len user realm nonce path response qop nc cnonce opaque =
     256 + length user + length realm + length nonce + length path + length response
       + (case qop of None \<Rightarrow> 0 | Some q \<Rightarrow> length q + length nc + length cnonce)
       + (case opaque of None \<Rightarrow> 0 | Some o' \<Rightarrow> length o')"

definition digest_authentication_encode :: "string \<Rightarrow> string option \<Rightarrow> string option \<Rightarrow> string option \<Rightarrow>
    string option \<Rightarrow> int \<Rightarrow> string \<Rightarrow> bytes \<Rightarrow> string option option" where
  "digest_authentication_encode line user passwd method path count cnonce buf =
     (let nc = dump_hash (be32b (of_int count));
          d = digest_params_of line \<lparr>dg_realm = None, dg_opaque = None, dg_nonce = None, dg_qop = None\<rparr> in
      case (dg_realm d, dg_nonce d, user, passwd, path, method) of
        (Some realm, Some nonce, Some user, Some passwd, Some path, Some method) \<Rightarrow>
          if (case dg_qop d of None \<Rightarrow> False | Some q \<Rightarrow> \<not> strncaseeq q ''auth'' 5) then Some None
          else
            let (a1buf, buf) = digest_hash [user, '':'', realm, '':'', passwd] buf;
                (a2buf, buf) = digest_hash [method, '':'', path] buf;
                (response, buf) = digest_hash ([a1buf, '':'', nonce, '':'']
                   @ (case dg_qop d of None \<Rightarrow> [] | Some q \<Rightarrow> [nc, '':'', cnonce, '':'', q, '':'']) @ [a2buf]) buf;
                res = digest_text user realm nonce path response (dg_qop d) nc cnonce (dg_opaque d);
                len = digest_len user realm nonce path response (dg_qop d) nc cnonce (dg_opaque d)
            in if length res + 1 \<le> len then Some (Some res) else None
      | _ \<Rightarrow> Some None)"

section \<open>Properties\<close>

lemma c_bytes_simps [simp]: "c_bytes [] = []" "c_bytes (s @ t) = c_bytes s @ c_bytes t" "length (c_bytes s) = length s"
  by (simp_all add: c_bytes_def)

lemma concat_c_bytes: "concat (map c_bytes pieces) = c_bytes (concat pieces)"
  by (induction pieces) simp_all

text \<open>Basic credentials decode to the user and the password.\<close>

lemma basic_authentication_decodes:
  assumes "length user + length passwd < 1073741822"
  shows "\<exists>s. basic_authentication_encode user passwd = Some s \<and>
    base64_decode s (int (length user + 1 + length passwd)) = Some (c_bytes (user @ '':'' @ passwd))"
proof -
  let ?p = "c_bytes (user @ '':'' @ passwd)"
  have l: "length ?p = length user + 1 + length passwd" by (simp add: c_bytes_def)
  then have "length ?p < 1073741823" using assms by simp
  from base64_encode_rfc4648 [OF this order_refl] b64_decode_digits [of 0 ?p _ 0 "length ?p"] show ?thesis
    unfolding l [symmetric]
    by (simp only: basic_authentication_encode_def base64_decode_def rfc4648_def Let_def nat_int c_bytes_simps(3)) simp
qed

text \<open>The digest of RFC 2617.\<close>

definition md5_hex :: "string \<Rightarrow> string" where
  "md5_hex s = dump_hash (rfc1321 (c_bytes s))"

definition rfc2617_response :: "string \<Rightarrow> string \<Rightarrow> string \<Rightarrow> string \<Rightarrow> string \<Rightarrow> string \<Rightarrow> string option \<Rightarrow> string \<Rightarrow> string \<Rightarrow> string" where
  "rfc2617_response user realm passwd method path nonce qop nc cnonce =
     md5_hex (md5_hex (user @ '':'' @ realm @ '':'' @ passwd) @ '':'' @ nonce @ '':''
       @ (case qop of None \<Rightarrow> [] | Some q \<Rightarrow> nc @ '':'' @ cnonce @ '':'' @ q @ '':'')
       @ md5_hex (method @ '':'' @ path))"

lemma digest_hash_spec:
  assumes "length buf = 64"
  obtains buf' where "digest_hash pieces buf = (md5_hex (concat pieces), buf')" "length buf' = 64"
  using md5_message [OF assms, of "map c_bytes pieces"]
  by (auto simp: digest_hash_def md5_hex_def concat_c_bytes case_prod_unfold)

lemma digest_text_fits: "length (digest_text user realm nonce path response qop nc cnonce opaque) + 1
    \<le> digest_len user realm nonce path response qop nc cnonce opaque"
  by (simp add: digest_text_def digest_len_def split: option.split)

text \<open>A challenge as servers write it: names with quoted values, separated by a comma and a blank.\<close>

fun render_params :: "(string \<times> string) list \<Rightarrow> string" where
  "render_params [] = []"
| "render_params [(n, v)] = n @ ''=\"'' @ v @ ''\"''"
| "render_params ((n, v) # ps) = n @ ''=\"'' @ v @ ''\", '' @ render_params ps"

fun param_ok :: "string \<times> string \<Rightarrow> bool" where
  "param_ok (n, v) \<longleftrightarrow> n \<noteq> [] \<and> (\<forall>c\<in>set n. \<not> isspace c \<and> c \<noteq> CHR ''='' \<and> c \<noteq> CHR '','') \<and> CHR 0x22 \<notin> set v"

lemma isspace_chars [simp]: "isspace (CHR '' '')" "\<not> isspace (CHR ''='')" "\<not> isspace (CHR '','')" "\<not> isspace (CHR 0x22)"
  by (simp_all add: isspace_def)

lemma extract_param_quoted:
  assumes "param_ok (n, v)"
  shows "extract_param (CHR '','') (n @ ''=\"'' @ v @ ''\"'' @ rest) =
    Some (n, v, drop 1 (dropWhile (\<lambda>c. c \<noteq> CHR '','') (dropWhile isspace rest)))"
proof -
  let ?P = "\<lambda>c. \<not> isspace c \<and> c \<noteq> CHR ''='' \<and> c \<noteq> CHR '',''"
  let ?s = "n @ ''=\"'' @ v @ ''\"'' @ rest"
  have d: "dropWhile isspace ?s = ?s" using assms by (cases n) auto
  have t: "takeWhile ?P ?s = n" using assms by (auto simp: takeWhile_append2)
  have v: "takeWhile (\<lambda>c. c \<noteq> CHR 0x22) (v @ ''\"'' @ rest) = v" using assms by (subst takeWhile_append2) auto
  show ?thesis
    using assms v unfolding extract_param_def d Let_def t by (simp add: extract_value_def)
qed

lemma digest_params_of_blank: "digest_params_of (CHR '' '' # s) d = digest_params_of s d"
  by (simp add: digest_params_of.simps [of "_ # s"] digest_params_of.simps [of s] extract_param_def)

lemma digest_params_of_render:
  "\<forall>p\<in>set ps. param_ok p \<Longrightarrow> digest_params_of (render_params ps) d = fold (\<lambda>(n, v). digest_param n v) ps d"
proof (induction ps arbitrary: d rule: render_params.induct)
  case 1
  then show ?case by (simp add: digest_params_of.simps extract_param_def)
next
  case (2 n v)
  with extract_param_quoted [of n v "[]"] show ?case
    by (simp add: digest_params_of.simps [of "n @ _"] digest_params_of.simps [of "[]"] extract_param_def [of _ "[]"])
next
  case (3 n v p ps)
  with extract_param_quoted [of n v "'', '' @ render_params (p # ps)"] show ?case
    by (simp add: digest_params_of.simps [of "n @ _"] digest_params_of_blank)
qed



end
