(* ===== verification/Redsocks.thy ===== *)
theory Redsocks
  imports Bufferevent Http_Auth
begin

text \<open>
  \<open>redsocks/redsocks.c\<close> and \<open>redsocks/utils.c\<close>: one connection of the transparent proxy. A client has two
  buffered sockets, the one of the program that was redirected and the one to the proxy server, its
  relay. What the code keeps twice in one struct, once for each of them, is a function of the side here.
\<close>

section \<open>Clients\<close>

datatype rs_side = Client | Relay

fun other_side :: "rs_side \<Rightarrow> rs_side" where
  "other_side Client = Relay"
| "other_side Relay = Client"

text \<open>
  The callbacks of a buffered socket; \<open>Cb_Ss_Read\<close> and \<open>Cb_Ss_Write\<close> are those of the relay subsystem for the
  proxy server, \<open>Cb_Ss_Client\<close> is the one by which the relay of plain HTTP reads from the client.
\<close>

datatype rs_cb = Cb_Connected | Cb_Ss_Read | Cb_Ss_Write | Cb_Ss_Client | Cb_Relay_Read rs_side | Cb_Relay_Write rs_side

type_synonym rs_bev = "rs_cb bufferevent"

record redsocks_config =
  rcfg_login :: "string option"
  rcfg_password :: "string option"
  rcfg_min_backoff_ms :: u16
  rcfg_max_backoff_ms :: u16

text \<open>The part of the instance that HTTP proxies use, which all clients of the instance share.\<close>

record http_auth =
  last_auth_query :: "string option"
  last_auth_count :: int

text \<open>
  The part of a client that the relay of plain HTTP uses (\<open>http-relay.c\<close>): growing buffers, whose memory
  is \<open>None\<close> once it has been freed and whose length is that of the data, and the request.
\<close>

record httpr_buffer =
  hb_buff :: "bytes option"
  hb_max_len :: nat

record httpr_client =
  httpr_firstline :: "string option"
  httpr_host :: "string option"
  httpr_has_host :: bool
  httpr_client_buffer :: httpr_buffer
  httpr_relay_buffer :: httpr_buffer

record redsocks_client =
  rc_bev :: "rs_side \<Rightarrow> rs_bev option"
  rc_destaddr :: bytes
  rc_destport :: u16
  rc_state :: nat
  rc_shut_rd :: "rs_side \<Rightarrow> bool"
  rc_shut_wr :: "rs_side \<Rightarrow> bool"
  rc_last_event :: int
  rc_do_password :: bool
  rc_to_skip :: nat
  rc_auth :: http_auth
  rc_httpr :: httpr_client

text \<open>
  What a handler leaves: the client, or \<open>None\<close> when it has been freed, and the calls made. The outer
  \<open>None\<close> is undefined behaviour: a null pointer followed, a failed assertion, a freed client used.
\<close>

type_synonym rs_result = "(redsocks_client option \<times> be_calls) option"

text \<open>
  A relay subsystem: its callbacks, the initialisation of a client, and, if it has one, what it does
  with an accepted client, whose socket is given, instead of connecting it to the proxy server.
\<close>

record relay_subsys =
  ss_readcb :: "be_os \<Rightarrow> redsocks_config \<Rightarrow> redsocks_client \<Rightarrow> be_calls \<Rightarrow> rs_result"
  ss_writecb :: "be_os \<Rightarrow> redsocks_config \<Rightarrow> redsocks_client \<Rightarrow> be_calls \<Rightarrow> rs_result"
  ss_clientcb :: "(be_os \<Rightarrow> redsocks_config \<Rightarrow> redsocks_client \<Rightarrow> be_calls \<Rightarrow> rs_result) option"
  ss_init :: "redsocks_config \<Rightarrow> redsocks_client \<Rightarrow> redsocks_client"
  ss_connect_relay :: "(be_os \<Rightarrow> rs_bev \<Rightarrow> redsocks_client \<Rightarrow> be_calls \<Rightarrow> redsocks_client option \<times> be_calls) option"

abbreviation set_bev :: "rs_side \<Rightarrow> rs_bev \<Rightarrow> redsocks_client \<Rightarrow> redsocks_client" where
  "set_bev side b c \<equiv> c\<lparr>rc_bev := (rc_bev c)(side := Some b)\<rparr>"

definition redsocks_touch_client :: "be_os \<Rightarrow> redsocks_client \<Rightarrow> be_calls \<Rightarrow> redsocks_client \<times> be_calls" where
  "redsocks_touch_client os c cs = (c\<lparr>rc_last_event := bo_time os cs\<rparr>, Be_Time # cs)"

section \<open>Dropping and shutting down\<close>

definition close_bev :: "rs_bev option \<Rightarrow> be_calls \<Rightarrow> be_calls" where
  "close_bev b cs = (case b of None \<Rightarrow> cs | Some b \<Rightarrow> Be_Close (be_fd b) # cs)"

definition redsocks_drop_client :: "redsocks_client \<Rightarrow> be_calls \<Rightarrow> redsocks_client option \<times> be_calls" where
  "redsocks_drop_client c cs = (None, close_bev (rc_bev c Relay) (close_bev (rc_bev c Client) cs))"

definition all_shut :: "redsocks_client \<Rightarrow> bool" where
  "all_shut c \<longleftrightarrow> rc_shut_rd c Relay \<and> rc_shut_wr c Relay \<and> rc_shut_rd c Client \<and> rc_shut_wr c Client"

definition redsocks_shutdown :: "rs_side \<Rightarrow> shut_how \<Rightarrow> redsocks_client \<Rightarrow> be_calls \<Rightarrow> rs_result" where
  "redsocks_shutdown side how c cs =
     do {
       b \<leftarrow> rc_bev c side;
       let cs = (if how = Shut_Rd \<and> rc_shut_wr c side then cs else Be_Shutdown (be_fd b) how # cs);
       let rd = (how \<noteq> Shut_Wr);
       let wr = (how \<noteq> Shut_Rd);
       let c = set_bev side (bufferevent_disable rd wr b) c;
       let c = c\<lparr>rc_shut_rd := (rc_shut_rd c)(side := rc_shut_rd c side \<or> rd),
                 rc_shut_wr := (rc_shut_wr c)(side := rc_shut_wr c side \<or> wr)\<rparr>;
       Some (if all_shut c then redsocks_drop_client c cs else (Some c, cs))
     }"

text \<open>
  The event callback of both sockets. After the shutdown of the reading side the client is used again,
  so it must not have been freed.
\<close>

definition redsocks_event_error :: "be_os \<Rightarrow> rs_side \<Rightarrow> be_what \<Rightarrow> redsocks_client \<Rightarrow> be_calls \<Rightarrow> rs_result" where
  "redsocks_event_error os side what c cs =
     (let (c, cs) = redsocks_touch_client os c cs in
      if what = Reading_Eof then
        do {
          (c', cs) \<leftarrow> redsocks_shutdown side Shut_Rd c cs;
          c \<leftarrow> c';
          case rc_bev c (other_side side) of
            None \<Rightarrow> Some (Some c, cs)
          | Some anti \<Rightarrow> if be_output anti = [] then redsocks_shutdown (other_side side) Shut_Wr c cs else Some (Some c, cs)
        }
      else
        do {
          b \<leftarrow> rc_bev c side;
          Some (redsocks_drop_client c (Be_Getsockopt (be_fd b) # cs))
        })"

section \<open>Relaying\<close>

definition REDSOCKS_RELAY_HALFBUFF :: nat where "REDSOCKS_RELAY_HALFBUFF = 4096"

text \<open>Moving what has been read from one side to the output of the other.\<close>

definition rs_move :: "be_os \<Rightarrow> rs_side \<Rightarrow> rs_bev \<Rightarrow> rs_bev \<Rightarrow> redsocks_client \<Rightarrow> be_calls \<Rightarrow> redsocks_client \<times> be_calls" where
  "rs_move os from f t c cs =
     (let (t, cs) = bufferevent_write_buffer os (be_input f) t cs
      in (set_bev (other_side from) t (set_bev from (f\<lparr>be_input := []\<rparr>) c), cs))"

definition redsocks_relay_readcb :: "be_os \<Rightarrow> rs_side \<Rightarrow> redsocks_client \<Rightarrow> be_calls \<Rightarrow> rs_result" where
  "redsocks_relay_readcb os from c cs =
     do {
       f \<leftarrow> rc_bev c from;
       t \<leftarrow> rc_bev c (other_side from);
       if length (be_output t) < be_write_high t
       then let (c, cs) = rs_move os from f t c cs in Some (Some c, cs)
       else Some (Some (set_bev from (bufferevent_disable True False f) c), cs)
     }"

definition redsocks_relay_writecb :: "be_os \<Rightarrow> rs_side \<Rightarrow> redsocks_client \<Rightarrow> be_calls \<Rightarrow> rs_result" where
  "redsocks_relay_writecb os from c cs =
     do {
       f \<leftarrow> rc_bev c from;
       t \<leftarrow> rc_bev c (other_side from);
       if be_input f = [] \<and> rc_shut_rd c from then redsocks_shutdown (other_side from) Shut_Wr c cs
       else if length (be_output t) < be_write_high t then
         do {
           let (c, cs) = rs_move os from f t c cs;
           f \<leftarrow> rc_bev c from;
           let (ok, f, cs) = bufferevent_enable os True False f cs;
           Some (Some (set_bev from f c), cs)
         }
       else Some (Some c, cs)
     }"

text \<open>The read callback of a side moves from it, the write callback of a side moves to it.\<close>

definition relay_readcb :: "be_os \<Rightarrow> rs_side \<Rightarrow> redsocks_client \<Rightarrow> be_calls \<Rightarrow> rs_result" where
  "relay_readcb os side c cs =
     (let (c, cs) = redsocks_touch_client os c cs in redsocks_relay_readcb os side c cs)"

definition relay_writecb :: "be_os \<Rightarrow> rs_side \<Rightarrow> redsocks_client \<Rightarrow> be_calls \<Rightarrow> rs_result" where
  "relay_writecb os side c cs =
     (let (c, cs) = redsocks_touch_client os c cs in redsocks_relay_writecb os (other_side side) c cs)"

definition relay_bev :: "rs_side \<Rightarrow> rs_bev \<Rightarrow> rs_bev" where
  "relay_bev side b =
     b\<lparr>be_read_low := 0, be_write_low := 0,
       be_read_high := REDSOCKS_RELAY_HALFBUFF, be_write_high := REDSOCKS_RELAY_HALFBUFF,
       be_readcb := Some (Cb_Relay_Read side), be_writecb := Some (Cb_Relay_Write side)\<rparr>"

definition redsocks_start_relay :: "be_os \<Rightarrow> redsocks_client \<Rightarrow> be_calls \<Rightarrow> rs_result" where
  "redsocks_start_relay os c cs =
     do {
       b \<leftarrow> rc_bev c Client;
       r \<leftarrow> rc_bev c Relay;
       let (ok, b, cs) = bufferevent_enable os True True (relay_bev Client b) cs;
       let (ok, r, cs) = (if ok then bufferevent_enable os True True (relay_bev Relay r) cs
                          else (False, relay_bev Relay r, cs));
       let c = set_bev Relay r (set_bev Client b c);
       Some (if ok then (Some c, cs) else redsocks_drop_client c cs)
     }"

section \<open>Helpers of the relay subsystems\<close>

type_synonym size_comparator = "nat \<Rightarrow> nat \<Rightarrow> bool"

definition sizes_equal :: size_comparator where "sizes_equal a b \<longleftrightarrow> a = b"
definition sizes_greater_equal :: size_comparator where "sizes_greater_equal a b \<longleftrightarrow> a \<ge> b"

text \<open>The data with the client, or what is left after the client was dropped.\<close>

definition redsocks_read_expected :: "size_comparator \<Rightarrow> nat \<Rightarrow> redsocks_client \<Rightarrow> be_calls \<Rightarrow>
    (redsocks_client option \<times> be_calls + bytes \<times> redsocks_client) option" where
  "redsocks_read_expected comparator expected c cs =
     do {
       b \<leftarrow> rc_bev c Relay;
       if comparator (length (be_input b)) expected then
         if expected \<le> length (be_input b)
         then Some (Inr (take expected (be_input b), set_bev Relay (b\<lparr>be_input := drop expected (be_input b)\<rparr>) c))
         else None
       else Some (Inl (redsocks_drop_client c cs))
     }"

definition redsocks_write_helper_ex :: "be_os \<Rightarrow> bytes option \<Rightarrow> nat \<Rightarrow> nat \<Rightarrow> nat \<Rightarrow> redsocks_client \<Rightarrow> be_calls \<Rightarrow> rs_result" where
  "redsocks_write_helper_ex os message state wm_low wm_high c cs =
     do {
       b \<leftarrow> rc_bev c Relay;
       let (b, cs) = (case message of None \<Rightarrow> (b, cs) | Some buff \<Rightarrow> bufferevent_write_buffer os buff b cs);
       let c = c\<lparr>rc_state := state\<rparr>;
       let b = b\<lparr>be_read_low := wm_low, be_read_high := wm_high\<rparr>;
       let (ok, b, cs) = bufferevent_enable os True False b cs;
       Some (Some (set_bev Relay b c), cs)
     }"

definition redsocks_write_helper :: "be_os \<Rightarrow> bytes option \<Rightarrow> nat \<Rightarrow> nat \<Rightarrow> redsocks_client \<Rightarrow> be_calls \<Rightarrow> rs_result" where
  "redsocks_write_helper os message state wm_only c cs = redsocks_write_helper_ex os message state wm_only wm_only c cs"

section \<open>Connecting to the proxy server\<close>

text \<open>
  \<open>fcntl_nonblock\<close>, \<open>apply_tcp_keepalive\<close> and \<open>connect\<close> are answers of the system; a \<open>connect\<close> in progress
  is a success.
\<close>

definition red_connect_relay :: "be_os \<Rightarrow> be_calls \<Rightarrow> rs_bev option \<times> be_calls" where
  "red_connect_relay os cs =
     (let fd = bo_socket os cs in
      if fd = -1 then (None, cs)
      else let cs = Be_Open fd # cs in
      if \<not> bo_nonblock os cs fd \<or> \<not> bo_keepalive os cs fd \<or> \<not> bo_connect os cs fd then (None, Be_Close fd # cs)
      else
        let (ok, b, cs) = bufferevent_enable os False True (bufferevent_new fd None (Some Cb_Connected)) cs
        in if ok then (Some b, cs) else (None, Be_Close fd # cs))"

definition redsocks_connect_relay :: "be_os \<Rightarrow> redsocks_client \<Rightarrow> be_calls \<Rightarrow> redsocks_client option \<times> be_calls" where
  "redsocks_connect_relay os c cs =
     (case red_connect_relay os cs of
        (None, cs) \<Rightarrow> redsocks_drop_client (c\<lparr>rc_bev := (rc_bev c)(Relay := None)\<rparr>) cs
      | (Some r, cs) \<Rightarrow> (Some (set_bev Relay r c), cs))"

definition red_is_socket_connected_ok :: "be_os \<Rightarrow> rs_bev \<Rightarrow> be_calls \<Rightarrow> bool \<times> be_calls" where
  "red_is_socket_connected_ok os b cs = (bo_so_error os cs (be_fd b) = 0, Be_Getsockopt (be_fd b) # cs)"

definition redsocks_relay_connected :: "be_os \<Rightarrow> relay_subsys \<Rightarrow> redsocks_config \<Rightarrow> redsocks_client \<Rightarrow> be_calls \<Rightarrow> rs_result" where
  "redsocks_relay_connected os ss cfg c cs =
     (let (c, cs) = redsocks_touch_client os c cs in
      do {
        r \<leftarrow> rc_bev c Relay;
        let (ok, cs) = red_is_socket_connected_ok os r cs;
        if ok then ss_writecb ss os cfg (set_bev Relay (r\<lparr>be_readcb := Some Cb_Ss_Read, be_writecb := Some Cb_Ss_Write\<rparr>) c) cs
        else Some (redsocks_drop_client c cs)
      })"

section \<open>Events\<close>

fun run_cb :: "be_os \<Rightarrow> relay_subsys \<Rightarrow> redsocks_config \<Rightarrow> rs_cb \<Rightarrow> redsocks_client \<Rightarrow> be_calls \<Rightarrow> rs_result" where
  "run_cb os ss cfg Cb_Connected c cs = redsocks_relay_connected os ss cfg c cs"
| "run_cb os ss cfg Cb_Ss_Read c cs = ss_readcb ss os cfg c cs"
| "run_cb os ss cfg Cb_Ss_Write c cs = ss_writecb ss os cfg c cs"
| "run_cb os ss cfg Cb_Ss_Client c cs = (case ss_clientcb ss of None \<Rightarrow> None | Some cb \<Rightarrow> cb os cfg c cs)"
| "run_cb os ss cfg (Cb_Relay_Read side) c cs = relay_readcb os side c cs"
| "run_cb os ss cfg (Cb_Relay_Write side) c cs = relay_writecb os side c cs"

definition run_cb_option :: "be_os \<Rightarrow> relay_subsys \<Rightarrow> redsocks_config \<Rightarrow> rs_cb option \<Rightarrow> redsocks_client \<Rightarrow> be_calls \<Rightarrow> rs_result" where
  "run_cb_option os ss cfg cb c cs = (case cb of None \<Rightarrow> Some (Some c, cs) | Some cb \<Rightarrow> run_cb os ss cfg cb c cs)"

text \<open>The two events of a side, as the loop reports them when they are pending.\<close>

datatype rs_event = Readable | Writable

definition rs_pending :: "rs_side \<Rightarrow> rs_event \<Rightarrow> redsocks_client \<Rightarrow> bool" where
  "rs_pending side e c =
     (case rc_bev c side of None \<Rightarrow> False | Some b \<Rightarrow> (case e of Readable \<Rightarrow> be_ev_read b | Writable \<Rightarrow> be_ev_write b))"

definition rs_fire :: "be_os \<Rightarrow> relay_subsys \<Rightarrow> redsocks_config \<Rightarrow> rs_side \<Rightarrow> rs_event \<Rightarrow> redsocks_client \<Rightarrow> be_calls \<Rightarrow> rs_result" where
  "rs_fire os ss cfg side e c cs =
     do {
       b \<leftarrow> rc_bev c side;
       let (run, b, cs) = (case e of Readable \<Rightarrow> bufferevent_readcb os b cs | Writable \<Rightarrow> bufferevent_writecb os b cs);
       let c = set_bev side b c;
       case run of
         Run_Nothing \<Rightarrow> Some (Some c, cs)
       | Run_Readcb \<Rightarrow> run_cb_option os ss cfg (be_readcb b) c cs
       | Run_Writecb \<Rightarrow> run_cb_option os ss cfg (be_writecb b) c cs
       | Run_Eventcb what \<Rightarrow> redsocks_event_error os side what c cs
     }"

section \<open>Accepting\<close>

text \<open>
  The listener is off while the process is out of descriptors and a timer runs, for a delay in
  milliseconds that is doubled every time.
\<close>

record redsocks_instance =
  ri_backoff_ms :: u16
  ri_listening :: bool
  ri_backoff :: "int option"

definition clamp_value :: "u16 \<Rightarrow> u16 \<Rightarrow> u16 \<Rightarrow> u16" where
  "clamp_value v lo hi = (let v = (if v < lo then lo else v) in if v > hi then hi else v)"

definition redsocks_accept_backoff :: "redsocks_instance \<Rightarrow> redsocks_instance" where
  "redsocks_accept_backoff self = self\<lparr>ri_backoff := None, ri_listening := True\<rparr>"

definition redsocks_back_off :: "be_os \<Rightarrow> redsocks_config \<Rightarrow> redsocks_instance \<Rightarrow> be_calls \<Rightarrow> redsocks_instance \<times> be_calls" where
  "redsocks_back_off os cfg self cs =
     (let ms = clamp_value (push_bit 1 (ri_backoff_ms self) + 1) (rcfg_min_backoff_ms cfg) (rcfg_max_backoff_ms cfg);
          delay = bo_random os cs mod uint ms + 1
      in (self\<lparr>ri_backoff_ms := ms, ri_listening := False, ri_backoff := Some delay\<rparr>, Be_Rand # cs))"

definition no_httpr :: httpr_client where
  "no_httpr =
     \<lparr>httpr_firstline = None, httpr_host = None, httpr_has_host = False,
      httpr_client_buffer = \<lparr>hb_buff = None, hb_max_len = 0\<rparr>, httpr_relay_buffer = \<lparr>hb_buff = None, hb_max_len = 0\<rparr>\<rparr>"

definition new_client :: "bytes \<Rightarrow> u16 \<Rightarrow> http_auth \<Rightarrow> redsocks_client" where
  "new_client destaddr destport auth =
     \<lparr>rc_bev = (\<lambda>side. None), rc_destaddr = destaddr, rc_destport = destport, rc_state = 0,
      rc_shut_rd = (\<lambda>side. False), rc_shut_wr = (\<lambda>side. False), rc_last_event = 0, rc_do_password = False,
      rc_to_skip = 0, rc_auth = auth, rc_httpr = no_httpr\<rparr>"

text \<open>From an accepted descriptor on: the client, if it is still there, and what is to be closed is.\<close>

definition redsocks_accepted :: "be_os \<Rightarrow> relay_subsys \<Rightarrow> redsocks_config \<Rightarrow> http_auth \<Rightarrow> int \<Rightarrow> be_calls \<Rightarrow>
    redsocks_client option \<times> be_calls" where
  "redsocks_accepted os ss cfg auth fd cs =
     (if \<not> bo_getsockname os cs fd then (None, Be_Close fd # cs)
      else case bo_destaddr os cs fd of
        None \<Rightarrow> (None, Be_Close fd # cs)
      | Some (destaddr, destport) \<Rightarrow>
          if \<not> bo_keepalive os cs fd then (None, Be_Close fd # cs)
          else
            let c = ss_init ss cfg (new_client destaddr destport auth);
                first_event = bo_time os cs; cs = Be_Time # cs in
            if first_event = -1
            then (case redsocks_drop_client c cs of (c, cs) \<Rightarrow> (c, Be_Close fd # cs))
            else
              let (c, cs) = redsocks_touch_client os c cs;
                  (ok, b, cs) = bufferevent_enable os True False (bufferevent_new fd None None) cs;
                  c = set_bev Client b c
              in if \<not> ok then redsocks_drop_client c cs
                 else case ss_connect_relay ss of
                   None \<Rightarrow> redsocks_connect_relay os c cs
                 | Some connect_relay \<Rightarrow> connect_relay os b c cs)"

definition redsocks_accept_client :: "be_os \<Rightarrow> relay_subsys \<Rightarrow> redsocks_config \<Rightarrow> http_auth \<Rightarrow> redsocks_instance \<Rightarrow> be_calls \<Rightarrow>
    redsocks_instance \<times> redsocks_client option \<times> be_calls" where
  "redsocks_accept_client os ss cfg auth self cs =
     (case bo_accept os cs of
        Acc_No_Files \<Rightarrow> (case redsocks_back_off os cfg self cs of (self, cs) \<Rightarrow> (self, None, cs))
      | Acc_Fail \<Rightarrow> (self, None, cs)
      | Acc_Fd fd \<Rightarrow> (self\<lparr>ri_backoff_ms := 0\<rparr>, redsocks_accepted os ss cfg auth fd (Be_Open fd # cs)))"

end
