(* ===== verification/Socks.thy ===== *)
theory Socks
  imports Redsocks
begin

text \<open>
  \<open>redsocks/socks5.c\<close> and \<open>redsocks/socks4.c\<close>: the handshakes with SOCKS proxies. The states are the
  enumerators of the code; what is read and written is its packed structs as bytes.
\<close>

section \<open>SOCKS 5\<close>

abbreviation socks5_new :: nat where "socks5_new \<equiv> 0"
abbreviation socks5_method_sent :: nat where "socks5_method_sent \<equiv> 1"
abbreviation socks5_auth_sent :: nat where "socks5_auth_sent \<equiv> 2"
abbreviation socks5_request_sent :: nat where "socks5_request_sent \<equiv> 3"
abbreviation socks5_skip_domain :: nat where "socks5_skip_domain \<equiv> 4"
abbreviation socks5_skip_address :: nat where "socks5_skip_address \<equiv> 5"

definition socks5_is_valid_cred :: "string option \<Rightarrow> string option \<Rightarrow> bool" where
  "socks5_is_valid_cred login password =
     (case (login, password) of
        (Some l, Some p) \<Rightarrow> length l \<le> 255 \<and> length p \<le> 255
      | _ \<Rightarrow> False)"

definition socks5_client_init :: "redsocks_config \<Rightarrow> redsocks_client \<Rightarrow> redsocks_client" where
  "socks5_client_init cfg c =
     c\<lparr>rc_state := socks5_new, rc_do_password := socks5_is_valid_cred (rcfg_login cfg) (rcfg_password cfg)\<rparr>"

definition socks5_mkmethods_plain :: "bool \<Rightarrow> bytes" where
  "socks5_mkmethods_plain do_password = (if do_password then [5, 2, 0, 2] else [5, 1, 0])"

definition socks5_mkpassword_plain :: "string \<Rightarrow> string \<Rightarrow> bytes" where
  "socks5_mkpassword_plain login password =
     [1, of_nat (length login)] @ c_bytes login @ [of_nat (length password)] @ c_bytes password"

definition socks5_mkcommand_plain :: "u8 \<Rightarrow> bytes \<Rightarrow> u16 \<Rightarrow> bytes" where
  "socks5_mkcommand_plain socks5_cmd destaddr destport = [5, socks5_cmd, 0, 1] @ destaddr @ le16b destport"

definition socks5_mkconnect :: "redsocks_client \<Rightarrow> bytes" where
  "socks5_mkconnect c = socks5_mkcommand_plain 1 (rc_destaddr c) (rc_destport c)"

definition socks5_write_cb :: "be_os \<Rightarrow> redsocks_config \<Rightarrow> redsocks_client \<Rightarrow> be_calls \<Rightarrow> rs_result" where
  "socks5_write_cb os cfg c cs =
     (let (c, cs) = redsocks_touch_client os c cs in
      if rc_state c = socks5_new
      then redsocks_write_helper os (Some (socks5_mkmethods_plain (rc_do_password c))) socks5_method_sent 2 c cs
      else Some (Some c, cs))"

definition socks5_is_known_auth_method :: "bytes \<Rightarrow> bool \<Rightarrow> bool" where
  "socks5_is_known_auth_method reply do_password \<longleftrightarrow>
     reply ! 0 = 5 \<and> reply ! 1 \<noteq> 0xFF \<and> (reply ! 1 = 0 \<or> reply ! 1 = 2 \<and> do_password)"

definition socks5_read_auth_methods :: "be_os \<Rightarrow> redsocks_config \<Rightarrow> redsocks_client \<Rightarrow> be_calls \<Rightarrow> rs_result" where
  "socks5_read_auth_methods os cfg c cs =
     do {
       r \<leftarrow> redsocks_read_expected sizes_equal 2 c cs;
       case r of
         Inl dropped \<Rightarrow> Some dropped
       | Inr (reply, c) \<Rightarrow>
           if \<not> socks5_is_known_auth_method reply (rc_do_password c) then Some (redsocks_drop_client c cs)
           else if reply ! 1 = 0 then redsocks_write_helper os (Some (socks5_mkconnect c)) socks5_request_sent 4 c cs
           else if reply ! 1 = 2 then
             do {
               login \<leftarrow> rcfg_login cfg;
               password \<leftarrow> rcfg_password cfg;
               redsocks_write_helper os (Some (socks5_mkpassword_plain login password)) socks5_auth_sent 2 c cs
             }
           else Some (Some c, cs)
     }"

definition socks5_read_auth_reply :: "be_os \<Rightarrow> redsocks_client \<Rightarrow> be_calls \<Rightarrow> rs_result" where
  "socks5_read_auth_reply os c cs =
     do {
       r \<leftarrow> redsocks_read_expected sizes_equal 2 c cs;
       case r of
         Inl dropped \<Rightarrow> Some dropped
       | Inr (reply, c) \<Rightarrow>
           if reply ! 0 \<noteq> 1 then Some (redsocks_drop_client c cs)
           else if reply ! 1 = 0 then redsocks_write_helper os (Some (socks5_mkconnect c)) socks5_request_sent 4 c cs
           else Some (redsocks_drop_client c cs)
     }"

definition socks5_read_reply :: "be_os \<Rightarrow> redsocks_client \<Rightarrow> be_calls \<Rightarrow> rs_result" where
  "socks5_read_reply os c cs =
     do {
       r \<leftarrow> redsocks_read_expected sizes_greater_equal 4 c cs;
       case r of
         Inl dropped \<Rightarrow> Some dropped
       | Inr (reply, c) \<Rightarrow>
           if reply ! 0 \<noteq> 5 then Some (redsocks_drop_client c cs)
           else if reply ! 1 = 0 then
             if reply ! 3 = 1 then redsocks_write_helper os None socks5_skip_address 6 (c\<lparr>rc_to_skip := 6\<rparr>) cs
             else if reply ! 3 = 4 then redsocks_write_helper os None socks5_skip_address 18 (c\<lparr>rc_to_skip := 18\<rparr>) cs
             else if reply ! 3 = 3 then redsocks_write_helper os None socks5_skip_domain 1 c cs
             else Some (redsocks_drop_client c cs)
           else Some (redsocks_drop_client c cs)
     }"

definition socks5_read_cb :: "be_os \<Rightarrow> redsocks_config \<Rightarrow> redsocks_client \<Rightarrow> be_calls \<Rightarrow> rs_result" where
  "socks5_read_cb os cfg c cs =
     (let (c, cs) = redsocks_touch_client os c cs in
      if rc_state c = socks5_method_sent then socks5_read_auth_methods os cfg c cs
      else if rc_state c = socks5_auth_sent then socks5_read_auth_reply os c cs
      else if rc_state c = socks5_request_sent then socks5_read_reply os c cs
      else if rc_state c = socks5_skip_domain then
        do {
          r \<leftarrow> redsocks_read_expected sizes_greater_equal 1 c cs;
          case r of
            Inl dropped \<Rightarrow> Some dropped
          | Inr (sz, c) \<Rightarrow>
              let to_skip = unat (sz ! 0) + 2
              in redsocks_write_helper os None socks5_skip_address to_skip (c\<lparr>rc_to_skip := to_skip\<rparr>) cs
        }
      else if rc_state c = socks5_skip_address then
        do {
          r \<leftarrow> redsocks_read_expected sizes_greater_equal (rc_to_skip c) c cs;
          case r of
            Inl dropped \<Rightarrow> Some dropped
          | Inr (data, c) \<Rightarrow> redsocks_start_relay os c cs
        }
      else Some (redsocks_drop_client c cs))"

definition socks5_subsys :: relay_subsys where
  "socks5_subsys = \<lparr>ss_readcb = socks5_read_cb, ss_writecb = socks5_write_cb, ss_clientcb = None,
     ss_init = socks5_client_init, ss_connect_relay = None\<rparr>"

section \<open>SOCKS 4\<close>

abbreviation socks4_new :: nat where "socks4_new \<equiv> 0"
abbreviation socks4_request_sent :: nat where "socks4_request_sent \<equiv> 1"
abbreviation socks4_reply_came :: nat where "socks4_reply_came \<equiv> 2"

definition socks4_client_init :: "redsocks_config \<Rightarrow> redsocks_client \<Rightarrow> redsocks_client" where
  "socks4_client_init cfg c = c\<lparr>rc_state := socks4_new\<rparr>"

definition socks4_read_cb :: "be_os \<Rightarrow> redsocks_config \<Rightarrow> redsocks_client \<Rightarrow> be_calls \<Rightarrow> rs_result" where
  "socks4_read_cb os cfg c cs =
     (if rc_state c < socks4_request_sent then None
      else
        let (c, cs) = redsocks_touch_client os c cs in
        if rc_state c = socks4_request_sent then
          do {
            r \<leftarrow> redsocks_read_expected sizes_greater_equal 8 c cs;
            case r of
              Inl dropped \<Rightarrow> Some dropped
            | Inr (reply, c) \<Rightarrow>
                let c = c\<lparr>rc_state := socks4_reply_came\<rparr> in
                if reply ! 0 \<noteq> 0 then Some (redsocks_drop_client c cs)
                else if reply ! 1 = 90 then redsocks_start_relay os c cs
                else Some (redsocks_drop_client c cs)
          }
        else Some (Some c, cs))"

definition socks4_mkconnect :: "redsocks_config \<Rightarrow> redsocks_client \<Rightarrow> bytes" where
  "socks4_mkconnect cfg c =
     (let username = (case rcfg_login cfg of Some l \<Rightarrow> l | None \<Rightarrow> [])
      in [4, 1] @ le16b (rc_destport c) @ rc_destaddr c @ c_bytes username @ [0])"

definition socks4_write_cb :: "be_os \<Rightarrow> redsocks_config \<Rightarrow> redsocks_client \<Rightarrow> be_calls \<Rightarrow> rs_result" where
  "socks4_write_cb os cfg c cs =
     (let (c, cs) = redsocks_touch_client os c cs in
      if rc_state c = socks4_new
      then redsocks_write_helper os (Some (socks4_mkconnect cfg c)) socks4_request_sent 8 c cs
      else
        do {
          r \<leftarrow> rc_bev c Relay;
          Some (Some (set_bev Relay (bufferevent_disable False True r) c), cs)
        })"

definition socks4_subsys :: relay_subsys where
  "socks4_subsys = \<lparr>ss_readcb = socks4_read_cb, ss_writecb = socks4_write_cb, ss_clientcb = None,
     ss_init = socks4_client_init, ss_connect_relay = None\<rparr>"

end
