(* ===== verification/Redsocks_Inv.thy ===== *)
theory Redsocks_Inv
  imports Redsocks
begin

text \<open>
  The invariant of a client of the proxy, for every relay subsystem. It says which descriptors are open,
  how the shut down directions are related, and where the bytes are: what was read from a side is what
  the handshake consumed, what was moved to the other side, and what is still in the input; what was
  written to a side and is still in its output is what the handshake said and what was moved.
\<close>

section \<open>Quiet calls\<close>

text \<open>Calls that neither move data nor open or close a descriptor.\<close>

fun quiet_call :: "(int \<Rightarrow> bool) \<Rightarrow> be_call \<Rightarrow> bool" where
  "quiet_call P (Be_Event_Add fd w) \<longleftrightarrow> P fd"
| "quiet_call P (Be_Shutdown fd how) \<longleftrightarrow> P fd"
| "quiet_call P (Be_Getsockopt fd) \<longleftrightarrow> P fd"
| "quiet_call P (Be_Write_Fail fd) \<longleftrightarrow> P fd"
| "quiet_call P (Be_Write fd bs) \<longleftrightarrow> P fd \<and> bs = []"
| "quiet_call P (Be_Read fd n (Rd_Data bs)) \<longleftrightarrow> P fd \<and> bs = []"
| "quiet_call P (Be_Read fd n _) \<longleftrightarrow> P fd"
| "quiet_call P Be_Time \<longleftrightarrow> True"
| "quiet_call P Be_Rand \<longleftrightarrow> True"
| "quiet_call P _ \<longleftrightarrow> False"

inductive quiet :: "(int \<Rightarrow> bool) \<Rightarrow> be_calls \<Rightarrow> be_calls \<Rightarrow> bool" for P where
  quiet_refl [simp, intro]: "quiet P cs cs"
| quiet_Cons: "quiet_call P x \<Longrightarrow> quiet P cs cs' \<Longrightarrow> quiet P cs (x # cs')"

lemma quiet_ConsI [intro!]: "quiet_call P x \<Longrightarrow> quiet P cs cs' \<Longrightarrow> quiet P cs (x # cs')"
  by (rule quiet_Cons)

lemma quiet_one [simp]: "quiet_call P x \<Longrightarrow> quiet P cs (x # cs)"
  by auto

lemma quiet_trans: "quiet P ds es \<Longrightarrow> quiet P cs ds \<Longrightarrow> quiet P cs es"
  by (induction rule: quiet.induct) auto

lemma quiet_mono: "quiet P cs ds \<Longrightarrow> (\<And>fd. P fd \<Longrightarrow> Q fd) \<Longrightarrow> quiet Q cs ds"
proof (induction rule: quiet.induct)
  case (quiet_Cons x cs cs')
  then show ?case by (cases "(Q, x)" rule: quiet_call.cases) auto
qed auto

lemma quiet_call_data:
  assumes "quiet_call P x"
  shows "bytes_read fd (x # cs) = bytes_read fd cs" "bytes_written fd (x # cs) = bytes_written fd cs"
    "is_open fd (x # cs) \<longleftrightarrow> is_open fd cs"
  using assms by (cases "(P, x)" rule: quiet_call.cases; auto)+

lemma quiet_data:
  assumes "quiet P cs ds"
  shows "bytes_read fd ds = bytes_read fd cs" "bytes_written fd ds = bytes_written fd cs" "is_open fd ds \<longleftrightarrow> is_open fd cs"
  using assms by (induction rule: quiet.induct) (auto simp: quiet_call_data)

lemma quiet_calls_ok:
  assumes "quiet P cs ds" "\<And>fd. P fd \<Longrightarrow> is_open fd cs" "calls_ok cs"
  shows "calls_ok ds"
  using assms
proof (induction rule: quiet.induct)
  case (quiet_Cons x cs cs')
  then have "quiet P cs cs'" by simp
  note d = quiet_data(3) [OF this]
  show ?case using quiet_Cons by (cases "(P, x)" rule: quiet_call.cases) (auto simp: d)
qed auto

section \<open>Operations on buffered sockets\<close>

text \<open>What enabling and disabling leave alone.\<close>

definition same_io :: "rs_bev \<Rightarrow> rs_bev \<Rightarrow> bool" where
  "same_io b b' \<longleftrightarrow> be_fd b' = be_fd b \<and> be_input b' = be_input b \<and> be_output b' = be_output b
     \<and> be_readcb b' = be_readcb b \<and> be_writecb b' = be_writecb b
     \<and> be_read_low b' = be_read_low b \<and> be_read_high b' = be_read_high b
     \<and> be_write_low b' = be_write_low b \<and> be_write_high b' = be_write_high b"

lemma same_io_refl [simp]: "same_io b b"
  by (simp add: same_io_def)

lemma same_io_disable [simp]: "same_io b (bufferevent_disable rd wr b)"
  by (simp add: same_io_def bufferevent_disable_def be_socket_disable_def)

lemma same_io_suspend [simp]: "same_io b (bufferevent_suspend_read b)"
  by (simp add: same_io_def bufferevent_suspend_read_def be_socket_disable_def)

lemma disable_simps [simp]:
  "be_ev_read (bufferevent_disable rd wr b) \<longleftrightarrow> be_ev_read b \<and> \<not> rd"
  "be_ev_write (bufferevent_disable rd wr b) \<longleftrightarrow> be_ev_write b \<and> \<not> wr"
  "be_enabled_write (bufferevent_disable rd wr b) \<longleftrightarrow> be_enabled_write b \<and> \<not> wr"
  "be_read_suspended (bufferevent_disable rd wr b) \<longleftrightarrow> be_read_suspended b"
  "be_fd (bufferevent_disable rd wr b) = be_fd b"
  "be_input (bufferevent_disable rd wr b) = be_input b"
  "be_output (bufferevent_disable rd wr b) = be_output b"
  by (simp_all add: bufferevent_disable_def be_socket_disable_def)

lemma enable_io:
  assumes "bufferevent_enable os rd wr b cs = (ok, b', cs')"
  shows "same_io b b'" "quiet (\<lambda>fd. fd = be_fd b) cs cs'"
  using assms by (auto simp: bufferevent_enable_def be_socket_enable_def be_socket_add_read_def
      be_socket_add_write_def same_io_def Let_def split: if_splits)

lemma write_buffer_io:
  assumes "bufferevent_write_buffer os buf b cs = (b', cs')"
  shows "same_io (b\<lparr>be_output := be_output b @ buf\<rparr>) b'" "quiet (\<lambda>fd. fd = be_fd b) cs cs'"
  using assms by (auto simp: bufferevent_write_buffer_def bufferevent_socket_outbuf_cb_def
      be_socket_add_write_def same_io_def Let_def split: if_splits)

section \<open>The invariant\<close>

record rs_data =
  rd_pre :: bytes
  rd_msg :: bytes
  rd_moved :: bytes

definition rs_fds :: "(rs_side \<Rightarrow> rs_bev) \<Rightarrow> be_calls \<Rightarrow> bool" where
  "rs_fds bv cs \<longleftrightarrow> be_fd (bv Client) \<noteq> be_fd (bv Relay) \<and> calls_ok cs
     \<and> (\<forall>fd. is_open fd cs \<longleftrightarrow> fd = be_fd (bv Client) \<or> fd = be_fd (bv Relay))"

definition rs_shut_ok :: "redsocks_client \<Rightarrow> bool" where
  "rs_shut_ok c \<longleftrightarrow> \<not> all_shut c \<and> (\<forall>s. rc_shut_wr c s \<longrightarrow> rc_shut_rd c (other_side s))"

definition rs_bytes :: "(rs_side \<Rightarrow> rs_bev) \<Rightarrow> (rs_side \<Rightarrow> rs_data) \<Rightarrow> be_calls \<Rightarrow> bool" where
  "rs_bytes bv d cs \<longleftrightarrow> (\<forall>s. bytes_read (be_fd (bv s)) cs = rd_pre (d s) @ rd_moved (d s) @ be_input (bv s)
     \<and> bytes_written (be_fd (bv s)) cs @ be_output (bv s) = rd_msg (d s) @ rd_moved (d (other_side s)))"

definition rs_inv :: "(rs_side \<Rightarrow> rs_bev) \<Rightarrow> (rs_side \<Rightarrow> rs_data) \<Rightarrow> redsocks_client \<Rightarrow> be_calls \<Rightarrow> bool" where
  "rs_inv bv d c cs \<longleftrightarrow> rc_bev c = (\<lambda>s. Some (bv s)) \<and> rs_fds bv cs \<and> rs_shut_ok c \<and> rs_bytes bv d cs"

lemma other_other [simp]: "other_side (other_side s) = s"
  by (cases s) simp_all

lemma other_neq [simp]: "other_side s \<noteq> s" "s \<noteq> other_side s"
  by (cases s; simp)+

lemma all_sides: "(\<forall>s. P s) \<longleftrightarrow> P Client \<and> P Relay"
  by (metis rs_side.exhaust)

lemma set_bev_fun: "rc_bev c = (\<lambda>s. Some (bv s)) \<Longrightarrow> (rc_bev c)(s := Some b) = (\<lambda>t. Some ((bv(s := b)) t))"
  by auto

text \<open>A step that moves no data: a socket changes its events, quiet calls are made.\<close>

lemma rs_inv_quiet:
  assumes "rs_inv bv d c cs" "same_io (bv s) b" "quiet (\<lambda>fd. is_open fd cs) cs cs'"
  shows "rs_inv (bv(s := b)) d (set_bev s b c) cs'"
proof -
  note q = quiet_data [OF assms(3)] quiet_calls_ok [OF assms(3)]
  show ?thesis
    using assms(1,2) unfolding rs_inv_def rs_fds_def rs_shut_ok_def rs_bytes_def all_shut_def
    by (cases s) (auto simp: q same_io_def)
qed

lemma rs_inv_calls:
  assumes "rs_inv bv d c cs" "quiet (\<lambda>fd. is_open fd cs) cs cs'"
  shows "rs_inv bv d c cs'"
  using assms(1) quiet_data [OF assms(2)] quiet_calls_ok [OF assms(2)]
  unfolding rs_inv_def rs_fds_def rs_bytes_def by auto

lemma rs_inv_open: "rs_inv bv d c cs \<Longrightarrow> is_open (be_fd (bv s)) cs"
  by (cases s) (auto simp: rs_inv_def rs_fds_def)

lemma rs_inv_bev: "rs_inv bv d c cs \<Longrightarrow> rc_bev c s = Some (bv s)"
  by (simp add: rs_inv_def)

lemma set_bev_same: "rs_inv bv d c cs \<Longrightarrow> set_bev s (bv s) c = c"
  by (cases c) (simp add: rs_inv_def fun_upd_idem)

lemma rs_inv_fields [simp]:
  "rs_inv bv d (c\<lparr>rc_last_event := t\<rparr>) cs \<longleftrightarrow> rs_inv bv d c cs"
  "rs_inv bv d (c\<lparr>rc_state := n\<rparr>) cs \<longleftrightarrow> rs_inv bv d c cs"
  "rs_inv bv d (c\<lparr>rc_to_skip := n\<rparr>) cs \<longleftrightarrow> rs_inv bv d c cs"
  "rs_inv bv d (c\<lparr>rc_auth := a\<rparr>) cs \<longleftrightarrow> rs_inv bv d c cs"
  by (simp_all add: rs_inv_def rs_shut_ok_def all_shut_def)

lemma touch_inv:
  assumes "rs_inv bv d c cs" "redsocks_touch_client os c cs = (c', cs')"
  shows "rs_inv bv d c' cs'"
proof -
  have "quiet (\<lambda>fd. is_open fd cs) cs (Be_Time # cs)" by auto
  from rs_inv_calls [OF assms(1) this] assms(2) show ?thesis by (auto simp: redsocks_touch_client_def)
qed

section \<open>Dropping and shutting down\<close>

text \<open>After a client was dropped no descriptor is open.\<close>

definition rs_closed :: "be_calls \<Rightarrow> bool" where
  "rs_closed cs \<longleftrightarrow> calls_ok cs \<and> (\<forall>fd. \<not> is_open fd cs)"

lemma drop_client_closed:
  assumes "rs_inv bv d c cs"
  shows "fst (redsocks_drop_client c cs) = None" "rs_closed (snd (redsocks_drop_client c cs))"
  using assms by (auto simp: redsocks_drop_client_def close_bev_def rs_inv_def rs_fds_def rs_closed_def)

text \<open>The outcome of a handler: a closed client or one that satisfies a predicate.\<close>

definition rs_post :: "(redsocks_client \<Rightarrow> be_calls \<Rightarrow> bool) \<Rightarrow> redsocks_client option \<times> be_calls \<Rightarrow> bool" where
  "rs_post Q res = (case res of (None, cs) \<Rightarrow> rs_closed cs | (Some c, cs) \<Rightarrow> Q c cs)"

lemma rs_post_simps [simp]:
  "rs_post Q (Some c, cs) = Q c cs" "rs_post Q (None, cs) = rs_closed cs"
  by (simp_all add: rs_post_def)

lemma rs_post_drop [simp]: "rs_inv bv d c cs \<Longrightarrow> rs_post Q (redsocks_drop_client c cs)"
  using drop_client_closed [of bv d c cs] by (cases "redsocks_drop_client c cs") (auto simp: rs_post_def)

lemma rs_post_mono: "rs_post P res \<Longrightarrow> (\<And>c cs. P c cs \<Longrightarrow> Q c cs) \<Longrightarrow> rs_post Q res"
  by (auto simp: rs_post_def split: prod.splits option.splits)

definition shut_rd_client :: "rs_side \<Rightarrow> rs_bev \<Rightarrow> redsocks_client \<Rightarrow> redsocks_client" where
  "shut_rd_client s b c = (set_bev s (bufferevent_disable True False b) c)\<lparr>rc_shut_rd := (rc_shut_rd c)(s := True)\<rparr>"

definition shut_wr_client :: "rs_side \<Rightarrow> rs_bev \<Rightarrow> redsocks_client \<Rightarrow> redsocks_client" where
  "shut_wr_client s b c = (set_bev s (bufferevent_disable False True b) c)\<lparr>rc_shut_wr := (rc_shut_wr c)(s := True)\<rparr>"

lemma shutdown_calls:
  assumes "rs_inv bv d c cs"
  shows "quiet (\<lambda>fd. is_open fd cs) cs (if b then cs else Be_Shutdown (be_fd (bv s)) how # cs)"
  using rs_inv_open [OF assms] by auto

lemma redsocks_shutdown_rd:
  assumes "rs_inv bv d c cs"
  obtains cs' where "redsocks_shutdown s Shut_Rd c cs = Some (Some (shut_rd_client s (bv s) c), cs')"
    "quiet (\<lambda>fd. is_open fd cs) cs cs'"
    "rs_inv (bv(s := bufferevent_disable True False (bv s))) d (shut_rd_client s (bv s) c) cs'"
proof -
  let ?c = "shut_rd_client s (bv s) c"
  let ?cs = "if rc_shut_wr c s then cs else Be_Shutdown (be_fd (bv s)) Shut_Rd # cs"
  have q: "quiet (\<lambda>fd. is_open fd cs) cs ?cs" by (rule shutdown_calls [OF assms])
  have ok: "rs_shut_ok ?c" using assms
    by (cases s) (auto simp: rs_inv_def rs_shut_ok_def all_shut_def shut_rd_client_def all_sides)
  then have "\<not> all_shut ?c" by (simp add: rs_shut_ok_def)
  then have "redsocks_shutdown s Shut_Rd c cs = Some (Some ?c, ?cs)"
    using assms by (simp add: redsocks_shutdown_def rs_inv_def shut_rd_client_def Let_def fun_upd_idem)
  moreover have "rs_inv (bv(s := bufferevent_disable True False (bv s))) d ?c ?cs"
    using rs_inv_quiet [OF assms same_io_disable q] ok by (auto simp: rs_inv_def shut_rd_client_def)
  ultimately show thesis using q that by blast
qed

lemma redsocks_shutdown_wr:
  assumes "rs_inv bv d c cs" "rc_shut_rd c (other_side s)"
  obtains res where "redsocks_shutdown s Shut_Wr c cs = Some res"
    "rs_post (\<lambda>c' cs'. c' = shut_wr_client s (bv s) c \<and> quiet (\<lambda>fd. is_open fd cs) cs cs'
      \<and> rs_inv (bv(s := bufferevent_disable False True (bv s))) d c' cs') res"
proof -
  let ?c = "shut_wr_client s (bv s) c"
  let ?cs = "Be_Shutdown (be_fd (bv s)) Shut_Wr # cs"
  have q: "quiet (\<lambda>fd. is_open fd cs) cs ?cs" using shutdown_calls [OF assms(1), of False] by simp
  have r: "redsocks_shutdown s Shut_Wr c cs = Some (if all_shut ?c then redsocks_drop_client ?c ?cs else (Some ?c, ?cs))"
    using assms by (simp add: redsocks_shutdown_def rs_inv_def shut_wr_client_def Let_def fun_upd_idem)
  let ?bv = "bv(s := bufferevent_disable False True (bv s))"
  have i: "rc_bev ?c = (\<lambda>t. Some (?bv t)) \<and> rs_fds ?bv ?cs \<and> rs_bytes ?bv d ?cs"
    using rs_inv_quiet [OF assms(1) same_io_disable q] by (auto simp: rs_inv_def shut_wr_client_def)
  show thesis
  proof (cases "all_shut ?c")
    case True
    have "rs_closed (snd (redsocks_drop_client ?c ?cs))" "fst (redsocks_drop_client ?c ?cs) = None"
      using i by (auto simp: redsocks_drop_client_def close_bev_def rs_fds_def rs_closed_def)
    then show ?thesis using r True that [of "redsocks_drop_client ?c ?cs"]
      by (cases "redsocks_drop_client ?c ?cs") auto
  next
    case False
    then have "rs_shut_ok ?c" using assms by (auto simp: rs_inv_def rs_shut_ok_def shut_wr_client_def)
    then show ?thesis using i r q False that [of "(Some ?c, ?cs)"] by (simp add: rs_inv_def)
  qed
qed

text \<open>What handlers of errors and ends of streams keep: everything but events and shut directions.\<close>

definition same_client :: "redsocks_client \<Rightarrow> redsocks_client \<Rightarrow> bool" where
  "same_client c c' \<longleftrightarrow> rc_state c' = rc_state c \<and> rc_destaddr c' = rc_destaddr c \<and> rc_destport c' = rc_destport c
     \<and> rc_do_password c' = rc_do_password c \<and> rc_to_skip c' = rc_to_skip c \<and> rc_httpr c' = rc_httpr c"

definition rs_less :: "rs_bev \<Rightarrow> rs_bev \<Rightarrow> bool" where
  "rs_less b b' \<longleftrightarrow> same_io b b' \<and> (be_ev_read b' \<longrightarrow> be_ev_read b) \<and> (be_ev_write b' \<longrightarrow> be_ev_write b)
     \<and> be_read_suspended b' = be_read_suspended b"

lemma rs_less_refl [simp]: "rs_less b b"
  by (simp add: rs_less_def)

lemma rs_less_disable [simp]: "rs_less b (bufferevent_disable rd wr b)"
  by (simp add: rs_less_def)

definition eof_bevs :: "rs_side \<Rightarrow> (rs_side \<Rightarrow> rs_bev) \<Rightarrow> rs_side \<Rightarrow> rs_bev" where
  "eof_bevs s bv =
     (let bv1 = bv(s := bufferevent_disable True False (bv s)); o' = other_side s
      in if be_output (bv o') = [] then bv1(o' := bufferevent_disable False True (bv o')) else bv1)"

definition eof_post :: "rs_side \<Rightarrow> (rs_side \<Rightarrow> rs_bev) \<Rightarrow> (rs_side \<Rightarrow> rs_data) \<Rightarrow> redsocks_client \<Rightarrow> be_calls \<Rightarrow>
    redsocks_client \<Rightarrow> be_calls \<Rightarrow> bool" where
  "eof_post s bv d c cs c' cs' \<longleftrightarrow> same_client c c' \<and> quiet (\<lambda>fd. is_open fd cs) cs cs' \<and>
     rc_shut_rd c' = (rc_shut_rd c)(s := True) \<and>
     rc_shut_wr c' = (if be_output (bv (other_side s)) = [] then (rc_shut_wr c)(other_side s := True) else rc_shut_wr c) \<and>
     rs_inv (eof_bevs s bv) d c' cs'"

lemma quiet_trans_open:
  assumes "quiet (\<lambda>fd. is_open fd cs) cs cs1" "quiet (\<lambda>fd. is_open fd cs1) cs1 cs2"
  shows "quiet (\<lambda>fd. is_open fd cs) cs cs2"
  using assms quiet_data(3) [OF assms(1)] by (simp add: quiet_trans)

text \<open>
  The event callback never uses a freed client: shutting down reading cannot be the last of the four
  directions, because writing to the other side is only shut down after it.
\<close>

lemma event_error_inv:
  assumes "rs_inv bv d c cs"
  obtains res where "redsocks_event_error os s what c cs = Some res"
    "rs_post (\<lambda>c' cs'. what = Reading_Eof \<and> eof_post s bv d c cs c' cs') res"
proof -
  define c0 where "c0 = c\<lparr>rc_last_event := bo_time os cs\<rparr>"
  have t: "redsocks_touch_client os c cs = (c0, Be_Time # cs)" by (simp add: redsocks_touch_client_def c0_def)
  have i0: "rs_inv bv d c0 (Be_Time # cs)" by (rule touch_inv [OF assms t])
  have q0: "quiet (\<lambda>fd. is_open fd cs) cs (Be_Time # cs)" by auto
  let ?o = "other_side s"
  show thesis
  proof (cases "what = Reading_Eof")
    case False
    have "rs_inv bv d c0 (Be_Getsockopt (be_fd (bv s)) # Be_Time # cs)"
      using rs_inv_open [OF i0] by (intro rs_inv_calls [OF i0]) auto
    with False t i0 that show ?thesis by (simp add: redsocks_event_error_def rs_inv_bev)
  next
    case True
    let ?bv1 = "bv(s := bufferevent_disable True False (bv s))" and ?c1 = "shut_rd_client s (bv s) c0"
    obtain cs1 where 1: "redsocks_shutdown s Shut_Rd c0 (Be_Time # cs) = Some (Some ?c1, cs1)"
      and q1: "quiet (\<lambda>fd. is_open fd (Be_Time # cs)) (Be_Time # cs) cs1" and i1: "rs_inv ?bv1 d ?c1 cs1"
      using redsocks_shutdown_rd [OF i0, of s] by metis
    note q2 = quiet_trans_open [OF q0 q1]
    show ?thesis
    proof (cases "be_output (bv ?o) = []")
      case out: True
      let ?bv2 = "?bv1(?o := bufferevent_disable False True (?bv1 ?o))" and ?c2 = "shut_wr_client ?o (?bv1 ?o) ?c1"
      obtain res where 2: "redsocks_shutdown ?o Shut_Wr ?c1 cs1 = Some res"
        and p: "rs_post (\<lambda>c' cs'. c' = ?c2 \<and> quiet (\<lambda>fd. is_open fd cs1) cs1 cs' \<and> rs_inv ?bv2 d c' cs') res"
        using redsocks_shutdown_wr [OF i1, of ?o] by (auto simp: shut_rd_client_def)
      have "redsocks_event_error os s what c cs = Some res"
        using True t 1 2 out rs_inv_bev [OF i1, of ?o] by (simp add: redsocks_event_error_def)
      moreover have "eof_post s bv d c cs ?c2 cs'" if "rs_inv ?bv2 d ?c2 cs'" "quiet (\<lambda>fd. is_open fd cs1) cs1 cs'" for cs'
        unfolding eof_post_def using that out quiet_trans_open [OF q2 that(2)]
        by (auto simp: shut_wr_client_def shut_rd_client_def c0_def same_client_def eof_bevs_def Let_def)
      ultimately show ?thesis using that True rs_post_mono [OF p] by auto
    next
      case False
      have "redsocks_event_error os s what c cs = Some (Some ?c1, cs1)"
        using True t 1 False rs_inv_bev [OF i1, of ?o] by (simp add: redsocks_event_error_def)
      moreover have "eof_post s bv d c cs ?c1 cs1"
        unfolding eof_post_def using i1 False q2
        by (auto simp: shut_rd_client_def c0_def same_client_def eof_bevs_def Let_def)
      ultimately show ?thesis using that True by auto
    qed
  qed
qed

section \<open>Reading and writing\<close>

lemma rs_bytesD:
  assumes "rs_bytes bv d cs"
  shows "bytes_read (be_fd (bv s)) cs = rd_pre (d s) @ rd_moved (d s) @ be_input (bv s)"
    "bytes_written (be_fd (bv s)) cs @ be_output (bv s) = rd_msg (d s) @ rd_moved (d (other_side s))"
  using assms by (simp_all add: rs_bytes_def)

lemma other_side_iff: "t \<noteq> s \<longleftrightarrow> t = other_side s"
  by (cases s; cases t) simp_all

lemma rs_fds_other: "rs_fds bv cs \<Longrightarrow> be_fd (bv (other_side s)) \<noteq> be_fd (bv s)"
  by (cases s) (simp_all add: rs_fds_def)

text \<open>Data enters the input of a side or leaves its output.\<close>

lemma rs_inv_io:
  assumes "rs_inv bv d c cs" "be_fd b = be_fd (bv s)"
    and "call_ok x cs" "\<And>fd. is_open fd (x # cs) \<longleftrightarrow> is_open fd cs"
    and "\<And>fd. bytes_read fd (x # cs) = bytes_read fd cs @ (if fd = be_fd (bv s) then i else [])"
    and "\<And>fd. bytes_written fd (x # cs) = bytes_written fd cs @ (if fd = be_fd (bv s) then w else [])"
    and "be_input b = be_input (bv s) @ i" "be_output (bv s) = w @ be_output b"
  shows "rs_inv (bv(s := b)) d (set_bev s b c) (x # cs)"
proof -
  note inv = assms(1) [unfolded rs_inv_def]
  have "rs_fds (bv(s := b)) (x # cs)"
    using inv assms(2-4) by (cases s) (simp_all add: rs_fds_def)
  moreover have "rs_bytes (bv(s := b)) d (x # cs)"
    unfolding rs_bytes_def
  proof
    fix t
    have "be_fd (bv (other_side s)) \<noteq> be_fd (bv s)" using inv rs_fds_other [of bv cs s] by blast
    then show "bytes_read (be_fd ((bv(s := b)) t)) (x # cs) = rd_pre (d t) @ rd_moved (d t) @ be_input ((bv(s := b)) t) \<and>
      bytes_written (be_fd ((bv(s := b)) t)) (x # cs) @ be_output ((bv(s := b)) t) = rd_msg (d t) @ rd_moved (d (other_side t))"
      using inv rs_bytesD [of bv d cs t] assms(2,5-8) by (cases "t = s") (simp_all add: other_side_iff)
  qed
  ultimately show ?thesis using inv by (auto simp: rs_inv_def rs_shut_ok_def all_shut_def)
qed

lemma rs_inv_read:
  assumes "rs_inv bv d c cs"
  shows "rs_inv (bv(s := (bv s)\<lparr>be_input := be_input (bv s) @ bs\<rparr>)) d (set_bev s ((bv s)\<lparr>be_input := be_input (bv s) @ bs\<rparr>) c)
    (Be_Read (be_fd (bv s)) n (Rd_Data bs) # cs)"
  by (rule rs_inv_io [OF assms]) (auto intro: rs_inv_open [OF assms])

lemma rs_inv_write:
  assumes "rs_inv bv d c cs" "be_output (bv s) = bs @ be_output b" "be_fd b = be_fd (bv s)" "be_input b = be_input (bv s)"
  shows "rs_inv (bv(s := b)) d (set_bev s b c) (Be_Write (be_fd (bv s)) bs # cs)"
  by (rule rs_inv_io [OF assms(1,3)]) (auto intro: rs_inv_open [OF assms(1)] simp: assms)

text \<open>The outcomes of the two handlers of libevent.\<close>

lemma bufferevent_readcb_cases:
  assumes "bufferevent_readcb os b cs = (run, b', cs')"
  obtains
    (suspend) "run = Run_Nothing" "b' = bufferevent_suspend_read b" "cs' = cs" "be_read_high b \<le> length (be_input b)" "be_read_high b \<noteq> 0"
  | (quiet) "run = Run_Nothing" "b' = b" "quiet (\<lambda>fd. fd = be_fd b) cs cs'"
  | (error) "run = Run_Eventcb Reading_Error" "b' = bufferevent_disable True False b" "quiet (\<lambda>fd. fd = be_fd b) cs cs'"
  | (eof) "run = Run_Eventcb Reading_Eof" "b' = bufferevent_disable True False b" "quiet (\<lambda>fd. fd = be_fd b) cs cs'"
      "\<not> be_read_suspended b"
  | (data) bs n where "bs \<noteq> []" "run = (if be_read_low b \<le> length (be_input b @ bs) then Run_Readcb else Run_Nothing)"
      "b' = b\<lparr>be_input := be_input b @ bs\<rparr>" "cs' = Be_Read (be_fd b) n (Rd_Data bs) # cs" "\<not> be_read_suspended b"
      "be_read_high b = 0 \<or> length (be_input b) < be_read_high b" "bo_read os cs (be_fd b) n = Rd_Data bs"
      "be_read_high b \<noteq> 0 \<longrightarrow> length (be_input b) + n \<le> be_read_high b"
proof (cases "be_read_high b \<noteq> 0 \<and> be_read_high b \<le> length (be_input b)")
  case True
  with assms that(1) show thesis by (simp add: bufferevent_readcb_def)
next
  case high: False
  show thesis
  proof (cases "be_read_suspended b")
    case True
    with high assms that(2) show thesis by (auto simp: bufferevent_readcb_def Let_def)
  next
    case susp: False
    define n where "n = (if be_read_high b \<noteq> 0 then min (be_read_high b - length (be_input b)) MAX_TO_READ_EVER else MAX_TO_READ_EVER)"
    have n: "be_read_high b \<noteq> 0 \<longrightarrow> length (be_input b) + n \<le> be_read_high b" "be_read_high b = 0 \<or> length (be_input b) < be_read_high b"
      using high by (auto simp: n_def)
    note e = assms [unfolded bufferevent_readcb_def Let_def, folded n_def]
    show thesis
    proof (cases "bo_read os cs (be_fd b) n")
      case (Rd_Data bs)
      show thesis
      proof (cases "bs = []")
        case True
        with high susp Rd_Data e that(4) show thesis by auto
      next
        case False
        with high susp Rd_Data e n that(5) [of bs n] show thesis by auto
      qed
    qed (use high susp e that(2,3) in auto)
  qed
qed

lemma bufferevent_writecb_cases:
  assumes "bufferevent_writecb os b cs = (run, b', cs')" "be_write_low b = 0"
  obtains
    (quiet) "run = Run_Nothing" "b' = b" "quiet (\<lambda>fd. fd = be_fd b) cs cs'"
  | (error) what where "run = Run_Eventcb what" "what \<noteq> Reading_Eof" "b' = bufferevent_disable False True b"
      "quiet (\<lambda>fd. fd = be_fd b) cs cs'"
  | (sent) bs out where "bs \<noteq> []" "be_output b = bs @ out" "out \<noteq> []" "run = Run_Nothing" "b' = b\<lparr>be_output := out\<rparr>"
      "cs' = Be_Write (be_fd b) bs # cs"
  | (drained) "run = Run_Writecb" "b' = b\<lparr>be_output := [], be_ev_write := False\<rparr>"
      "be_output b = [] \<and> cs' = cs \<or> be_output b \<noteq> [] \<and> cs' = Be_Write (be_fd b) (be_output b) # cs"
proof (cases "be_output b = []")
  case True
  with assms have "run = Run_Writecb" "b' = b\<lparr>be_ev_write := False\<rparr>" "cs' = cs"
    by (simp_all add: bufferevent_writecb_def bufferevent_written_def)
  moreover have "b\<lparr>be_ev_write := False\<rparr> = b\<lparr>be_output := [], be_ev_write := False\<rparr>" using True by simp
  ultimately show thesis using True that(4) by metis
next
  case False
  let ?data = "take MAX_TO_WRITE_EVER (be_output b)"
  have e: "be_output b = take n ?data @ drop (length (take n ?data)) (be_output b)" for n
    by (simp add: min_def)
  show thesis
  proof (cases "bo_write os cs (be_fd b) ?data")
    case (Wr_Sent n)
    show ?thesis
    proof (cases "n = 0")
      case True
      with Wr_Sent False assms that(2) [of Writing_Eof] show ?thesis by (auto simp: bufferevent_writecb_def Let_def)
    next
      case n: False
      then have "take n ?data \<noteq> []" using False by (simp add: MAX_TO_WRITE_EVER_def)
      moreover have "take n ?data = be_output b" if "drop (length (take n ?data)) (be_output b) = []"
        using e [of n] that by simp
      ultimately show ?thesis
        using Wr_Sent n False assms that(3) [OF _ e [of n]] that(4)
        by (cases "drop (length (take n ?data)) (be_output b) = []")
          (auto simp: bufferevent_writecb_def bufferevent_written_def Let_def)
    qed
  qed (use False assms that(1) that(2) [of Writing_Error] in \<open>auto simp: bufferevent_writecb_def Let_def\<close>)
qed

text \<open>The outcomes of an event, up to the callback of the user; an error drops the client.\<close>

abbreviation rs_input :: "rs_side \<Rightarrow> bytes \<Rightarrow> (rs_side \<Rightarrow> rs_bev) \<Rightarrow> rs_bev" where
  "rs_input s bs bv \<equiv> (bv s)\<lparr>be_input := be_input (bv s) @ bs\<rparr>"

lemma quiet_fd: "rs_inv bv d c cs \<Longrightarrow> quiet (\<lambda>fd. fd = be_fd (bv s)) cs cs' \<Longrightarrow> quiet (\<lambda>fd. is_open fd cs) cs cs'"
  by (erule quiet_mono) (simp add: rs_inv_open)

lemma event_error_dropped:
  assumes "rs_inv bv d c cs" "what \<noteq> Reading_Eof"
  obtains cs' where "redsocks_event_error os s what c cs = Some (None, cs')" "rs_closed cs'"
proof (rule event_error_inv [OF assms(1), of os s what])
  fix res
  assume "redsocks_event_error os s what c cs = Some res" "rs_post (\<lambda>c' cs'. what = Reading_Eof \<and> eof_post s bv d c cs c' cs') res"
  then show thesis using assms(2) that by (cases res; cases "fst res") auto
qed

lemma fire_read_cases:
  assumes inv: "rs_inv bv d c cs"
  obtains
    (suspend) "rs_fire os ss cfg s Readable c cs = Some (Some (set_bev s (bufferevent_suspend_read (bv s)) c), cs)"
      "be_read_high (bv s) \<le> length (be_input (bv s))" "be_read_high (bv s) \<noteq> 0"
  | (quiet) cs1 where "rs_fire os ss cfg s Readable c cs = Some (Some c, cs1)" "quiet (\<lambda>fd. is_open fd cs) cs cs1"
  | (error) cs1 where "rs_fire os ss cfg s Readable c cs = Some (None, cs1)" "rs_closed cs1"
  | (eof) res cs1 where "rs_fire os ss cfg s Readable c cs = Some res" "quiet (\<lambda>fd. is_open fd cs) cs cs1" "\<not> be_read_suspended (bv s)"
      "rs_post (eof_post s (bv(s := bufferevent_disable True False (bv s))) d (set_bev s (bufferevent_disable True False (bv s)) c) cs1) res"
  | (data) bs n where "bs \<noteq> []" "\<not> be_read_suspended (bv s)" "be_read_high (bv s) = 0 \<or> length (be_input (bv s)) < be_read_high (bv s)"
      "bo_read os cs (be_fd (bv s)) n = Rd_Data bs" "be_read_high (bv s) \<noteq> 0 \<longrightarrow> length (be_input (bv s)) + n \<le> be_read_high (bv s)"
      "rs_fire os ss cfg s Readable c cs =
        (if be_read_low (bv s) \<le> length (be_input (bv s) @ bs)
         then run_cb_option os ss cfg (be_readcb (bv s)) (set_bev s (rs_input s bs bv) c) (Be_Read (be_fd (bv s)) n (Rd_Data bs) # cs)
         else Some (Some (set_bev s (rs_input s bs bv) c), Be_Read (be_fd (bv s)) n (Rd_Data bs) # cs))"
      "rs_inv (bv(s := rs_input s bs bv)) d (set_bev s (rs_input s bs bv) c) (Be_Read (be_fd (bv s)) n (Rd_Data bs) # cs)"
proof -
  obtain run b cs1 where r: "bufferevent_readcb os (bv s) cs = (run, b, cs1)" by (cases "bufferevent_readcb os (bv s) cs")
  let ?c = "set_bev s b c"
  have f: "rs_fire os ss cfg s Readable c cs = (case run of Run_Nothing \<Rightarrow> Some (Some ?c, cs1)
     | Run_Readcb \<Rightarrow> run_cb_option os ss cfg (be_readcb b) ?c cs1 | Run_Writecb \<Rightarrow> run_cb_option os ss cfg (be_writecb b) ?c cs1
     | Run_Eventcb what \<Rightarrow> redsocks_event_error os s what ?c cs1)"
    using r rs_inv_bev [OF inv, of s] by (simp add: rs_fire_def Let_def)
  from r show thesis
  proof (cases rule: bufferevent_readcb_cases)
    case suspend: suspend
    with f that(1) show thesis by simp
  next
    case quiet
    with f that(2) set_bev_same [OF inv] quiet_fd [OF inv] show thesis by simp
  next
    case err: error
    then have "rs_inv (bv(s := b)) d ?c cs1" by (auto intro!: rs_inv_quiet [OF inv] quiet_fd [OF inv])
    then obtain cs2 where "redsocks_event_error os s Reading_Error ?c cs1 = Some (None, cs2)" "rs_closed cs2"
      using event_error_dropped [of "bv(s := b)" d ?c cs1 Reading_Error os s] by auto
    with f err that(3) show thesis by simp
  next
    case e: eof
    then have q: "quiet (\<lambda>fd. is_open fd cs) cs cs1" by (auto intro: quiet_fd [OF inv])
    then have "rs_inv (bv(s := b)) d ?c cs1" using e by (auto intro!: rs_inv_quiet [OF inv])
    then obtain res where "redsocks_event_error os s Reading_Eof ?c cs1 = Some res"
      "rs_post (\<lambda>c' cs'. Reading_Eof = Reading_Eof \<and> eof_post s (bv(s := b)) d ?c cs1 c' cs') res" by (rule event_error_inv)
    with f e q that(4) show thesis by simp
  next
    case (data bs n)
    with f that(5) [of bs n] rs_inv_read [OF inv, of s bs n] show thesis by simp
  qed
qed

lemma fire_write_cases:
  assumes inv: "rs_inv bv d c cs" and low: "be_write_low (bv s) = 0"
  obtains
    (quiet) cs1 where "rs_fire os ss cfg s Writable c cs = Some (Some c, cs1)" "quiet (\<lambda>fd. is_open fd cs) cs cs1"
  | (error) cs1 where "rs_fire os ss cfg s Writable c cs = Some (None, cs1)" "rs_closed cs1"
  | (sent) bs out where "bs \<noteq> []" "be_output (bv s) = bs @ out" "out \<noteq> []"
      "rs_fire os ss cfg s Writable c cs = Some (Some (set_bev s ((bv s)\<lparr>be_output := out\<rparr>) c), Be_Write (be_fd (bv s)) bs # cs)"
      "rs_inv (bv(s := (bv s)\<lparr>be_output := out\<rparr>)) d (set_bev s ((bv s)\<lparr>be_output := out\<rparr>) c) (Be_Write (be_fd (bv s)) bs # cs)"
  | (drained) cs1 where "be_output (bv s) = [] \<and> cs1 = cs \<or> be_output (bv s) \<noteq> [] \<and> cs1 = Be_Write (be_fd (bv s)) (be_output (bv s)) # cs"
      "rs_fire os ss cfg s Writable c cs =
        run_cb_option os ss cfg (be_writecb (bv s)) (set_bev s ((bv s)\<lparr>be_output := [], be_ev_write := False\<rparr>) c) cs1"
      "rs_inv (bv(s := (bv s)\<lparr>be_output := [], be_ev_write := False\<rparr>)) d (set_bev s ((bv s)\<lparr>be_output := [], be_ev_write := False\<rparr>) c) cs1"
proof -
  obtain run b cs1 where r: "bufferevent_writecb os (bv s) cs = (run, b, cs1)" by (cases "bufferevent_writecb os (bv s) cs")
  let ?c = "set_bev s b c"
  have f: "rs_fire os ss cfg s Writable c cs = (case run of Run_Nothing \<Rightarrow> Some (Some ?c, cs1)
     | Run_Readcb \<Rightarrow> run_cb_option os ss cfg (be_readcb b) ?c cs1 | Run_Writecb \<Rightarrow> run_cb_option os ss cfg (be_writecb b) ?c cs1
     | Run_Eventcb what \<Rightarrow> redsocks_event_error os s what ?c cs1)"
    using r rs_inv_bev [OF inv, of s] by (simp add: rs_fire_def Let_def)
  from r low show thesis
  proof (cases rule: bufferevent_writecb_cases)
    case quiet
    with f that(1) set_bev_same [OF inv] quiet_fd [OF inv] show thesis by simp
  next
    case (error what)
    then have "rs_inv (bv(s := b)) d ?c cs1" by (auto intro!: rs_inv_quiet [OF inv] quiet_fd [OF inv])
    then obtain cs2 where "redsocks_event_error os s what ?c cs1 = Some (None, cs2)" "rs_closed cs2"
      using event_error_dropped [of "bv(s := b)" d ?c cs1 what os s] error by auto
    with f error that(2) show thesis by simp
  next
    case (sent bs out)
    with f that(3) [of bs out] rs_inv_write [OF inv, of s bs b] show thesis by simp
  next
    case d: drained
    have "rs_inv (bv(s := b)) d ?c cs1"
    proof (cases "be_output (bv s) = []")
      case True
      with d have "same_io (bv s) b" "cs1 = cs" by (auto simp: same_io_def)
      then show ?thesis using rs_inv_quiet [OF inv] by simp
    next
      case False
      with rs_inv_write [OF inv, of s "be_output (bv s)" b] d show ?thesis by simp
    qed
    with f d that(4) [of cs1] show thesis by simp
  qed
qed

end
