(* ===== verification/Redsocks_Relay.thy ===== *)
theory Redsocks_Relay
  imports Redsocks_Inv
begin

text \<open>
  Relaying. While a client is relayed its state is two directions that do not touch each other: what has
  been read from a side, what waits in the output of the other, and the events and ends of the stream
  between them. Every event of the loop is a step of one direction, and a direction is a queue of bytes
  that hands on the end of the stream when it is empty.
\<close>

section \<open>Directions\<close>

record rs_dir =
  di_in :: bytes
  di_reading :: bool
  di_suspended :: bool
  di_out :: bytes
  di_writing :: bool
  di_enabled :: bool
  di_eof :: bool
  di_fin :: bool

definition dir_of :: "(rs_side \<Rightarrow> rs_bev) \<Rightarrow> redsocks_client \<Rightarrow> rs_side \<Rightarrow> rs_dir" where
  "dir_of bv c s =
     \<lparr>di_in = be_input (bv s), di_reading = be_ev_read (bv s), di_suspended = be_read_suspended (bv s),
      di_out = be_output (bv (other_side s)), di_writing = be_ev_write (bv (other_side s)),
      di_enabled = be_enabled_write (bv (other_side s)), di_eof = rc_shut_rd c s, di_fin = rc_shut_wr c (other_side s)\<rparr>"

text \<open>Adding to the output starts the writing, when the event can be added.\<close>

definition dir_push :: "bool \<Rightarrow> bytes \<Rightarrow> rs_dir \<Rightarrow> rs_dir" where
  "dir_push ok bs D = (if bs = [] then D
     else D\<lparr>di_out := di_out D @ bs, di_writing := di_writing D \<or> di_enabled D \<and> ok\<rparr>)"

text \<open>
  A step of a direction, with the bytes read and the bytes written. \<open>ok\<close> says whether events can be
  added: it holds for every step when it holds for the system.
\<close>

inductive dir_step :: "bool \<Rightarrow> rs_dir \<Rightarrow> bytes \<Rightarrow> bytes \<Rightarrow> rs_dir \<Rightarrow> bool" where
  dir_idle: "dir_step ok D [] [] D"
| dir_suspend: "di_reading D \<Longrightarrow> REDSOCKS_RELAY_HALFBUFF \<le> length (di_in D) \<Longrightarrow>
    dir_step ok D [] [] (D\<lparr>di_reading := False, di_suspended := True\<rparr>)"
| dir_move: "di_reading D \<Longrightarrow> \<not> di_suspended D \<Longrightarrow> bs \<noteq> [] \<Longrightarrow> length (di_in D) < REDSOCKS_RELAY_HALFBUFF \<Longrightarrow>
    length (di_out D) < REDSOCKS_RELAY_HALFBUFF \<Longrightarrow> ok \<longrightarrow> ok' \<Longrightarrow>
    dir_step ok D bs [] (dir_push ok' (di_in D @ bs) (D\<lparr>di_in := []\<rparr>))"
| dir_keep: "di_reading D \<Longrightarrow> \<not> di_suspended D \<Longrightarrow> bs \<noteq> [] \<Longrightarrow> length (di_in D) < REDSOCKS_RELAY_HALFBUFF \<Longrightarrow>
    REDSOCKS_RELAY_HALFBUFF \<le> length (di_out D) \<Longrightarrow>
    dir_step ok D bs [] (D\<lparr>di_in := di_in D @ bs, di_reading := False\<rparr>)"
| dir_eof: "di_reading D \<Longrightarrow> \<not> di_suspended D \<Longrightarrow> di_out D \<noteq> [] \<Longrightarrow>
    dir_step ok D [] [] (D\<lparr>di_reading := False, di_eof := True\<rparr>)"
| dir_eof_fin: "di_reading D \<Longrightarrow> \<not> di_suspended D \<Longrightarrow> di_out D = [] \<Longrightarrow>
    dir_step ok D [] [] (D\<lparr>di_reading := False, di_eof := True, di_fin := True, di_writing := False, di_enabled := False\<rparr>)"
| dir_sent: "di_writing D \<Longrightarrow> bs \<noteq> [] \<Longrightarrow> di_out D = bs @ out \<Longrightarrow> out \<noteq> [] \<Longrightarrow>
    dir_step ok D [] bs (D\<lparr>di_out := out\<rparr>)"
| dir_drained_fin: "di_writing D \<Longrightarrow> di_in D = [] \<Longrightarrow> di_eof D \<Longrightarrow>
    dir_step ok D [] (di_out D) (D\<lparr>di_out := [], di_fin := True, di_writing := False, di_enabled := False\<rparr>)"
| dir_drained: "di_writing D \<Longrightarrow> di_in D \<noteq> [] \<or> \<not> di_eof D \<Longrightarrow> ok \<longrightarrow> ok1 \<and> ok2 \<Longrightarrow>
    D' = dir_push ok1 (di_in D) (D\<lparr>di_in := [], di_out := [], di_writing := False\<rparr>) \<Longrightarrow>
    dir_step ok D [] (di_out D) (D'\<lparr>di_reading := di_reading D \<or> ok2 \<and> \<not> di_suspended D\<rparr>)"

text \<open>No byte is lost, repeated or reordered by a step of a direction.\<close>

lemma dir_step_bytes:
  assumes "dir_step ok D i w D'"
  shows "di_out D @ di_in D @ i = w @ di_out D' @ di_in D'"
  using assms by (induction rule: dir_step.induct) (auto simp: dir_push_def)

text \<open>
  The invariant of a direction that began with nothing to hand on: as long as reading goes on nothing
  waits in the input, so the end of the stream comes after everything was written.
\<close>

definition dir_ok :: "rs_dir \<Rightarrow> bool" where
  "dir_ok D \<longleftrightarrow> \<not> di_suspended D \<and> (di_reading D \<longrightarrow> di_in D = [] \<and> \<not> di_eof D) \<and> (di_eof D \<longrightarrow> di_in D = []) \<and>
     (di_fin D \<longrightarrow> di_eof D \<and> di_out D = [] \<and> di_in D = [] \<and> \<not> di_writing D) \<and>
     (\<not> di_fin D \<longrightarrow> di_enabled D)"

lemma dir_step_ok: "dir_step ok D i w D' \<Longrightarrow> dir_ok D \<Longrightarrow> dir_ok D'"
  by (induction rule: dir_step.induct) (auto simp: dir_ok_def dir_push_def REDSOCKS_RELAY_HALFBUFF_def)

text \<open>When events can be added, a direction that is not closed always waits for something.\<close>

definition dir_live :: "rs_dir \<Rightarrow> bool" where
  "dir_live D \<longleftrightarrow> di_fin D \<or>
     (di_out D \<noteq> [] \<or> di_in D \<noteq> [] \<or> di_eof D \<longrightarrow> di_writing D) \<and> (di_reading D \<or> di_writing D)"

lemma dir_step_live: "dir_step ok D i w D' \<Longrightarrow> ok \<Longrightarrow> dir_ok D \<Longrightarrow> dir_live D \<Longrightarrow> dir_live D'"
  by (induction rule: dir_step.induct) (auto simp: dir_ok_def dir_live_def dir_push_def REDSOCKS_RELAY_HALFBUFF_def)

section \<open>Events are steps of a direction\<close>

definition os_adds :: "be_os \<Rightarrow> bool" where
  "os_adds os \<longleftrightarrow> (\<forall>cs fd. bo_event_add os cs fd)"

definition relay_shape :: "(rs_side \<Rightarrow> rs_bev) \<Rightarrow> bool" where
  "relay_shape bv \<longleftrightarrow> (\<forall>s. be_readcb (bv s) = Some (Cb_Relay_Read s) \<and> be_writecb (bv s) = Some (Cb_Relay_Write s)
     \<and> be_read_low (bv s) = 0 \<and> be_write_low (bv s) = 0
     \<and> be_read_high (bv s) = REDSOCKS_RELAY_HALFBUFF \<and> be_write_high (bv s) = REDSOCKS_RELAY_HALFBUFF)"

definition same_dialogue :: "(rs_side \<Rightarrow> rs_data) \<Rightarrow> (rs_side \<Rightarrow> rs_data) \<Rightarrow> bool" where
  "same_dialogue d d' \<longleftrightarrow> (\<forall>s. rd_pre (d' s) = rd_pre (d s) \<and> rd_msg (d' s) = rd_msg (d s))"

lemma same_dialogue_refl [simp]: "same_dialogue d d"
  by (simp add: same_dialogue_def)

definition relay_step :: "bool \<Rightarrow> rs_side \<Rightarrow> (rs_side \<Rightarrow> rs_bev) \<Rightarrow> (rs_side \<Rightarrow> rs_data) \<Rightarrow> redsocks_client \<Rightarrow> be_calls \<Rightarrow>
    redsocks_client \<Rightarrow> be_calls \<Rightarrow> bool" where
  "relay_step ok s bv d c cs c' cs' \<longleftrightarrow> (\<exists>bv' d' i w. rs_inv bv' d' c' cs' \<and> relay_shape bv' \<and> same_dialogue d d' \<and>
     same_client c c' \<and> (\<forall>t. be_fd (bv' t) = be_fd (bv t)) \<and>
     dir_step ok (dir_of bv c s) i w (dir_of bv' c' s) \<and> dir_of bv' c' (other_side s) = dir_of bv c (other_side s) \<and>
     bytes_read (be_fd (bv s)) cs' = bytes_read (be_fd (bv s)) cs @ i \<and>
     bytes_written (be_fd (bv (other_side s))) cs' = bytes_written (be_fd (bv (other_side s))) cs @ w \<and>
     bytes_read (be_fd (bv (other_side s))) cs' = bytes_read (be_fd (bv (other_side s))) cs \<and>
     bytes_written (be_fd (bv s)) cs' = bytes_written (be_fd (bv s)) cs)"

lemma rs_inv_fd_neq: "rs_inv bv d c cs \<Longrightarrow> be_fd (bv s) \<noteq> be_fd (bv (other_side s))" "rs_inv bv d c cs \<Longrightarrow> be_fd (bv (other_side s)) \<noteq> be_fd (bv s)"
  by (cases s; simp add: rs_inv_def rs_fds_def)+

lemma relay_stepI:
  "rs_inv bv' d' c' cs' \<Longrightarrow> relay_shape bv' \<Longrightarrow> same_dialogue d d' \<Longrightarrow> same_client c c' \<Longrightarrow>
   (\<And>t. be_fd (bv' t) = be_fd (bv t)) \<Longrightarrow> dir_step ok (dir_of bv c s) i w (dir_of bv' c' s) \<Longrightarrow>
   dir_of bv' c' (other_side s) = dir_of bv c (other_side s) \<Longrightarrow>
   bytes_read (be_fd (bv s)) cs' = bytes_read (be_fd (bv s)) cs @ i \<Longrightarrow>
   bytes_written (be_fd (bv (other_side s))) cs' = bytes_written (be_fd (bv (other_side s))) cs @ w \<Longrightarrow>
   bytes_read (be_fd (bv (other_side s))) cs' = bytes_read (be_fd (bv (other_side s))) cs \<Longrightarrow>
   bytes_written (be_fd (bv s)) cs' = bytes_written (be_fd (bv s)) cs \<Longrightarrow>
   relay_step ok s bv d c cs c' cs'"
  unfolding relay_step_def by blast

lemma relay_shape_io:
  "relay_shape bv \<Longrightarrow> be_readcb b = be_readcb (bv s) \<Longrightarrow> be_writecb b = be_writecb (bv s) \<Longrightarrow>
   be_read_low b = be_read_low (bv s) \<Longrightarrow> be_read_high b = be_read_high (bv s) \<Longrightarrow>
   be_write_low b = be_write_low (bv s) \<Longrightarrow> be_write_high b = be_write_high (bv s) \<Longrightarrow> relay_shape (bv(s := b))"
  by (simp add: relay_shape_def)

lemma relay_shape_same_io: "relay_shape bv \<Longrightarrow> same_io (bv s) b \<Longrightarrow> relay_shape (bv(s := b))"
  by (rule relay_shape_io) (simp_all add: same_io_def)

lemma relay_shape_less:
  assumes "relay_shape bv" "\<And>t. rs_less (bv t) (bv' t)"
  shows "relay_shape bv'"
  using assms unfolding relay_shape_def rs_less_def same_io_def by metis

lemma write_buffer_events:
  assumes "bufferevent_write_buffer os buf b cs = (b', cs')"
  shows "be_ev_write b' = (if buf = [] then be_ev_write b
      else be_ev_write b \<or> be_enabled_write b \<and> bo_event_add os cs (be_fd b))"
    "be_ev_read b' = be_ev_read b" "be_read_suspended b' = be_read_suspended b" "be_enabled_write b' = be_enabled_write b"
proof -
  have "b' = fst (bufferevent_write_buffer os buf b cs)" using assms by simp
  then show "be_ev_write b' = (if buf = [] then be_ev_write b
      else be_ev_write b \<or> be_enabled_write b \<and> bo_event_add os cs (be_fd b))"
    "be_ev_read b' = be_ev_read b" "be_read_suspended b' = be_read_suspended b" "be_enabled_write b' = be_enabled_write b"
    by (simp_all add: bufferevent_write_buffer_def bufferevent_socket_outbuf_cb_def be_socket_add_write_def Let_def) blast
qed

lemma enable_read_events:
  assumes "bufferevent_enable os True False b cs = (ok, b', cs')"
  shows "be_ev_read b' = (be_ev_read b \<or> bo_event_add os cs (be_fd b) \<and> \<not> be_read_suspended b)"
    "be_ev_write b' = be_ev_write b" "be_read_suspended b' = be_read_suspended b" "be_enabled_write b' = be_enabled_write b"
proof -
  have "b' = fst (snd (bufferevent_enable os True False b cs))" using assms by simp
  then show "be_ev_read b' = (be_ev_read b \<or> bo_event_add os cs (be_fd b) \<and> \<not> be_read_suspended b)"
    "be_ev_write b' = be_ev_write b" "be_read_suspended b' = be_read_suspended b" "be_enabled_write b' = be_enabled_write b"
    by (simp_all add: bufferevent_enable_def be_socket_enable_def be_socket_add_read_def Let_def)
qed

lemma rs_move_inv:
  fixes s
  defines "o' \<equiv> other_side s"
  assumes inv: "rs_inv bv d c cs" and mv: "rs_move os s (bv s) (bv o') c cs = (c', cs')"
  obtains t ok where "c' = set_bev o' t (set_bev s ((bv s)\<lparr>be_input := []\<rparr>) c)" "os_adds os \<longrightarrow> ok"
    "rs_inv (bv(s := (bv s)\<lparr>be_input := []\<rparr>, o' := t))
      (d(s := (d s)\<lparr>rd_moved := rd_moved (d s) @ be_input (bv s)\<rparr>)) c' cs'"
    "same_io ((bv o')\<lparr>be_output := be_output (bv o') @ be_input (bv s)\<rparr>) t"
    "be_ev_write t = (if be_input (bv s) = [] then be_ev_write (bv o') else be_ev_write (bv o') \<or> be_enabled_write (bv o') \<and> ok)"
    "be_ev_read t = be_ev_read (bv o')" "be_read_suspended t = be_read_suspended (bv o')"
    "be_enabled_write t = be_enabled_write (bv o')" "quiet (\<lambda>fd. is_open fd cs) cs cs'"
proof -
  obtain t cs1 where w: "bufferevent_write_buffer os (be_input (bv s)) (bv o') cs = (t, cs1)" by force
  note io = write_buffer_io [OF w]
  have q: "quiet (\<lambda>fd. is_open fd cs) cs cs1"
    by (rule quiet_mono [OF io(2)]) (use rs_inv_open [OF inv] in simp)
  have c: "c' = set_bev o' t (set_bev s ((bv s)\<lparr>be_input := []\<rparr>) c)" "cs' = cs1"
    using mv w by (simp_all add: rs_move_def o'_def)
  let ?bv = "bv(s := (bv s)\<lparr>be_input := []\<rparr>, o' := t)" and ?d = "d(s := (d s)\<lparr>rd_moved := rd_moved (d s) @ be_input (bv s)\<rparr>)"
  note i = inv [unfolded rs_inv_def]
  have fd: "be_fd (?bv u) = be_fd (bv u)" for u
    using io(1) by (simp add: same_io_def)
  have "rs_fds ?bv cs'"
    using i quiet_data(3) [OF q] quiet_calls_ok [OF q] unfolding rs_fds_def fd c(2) by simp
  moreover have "rs_bytes ?bv ?d cs'"
    unfolding rs_bytes_def fd c(2)
  proof
    fix u
    show "bytes_read (be_fd (bv u)) cs1 = rd_pre (?d u) @ rd_moved (?d u) @ be_input (?bv u) \<and>
      bytes_written (be_fd (bv u)) cs1 @ be_output (?bv u) = rd_msg (?d u) @ rd_moved (?d (other_side u))"
    proof (cases "u = s")
      case True
      then show ?thesis using i rs_bytesD [of bv d cs s] quiet_data [OF q] by (simp add: o'_def)
    next
      case False
      then have u: "u = o'" by (simp add: other_side_iff o'_def)
      have "bytes_written (be_fd (bv o')) cs @ be_output (bv o') @ be_input (bv s) = rd_msg (d o') @ rd_moved (d s) @ be_input (bv s)"
        using i rs_bytesD(2) [of bv d cs o'] by (simp add: o'_def)
      then show ?thesis using i rs_bytesD(1) [of bv d cs o'] quiet_data [OF q] io(1)
        by (simp add: u o'_def same_io_def)
    qed
  qed
  moreover have "rc_bev c' = (\<lambda>u. Some (?bv u))" using i by (auto simp: c(1))
  ultimately have "rs_inv ?bv ?d c' cs'" using i by (simp add: rs_inv_def rs_shut_ok_def all_shut_def c(1))
  moreover have "os_adds os \<longrightarrow> bo_event_add os cs (be_fd (bv o'))" by (simp add: os_adds_def)
  ultimately show thesis using that [OF c(1)] write_buffer_events [OF w] io(1) q unfolding c(2) by blast
qed

text \<open>Ends of the stream and errors.\<close>

lemma eof_relay_step:
  assumes "rs_inv bv d c cs" "relay_shape bv" "be_ev_read (bv s)" "\<not> be_read_suspended (bv s)"
    and "b = bufferevent_disable True False (bv s)" "quiet (\<lambda>fd. is_open fd cs) cs cs1"
    and "eof_post s (bv(s := b)) d (set_bev s b c) cs1 c' cs'"
  shows "relay_step ok s bv d c cs c' cs'"
proof -
  let ?bv = "eof_bevs s (bv(s := b))" and ?o = "other_side s"
  note e = assms(7) [unfolded eof_post_def]
  have q: "quiet (\<lambda>fd. is_open fd cs) cs cs'" using e quiet_trans_open [OF assms(6)] by blast
  have io: "same_io (bv t) (?bv t)" for t
    using assms(5) by (auto simp: eof_bevs_def same_io_def bufferevent_disable_def be_socket_disable_def Let_def)
  have "relay_shape ?bv" using assms(2) io unfolding relay_shape_def same_io_def by metis
  moreover have "dir_step ok (dir_of bv c s) [] [] (dir_of ?bv c' s)"
    using dir_eof [of "dir_of bv c s" ok] dir_eof_fin [of "dir_of bv c s" ok] e assms(3-5)
    by (cases "be_output (bv ?o) = []") (simp_all add: dir_of_def eof_bevs_def Let_def io [unfolded same_io_def])
  moreover have "dir_of ?bv c' ?o = dir_of bv c ?o"
    using e assms(5) by (simp add: dir_of_def eof_bevs_def Let_def)
  ultimately show ?thesis
    using e q quiet_data [OF q] io unfolding relay_step_def
    by (intro exI [of _ ?bv] exI [of _ d] exI [of _ "[]"]) (auto simp: same_io_def same_client_def)
qed

lemma move_relay_step:
  assumes inv: "rs_inv bv d c cs" and sh: "relay_shape bv"
    and mv: "rs_move os s (bv s) (bv (other_side s)) c cs = (c', cs')"
  obtains bv' d' ok where "rs_inv bv' d' c' cs'" "relay_shape bv'" "same_dialogue d d'" "same_client c c'"
    "\<forall>t. be_fd (bv' t) = be_fd (bv t)" "os_adds os \<longrightarrow> ok" "quiet (\<lambda>fd. is_open fd cs) cs cs'"
    "dir_of bv' c' s = dir_push ok (be_input (bv s)) ((dir_of bv c s)\<lparr>di_in := []\<rparr>)"
    "dir_of bv' c' (other_side s) = dir_of bv c (other_side s)"
proof -
  let ?o = "other_side s"
  obtain t ok where c': "c' = set_bev ?o t (set_bev s ((bv s)\<lparr>be_input := []\<rparr>) c)" and ok: "os_adds os \<longrightarrow> ok"
    and i: "rs_inv (bv(s := (bv s)\<lparr>be_input := []\<rparr>, ?o := t)) (d(s := (d s)\<lparr>rd_moved := rd_moved (d s) @ be_input (bv s)\<rparr>)) c' cs'"
    and io: "same_io ((bv ?o)\<lparr>be_output := be_output (bv ?o) @ be_input (bv s)\<rparr>) t"
    and t: "be_ev_write t = (if be_input (bv s) = [] then be_ev_write (bv ?o) else be_ev_write (bv ?o) \<or> be_enabled_write (bv ?o) \<and> ok)"
      "be_ev_read t = be_ev_read (bv ?o)" "be_read_suspended t = be_read_suspended (bv ?o)" "be_enabled_write t = be_enabled_write (bv ?o)"
    and q: "quiet (\<lambda>fd. is_open fd cs) cs cs'"
    by (rule rs_move_inv [OF inv mv])
  show thesis
  proof (rule that [OF i _ _ _ _ ok q])
    show "relay_shape (bv(s := (bv s)\<lparr>be_input := []\<rparr>, ?o := t))"
      using sh io by (auto intro!: relay_shape_io simp: same_io_def)
  qed (use c' io t in \<open>auto simp: same_dialogue_def same_client_def same_io_def dir_of_def dir_push_def\<close>)
qed

text \<open>Data was read and the read callback is run: it is moved, or reading stops.\<close>

lemma relay_readcb_step:
  assumes inv: "rs_inv bv d c cs" and sh: "relay_shape bv" and ev: "be_ev_read (bv s)" "\<not> be_read_suspended (bv s)"
    and bs: "bs \<noteq> []" "length (be_input (bv s)) < REDSOCKS_RELAY_HALFBUFF"
    and i: "rs_inv (bv(s := rs_input s bs bv)) d (set_bev s (rs_input s bs bv) c) cs1"
    and cs1: "cs1 = Be_Read (be_fd (bv s)) n (Rd_Data bs) # cs"
  obtains c' cs' where "relay_readcb os s (set_bev s (rs_input s bs bv) c) cs1 = Some (Some c', cs')"
    "relay_step (os_adds os) s bv d c cs c' cs'"
proof -
  let ?b = "rs_input s bs bv" and ?o = "other_side s" and ?D = "dir_of bv c s"
  let ?bv = "bv(s := ?b)"
  define c2 cs2 where "c2 = (set_bev s ?b c)\<lparr>rc_last_event := bo_time os cs1\<rparr>" and "cs2 = Be_Time # cs1"
  have t: "redsocks_touch_client os (set_bev s ?b c) cs1 = (c2, cs2)" by (simp add: redsocks_touch_client_def c2_def cs2_def)
  note i2 = touch_inv [OF i t]
  have sh2: "relay_shape ?bv" using sh by (auto intro: relay_shape_io)
  have D: "dir_of ?bv c2 s = ?D\<lparr>di_in := di_in ?D @ bs\<rparr>" "dir_of ?bv c2 ?o = dir_of bv c ?o" by (simp_all add: dir_of_def c2_def)
  have rw: "bytes_read (be_fd (bv s)) cs2 = bytes_read (be_fd (bv s)) cs @ bs" "bytes_written fd cs2 = bytes_written fd cs"
    "bytes_read (be_fd (bv ?o)) cs2 = bytes_read (be_fd (bv ?o)) cs" for fd
    using rs_inv_fd_neq [OF inv, of s] by (simp_all add: cs2_def cs1)
  have pre: "di_reading ?D" "\<not> di_suspended ?D" "length (di_in ?D) < REDSOCKS_RELAY_HALFBUFF" using ev bs(2) by (simp_all add: dir_of_def)
  have high: "be_write_high (bv ?o) = REDSOCKS_RELAY_HALFBUFF" using sh by (simp add: relay_shape_def)
  show thesis
  proof (cases "length (be_output (bv ?o)) < REDSOCKS_RELAY_HALFBUFF")
    case True
    obtain c3 cs3 where mv: "rs_move os s (?bv s) (?bv ?o) c2 cs2 = (c3, cs3)" by force
    obtain bv' d' ok where m: "rs_inv bv' d' c3 cs3" "relay_shape bv'" "same_dialogue d d'" "same_client c2 c3"
      and fd: "\<forall>t. be_fd (bv' t) = be_fd (?bv t)" and ok: "os_adds os \<longrightarrow> ok" and q: "quiet (\<lambda>fd. is_open fd cs2) cs2 cs3"
      and D3: "dir_of bv' c3 s = dir_push ok (be_input (?bv s)) ((dir_of ?bv c2 s)\<lparr>di_in := []\<rparr>)" "dir_of bv' c3 ?o = dir_of ?bv c2 ?o"
      by (rule move_relay_step [OF i2 sh2 mv])
    have "length (di_out ?D) < REDSOCKS_RELAY_HALFBUFF" using True by (simp add: dir_of_def)
    from dir_move [OF pre(1,2) bs(1) pre(3) this ok] have st: "dir_step (os_adds os) ?D bs [] (dir_of bv' c3 s)"
      using D3(1) D(1) by (simp add: dir_of_def)
    have "relay_step (os_adds os) s bv d c cs c3 cs3"
      by (rule relay_stepI [OF m(1-3) _ _ st]) (use m(4) fd D3(2) D(2) rw quiet_data [OF q] in \<open>simp_all add: c2_def same_client_def\<close>)
    moreover have "relay_readcb os s (set_bev s ?b c) cs1 = Some (Some c3, cs3)"
      using t True high mv rs_inv_bev [OF i2] by (simp add: relay_readcb_def redsocks_relay_readcb_def)
    ultimately show ?thesis using that by blast
  next
    case False
    let ?b3 = "bufferevent_disable True False ?b"
    let ?c3 = "set_bev s ?b3 c2"
    have i3: "rs_inv (?bv(s := ?b3)) d ?c3 cs2" by (rule rs_inv_quiet [OF i2]) simp_all
    have st: "dir_step (os_adds os) ?D bs [] (dir_of (?bv(s := ?b3)) ?c3 s)"
      using dir_keep [OF pre(1,2) bs(1) pre(3), of "os_adds os"] False by (simp add: dir_of_def c2_def)
    have "relay_shape (?bv(s := ?b3))" by (rule relay_shape_same_io [OF sh2]) simp
    then have "relay_step (os_adds os) s bv d c cs ?c3 cs2"
      by (rule relay_stepI [OF i3 _ same_dialogue_refl _ _ st]) (use rw in \<open>simp_all add: c2_def same_client_def dir_of_def\<close>)
    moreover have "relay_readcb os s (set_bev s ?b c) cs1 = Some (Some ?c3, cs2)"
      using t False high rs_inv_bev [OF i2] by (simp add: relay_readcb_def redsocks_relay_readcb_def)
    ultimately show ?thesis using that by blast
  qed
qed

lemma quiet_relay_step:
  assumes "rs_inv bv d c cs" "relay_shape bv" "quiet (\<lambda>fd. is_open fd cs) cs cs1"
  shows "relay_step ok s bv d c cs c cs1"
  using rs_inv_calls [OF assms(1,3)] quiet_data [OF assms(3)] assms(2)
  by (intro relay_stepI [OF _ _ same_dialogue_refl _ _ dir_idle]) (simp_all add: same_client_def)

lemma fire_readable:
  assumes inv: "rs_inv bv d c cs" and sh: "relay_shape bv" and ev: "be_ev_read (bv s)"
  obtains res where "rs_fire os ss cfg s Readable c cs = Some res"
    "rs_post (relay_step (os_adds os) s bv d c cs) res"
proof (cases rule: fire_read_cases [OF inv, of os ss cfg s])
  case 1
  let ?b = "bufferevent_suspend_read (bv s)" and ?D = "dir_of bv c s"
  let ?bv = "bv(s := ?b)" and ?c = "set_bev s ?b c"
  have "dir_step (os_adds os) ?D [] [] (dir_of ?bv ?c s)"
    using dir_suspend [of ?D "os_adds os"] dir_idle [of "os_adds os" ?D] ev 1(2) sh
    by (cases "be_read_suspended (bv s)") (simp_all add: dir_of_def bufferevent_suspend_read_def be_socket_disable_def relay_shape_def)
  moreover have "rs_inv ?bv d ?c cs" by (rule rs_inv_quiet [OF inv]) auto
  moreover have "relay_shape ?bv" by (rule relay_shape_same_io [OF sh]) simp
  ultimately have "relay_step (os_adds os) s bv d c cs ?c cs"
    using same_io_suspend [of "bv s"] by (intro relay_stepI [of ?bv d]) (simp_all add: same_client_def same_io_def dir_of_def bufferevent_suspend_read_def be_socket_disable_def)
  with 1 that show ?thesis by simp
next
  case (2 cs1)
  with quiet_relay_step [OF inv sh] that show ?thesis by simp
next
  case (3 cs1)
  with that show ?thesis by simp
next
  case (4 res cs1)
  from rs_post_mono [OF 4(4) eof_relay_step [OF inv sh ev 4(3) refl 4(2)]] 4(1) that show ?thesis by simp
next
  case (5 bs n)
  have high: "be_read_high (bv s) = REDSOCKS_RELAY_HALFBUFF" "be_read_low (bv s) = 0" "be_readcb (bv s) = Some (Cb_Relay_Read s)"
    using sh by (simp_all add: relay_shape_def)
  with 5(3) have "length (be_input (bv s)) < REDSOCKS_RELAY_HALFBUFF" by (auto simp: REDSOCKS_RELAY_HALFBUFF_def)
  from relay_readcb_step [OF inv sh ev 5(2,1) this 5(7) refl, of os] obtain c' cs'
    where "relay_readcb os s (set_bev s (rs_input s bs bv) c) (Be_Read (be_fd (bv s)) n (Rd_Data bs) # cs) = Some (Some c', cs')"
      "relay_step (os_adds os) s bv d c cs c' cs'" .
  with 5(6) high that show ?thesis by (simp add: run_cb_option_def)
qed

text \<open>
  The write callback on an empty output, as far as the direction that was drained is concerned: its step
  began with the output that has just been written.
\<close>

definition drained_step :: "bool \<Rightarrow> rs_side \<Rightarrow> (rs_side \<Rightarrow> rs_bev) \<Rightarrow> (rs_side \<Rightarrow> rs_data) \<Rightarrow> redsocks_client \<Rightarrow> be_calls \<Rightarrow>
    redsocks_client \<Rightarrow> be_calls \<Rightarrow> bool" where
  "drained_step ok s bv d c cs c' cs' \<longleftrightarrow> (\<exists>bv' d'. rs_inv bv' d' c' cs' \<and> relay_shape bv' \<and> same_dialogue d d' \<and> same_client c c' \<and>
     (\<forall>u. be_fd (bv' u) = be_fd (bv u)) \<and> quiet (\<lambda>fd. is_open fd cs) cs cs' \<and>
     (\<forall>D. D\<lparr>di_out := [], di_writing := False\<rparr> = dir_of bv c s \<longrightarrow> di_writing D \<longrightarrow>
        dir_step ok D [] (di_out D) (dir_of bv' c' s)) \<and>
     dir_of bv' c' (other_side s) = dir_of bv c (other_side s))"

lemma drained_stepI:
  assumes "rs_inv bv' d' c' cs'" "relay_shape bv'" "same_dialogue d d'" "same_client c c'" "\<And>u. be_fd (bv' u) = be_fd (bv u)"
    "quiet (\<lambda>fd. is_open fd cs) cs cs'" "dir_of bv' c' (other_side s) = dir_of bv c (other_side s)"
    "\<And>D. D\<lparr>di_out := [], di_writing := False\<rparr> = dir_of bv c s \<Longrightarrow> di_writing D \<Longrightarrow> di_in D = be_input (bv s) \<Longrightarrow>
      di_eof D = rc_shut_rd c s \<Longrightarrow> di_reading D = be_ev_read (bv s) \<Longrightarrow> di_suspended D = be_read_suspended (bv s) \<Longrightarrow>
      dir_step ok D [] (di_out D) (dir_of bv' c' s)"
  shows "drained_step ok s bv d c cs c' cs'"
proof -
  have "dir_step ok D [] (di_out D) (dir_of bv' c' s)" if D: "D\<lparr>di_out := [], di_writing := False\<rparr> = dir_of bv c s" "di_writing D" for D
    by (rule assms(8) [OF D]; use D(1) in \<open>cases D; simp add: dir_of_def\<close>)
  with assms(1-7) show ?thesis unfolding drained_step_def by blast
qed

text \<open>The source has ended and everything was written: the end is handed on.\<close>

lemma relay_writecb_end:
  fixes t
  defines "s \<equiv> other_side t"
  assumes inv: "rs_inv bv d c cs" and sh: "relay_shape bv"
    and e: "be_input (bv s) = []" "rc_shut_rd c s"
  obtains res where "redsocks_relay_writecb os s c cs = Some res" "rs_post (drained_step ok s bv d c cs) res"
proof -
  have o: "other_side t = s" "other_side s = t" "s \<noteq> t" by (simp_all add: s_def)
  let ?bv = "bv(t := bufferevent_disable False True (bv t))"
  have "rc_shut_rd c (other_side t)" using e by (simp add: o)
  then obtain res where r: "redsocks_shutdown t Shut_Wr c cs = Some res"
    and p: "rs_post (\<lambda>c' cs'. c' = shut_wr_client t (bv t) c \<and> quiet (\<lambda>fd. is_open fd cs) cs cs' \<and> rs_inv ?bv d c' cs') res"
    by (rule redsocks_shutdown_wr [OF inv])
  have "drained_step ok s bv d c cs c' cs'"
    if c': "c' = shut_wr_client t (bv t) c" and q: "quiet (\<lambda>fd. is_open fd cs) cs cs'" and i: "rs_inv ?bv d c' cs'" for c' cs'
  proof (rule drained_stepI [OF i])
    show "relay_shape ?bv" by (rule relay_shape_same_io [OF sh]) simp
    show "same_client c c'" by (simp add: c' same_client_def shut_wr_client_def)
    show "dir_of ?bv c' (other_side s) = dir_of bv c (other_side s)" using c' o(3) by (simp add: dir_of_def o shut_wr_client_def)
  next
    fix D
    assume D: "D\<lparr>di_out := [], di_writing := False\<rparr> = dir_of bv c s" "di_writing D" "di_in D = be_input (bv s)" "di_eof D = rc_shut_rd c s"
    have "dir_of ?bv c' s = (dir_of bv c s)\<lparr>di_fin := True, di_enabled := False, di_writing := False\<rparr>"
      using c' o(3) by (simp add: dir_of_def o shut_wr_client_def)
    then have "dir_of ?bv c' s = D\<lparr>di_out := [], di_fin := True, di_writing := False, di_enabled := False\<rparr>" unfolding D(1) [symmetric] by simp
    with dir_drained_fin [OF D(2), of ok] D(3,4) e show "dir_step ok D [] (di_out D) (dir_of ?bv c' s)" by simp
  qed (use q in simp_all)
  then have "rs_post (drained_step ok s bv d c cs) res" by (intro rs_post_mono [OF p]) blast
  moreover have "redsocks_relay_writecb os s c cs = Some res"
    using r e rs_inv_bev [OF inv] by (simp add: redsocks_relay_writecb_def o)
  ultimately show thesis using that by blast
qed

text \<open>Otherwise the next data is moved and reading goes on.\<close>

lemma relay_writecb_more:
  fixes t
  defines "s \<equiv> other_side t"
  assumes inv: "rs_inv bv d c cs" and sh: "relay_shape bv" and out: "be_output (bv t) = []"
    and e: "\<not> (be_input (bv s) = [] \<and> rc_shut_rd c s)"
  obtains c' cs' where "redsocks_relay_writecb os s c cs = Some (Some c', cs')" "drained_step (os_adds os) s bv d c cs c' cs'"
proof -
  have o: "other_side t = s" "other_side s = t" "s \<noteq> t" "t \<noteq> s" by (simp_all add: s_def)
  obtain c2 cs2 where mv: "rs_move os s (bv s) (bv (other_side s)) c cs = (c2, cs2)" by force
  obtain bv2 d2 ok where i2: "rs_inv bv2 d2 c2 cs2" and sh2: "relay_shape bv2" and m: "same_dialogue d d2" "same_client c c2"
    and fd2: "\<forall>u. be_fd (bv2 u) = be_fd (bv u)" and ok: "os_adds os \<longrightarrow> ok" and q2: "quiet (\<lambda>fd. is_open fd cs) cs cs2"
    and D2: "dir_of bv2 c2 s = dir_push ok (be_input (bv s)) ((dir_of bv c s)\<lparr>di_in := []\<rparr>)"
      "dir_of bv2 c2 (other_side s) = dir_of bv c (other_side s)"
    by (rule move_relay_step [OF inv sh mv])
  obtain ok' f cs3 where en: "bufferevent_enable os True False (bv2 s) cs2 = (ok', f, cs3)"
    by (cases "bufferevent_enable os True False (bv2 s) cs2")
  note io = enable_io [OF en] and ev = enable_read_events [OF en]
  let ?bv = "bv2(s := f)" and ?c = "set_bev s f c2" and ?ok = "bo_event_add os cs2 (be_fd (bv2 s))"
  have q3: "quiet (\<lambda>fd. is_open fd cs2) cs2 cs3" by (rule quiet_fd [OF i2 io(2)])
  have r: "redsocks_relay_writecb os s c cs = Some (Some ?c, cs3)"
    using e mv en out sh rs_inv_bev [OF inv] rs_inv_bev [OF i2]
    by (auto simp: redsocks_relay_writecb_def o relay_shape_def REDSOCKS_RELAY_HALFBUFF_def)
  have D3: "dir_of ?bv ?c s = (dir_of bv2 c2 s)\<lparr>di_reading := di_reading (dir_of bv2 c2 s) \<or> ?ok \<and> \<not> di_suspended (dir_of bv2 c2 s)\<rparr>"
    using io(1) ev o(3) by (simp add: dir_of_def o same_io_def)
  have "drained_step (os_adds os) s bv d c cs ?c cs3"
  proof (rule drained_stepI [OF rs_inv_quiet [OF i2 io(1) q3] relay_shape_same_io [OF sh2 io(1)] m(1)])
    show "same_client c ?c" using m(2) by (simp add: same_client_def)
    show "be_fd (?bv u) = be_fd (bv u)" for u using fd2 io(1) by (simp add: same_io_def)
    show "quiet (\<lambda>fd. is_open fd cs) cs cs3" by (rule quiet_trans_open [OF q2 q3])
    show "dir_of ?bv ?c (other_side s) = dir_of bv c (other_side s)" using D2(2) io(1) ev o(3,4) by (simp add: dir_of_def o(1,2) same_io_def)
  next
    fix D
    assume D: "D\<lparr>di_out := [], di_writing := False\<rparr> = dir_of bv c s" "di_writing D" and eq: "di_in D = be_input (bv s)" "di_eof D = rc_shut_rd c s"
      "di_reading D = be_ev_read (bv s)" "di_suspended D = be_read_suspended (bv s)"
    have "di_reading (dir_of bv2 c2 s) = di_reading D" "di_suspended (dir_of bv2 c2 s) = di_suspended D"
      using D2(1) eq by (simp_all add: dir_push_def dir_of_def)
    moreover have "dir_of bv2 c2 s = dir_push ok (di_in D) (D\<lparr>di_in := [], di_out := [], di_writing := False\<rparr>)"
      unfolding D2(1) D(1) [symmetric] by (simp add: eq(1) cong del: if_weak_cong) (cases D; simp add: dir_push_def)
    moreover have "os_adds os \<longrightarrow> ok \<and> ?ok" using ok by (simp add: os_adds_def)
    ultimately show "dir_step (os_adds os) D [] (di_out D) (dir_of ?bv ?c s)"
      using dir_drained [OF D(2) _ _ refl, of "os_adds os" ok ?ok] e eq D3 by simp
  qed
  with r that show thesis by blast
qed

lemma fire_writable:
  assumes inv: "rs_inv bv d c cs" and sh: "relay_shape bv" and ev: "be_ev_write (bv t)"
  obtains res where "rs_fire os ss cfg t Writable c cs = Some res"
    "rs_post (relay_step (os_adds os) (other_side t) bv d c cs) res"
proof -
  let ?s = "other_side t"
  let ?D = "dir_of bv c ?s"
  have low: "be_write_low (bv t) = 0" and cb: "be_writecb (bv t) = Some (Cb_Relay_Write t)" using sh by (simp_all add: relay_shape_def)
  show thesis
  proof (cases rule: fire_write_cases [OF inv low, of os ss cfg])
    case (1 cs1)
    with quiet_relay_step [OF inv sh] that show ?thesis by simp
  next
    case (2 cs1)
    with that show ?thesis by simp
  next
    case (3 bs out)
    have "dir_step (os_adds os) ?D [] bs (dir_of (bv(t := (bv t)\<lparr>be_output := out\<rparr>)) (set_bev t ((bv t)\<lparr>be_output := out\<rparr>) c) ?s)"
      using dir_sent [of ?D bs out "os_adds os"] 3 ev by (simp add: dir_of_def)
    moreover have "relay_shape (bv(t := (bv t)\<lparr>be_output := out\<rparr>))" using sh by (auto intro!: relay_shape_io)
    ultimately have "relay_step (os_adds os) ?s bv d c cs (set_bev t ((bv t)\<lparr>be_output := out\<rparr>) c) (Be_Write (be_fd (bv t)) bs # cs)"
      using rs_inv_fd_neq [OF inv, of t] by (intro relay_stepI [OF 3(5)]) (simp_all add: same_client_def dir_of_def)
    with 3(4) that show ?thesis by simp
  next
    case (4 cs1)
    let ?b = "(bv t)\<lparr>be_output := [], be_ev_write := False\<rparr>"
    let ?bv = "bv(t := ?b)"
    define c2 cs2 where "c2 = (set_bev t ?b c)\<lparr>rc_last_event := bo_time os cs1\<rparr>" and "cs2 = Be_Time # cs1"
    have tc: "redsocks_touch_client os (set_bev t ?b c) cs1 = (c2, cs2)" by (simp add: redsocks_touch_client_def c2_def cs2_def)
    note i2 = touch_inv [OF 4(3) tc]
    have sh2: "relay_shape ?bv" using sh by (auto intro!: relay_shape_io)
    obtain res where r: "redsocks_relay_writecb os ?s c2 cs2 = Some res" and p: "rs_post (drained_step (os_adds os) ?s ?bv d c2 cs2) res"
    proof (cases "be_input (?bv ?s) = [] \<and> rc_shut_rd c2 ?s")
      case True
      then show ?thesis by (auto intro: relay_writecb_end [OF i2 sh2, of t os "os_adds os"] that)
    next
      case False
      have "be_output (?bv t) = []" by simp
      from relay_writecb_more [OF i2 sh2 this False, of os] obtain c' cs' where "redsocks_relay_writecb os ?s c2 cs2 = Some (Some c', cs')"
        "drained_step (os_adds os) ?s ?bv d c2 cs2 c' cs'" .
      with that show ?thesis by simp
    qed
    have "rs_fire os ss cfg t Writable c cs = Some res"
      using 4(2) cb r tc by (simp add: run_cb_option_def relay_writecb_def)
    moreover have "rs_post (relay_step (os_adds os) ?s bv d c cs) res"
    proof (rule rs_post_mono [OF p], unfold drained_step_def, elim exE conjE)
      fix c' cs' bv' d'
      assume a: "rs_inv bv' d' c' cs'" "relay_shape bv'" "same_dialogue d d'" "same_client c2 c'" "\<forall>u. be_fd (bv' u) = be_fd (?bv u)"
        "dir_of bv' c' (other_side ?s) = dir_of ?bv c2 (other_side ?s)" and q: "quiet (\<lambda>fd. is_open fd cs2) cs2 cs'"
        and st: "\<forall>D. D\<lparr>di_out := [], di_writing := False\<rparr> = dir_of ?bv c2 ?s \<longrightarrow> di_writing D \<longrightarrow>
          dir_step (os_adds os) D [] (di_out D) (dir_of bv' c' ?s)"
      have D: "?D\<lparr>di_out := [], di_writing := False\<rparr> = dir_of ?bv c2 ?s" "di_writing ?D" "di_out ?D = be_output (bv t)" "dir_of ?bv c2 t = dir_of bv c t"
        using ev by (simp_all add: dir_of_def c2_def)
      then have "dir_step (os_adds os) ?D [] (di_out ?D) (dir_of bv' c' ?s)" using st by blast
      then show "relay_step (os_adds os) ?s bv d c cs c' cs'"
        using a(4-6) D quiet_data [OF q] 4(1) rs_inv_fd_neq [OF inv, of t]
        by (intro relay_stepI [OF a(1-3)]) (auto simp: same_client_def c2_def cs2_def)
    qed
    ultimately show ?thesis using that by blast
  qed
qed

end
