(* ===== verification/Redsocks_Handshake.thy ===== *)
theory Redsocks_Handshake
  imports Redsocks_Relay
begin

text \<open>
  The life of a client over all relay subsystems. A locale states what a subsystem must keep while it
  talks to the proxy server; inside it one invariant is proved for every event of the loop. The
  subsystems are interpreted in the theories that prove their laws.
\<close>

section \<open>Phases\<close>

text \<open>
  What a subsystem promises about its dialogue. \<open>hp_hs c said heard\<close>: in the state of the client the
  handshake has said and consumed these bytes; \<open>hp_granted\<close>: they are a complete dialogue in which the
  server granted the connection. With \<open>hp_exact\<close> a handshake reads exactly the bytes it needs, \<open>hp_need\<close>,
  and leaves nothing behind. With \<open>hp_total\<close> its callbacks have no undefined behaviour.
\<close>

record hs_spec =
  hp_hs :: "redsocks_client \<Rightarrow> bytes \<Rightarrow> bytes \<Rightarrow> bool"
  hp_granted :: "redsocks_client \<Rightarrow> bytes \<Rightarrow> bytes \<Rightarrow> bool"
  hp_need :: "redsocks_client \<Rightarrow> nat"
  hp_exact :: bool
  hp_total :: bool

definition hs_data :: "bytes \<Rightarrow> bytes \<Rightarrow> rs_side \<Rightarrow> rs_data" where
  "hs_data said heard s = (case s of
       Client \<Rightarrow> \<lparr>rd_pre = [], rd_msg = [], rd_moved = []\<rparr>
     | Relay \<Rightarrow> \<lparr>rd_pre = heard, rd_msg = said, rd_moved = []\<rparr>)"

lemma hs_data_simps [simp]:
  "hs_data said heard Client = \<lparr>rd_pre = [], rd_msg = [], rd_moved = []\<rparr>"
  "hs_data said heard Relay = \<lparr>rd_pre = heard, rd_msg = said, rd_moved = []\<rparr>"
  by (simp_all add: hs_data_def)

definition idle_bev :: "rs_bev \<Rightarrow> bool" where
  "idle_bev b \<longleftrightarrow> be_readcb b = None \<and> be_writecb b = None \<and> be_write_low b = 0 \<and> be_read_high b = 0
     \<and> \<not> be_read_suspended b \<and> \<not> be_ev_write b"

definition read_contract :: "be_os \<Rightarrow> bool" where
  "read_contract os \<longleftrightarrow> (\<forall>cs fd n bs. bo_read os cs fd n = Rd_Data bs \<longrightarrow> length bs \<le> n)"

definition socket_contract :: "be_os \<Rightarrow> bool" where
  "socket_contract os \<longleftrightarrow> (\<forall>cs. bo_socket os cs = -1 \<or> \<not> is_open (bo_socket os cs) cs)"

definition be_os_ok :: "be_os \<Rightarrow> bool" where
  "be_os_ok os \<longleftrightarrow> read_contract os \<and> socket_contract os"

text \<open>
  Connecting and shaking hands. Between events an exact handshake waits for more than it has; when its
  read callback is run the input is exactly what it needs.
\<close>

definition hs_base :: "(rs_side \<Rightarrow> rs_bev) \<Rightarrow> bytes \<Rightarrow> bytes \<Rightarrow> redsocks_client \<Rightarrow> be_calls \<Rightarrow> bool" where
  "hs_base bv said heard c cs \<longleftrightarrow> rs_inv bv (hs_data said heard) c cs \<and> idle_bev (bv Client) \<and> be_write_low (bv Relay) = 0 \<and>
     (be_ev_read (bv Relay) \<or> rc_shut_rd c Relay \<longrightarrow> rc_state c \<noteq> 0) \<and> (rc_shut_rd c Relay \<longrightarrow> \<not> be_ev_read (bv Relay))"

definition hs_marks :: "hs_spec \<Rightarrow> rs_bev \<Rightarrow> redsocks_client \<Rightarrow> bool" where
  "hs_marks sp r c \<longleftrightarrow> (hp_exact sp \<longrightarrow> \<not> be_read_suspended r \<and> be_read_high r = hp_need sp c \<and> be_read_low r = hp_need sp c)"

definition hs_exact :: "hs_spec \<Rightarrow> rs_bev \<Rightarrow> redsocks_client \<Rightarrow> bool" where
  "hs_exact sp r c \<longleftrightarrow> hs_marks sp r c \<and>
     (hp_exact sp \<longrightarrow> (if hp_need sp c = 0 then be_input r = [] \<and> rc_state c = 0 else length (be_input r) < hp_need sp c))"

definition hs_full :: "hs_spec \<Rightarrow> rs_bev \<Rightarrow> redsocks_client \<Rightarrow> bool" where
  "hs_full sp r c \<longleftrightarrow> hs_marks sp r c \<and> (hp_exact sp \<longrightarrow> length (be_input r) = hp_need sp c)"

definition hs_phase :: "hs_spec \<Rightarrow> rs_cb option \<times> rs_cb option \<Rightarrow> (rs_side \<Rightarrow> rs_bev) \<Rightarrow> bytes \<Rightarrow> bytes \<Rightarrow> redsocks_client \<Rightarrow> be_calls \<Rightarrow> bool" where
  "hs_phase sp cbs bv said heard c cs \<longleftrightarrow> hs_base bv said heard c cs \<and> hp_hs sp c said heard \<and> hs_exact sp (bv Relay) c \<and>
     (be_readcb (bv Relay), be_writecb (bv Relay)) = cbs"

abbreviation ss_cbs :: "rs_cb option \<times> rs_cb option" where
  "ss_cbs \<equiv> (Some Cb_Ss_Read, Some Cb_Ss_Write)"

definition connecting :: "hs_spec \<Rightarrow> redsocks_client \<Rightarrow> be_calls \<Rightarrow> bool" where
  "connecting sp c cs \<longleftrightarrow> (\<exists>bv. hs_phase sp (None, Some Cb_Connected) bv [] [] c cs \<and> rc_state c = 0)"

definition handshaking :: "hs_spec \<Rightarrow> redsocks_client \<Rightarrow> be_calls \<Rightarrow> bool" where
  "handshaking sp c cs \<longleftrightarrow> (\<exists>bv said heard. hs_phase sp ss_cbs bv said heard c cs)"

text \<open>Relaying, after a dialogue in which the server granted the connection.\<close>

definition relaying :: "hs_spec \<Rightarrow> bool \<Rightarrow> redsocks_client \<Rightarrow> be_calls \<Rightarrow> bool" where
  "relaying sp adds c cs \<longleftrightarrow> (\<exists>bv d said heard. rs_inv bv d c cs \<and> relay_shape bv \<and> same_dialogue (hs_data said heard) d \<and>
     hp_granted sp c said heard \<and>
     (hp_exact sp \<longrightarrow> dir_ok (dir_of bv c Relay) \<and> (adds \<longrightarrow> dir_live (dir_of bv c Relay))))"

definition rs_state :: "hs_spec \<Rightarrow> bool \<Rightarrow> redsocks_client \<Rightarrow> be_calls \<Rightarrow> bool" where
  "rs_state sp adds c cs \<longleftrightarrow> connecting sp c cs \<or> handshaking sp c cs \<or> relaying sp adds c cs"

section \<open>Helpers of the subsystems\<close>

lemma hs_base_inv: "hs_base bv said heard c cs \<Longrightarrow> rs_inv bv (hs_data said heard) c cs"
  by (simp add: hs_base_def)

lemma hs_base_touch:
  "hs_base bv said heard c cs \<Longrightarrow> hs_base bv said heard (c\<lparr>rc_last_event := t\<rparr>) (Be_Time # cs)"
proof -
  assume "hs_base bv said heard c cs"
  moreover from hs_base_inv [OF this] have "rs_inv bv (hs_data said heard) c (Be_Time # cs)"
    by (rule rs_inv_calls) auto
  ultimately show ?thesis by (simp add: hs_base_def)
qed

lemma hs_bytesD:
  assumes "rs_bytes bv (hs_data said heard) cs"
  shows "bytes_read (be_fd (bv Client)) cs = be_input (bv Client)" "bytes_written (be_fd (bv Client)) cs = []"
    "be_output (bv Client) = []"
    "bytes_read (be_fd (bv Relay)) cs = heard @ be_input (bv Relay)" "bytes_written (be_fd (bv Relay)) cs @ be_output (bv Relay) = said"
  using assms by (simp_all add: rs_bytes_def all_sides)

lemma hs_bytesI:
  "bytes_read (be_fd (bv Client)) cs = be_input (bv Client) \<Longrightarrow> bytes_written (be_fd (bv Client)) cs = [] \<Longrightarrow>
   be_output (bv Client) = [] \<Longrightarrow> bytes_read (be_fd (bv Relay)) cs = heard @ be_input (bv Relay) \<Longrightarrow>
   bytes_written (be_fd (bv Relay)) cs @ be_output (bv Relay) = said \<Longrightarrow> rs_bytes bv (hs_data said heard) cs"
  by (simp add: rs_bytes_def all_sides)

lemma write_helper_ex_inv:
  assumes inv: "rs_inv bv (hs_data said heard) c cs"
  obtains r cs' where
    "redsocks_write_helper_ex os message st lo hi c cs = Some (Some (set_bev Relay r (c\<lparr>rc_state := st\<rparr>)), cs')"
    "rs_inv (bv(Relay := r)) (hs_data (said @ (case message of None \<Rightarrow> [] | Some m \<Rightarrow> m)) heard) (set_bev Relay r (c\<lparr>rc_state := st\<rparr>)) cs'"
    "be_input r = be_input (bv Relay)" "be_read_high r = hi" "be_read_low r = lo" "be_write_low r = be_write_low (bv Relay)"
    "be_readcb r = be_readcb (bv Relay)" "be_writecb r = be_writecb (bv Relay)" "be_read_suspended r = be_read_suspended (bv Relay)"
proof -
  define m where "m = (case message of None \<Rightarrow> [] | Some m \<Rightarrow> m)"
  obtain b1 cs1 where w: "bufferevent_write_buffer os m (bv Relay) cs = (b1, cs1)" by force
  note io1 = write_buffer_io [OF w] and ev1 = write_buffer_events [OF w]
  have msg: "(case message of None \<Rightarrow> (bv Relay, cs) | Some buff \<Rightarrow> bufferevent_write_buffer os buff (bv Relay) cs) = (b1, cs1)"
    using w by (cases message) (simp_all add: m_def bufferevent_write_buffer_def)
  let ?b2 = "b1\<lparr>be_read_low := lo, be_read_high := hi\<rparr>"
  obtain ok r cs2 where e: "bufferevent_enable os True False ?b2 cs1 = (ok, r, cs2)" by (cases "bufferevent_enable os True False ?b2 cs1")
  note io2 = enable_io [OF e] and ev2 = enable_read_events [OF e]
  let ?c = "set_bev Relay r (c\<lparr>rc_state := st\<rparr>)" and ?bv = "bv(Relay := r)"
  have fd: "be_fd ?b2 = be_fd (bv Relay)" using io1 by (simp add: same_io_def)
  have "quiet (\<lambda>fd. fd = be_fd (bv Relay)) cs cs2" using quiet_trans [OF io2(2) [unfolded fd] io1(2)] .
  then have q: "quiet (\<lambda>fd. is_open fd cs) cs cs2" by (rule quiet_fd [OF inv])
  have h: "redsocks_write_helper_ex os message st lo hi c cs = Some (Some ?c, cs2)"
    using msg e rs_inv_bev [OF inv, of Relay]
    by (simp add: redsocks_write_helper_ex_def Let_def)
  have r: "be_fd r = be_fd (bv Relay)" "be_input r = be_input (bv Relay)" "be_output r = be_output (bv Relay) @ m"
    "be_readcb r = be_readcb (bv Relay)" "be_writecb r = be_writecb (bv Relay)" "be_read_low r = lo" "be_read_high r = hi"
    "be_write_low r = be_write_low (bv Relay)" "be_read_suspended r = be_read_suspended (bv Relay)"
    using io1(1) io2(1) ev1 ev2 by (simp_all add: same_io_def)
  note i = inv [unfolded rs_inv_def]
  have "rs_fds ?bv cs2" using i quiet_data(3) [OF q] quiet_calls_ok [OF q] by (simp add: rs_fds_def r)
  moreover have "rs_bytes ?bv (hs_data (said @ m) heard) cs2"
  proof (rule hs_bytesI)
    have "(bytes_written (be_fd (bv Relay)) cs @ be_output (bv Relay)) @ m = said @ m" using i hs_bytesD(5) by metis
    then show "bytes_written (be_fd (?bv Relay)) cs2 @ be_output (?bv Relay) = said @ m" by (simp add: r quiet_data [OF q])
  qed (use i hs_bytesD [of bv said heard cs] in \<open>simp_all add: r quiet_data [OF q]\<close>)
  ultimately have "rs_inv ?bv (hs_data (said @ m) heard) ?c cs2"
    using i by (auto simp: rs_inv_def rs_shut_ok_def all_shut_def)
  with h r that show thesis by (simp add: m_def)
qed

lemmas write_helper_inv = write_helper_ex_inv [where lo = wm and hi = wm for wm, folded redsocks_write_helper_def]

lemma read_expected_inv:
  assumes inv: "rs_inv bv (hs_data said heard) c cs" and le: "comparator (length (be_input (bv Relay))) n \<longrightarrow> n \<le> length (be_input (bv Relay))"
  obtains (dropped) res where "redsocks_read_expected comparator n c cs = Some (Inl res)" "fst res = None" "rs_closed (snd res)"
  | (got) r bs where "redsocks_read_expected comparator n c cs = Some (Inr (bs, set_bev Relay r c))"
      "rs_inv (bv(Relay := r)) (hs_data said (heard @ bs)) (set_bev Relay r c) cs" "length bs = n"
      "be_input (bv Relay) = bs @ be_input r" "r = (bv Relay)\<lparr>be_input := drop n (be_input (bv Relay))\<rparr>"
      "comparator (length (be_input (bv Relay))) n"
proof (cases "comparator (length (be_input (bv Relay))) n")
  case True
  let ?r = "(bv Relay)\<lparr>be_input := drop n (be_input (bv Relay))\<rparr>" and ?bs = "take n (be_input (bv Relay))"
  note i = inv [unfolded rs_inv_def]
  have "rs_bytes (bv(Relay := ?r)) (hs_data said (heard @ ?bs)) cs"
    by (rule hs_bytesI) (use i hs_bytesD [of bv said heard cs] in simp_all)
  moreover have "rs_fds (bv(Relay := ?r)) cs" using i by (simp add: rs_fds_def)
  ultimately have "rs_inv (bv(Relay := ?r)) (hs_data said (heard @ ?bs)) (set_bev Relay ?r c) cs"
    using i by (auto simp: rs_inv_def rs_shut_ok_def all_shut_def)
  with True le rs_inv_bev [OF inv, of Relay] show thesis
    by (intro got [of ?bs ?r]) (auto simp: redsocks_read_expected_def)
next
  case False
  with drop_client_closed [OF inv] rs_inv_bev [OF inv, of Relay] dropped show thesis
    by (auto simp: redsocks_read_expected_def)
qed

lemma enable_both_events:
  assumes "bufferevent_enable os True True b cs = (True, b', cs')"
  shows "be_ev_write b'" "be_enabled_write b'" "be_read_suspended b' = be_read_suspended b"
    "be_ev_read b' = (be_ev_read b \<or> \<not> be_read_suspended b)"
proof -
  have "b' = fst (snd (bufferevent_enable os True True b cs))" "fst (bufferevent_enable os True True b cs)" using assms by simp_all
  then show "be_ev_write b'" "be_enabled_write b'" "be_read_suspended b' = be_read_suspended b"
    "be_ev_read b' = (be_ev_read b \<or> \<not> be_read_suspended b)"
    by (simp_all add: bufferevent_enable_def be_socket_enable_def be_socket_add_read_def be_socket_add_write_def Let_def split: if_splits)
qed

lemma start_relay_cases:
  assumes inv: "rs_inv bv d c cs"
  obtains (dropped) cs2 where "redsocks_start_relay os c cs = Some (None, cs2)" "rs_closed cs2"
  | (started) b r cs1 cs2 where "redsocks_start_relay os c cs = Some (Some (set_bev Relay r (set_bev Client b c)), cs2)"
      "rs_inv (bv(Client := b, Relay := r)) d (set_bev Relay r (set_bev Client b c)) cs2" "relay_shape (bv(Client := b, Relay := r))"
      "bufferevent_enable os True True (relay_bev Client (bv Client)) cs = (True, b, cs1)"
      "bufferevent_enable os True True (relay_bev Relay (bv Relay)) cs1 = (True, r, cs2)"
proof -
  obtain ok b cs1 where b: "bufferevent_enable os True True (relay_bev Client (bv Client)) cs = (ok, b, cs1)"
    by (cases "bufferevent_enable os True True (relay_bev Client (bv Client)) cs")
  define y where "y = (if ok then bufferevent_enable os True True (relay_bev Relay (bv Relay)) cs1 else (False, relay_bev Relay (bv Relay), cs1))"
  obtain ok2 r cs2 where r: "y = (ok2, r, cs2)" by (cases y)
  let ?bv = "bv(Client := b, Relay := r)" and ?c = "set_bev Relay r (set_bev Client b c)"
  have e: "redsocks_start_relay os c cs = Some (if ok2 then (Some ?c, cs2) else redsocks_drop_client ?c cs2)"
    using b r rs_inv_bev [OF inv] unfolding redsocks_start_relay_def y_def by (simp add: Let_def)
  have io: "same_io (relay_bev Client (bv Client)) b" "quiet (\<lambda>fd. fd = be_fd (bv Client)) cs cs1"
    "same_io (relay_bev Relay (bv Relay)) r" "quiet (\<lambda>fd. fd = be_fd (bv Relay)) cs1 cs2"
    using enable_io [OF b] enable_io [of os True True "relay_bev Relay (bv Relay)" cs1 ok2 r cs2] r
    by (auto simp: y_def relay_bev_def split: if_splits)
  have q: "quiet (\<lambda>fd. is_open fd cs) cs cs2"
    by (rule quiet_trans [OF quiet_mono [OF io(4)] quiet_mono [OF io(2)]]) (simp_all add: rs_inv_open [OF inv])
  note i = inv [unfolded rs_inv_def]
  have inv': "rs_inv ?bv d ?c cs2"
    using i io(1,3) quiet_data [OF q] quiet_calls_ok [OF q]
    by (auto simp: rs_inv_def rs_fds_def rs_shut_ok_def all_shut_def rs_bytes_def all_sides same_io_def relay_bev_def)
  show thesis
  proof (cases ok2)
    case False
    with e dropped drop_client_closed [OF inv'] show ?thesis by (cases "redsocks_drop_client ?c cs2") simp
  next
    case True
    then have ok: "ok" "bufferevent_enable os True True (relay_bev Relay (bv Relay)) cs1 = (True, r, cs2)"
      using r by (simp_all add: y_def split: if_splits)
    have "relay_shape ?bv" using io(1,3) by (simp add: relay_shape_def all_sides same_io_def relay_bev_def)
    with True e inv' ok b started show ?thesis by simp
  qed
qed

lemma start_relay_inv:
  assumes inv: "rs_inv bv (hs_data said heard) c cs" and gr: "hp_granted sp c said heard"
    and ng: "\<And>c'. same_client c c' \<Longrightarrow> hp_granted sp c' said heard"
    and ex: "hp_exact sp \<longrightarrow> be_input (bv Relay) = [] \<and> \<not> rc_shut_rd c Relay \<and> \<not> be_read_suspended (bv Relay)"
  obtains res where "redsocks_start_relay os c cs = Some res" "rs_post (relaying sp adds) res"
proof (cases rule: start_relay_cases [OF inv, of os])
  case (1 cs2)
  with that show ?thesis by simp
next
  case (2 b r cs1 cs2)
  let ?bv = "bv(Client := b, Relay := r)" and ?c = "set_bev Relay r (set_bev Client b c)"
  have io: "same_io (relay_bev Relay (bv Relay)) r" by (rule enable_io [OF 2(5)])
  have "dir_ok (dir_of ?bv ?c Relay)" "dir_live (dir_of ?bv ?c Relay)" if "hp_exact sp"
    using ex that inv [unfolded rs_inv_def] enable_both_events [OF 2(4)] enable_both_events [OF 2(5)] io
    by (auto simp: dir_ok_def dir_live_def dir_of_def rs_shut_ok_def same_io_def relay_bev_def)
  moreover have "hp_granted sp ?c said heard" by (rule ng) (simp add: same_client_def)
  ultimately have "relaying sp adds ?c cs2" unfolding relaying_def using 2(2,3) by (intro exI [of _ ?bv] exI [of _ "hs_data said heard"] exI [of _ said] exI [of _ heard]) auto
  with 2(1) that show ?thesis by simp
qed

section \<open>The contract of a subsystem\<close>

text \<open>An outcome: undefined behaviour only where it is not excluded, else a state that is kept.\<close>

definition rs_outcome :: "bool \<Rightarrow> (redsocks_client \<Rightarrow> be_calls \<Rightarrow> bool) \<Rightarrow> rs_result \<Rightarrow> bool" where
  "rs_outcome tot Q r = (case r of None \<Rightarrow> \<not> tot | Some res \<Rightarrow> rs_post Q res)"

lemma rs_outcome_Some [simp]: "rs_outcome tot Q (Some res) = rs_post Q res"
  by (simp add: rs_outcome_def)

lemma rs_outcome_mono: "rs_outcome t P r \<Longrightarrow> (\<And>c cs. P c cs \<Longrightarrow> Q c cs) \<Longrightarrow> rs_outcome t Q r"
  by (auto simp: rs_outcome_def intro: rs_post_mono split: option.splits)

text \<open>Events of the loop while the handshake goes on, as far as no callback of the subsystem is run.\<close>

lemma hs_phase_inv: "hs_phase sp cbs bv said heard c cs \<Longrightarrow> rs_inv bv (hs_data said heard) c cs"
  by (simp add: hs_phase_def hs_base_def)

lemma eof_bevs_simps:
  "be_input (eof_bevs s bv t) = be_input (bv t)" "be_readcb (eof_bevs s bv t) = be_readcb (bv t)"
  "be_writecb (eof_bevs s bv t) = be_writecb (bv t)" "be_read_low (eof_bevs s bv t) = be_read_low (bv t)"
  "be_read_high (eof_bevs s bv t) = be_read_high (bv t)" "be_write_low (eof_bevs s bv t) = be_write_low (bv t)"
  "be_read_suspended (eof_bevs s bv t) = be_read_suspended (bv t)"
  "be_ev_read (eof_bevs s bv t) \<longleftrightarrow> be_ev_read (bv t) \<and> t \<noteq> s"
  by (simp_all add: eof_bevs_def bufferevent_disable_def be_socket_disable_def Let_def)

lemma eof_bevs_ev_write: "be_ev_write (eof_bevs s bv t) \<Longrightarrow> be_ev_write (bv t)"
  by (auto simp: eof_bevs_def Let_def split: if_splits)

text \<open>What the laws of a subsystem need: its predicates depend only on its own part of the client.\<close>

definition hs_stable :: "hs_spec \<Rightarrow> bool" where
  "hs_stable sp \<longleftrightarrow> (\<forall>c c' said heard. same_client c c' \<longrightarrow>
     hp_hs sp c' said heard = hp_hs sp c said heard \<and> hp_granted sp c' said heard = hp_granted sp c said heard \<and>
     hp_need sp c' = hp_need sp c)"

lemma hs_stableD:
  assumes "hs_stable sp" "same_client c c'"
  shows "hp_hs sp c' said heard = hp_hs sp c said heard" "hp_granted sp c' said heard = hp_granted sp c said heard"
    "hp_need sp c' = hp_need sp c"
  using assms unfolding hs_stable_def by blast+

lemma same_client_bev [simp]: "same_client c (c\<lparr>rc_bev := f\<rparr>)"
  by (simp add: same_client_def)

lemma hs_phase_eof:
  assumes st: "hs_stable sp" and ph: "hs_phase sp cbs bv said heard c cs" and e: "eof_post s bv' d c1 cs1 c' cs'"
    and b: "bv' = bv(s := bufferevent_disable True False (bv s))" "c1 = set_bev s (bufferevent_disable True False (bv s)) c"
    and ev: "be_ev_read (bv s)" and d: "d = hs_data said heard"
  shows "hs_phase sp cbs (eof_bevs s bv') said heard c' cs'" "rc_state c' = rc_state c"
proof -
  have sc: "same_client c c'" using e b(2) by (simp add: eof_post_def same_client_def)
  then show "rc_state c' = rc_state c" by (simp add: same_client_def)
  have "be_ev_read (bv' t) \<longleftrightarrow> be_ev_read (bv t) \<and> t \<noteq> s" "be_input (bv' t) = be_input (bv t)" "be_readcb (bv' t) = be_readcb (bv t)"
    "be_writecb (bv' t) = be_writecb (bv t)" "be_read_low (bv' t) = be_read_low (bv t)" "be_read_high (bv' t) = be_read_high (bv t)"
    "be_write_low (bv' t) = be_write_low (bv t)" "be_read_suspended (bv' t) = be_read_suspended (bv t)" for t
    by (simp_all add: b bufferevent_disable_def be_socket_disable_def)
  note same = this eof_bevs_simps
  have n: "hp_need sp c' = hp_need sp c" "hp_hs sp c' said heard = hp_hs sp c said heard"
    using hs_stableD [OF st sc] by simp_all
  have "\<not> be_ev_write (eof_bevs s bv' Client)"
    using eof_bevs_ev_write [of s bv' Client] ph by (auto simp: b hs_phase_def hs_base_def idle_bev_def split: if_splits)
  then have "hs_base (eof_bevs s bv') said heard c' cs'"
    using ph ev e sc by (cases s) (auto simp: hs_phase_def hs_base_def eof_post_def idle_bev_def same d b(2) same_client_def)
  then show "hs_phase sp cbs (eof_bevs s bv') said heard c' cs'"
    using ph n sc by (simp add: hs_phase_def hs_exact_def hs_marks_def same same_client_def)
qed

text \<open>Reading from a side during the handshake, up to the read callback.\<close>

definition hs_kept :: "hs_spec \<Rightarrow> rs_cb option \<times> rs_cb option \<Rightarrow> nat \<Rightarrow> bytes \<Rightarrow> bytes \<Rightarrow> redsocks_client \<Rightarrow> be_calls \<Rightarrow> bool" where
  "hs_kept sp cbs n said heard c cs \<longleftrightarrow> rc_state c = n \<and> (\<exists>bv. hs_phase sp cbs bv said heard c cs)"

lemma hs_phase_idle:
  assumes "hs_phase sp cbs bv said heard c cs" "quiet (\<lambda>fd. is_open fd cs) cs cs'"
  shows "hs_phase sp cbs bv said heard c cs'"
  using assms rs_inv_calls by (auto simp: hs_phase_def hs_base_def)

lemma hs_kept_eof:
  assumes "hs_stable sp" "hs_phase sp cbs bv said heard c cs" "be_ev_read (bv s)"
    "rs_post (eof_post s (bv(s := bufferevent_disable True False (bv s))) (hs_data said heard) (set_bev s (bufferevent_disable True False (bv s)) c) cs1) res"
  shows "rs_post (hs_kept sp cbs (rc_state c) said heard) res"
  by (rule rs_post_mono [OF assms(4)]) (use hs_phase_eof [OF assms(1,2) _ refl refl assms(3) refl] in \<open>auto simp: hs_kept_def\<close>)

lemma hs_kept_client:
  assumes "hs_stable sp" "hs_phase sp cbs bv said heard c cs" "rs_inv (bv(Client := b)) (hs_data said heard) (set_bev Client b c) cs'" "idle_bev b"
  shows "hs_kept sp cbs (rc_state c) said heard (set_bev Client b c) cs'"
proof -
  have "hs_phase sp cbs (bv(Client := b)) said heard (set_bev Client b c) cs'"
    using assms hs_stableD [OF assms(1) same_client_bev [of c]] by (simp add: hs_phase_def hs_base_def hs_exact_def hs_marks_def)
  then show ?thesis by (auto simp: hs_kept_def)
qed

text \<open>The client has no callbacks yet: what it sends is kept, and nothing is written to it.\<close>

lemma hs_fire_client:
  assumes st: "hs_stable sp" and ph: "hs_phase sp cbs bv said heard c cs" and pe: "rs_pending Client e c"
  obtains res where "rs_fire os ss cfg Client e c cs = Some res" "rs_post (hs_kept sp cbs (rc_state c) said heard) res"
proof -
  note inv = hs_phase_inv [OF ph] and keep = hs_kept_client [OF st ph] and idle_phase = hs_phase_idle [OF ph]
  have idle: "idle_bev (bv Client)" "be_readcb (bv Client) = None" "be_writecb (bv Client) = None" "be_read_high (bv Client) = 0"
      "be_write_low (bv Client) = 0"
    using ph by (simp_all add: hs_phase_def hs_base_def idle_bev_def)
  have out: "be_output (bv Client) = []" using inv hs_bytesD(3) by (auto simp: rs_inv_def)
  show thesis
  proof (cases e)
    case Writable
    show ?thesis
    proof (cases rule: fire_write_cases [OF inv idle(5), of os ss cfg])
      case (1 cs1)
      with Writable idle_phase that show ?thesis by (auto simp: hs_kept_def)
    next
      case (4 cs1)
      then have "hs_kept sp cbs (rc_state c) said heard (set_bev Client ((bv Client)\<lparr>be_output := [], be_ev_write := False\<rparr>) c) cs1"
        using idle(1) by (intro keep) (simp_all add: idle_bev_def)
      with 4 Writable idle that show ?thesis by (simp add: run_cb_option_def)
    qed (use Writable that out in simp_all)
  next
    case Readable
    then have ev: "be_ev_read (bv Client)" using pe rs_inv_bev [OF inv, of Client] by (simp add: rs_pending_def)
    show ?thesis
    proof (cases rule: fire_read_cases [OF inv, of os ss cfg Client])
      case (2 cs1)
      with Readable idle_phase that show ?thesis by (auto simp: hs_kept_def)
    next
      case (4 res cs1)
      with Readable hs_kept_eof [OF st ph ev] that show ?thesis by blast
    next
      case (5 bs n)
      then have "hs_kept sp cbs (rc_state c) said heard (set_bev Client (rs_input Client bs bv) c) (Be_Read (be_fd (bv Client)) n (Rd_Data bs) # cs)"
        using idle(1) by (intro keep) (simp_all add: idle_bev_def)
      with 5 Readable idle that show ?thesis by (auto simp: run_cb_option_def split: if_splits)
    qed (use Readable that idle in simp_all)
  qed
qed

text \<open>The relay side: its callbacks are those of the subsystem, and they run once all they need has been read.\<close>

lemma hs_read_data:
  assumes st: "hs_stable sp" and ph: "hs_phase sp cbs bv said heard c cs" and ev: "be_ev_read (bv Relay)" and rc: "read_contract os"
    and rd: "bo_read os cs (be_fd (bv Relay)) n = Rd_Data bs" "be_read_high (bv Relay) \<noteq> 0 \<longrightarrow> length (be_input (bv Relay)) + n \<le> be_read_high (bv Relay)"
    and i: "rs_inv (bv(Relay := rs_input Relay bs bv)) (hs_data said heard) (set_bev Relay (rs_input Relay bs bv) c) cs1"
  defines "bv1 \<equiv> bv(Relay := rs_input Relay bs bv)" and "c1 \<equiv> set_bev Relay (rs_input Relay bs bv) c"
  shows "be_read_low (bv Relay) \<le> length (be_input (bv Relay) @ bs) \<Longrightarrow> hs_full sp (bv1 Relay) c1"
    "\<not> be_read_low (bv Relay) \<le> length (be_input (bv Relay) @ bs) \<Longrightarrow> hs_phase sp cbs bv1 said heard c1 cs1"
    "hs_base bv1 said heard c1 cs1" "hp_hs sp c1 said heard"
proof -
  note eqs = hs_stableD [OF st same_client_bev [of c]]
  have s0: "rc_state c \<noteq> 0" using ph ev by (simp add: hs_phase_def hs_base_def)
  have need: "hp_exact sp \<longrightarrow> \<not> be_read_suspended (bv Relay) \<and> be_read_high (bv Relay) = hp_need sp c \<and>
    be_read_low (bv Relay) = hp_need sp c \<and> length (be_input (bv Relay)) < hp_need sp c"
    using ph s0 by (auto simp: hs_phase_def hs_exact_def hs_marks_def split: if_splits)
  show base: "hs_base bv1 said heard c1 cs1" and hs: "hp_hs sp c1 said heard"
    using i ph eqs by (simp_all add: bv1_def c1_def hs_phase_def hs_base_def)
  have marks: "hs_marks sp (bv1 Relay) c1" "(be_readcb (bv1 Relay), be_writecb (bv1 Relay)) = cbs"
    using ph eqs by (auto simp: bv1_def c1_def hs_phase_def hs_exact_def hs_marks_def)
  have "length bs \<le> n" using rc rd(1) by (auto simp: read_contract_def)
  then have le: "hp_exact sp \<longrightarrow> length (be_input (bv Relay) @ bs) \<le> hp_need sp c" using need rd(2) by auto
  { assume "be_read_low (bv Relay) \<le> length (be_input (bv Relay) @ bs)"
    then show "hs_full sp (bv1 Relay) c1" using need le marks eqs by (auto simp: hs_full_def bv1_def c1_def) }
  { assume "\<not> be_read_low (bv Relay) \<le> length (be_input (bv Relay) @ bs)"
    then have "hs_exact sp (bv1 Relay) c1" using need marks eqs s0 by (auto simp: hs_exact_def bv1_def c1_def)
    with base hs marks(2) show "hs_phase sp cbs bv1 said heard c1 cs1" by (simp add: hs_phase_def) }
qed

lemma hs_fire_relay_read:
  assumes st: "hs_stable sp" and ph: "hs_phase sp cbs bv said heard c cs" and ev: "be_ev_read (bv Relay)" and rc: "read_contract os"
  obtains (kept) res where "rs_fire os ss cfg Relay Readable c cs = Some res" "rs_post (hs_kept sp cbs (rc_state c) said heard) res"
  | (callback) bv1 c1 cs1 where "rs_fire os ss cfg Relay Readable c cs = run_cb_option os ss cfg (fst cbs) c1 cs1"
      "hs_base bv1 said heard c1 cs1" "hp_hs sp c1 said heard" "hs_full sp (bv1 Relay) c1" "(be_readcb (bv1 Relay), be_writecb (bv1 Relay)) = cbs"
      "be_ev_read (bv1 Relay)" "be_input (bv1 Relay) \<noteq> []"
proof -
  note inv = hs_phase_inv [OF ph]
  show thesis
  proof (cases rule: fire_read_cases [OF inv, of os ss cfg Relay])
    case 1
    let ?b = "bufferevent_suspend_read (bv Relay)"
    have "rc_state c \<noteq> 0" using ph ev by (simp add: hs_phase_def hs_base_def)
    moreover from this have "\<not> hp_exact sp" using 1 ph by (auto simp: hs_phase_def hs_exact_def hs_marks_def split: if_splits)
    moreover have "rs_inv (bv(Relay := ?b)) (hs_data said heard) (set_bev Relay ?b c) cs" by (rule rs_inv_quiet [OF inv]) simp_all
    ultimately have "hs_phase sp cbs (bv(Relay := ?b)) said heard (set_bev Relay ?b c) cs"
      using ph hs_stableD [OF st same_client_bev [of c]]
      by (simp add: hs_phase_def hs_base_def hs_exact_def hs_marks_def bufferevent_suspend_read_def be_socket_disable_def)
    with 1 kept show ?thesis by (auto simp: hs_kept_def)
  next
    case (2 cs1)
    with hs_phase_idle [OF ph] kept show ?thesis by (auto simp: hs_kept_def)
  next
    case (3 cs1)
    with kept show ?thesis by simp
  next
    case (4 res cs1)
    with hs_kept_eof [OF st ph ev] kept show ?thesis by blast
  next
    case (5 bs n)
    note rd = hs_read_data [OF st ph ev rc 5(4,5,7)]
    have cbs: "fst cbs = be_readcb (bv Relay)" "(be_readcb (bv Relay), be_writecb (bv Relay)) = cbs" using ph by (auto simp: hs_phase_def)
    show ?thesis
    proof (cases "be_read_low (bv Relay) \<le> length (be_input (bv Relay) @ bs)")
      case True
      show ?thesis by (rule callback [OF _ rd(3,4) rd(1) [OF True]]) (use 5 True cbs ev in simp_all)
    next
      case False
      from rd(2) [OF this] 5(6) False kept show ?thesis by (auto simp: hs_kept_def)
    qed
  qed
qed

lemma hs_fire_relay_write:
  assumes st: "hs_stable sp" and ph: "hs_phase sp cbs bv said heard c cs" and ev: "be_ev_write (bv Relay)"
  obtains (kept) res where "rs_fire os ss cfg Relay Writable c cs = Some res" "rs_post (hs_kept sp cbs (rc_state c) said heard) res"
  | (callback) bv1 c1 cs1 where "rs_fire os ss cfg Relay Writable c cs = run_cb_option os ss cfg (snd cbs) c1 cs1"
      "hs_phase sp cbs bv1 said heard c1 cs1" "be_output (bv1 Relay) = []" "rc_state c1 = rc_state c"
proof -
  note inv = hs_phase_inv [OF ph]
  have keep: "hs_phase sp cbs (bv(Relay := (bv Relay)\<lparr>be_output := out, be_ev_write := w\<rparr>)) said heard
      (set_bev Relay ((bv Relay)\<lparr>be_output := out, be_ev_write := w\<rparr>) c) cs1"
    if "rs_inv (bv(Relay := (bv Relay)\<lparr>be_output := out, be_ev_write := w\<rparr>)) (hs_data said heard)
      (set_bev Relay ((bv Relay)\<lparr>be_output := out, be_ev_write := w\<rparr>) c) cs1" for out w cs1
    using ph that hs_stableD [OF st same_client_bev [of c]] by (simp add: hs_phase_def hs_base_def hs_exact_def hs_marks_def)
  have low: "be_write_low (bv Relay) = 0" using ph by (simp add: hs_phase_def hs_base_def)
  show thesis
  proof (cases rule: fire_write_cases [OF inv low, of os ss cfg])
    case (1 cs1)
    with hs_phase_idle [OF ph] kept show ?thesis by (auto simp: hs_kept_def)
  next
    case (2 cs1)
    with kept show ?thesis by simp
  next
    case (3 bs out)
    have "(bv Relay)\<lparr>be_output := out, be_ev_write := True\<rparr> = (bv Relay)\<lparr>be_output := out\<rparr>" using ev by simp
    with 3(4,5) keep [of True out] kept show ?thesis by (auto simp: hs_kept_def)
  next
    case (4 cs1)
    have cbs: "snd cbs = be_writecb (bv Relay)" using ph by (auto simp: hs_phase_def)
    show ?thesis by (rule callback [OF _ keep [OF 4(3)]]) (use 4(2) cbs in simp_all)
  qed
qed

section \<open>The invariant of every run\<close>

lemma relaying_step:
  assumes st: "hs_stable sp" and gr: "hp_granted sp c said heard" and dl: "same_dialogue (hs_data said heard) d"
    and ok: "hp_exact sp \<longrightarrow> dir_ok (dir_of bv c Relay) \<and> (adds \<longrightarrow> dir_live (dir_of bv c Relay))"
    and rs: "relay_step adds s bv d c cs c' cs'"
  shows "relaying sp adds c' cs'"
proof -
  from rs obtain bv' d' i w where m: "rs_inv bv' d' c' cs'" "relay_shape bv'" "same_dialogue d d'" "same_client c c'"
    and ds: "dir_step adds (dir_of bv c s) i w (dir_of bv' c' s)" "dir_of bv' c' (other_side s) = dir_of bv c (other_side s)"
    unfolding relay_step_def by blast
  have "hp_granted sp c' said heard" using gr hs_stableD(2) [OF st m(4)] by simp
  moreover have "same_dialogue (hs_data said heard) d'" using dl m(3) by (simp add: same_dialogue_def)
  moreover have "hp_exact sp \<longrightarrow> dir_ok (dir_of bv' c' Relay) \<and> (adds \<longrightarrow> dir_live (dir_of bv' c' Relay))"
  proof (cases s)
    case Relay
    with ds(1) ok show ?thesis by (auto intro: dir_step_ok dir_step_live)
  next
    case Client
    with ds(2) ok show ?thesis by simp
  qed
  ultimately show ?thesis unfolding relaying_def using m(1,2) by blast
qed

lemma relaying_fire:
  assumes st: "hs_stable sp" and r: "relaying sp (os_adds os) c cs" and pe: "rs_pending s e c"
  obtains res where "rs_fire os ss cfg s e c cs = Some res" "rs_post (relaying sp (os_adds os)) res"
proof -
  obtain bv d said heard where inv: "rs_inv bv d c cs" and sh: "relay_shape bv" and dl: "same_dialogue (hs_data said heard) d"
    and gr: "hp_granted sp c said heard"
    and ok: "hp_exact sp \<longrightarrow> dir_ok (dir_of bv c Relay) \<and> (os_adds os \<longrightarrow> dir_live (dir_of bv c Relay))"
    using r unfolding relaying_def by blast
  note step = relaying_step [OF st gr dl ok]
  show thesis
  proof (cases e)
    case Readable
    with pe rs_inv_bev [OF inv, of s] have "be_ev_read (bv s)" by (simp add: rs_pending_def)
    from fire_readable [OF inv sh this, of os ss cfg] Readable that show ?thesis by (metis rs_post_mono step)
  next
    case Writable
    with pe rs_inv_bev [OF inv, of s] have "be_ev_write (bv s)" by (simp add: rs_pending_def)
    from fire_writable [OF inv sh this, of os ss cfg] Writable that show ?thesis by (metis rs_post_mono step)
  qed
qed

locale relay_subsystem =
  fixes ss :: relay_subsys and cfg :: redsocks_config and sp :: hs_spec
  assumes stable: "hs_stable sp"
    and init: "rc_state (ss_init ss cfg c) = 0 \<and> rc_bev (ss_init ss cfg c) = rc_bev c \<and> rc_shut_rd (ss_init ss cfg c) = rc_shut_rd c \<and>
      rc_shut_wr (ss_init ss cfg c) = rc_shut_wr c \<and> hp_hs sp (ss_init ss cfg c) [] [] \<and> hp_need sp (ss_init ss cfg c) = 0"
    and writecb: "be_os_ok os \<Longrightarrow> hs_phase sp ss_cbs bv said heard c cs \<Longrightarrow> be_output (bv Relay) = [] \<Longrightarrow>
      rs_outcome (hp_total sp) (rs_state sp (os_adds os)) (ss_writecb ss os cfg c cs)"
    and readcb: "be_os_ok os \<Longrightarrow> hs_base bv said heard c cs \<Longrightarrow> hp_hs sp c said heard \<Longrightarrow> hs_full sp (bv Relay) c \<Longrightarrow>
      be_readcb (bv Relay) = Some Cb_Ss_Read \<Longrightarrow> be_writecb (bv Relay) = Some Cb_Ss_Write \<Longrightarrow>
      be_ev_read (bv Relay) \<Longrightarrow> be_input (bv Relay) \<noteq> [] \<Longrightarrow>
      rs_outcome (hp_total sp) (rs_state sp (os_adds os)) (ss_readcb ss os cfg c cs)"
    and connects: "ss_connect_relay ss = None"
begin

lemma kept_state: "hs_kept sp ss_cbs n said heard c cs \<Longrightarrow> rs_state sp adds c cs"
  by (auto simp: hs_kept_def rs_state_def handshaking_def)

lemma kept_connecting: "hs_kept sp (None, Some Cb_Connected) 0 [] [] c cs \<Longrightarrow> rs_state sp adds c cs"
  by (auto simp: hs_kept_def rs_state_def connecting_def)

lemma connected:
  assumes "be_os_ok os" and ph: "hs_phase sp (None, Some Cb_Connected) bv [] [] c cs" and "rc_state c = 0" "be_output (bv Relay) = []"
  shows "rs_outcome (hp_total sp) (rs_state sp (os_adds os)) (redsocks_relay_connected os ss cfg c cs)"
proof -
  define c1 where "c1 = c\<lparr>rc_last_event := bo_time os cs\<rparr>"
  let ?cs = "Be_Getsockopt (be_fd (bv Relay)) # Be_Time # cs"
  let ?r = "(bv Relay)\<lparr>be_readcb := Some Cb_Ss_Read, be_writecb := Some Cb_Ss_Write\<rparr>"
  note inv = hs_phase_inv [OF ph]
  have i1: "rs_inv bv (hs_data [] []) c1 (Be_Time # cs)" using touch_inv [OF inv, of os] by (simp add: redsocks_touch_client_def c1_def)
  then have i2: "rs_inv bv (hs_data [] []) c1 ?cs" using rs_inv_open [OF i1] by (intro rs_inv_calls [OF i1]) auto
  show ?thesis
  proof (cases "bo_so_error os (Be_Time # cs) (be_fd (bv Relay)) = 0")
    case False
    with i2 rs_inv_bev [OF i1, of Relay] show ?thesis
      by (simp add: redsocks_relay_connected_def redsocks_touch_client_def red_is_socket_connected_ok_def c1_def)
  next
    case True
    let ?c = "set_bev Relay ?r c1"
    have sc: "same_client c ?c" by (simp add: same_client_def c1_def)
    have "rs_inv (bv(Relay := ?r)) (hs_data [] []) ?c ?cs"
      using i2 by (auto simp: rs_inv_def rs_fds_def rs_shut_ok_def all_shut_def rs_bytes_def all_sides)
    then have "hs_phase sp ss_cbs (bv(Relay := ?r)) [] [] ?c ?cs"
      using ph hs_stableD [OF stable sc] assms(3) by (simp add: hs_phase_def hs_base_def hs_exact_def hs_marks_def c1_def)
    from writecb [OF assms(1) this] assms(4) True rs_inv_bev [OF i1, of Relay] show ?thesis
      by (simp add: redsocks_relay_connected_def redsocks_touch_client_def red_is_socket_connected_ok_def c1_def)
  qed
qed

lemma fire_connecting:
  assumes os: "be_os_ok os" and c: "connecting sp c cs" and pe: "rs_pending s e c"
  shows "rs_outcome (hp_total sp) (rs_state sp (os_adds os)) (rs_fire os ss cfg s e c cs)"
proof -
  obtain bv where ph: "hs_phase sp (None, Some Cb_Connected) bv [] [] c cs" and s0: "rc_state c = 0"
    using c by (auto simp: connecting_def)
  note bev = rs_inv_bev [OF hs_phase_inv [OF ph]]
  show ?thesis
  proof (cases s)
    case Client
    from hs_fire_client [OF stable ph pe [unfolded Client], of os ss cfg] obtain res
      where "rs_fire os ss cfg Client e c cs = Some res" "rs_post (hs_kept sp (None, Some Cb_Connected) (rc_state c) [] []) res" .
    with Client s0 show ?thesis by (auto intro: rs_post_mono kept_connecting)
  next
    case Relay
    show ?thesis
    proof (cases e)
      case Readable
      with pe Relay bev [of Relay] ph s0 show ?thesis by (simp add: rs_pending_def hs_phase_def hs_base_def)
    next
      case Writable
      with pe Relay bev [of Relay] have "be_ev_write (bv Relay)" by (simp add: rs_pending_def)
      with stable ph show ?thesis
      proof (cases rule: hs_fire_relay_write [where os = os and ss = ss and cfg = cfg])
        case (kept res)
        with Relay Writable s0 show ?thesis by (auto intro: rs_post_mono kept_connecting)
      next
        case (callback bv1 c1 cs1)
        with connected [OF os callback(2)] Relay Writable s0 show ?thesis by (simp add: run_cb_option_def)
      qed
    qed
  qed
qed

lemma fire_handshaking:
  assumes os: "be_os_ok os" and c: "handshaking sp c cs" and pe: "rs_pending s e c"
  shows "rs_outcome (hp_total sp) (rs_state sp (os_adds os)) (rs_fire os ss cfg s e c cs)"
proof -
  obtain bv said heard where ph: "hs_phase sp ss_cbs bv said heard c cs" using c by (auto simp: handshaking_def)
  note bev = rs_inv_bev [OF hs_phase_inv [OF ph]]
  have rc: "read_contract os" using os by (simp add: be_os_ok_def)
  show ?thesis
  proof (cases s)
    case Client
    from hs_fire_client [OF stable ph pe [unfolded Client], of os ss cfg] obtain res
      where "rs_fire os ss cfg Client e c cs = Some res" "rs_post (hs_kept sp ss_cbs (rc_state c) said heard) res" .
    with Client show ?thesis by (auto intro: rs_post_mono kept_state)
  next
    case Relay
    show ?thesis
    proof (cases e)
      case Readable
      with pe Relay bev [of Relay] have "be_ev_read (bv Relay)" by (simp add: rs_pending_def)
      with stable ph show ?thesis using rc
      proof (cases rule: hs_fire_relay_read [where os = os and ss = ss and cfg = cfg])
        case (kept res)
        with Relay Readable show ?thesis by (auto intro: rs_post_mono kept_state)
      next
        case (callback bv1 c1 cs1)
        with readcb [OF os callback(2-4)] Relay Readable show ?thesis by (simp add: run_cb_option_def)
      qed
    next
      case Writable
      with pe Relay bev [of Relay] have "be_ev_write (bv Relay)" by (simp add: rs_pending_def)
      with stable ph show ?thesis
      proof (cases rule: hs_fire_relay_write [where os = os and ss = ss and cfg = cfg])
        case (kept res)
        with Relay Writable show ?thesis by (auto intro: rs_post_mono kept_state)
      next
        case (callback bv1 c1 cs1)
        with writecb [OF os callback(2,3)] Relay Writable show ?thesis by (simp add: run_cb_option_def)
      qed
    qed
  qed
qed

lemma fire_state:
  assumes os: "be_os_ok os" and st: "rs_state sp (os_adds os) c cs" and pe: "rs_pending s e c"
  shows "rs_outcome (hp_total sp) (rs_state sp (os_adds os)) (rs_fire os ss cfg s e c cs)"
proof -
  from st consider "connecting sp c cs" | "handshaking sp c cs" | "relaying sp (os_adds os) c cs" by (auto simp: rs_state_def)
  then show ?thesis
  proof cases
    case 3
    from relaying_fire [OF stable this pe, of ss cfg] obtain res
      where "rs_fire os ss cfg s e c cs = Some res" "rs_post (relaying sp (os_adds os)) res" .
    then show ?thesis by (auto intro: rs_post_mono simp: rs_state_def)
  qed (use fire_connecting [OF os _ pe] fire_handshaking [OF os _ pe] in simp_all)
qed

end

section \<open>Runs\<close>

text \<open>
  Connecting to the proxy server, at first and again. When the connection has been opened the two buffered
  sockets hold all there is.
\<close>

lemma connectingI:
  assumes b: "rc_bev c Client = Some b" "idle_bev b" and fds: "\<And>x. is_open x cs \<longleftrightarrow> x = fd \<or> x = be_fd b" "calls_ok cs" "fd \<noteq> be_fd b"
    and bytes: "bytes_read (be_fd b) cs = be_input b" "bytes_written (be_fd b) cs = []" "be_output b = []" "bytes_read fd cs = []" "bytes_written fd cs = []"
    and shut: "rs_shut_ok c" "\<not> rc_shut_rd c Relay"
    and hs: "rc_state c = 0" "hp_hs sp c [] []" "hp_need sp c = 0" and st: "hs_stable sp"
    and r: "same_io (bufferevent_new fd None (Some Cb_Connected)) r" "\<not> be_ev_read r" "\<not> be_read_suspended r"
  shows "connecting sp (set_bev Relay r c) cs"
proof -
  let ?bv = "\<lambda>s. case s of Client \<Rightarrow> b | Relay \<Rightarrow> r" and ?c = "set_bev Relay r c"
  have rb: "rc_bev ?c = (\<lambda>s. Some (?bv s))" using b(1) by (auto split: rs_side.split)
  have "rs_bytes ?bv (hs_data [] []) cs"
    by (rule hs_bytesI) (use bytes r(1) in \<open>simp_all add: same_io_def bufferevent_new_def\<close>)
  moreover have "rs_fds ?bv cs" using fds r(1) by (auto simp: rs_fds_def same_io_def bufferevent_new_def)
  ultimately have "rs_inv ?bv (hs_data [] []) ?c cs" using rb shut(1) by (simp add: rs_inv_def rs_shut_ok_def all_shut_def)
  then have "hs_phase sp (None, Some Cb_Connected) ?bv [] [] ?c cs"
    using hs b(2) r shut(2) hs_stableD [OF st same_client_bev [of c]]
    by (simp add: hs_phase_def hs_base_def hs_exact_def hs_marks_def same_io_def bufferevent_new_def)
  then show ?thesis using hs(1) by (auto simp: connecting_def)
qed

lemma connect_relay_cases:
  assumes os: "socket_contract os" and b: "rc_bev c Client = Some b"
    and fds: "calls_ok cs" "\<And>fd. is_open fd cs \<longleftrightarrow> fd = be_fd b"
  obtains (dropped) cs2 where "redsocks_connect_relay os c cs = (None, cs2)" "rs_closed cs2"
  | (opened) fd r cs2 where "redsocks_connect_relay os c cs = (Some (set_bev Relay r c), cs2)"
      "same_io (bufferevent_new fd None (Some Cb_Connected)) r" "\<not> be_ev_read r" "\<not> be_read_suspended r"
      "fd \<noteq> be_fd b" "\<And>x. is_open x cs2 \<longleftrightarrow> x = fd \<or> x = be_fd b" "calls_ok cs2" "bytes_read fd cs2 = []" "bytes_written fd cs2 = []"
      "bytes_read (be_fd b) cs2 = bytes_read (be_fd b) cs" "bytes_written (be_fd b) cs2 = bytes_written (be_fd b) cs"
proof -
  define fd where "fd = bo_socket os cs"
  have closed: "rs_closed (Be_Close (be_fd b) # cs)" using fds by (auto simp: rs_closed_def)
  show ?thesis
  proof (cases "fd = -1")
    case True
    then show ?thesis using closed b dropped
      by (simp add: redsocks_connect_relay_def red_connect_relay_def fd_def redsocks_drop_client_def close_bev_def)
  next
    case fd: False
    then have new: "\<not> is_open fd cs" using os by (auto simp: socket_contract_def fd_def)
    then have neq: "fd \<noteq> be_fd b" using fds by auto
    let ?cs = "Be_Open fd # cs" and ?new = "bufferevent_new fd None (Some Cb_Connected) :: rs_bev"
    obtain ok r cs2 where e: "bufferevent_enable os False True ?new ?cs = (ok, r, cs2)" by (cases "bufferevent_enable os False True ?new ?cs")
    have io: "same_io ?new r" "quiet (\<lambda>x. x = fd) ?cs cs2" using enable_io [OF e] by (simp_all add: bufferevent_new_def)
    have r: "r = fst (snd (bufferevent_enable os False True ?new ?cs))" using e by simp
    have ev: "\<not> be_ev_read r" "\<not> be_read_suspended r"
      unfolding r by (simp_all add: bufferevent_enable_def be_socket_enable_def be_socket_add_write_def bufferevent_new_def Let_def)
    have open2: "is_open x cs2 \<longleftrightarrow> x = fd \<or> x = be_fd b" for x using quiet_data(3) [OF io(2)] fds by auto
    have calls2: "calls_ok cs2" by (rule quiet_calls_ok [OF io(2)]) (use fds new in auto)
    show ?thesis
    proof (cases "\<not> bo_nonblock os ?cs fd \<or> \<not> bo_keepalive os ?cs fd \<or> \<not> bo_connect os ?cs fd")
      case True
      then have "redsocks_connect_relay os c cs = (None, Be_Close (be_fd b) # Be_Close fd # ?cs)" using fd b
        by (simp add: redsocks_connect_relay_def red_connect_relay_def fd_def [symmetric] redsocks_drop_client_def close_bev_def Let_def)
      with fds new neq dropped show ?thesis by (auto simp: rs_closed_def)
    next
      case False
      show ?thesis
      proof (cases ok)
        case no: False
        have "rs_closed (Be_Close (be_fd b) # Be_Close fd # cs2)" using open2 calls2 neq by (auto simp: rs_closed_def)
        then show ?thesis using False no fd e b dropped
          by (simp add: redsocks_connect_relay_def red_connect_relay_def fd_def [symmetric] redsocks_drop_client_def close_bev_def Let_def)
      next
        case True
        then have "redsocks_connect_relay os c cs = (Some (set_bev Relay r c), cs2)" using False fd e
          by (simp add: redsocks_connect_relay_def red_connect_relay_def fd_def [symmetric] Let_def)
        then show ?thesis using opened [OF _ io(1) ev neq open2 calls2] quiet_data [OF io(2)] neq by simp
      qed
    qed
  qed
qed

lemma connect_relay_connecting:
  assumes os: "socket_contract os" and b: "rc_bev c Client = Some b" "idle_bev b"
    and fds: "calls_ok cs" "\<And>fd. is_open fd cs \<longleftrightarrow> fd = be_fd b"
    and bytes: "bytes_read (be_fd b) cs = be_input b" "bytes_written (be_fd b) cs = []" "be_output b = []"
    and shut: "rs_shut_ok c" "\<not> rc_shut_rd c Relay"
    and hs: "rc_state c = 0" "hp_hs sp c [] []" "hp_need sp c = 0" and st: "hs_stable sp"
  shows "rs_post (connecting sp) (redsocks_connect_relay os c cs)"
  using os b(1) fds
proof (cases rule: connect_relay_cases)
  case (opened fd r cs2)
  have "connecting sp (set_bev Relay r c) cs2"
    by (rule connectingI [OF b opened(6,7,5) _ _ bytes(3) _ _ shut hs st opened(2-4)]) (use opened bytes in simp_all)
  with opened(1) show ?thesis by simp
qed simp

text \<open>
  The clients of an instance: one that was accepted, then any events that are pending, in any order, and
  other clients of the instance that change what they share.
\<close>

inductive rs_reach :: "be_os \<Rightarrow> relay_subsys \<Rightarrow> redsocks_config \<Rightarrow> redsocks_client \<Rightarrow> be_calls \<Rightarrow> bool" for os ss cfg where
  reach_accept: "redsocks_accept_client os ss cfg auth self [] = (self', Some c, cs) \<Longrightarrow> rs_reach os ss cfg c cs"
| reach_event: "rs_reach os ss cfg c cs \<Longrightarrow> rs_pending s e c \<Longrightarrow> rs_fire os ss cfg s e c cs = Some (Some c', cs') \<Longrightarrow>
    rs_reach os ss cfg c' cs'"
| reach_others: "rs_reach os ss cfg c cs \<Longrightarrow> rs_reach os ss cfg (c\<lparr>rc_auth := auth\<rparr>) cs"

lemma rs_state_auth:
  assumes "hs_stable sp" "rs_state sp adds c cs"
  shows "rs_state sp adds (c\<lparr>rc_auth := auth\<rparr>) cs"
proof -
  have sc: "same_client c (c\<lparr>rc_auth := auth\<rparr>)" by (simp add: same_client_def)
  have "hs_phase sp cbs bv said heard (c\<lparr>rc_auth := auth\<rparr>) cs = hs_phase sp cbs bv said heard c cs" for cbs bv said heard
    by (simp add: hs_phase_def hs_base_def hs_exact_def hs_marks_def hs_stableD [OF assms(1) sc])
  moreover have "dir_of bv (c\<lparr>rc_auth := auth\<rparr>) s = dir_of bv c s" for bv s by (simp add: dir_of_def)
  ultimately show ?thesis using assms(2)
    by (simp add: rs_state_def connecting_def handshaking_def relaying_def hs_stableD [OF assms(1) sc])
qed

context relay_subsystem
begin

lemma accepted_state:
  assumes os: "be_os_ok os"
  shows "rs_post (rs_state sp adds) (redsocks_accepted os ss cfg auth fd [Be_Open fd])"
proof -
  have cl: "rs_closed (Be_Close fd # cs)" if "cs = [Be_Open fd] \<or> cs = Be_Time # [Be_Open fd]" for cs
    using that by (auto simp: rs_closed_def)
  show ?thesis
  proof (cases "bo_getsockname os [Be_Open fd] fd \<and> bo_destaddr os [Be_Open fd] fd \<noteq> None \<and> bo_keepalive os [Be_Open fd] fd")
    case False
    then show ?thesis using cl by (auto simp: redsocks_accepted_def split: option.split)
  next
    case True
    then obtain destaddr destport where d: "bo_destaddr os [Be_Open fd] fd = Some (destaddr, destport)" by auto
    let ?new = "new_client destaddr destport auth"
    let ?c = "ss_init ss cfg ?new"
    have c: "rc_bev ?c = (\<lambda>s. None)" "rc_shut_rd ?c = (\<lambda>s. False)" "rc_shut_wr ?c = (\<lambda>s. False)"
      using init [of ?new] by (simp_all add: new_client_def)
    show ?thesis
    proof (cases "bo_time os [Be_Open fd] = -1")
      case t: True
      then show ?thesis using True d cl c
        by (simp add: redsocks_accepted_def redsocks_drop_client_def close_bev_def Let_def)
    next
      case t: False
      let ?cs = "[Be_Time, Be_Time, Be_Open fd]" and ?b0 = "bufferevent_new fd None None :: rs_bev"
      define c1 where "c1 = ?c\<lparr>rc_last_event := bo_time os [Be_Time, Be_Open fd]\<rparr>"
      obtain ok b cs2 where e: "bufferevent_enable os True False ?b0 ?cs = (ok, b, cs2)" by (cases "bufferevent_enable os True False ?b0 ?cs")
      note io = enable_io [OF e] and ev = enable_read_events [OF e]
      have q: "quiet (\<lambda>x. x = fd) ?cs cs2" using io(2) by (simp add: bufferevent_new_def)
      have b: "be_fd b = fd" "be_input b = []" "be_output b = []" "idle_bev b"
        using io(1) ev by (simp_all add: same_io_def bufferevent_new_def idle_bev_def)
      have op: "is_open x cs2 \<longleftrightarrow> x = fd" for x using quiet_data(3) [OF q] by auto
      have ok2: "calls_ok cs2" by (rule quiet_calls_ok [OF q]) auto
      let ?c1 = "set_bev Client b c1"
      have r: "redsocks_accepted os ss cfg auth fd [Be_Open fd] =
          (if ok then redsocks_connect_relay os ?c1 cs2 else redsocks_drop_client ?c1 cs2)"
        using True d t e by (simp add: redsocks_accepted_def redsocks_touch_client_def c1_def connects Let_def)
      have sc: "same_client ?c ?c1" by (simp add: c1_def same_client_def)
      have "rs_post (connecting sp) (redsocks_connect_relay os ?c1 cs2)"
      proof (rule connect_relay_connecting [of os _ b])
        show "rs_shut_ok ?c1" "\<not> rc_shut_rd ?c1 Relay" using c by (simp_all add: c1_def rs_shut_ok_def all_shut_def)
        show "hp_hs sp ?c1 [] []" "hp_need sp ?c1 = 0" "rc_state ?c1 = 0"
          using init [of ?new] hs_stableD [OF stable sc] by (simp_all add: c1_def)
      qed (use os b op ok2 quiet_data [OF q] stable in \<open>simp_all add: be_os_ok_def\<close>)
      moreover have "rs_closed (snd (redsocks_drop_client ?c1 cs2))" "fst (redsocks_drop_client ?c1 cs2) = None"
        using op ok2 b c by (auto simp: redsocks_drop_client_def close_bev_def c1_def rs_closed_def)
      ultimately show ?thesis unfolding r
        by (cases "redsocks_drop_client ?c1 cs2") (auto intro: rs_post_mono simp: rs_state_def)
    qed
  qed
qed

lemma reach_state:
  assumes os: "be_os_ok os" and r: "rs_reach os ss cfg c cs"
  shows "rs_state sp (os_adds os) c cs"
  using r
proof (induction rule: rs_reach.induct)
  case (reach_accept auth self self' c cs)
  then obtain fd where "redsocks_accepted os ss cfg auth fd [Be_Open fd] = (Some c, cs)"
    by (auto simp: redsocks_accept_client_def split: accept_answer.splits prod.splits)
  with accepted_state [OF os, of "os_adds os" auth fd] show ?case by simp
next
  case (reach_event c cs s e c' cs')
  with fire_state [OF os reach_event.IH reach_event.hyps(2)] show ?case by simp
next
  case (reach_others c cs auth)
  then show ?case by (intro rs_state_auth [OF stable])
qed

end

end
