(* ===== verification/Socks_Props.thy ===== *)
theory Socks_Props
  imports Socks Redsocks_Handshake
begin

text \<open>
  The SOCKS subsystems satisfy the contract of a relay subsystem: what is said to and heard from the
  proxy server is a dialogue of RFC 1928 and 1929, or of SOCKS 4, at every moment, and relaying begins
  after a complete one in which the connection was granted.
\<close>

section \<open>Exact handshakes\<close>

text \<open>
  After an exact handshake has taken what it waited for: nothing is left in the input, reading goes on.
\<close>

definition hs_taken :: "(rs_side \<Rightarrow> rs_bev) \<Rightarrow> bytes \<Rightarrow> bytes \<Rightarrow> redsocks_client \<Rightarrow> be_calls \<Rightarrow> bool" where
  "hs_taken bv said heard c cs \<longleftrightarrow> hs_base bv said heard c cs \<and> \<not> rc_shut_rd c Relay \<and> \<not> be_read_suspended (bv Relay) \<and>
     be_input (bv Relay) = [] \<and> (be_readcb (bv Relay), be_writecb (bv Relay)) = ss_cbs"

lemma hs_taken_base: "hs_taken bv said heard c cs \<Longrightarrow> hs_base bv said heard c cs"
  by (simp add: hs_taken_def)

lemma hs_taken_fields:
  "hs_taken bv said heard c cs \<Longrightarrow> hs_taken bv said heard (c\<lparr>rc_to_skip := n\<rparr>) cs"
  by (simp add: hs_taken_def hs_base_def)

lemma hs_taken_drop [simp]: "hs_taken bv said heard c cs \<Longrightarrow> rs_post Q (redsocks_drop_client c cs)"
  by (rule rs_post_drop [OF hs_base_inv [OF hs_taken_base]])

text \<open>Taking the expected number of bytes, which is what is there.\<close>

lemma read_expected_exact:
  assumes base: "hs_base bv said heard c cs" and full: "hs_full sp (bv Relay) c" "hp_exact sp"
    and cbs: "be_readcb (bv Relay) = Some Cb_Ss_Read" "be_writecb (bv Relay) = Some Cb_Ss_Write" and ev: "be_ev_read (bv Relay)"
    and n: "n = hp_need sp c" and cmp: "comparator n n"
  obtains bv' bs c' where "redsocks_read_expected comparator n c cs = Some (Inr (bs, c'))" "length bs = n"
    "hs_taken bv' said (heard @ bs) c' cs" "\<exists>f. c' = c\<lparr>rc_bev := f\<rparr>"
proof -
  note inv = hs_base_inv [OF base]
  have len: "length (be_input (bv Relay)) = n" using full n by (simp add: hs_full_def)
  show thesis
  proof (rule read_expected_inv [OF inv, of comparator n])
    show "comparator (length (be_input (bv Relay))) n \<longrightarrow> n \<le> length (be_input (bv Relay))" using len by simp
  next
    fix res
    assume "redsocks_read_expected comparator n c cs = Some (Inl res)"
    then show thesis using cmp len rs_inv_bev [OF inv, of Relay] by (simp add: redsocks_read_expected_def)
  next
    fix r bs
    assume r: "redsocks_read_expected comparator n c cs = Some (Inr (bs, set_bev Relay r c))"
      "rs_inv (bv(Relay := r)) (hs_data said (heard @ bs)) (set_bev Relay r c) cs" "length bs = n"
      "r = (bv Relay)\<lparr>be_input := drop n (be_input (bv Relay))\<rparr>"
    have "hs_taken (bv(Relay := r)) said (heard @ bs) (set_bev Relay r c) cs"
      using r base full cbs ev len by (auto simp: hs_taken_def hs_base_def hs_full_def hs_marks_def)
    then show thesis using that r by blast
  qed
qed

text \<open>Sending the next message, or none, and waiting for the next answer.\<close>

lemma write_helper_state:
  assumes st: "hs_stable sp" and t: "hs_taken bv said heard c cs" and s: "s \<noteq> 0"
    and m: "m = (case message of None \<Rightarrow> [] | Some m \<Rightarrow> m)"
    and hs: "hp_hs sp (c\<lparr>rc_state := s\<rparr>) (said @ m) heard" and need: "hp_need sp (c\<lparr>rc_state := s\<rparr>) = wm" "0 < wm"
  shows "rs_outcome tot (rs_state sp adds) (redsocks_write_helper os message s wm c cs)"
proof (rule write_helper_inv [OF hs_base_inv [OF hs_taken_base [OF t]]])
  fix r cs'
  let ?c = "set_bev Relay r (c\<lparr>rc_state := s\<rparr>)"
  assume w: "redsocks_write_helper os message s wm c cs = Some (Some ?c, cs')"
    "rs_inv (bv(Relay := r)) (hs_data (said @ (case message of None \<Rightarrow> [] | Some m \<Rightarrow> m)) heard) ?c cs'"
    "be_input r = be_input (bv Relay)" "be_read_high r = wm" "be_read_low r = wm" "be_write_low r = be_write_low (bv Relay)"
    "be_readcb r = be_readcb (bv Relay)" "be_writecb r = be_writecb (bv Relay)" "be_read_suspended r = be_read_suspended (bv Relay)"
  have eqs: "hp_hs sp ?c (said @ m) heard" "hp_need sp ?c = wm"
    using hs need hs_stableD [OF st same_client_bev [of "c\<lparr>rc_state := s\<rparr>"]] by simp_all
  have "hs_phase sp ss_cbs (bv(Relay := r)) (said @ m) heard ?c cs'"
    using t w eqs s need(2) by (auto simp: hs_phase_def hs_base_def hs_taken_def hs_exact_def hs_marks_def m)
  then show "rs_outcome tot (rs_state sp adds) (redsocks_write_helper os message s wm c cs)"
    using w(1) by (auto simp: rs_state_def handshaking_def)
qed

text \<open>Relaying after the last answer.\<close>

lemma start_relay_state:
  assumes st: "hs_stable sp" and t: "hs_taken bv said heard c cs" and g: "hp_granted sp c said heard"
  shows "rs_outcome tot (rs_state sp adds) (redsocks_start_relay os c cs)"
proof (rule start_relay_inv [OF hs_base_inv [OF hs_taken_base [OF t]] g])
  show "hp_granted sp c' said heard" if "same_client c c'" for c' using g hs_stableD(2) [OF st that] by simp
  show "hp_exact sp \<longrightarrow> be_input (bv Relay) = [] \<and> \<not> rc_shut_rd c Relay \<and> \<not> be_read_suspended (bv Relay)"
    using t by (simp add: hs_taken_def)
next
  fix res
  assume "redsocks_start_relay os c cs = Some res" "rs_post (relaying sp adds) res"
  then show "rs_outcome tot (rs_state sp adds) (redsocks_start_relay os c cs)"
    by (auto intro: rs_post_mono simp: rs_state_def)
qed

text \<open>Before the first message nothing has been read.\<close>

lemma hs_phase_taken:
  assumes "hs_phase sp ss_cbs bv said heard c cs" "hp_exact sp" "hp_need sp c = 0"
  shows "hs_taken bv said heard (c\<lparr>rc_last_event := t\<rparr>) (Be_Time # cs)"
  using assms hs_base_touch [of bv said heard c cs t]
  by (auto simp: hs_phase_def hs_taken_def hs_exact_def hs_marks_def hs_base_def)

text \<open>A callback with nothing to do.\<close>

lemma hs_phase_touched:
  assumes "hs_stable sp" "hs_phase sp ss_cbs bv said heard c cs"
  shows "rs_outcome tot (rs_state sp adds) (Some (Some (c\<lparr>rc_last_event := t\<rparr>), Be_Time # cs))"
proof -
  have sc: "same_client c (c\<lparr>rc_last_event := t\<rparr>)" by (simp add: same_client_def)
  have "hs_phase sp ss_cbs bv said heard (c\<lparr>rc_last_event := t\<rparr>) (Be_Time # cs)"
    using assms(2) hs_base_touch [of bv said heard c cs t] hs_stableD [OF assms(1) sc]
    by (simp add: hs_phase_def hs_exact_def hs_marks_def)
  then show ?thesis by (auto simp: rs_state_def handshaking_def)
qed

section \<open>SOCKS 5\<close>

text \<open>The methods were negotiated: without authentication, or with a user name and a password.\<close>

inductive socks5_greeted :: "redsocks_config \<Rightarrow> bool \<Rightarrow> bytes \<Rightarrow> bytes \<Rightarrow> bool" for cfg where
  greeted_plain: "socks5_greeted cfg pw (socks5_mkmethods_plain pw) [5, 0]"
| greeted_password: "rcfg_login cfg = Some login \<Longrightarrow> rcfg_password cfg = Some password \<Longrightarrow>
    socks5_greeted cfg True (socks5_mkmethods_plain True @ socks5_mkpassword_plain login password) [5, 2, 1, 0]"

text \<open>The beginning of a reply that grants the connection, and how many bytes of it are still to come.\<close>

inductive socks5_reply_head :: "bytes \<Rightarrow> nat \<Rightarrow> bool" where
  head_ipv4: "socks5_reply_head [5, 0, x, 1] 6"
| head_ipv6: "socks5_reply_head [5, 0, x, 4] 18"
| head_domain: "socks5_reply_head [5, 0, x, 3, n] (unat n + 2)"

definition s5_granted :: "redsocks_config \<Rightarrow> redsocks_client \<Rightarrow> bytes \<Rightarrow> bytes \<Rightarrow> bool" where
  "s5_granted cfg c said heard \<longleftrightarrow> (\<exists>s h head n rest. socks5_greeted cfg (rc_do_password c) s h \<and> socks5_reply_head head n \<and>
     length rest = n \<and> said = s @ socks5_mkconnect c \<and> heard = h @ head @ rest)"

definition socks5_hs :: "redsocks_config \<Rightarrow> redsocks_client \<Rightarrow> bytes \<Rightarrow> bytes \<Rightarrow> bool" where
  "socks5_hs cfg c said heard \<longleftrightarrow>
     rc_do_password c = socks5_is_valid_cred (rcfg_login cfg) (rcfg_password cfg) \<and>
     (if rc_state c = socks5_new then said = [] \<and> heard = []
      else if rc_state c = socks5_method_sent then said = socks5_mkmethods_plain (rc_do_password c) \<and> heard = []
      else if rc_state c = socks5_auth_sent then
        (\<exists>login password. rc_do_password c \<and> rcfg_login cfg = Some login \<and> rcfg_password cfg = Some password \<and>
          said = socks5_mkmethods_plain True @ socks5_mkpassword_plain login password \<and> heard = [5, 2])
      else (\<exists>s h. socks5_greeted cfg (rc_do_password c) s h \<and> said = s @ socks5_mkconnect c \<and>
        (if rc_state c = socks5_request_sent then heard = h
         else if rc_state c = socks5_skip_domain then \<exists>x. heard = h @ [5, 0, x, 3]
         else rc_state c = socks5_skip_address \<and> (\<exists>head. socks5_reply_head head (rc_to_skip c) \<and> heard = h @ head))))"

definition socks5_need :: "redsocks_client \<Rightarrow> nat" where
  "socks5_need c = (if rc_state c = socks5_skip_address then rc_to_skip c
     else if rc_state c < socks5_skip_address then [0, 2, 2, 4, 1] ! rc_state c else 0)"

definition socks5_spec :: "redsocks_config \<Rightarrow> hs_spec" where
  "socks5_spec cfg = \<lparr>hp_hs = socks5_hs cfg, hp_granted = s5_granted cfg, hp_need = socks5_need, hp_exact = True, hp_total = True\<rparr>"

lemma socks5_spec_simps [simp]:
  "hp_hs (socks5_spec cfg) = socks5_hs cfg" "hp_granted (socks5_spec cfg) = s5_granted cfg"
  "hp_need (socks5_spec cfg) = socks5_need" "hp_exact (socks5_spec cfg)" "hp_total (socks5_spec cfg)"
  by (simp_all add: socks5_spec_def)

lemma socks5_stable: "hs_stable (socks5_spec cfg)"
  unfolding hs_stable_def socks5_spec_simps
  by (simp add: same_client_def socks5_hs_def s5_granted_def socks5_need_def socks5_mkconnect_def)

text \<open>The answers of the server, state by state.\<close>

lemma length_2: "length bs = 2 \<Longrightarrow> bs = [bs ! 0, bs ! 1]"
  by (rule nth_equalityI) (auto simp: less_Suc_eq numeral_eq_Suc)

lemma length_4: "length bs = 4 \<Longrightarrow> bs = [bs ! 0, bs ! 1, bs ! 2, bs ! 3]"
  by (rule nth_equalityI) (auto simp: less_Suc_eq numeral_eq_Suc)

lemma socks5_writecb:
  assumes ph: "hs_phase (socks5_spec cfg) ss_cbs bv said heard c cs"
  shows "rs_outcome tot (rs_state (socks5_spec cfg) adds) (socks5_write_cb os cfg c cs)"
proof (cases "rc_state c = socks5_new")
  case False
  then show ?thesis using hs_phase_touched [OF socks5_stable ph] by (simp add: socks5_write_cb_def redsocks_touch_client_def)
next
  case True
  let ?c = "c\<lparr>rc_last_event := bo_time os cs\<rparr>"
  have hs: "socks5_hs cfg c said heard" using ph by (simp add: hs_phase_def)
  have "hs_taken bv said heard ?c (Be_Time # cs)" using hs_phase_taken [OF ph] True by (simp add: socks5_need_def)
  then have "rs_outcome tot (rs_state (socks5_spec cfg) adds)
      (redsocks_write_helper os (Some (socks5_mkmethods_plain (rc_do_password ?c))) socks5_method_sent 2 ?c (Be_Time # cs))"
    by (rule write_helper_state [OF socks5_stable]) (use hs True in \<open>simp_all add: socks5_hs_def socks5_need_def\<close>)
  then show ?thesis using True by (simp add: socks5_write_cb_def redsocks_touch_client_def)
qed

text \<open>
  The read callback is run with exactly the bytes that the state waits for. After the bytes were taken
  each state ends with a dropped client, the next message or relaying.
\<close>

definition hs_ready :: "hs_spec \<Rightarrow> (rs_side \<Rightarrow> rs_bev) \<Rightarrow> bytes \<Rightarrow> bytes \<Rightarrow> redsocks_client \<Rightarrow> be_calls \<Rightarrow> bool" where
  "hs_ready sp bv said heard c cs \<longleftrightarrow> hs_base bv said heard c cs \<and> hp_hs sp c said heard \<and> hs_full sp (bv Relay) c \<and>
     be_readcb (bv Relay) = Some Cb_Ss_Read \<and> be_writecb (bv Relay) = Some Cb_Ss_Write \<and> be_ev_read (bv Relay)"

lemma hs_ready_touch:
  assumes "hs_stable sp" "hs_ready sp bv said heard c cs"
  shows "hs_ready sp bv said heard (c\<lparr>rc_last_event := t\<rparr>) (Be_Time # cs)"
proof -
  have "same_client c (c\<lparr>rc_last_event := t\<rparr>)" by (simp add: same_client_def)
  from hs_stableD [OF assms(1) this] assms(2) hs_base_touch [of bv said heard c cs t] show ?thesis
    by (simp add: hs_ready_def hs_full_def hs_marks_def)
qed

lemma read_expected_ready:
  assumes "hs_stable sp" "hs_ready sp bv said heard c cs" "hp_exact sp" "n = hp_need sp c" "comparator n n"
  obtains bv' bs c' where "redsocks_read_expected comparator n c cs = Some (Inr (bs, c'))" "length bs = n"
    "hs_taken bv' said (heard @ bs) c' cs" "hp_hs sp c' said heard" "same_client c c'"
proof (rule read_expected_exact [of bv said heard c cs sp n comparator])
  fix bs c' bv'
  assume r: "redsocks_read_expected comparator n c cs = Some (Inr (bs, c'))" "length bs = n"
    "hs_taken bv' said (heard @ bs) c' cs" "\<exists>f. c' = c\<lparr>rc_bev := f\<rparr>"
  then have sc: "same_client c c'" by auto
  from hs_stableD(1) [OF assms(1) sc] assms(2) that r sc show thesis by (simp add: hs_ready_def)
qed (use assms in \<open>simp_all add: hs_ready_def\<close>)

lemma socks5_auth_methods:
  assumes r: "hs_ready (socks5_spec cfg) bv said heard c cs" and s: "rc_state c = socks5_method_sent"
  shows "rs_outcome tot (rs_state (socks5_spec cfg) adds) (socks5_read_auth_methods os cfg c cs)"
proof (rule read_expected_ready [OF socks5_stable r, of 2 sizes_equal])
  fix bv' bs c'
  assume e: "redsocks_read_expected sizes_equal 2 c cs = Some (Inr (bs, c'))" "length bs = 2"
    and t: "hs_taken bv' said (heard @ bs) c' cs" and hs: "hp_hs (socks5_spec cfg) c' said heard" and sc: "same_client c c'"
  have s': "rc_state c' = socks5_method_sent" using s sc by (simp add: same_client_def)
  note bs = length_2 [OF e(2)]
  show ?thesis
  proof (cases "socks5_is_known_auth_method bs (rc_do_password c')")
    case False
    with e t show ?thesis by (simp add: socks5_read_auth_methods_def)
  next
    case known: True
    then have b0: "bs ! 0 = 5" by (simp add: socks5_is_known_auth_method_def)
    show ?thesis
    proof (cases "bs ! 1 = 0")
      case True
      with b0 bs have "bs = [5, 0]" by simp
      then have "rs_outcome tot (rs_state (socks5_spec cfg) adds)
          (redsocks_write_helper os (Some (socks5_mkconnect c')) socks5_request_sent 4 c' cs)"
        by (intro write_helper_state [OF socks5_stable t])
          (use hs s' greeted_plain [of cfg "rc_do_password c'"] in \<open>auto simp: socks5_hs_def socks5_need_def socks5_mkconnect_def\<close>)
      with e known True show ?thesis by (simp add: socks5_read_auth_methods_def)
    next
      case False
      with known have b1: "bs ! 1 = 2" "rc_do_password c'" by (simp_all add: socks5_is_known_auth_method_def)
      with b0 bs have two: "bs = [5, 2]" by simp
      obtain login password where lp: "rcfg_login cfg = Some login" "rcfg_password cfg = Some password"
        using hs b1(2) by (auto simp: socks5_hs_def socks5_is_valid_cred_def split: option.splits)
      have "rs_outcome tot (rs_state (socks5_spec cfg) adds)
          (redsocks_write_helper os (Some (socks5_mkpassword_plain login password)) socks5_auth_sent 2 c' cs)"
        by (intro write_helper_state [OF socks5_stable t])
          (use hs s' b1 two lp in \<open>auto simp: socks5_hs_def socks5_need_def\<close>)
      with e known b1 lp show ?thesis by (simp add: socks5_read_auth_methods_def)
    qed
  qed
qed (use s in \<open>simp_all add: socks5_need_def sizes_equal_def\<close>)

lemma socks5_auth_reply:
  assumes r: "hs_ready (socks5_spec cfg) bv said heard c cs" and s: "rc_state c = socks5_auth_sent"
  shows "rs_outcome tot (rs_state (socks5_spec cfg) adds) (socks5_read_auth_reply os c cs)"
proof (rule read_expected_ready [OF socks5_stable r, of 2 sizes_equal])
  fix bv' bs c'
  assume e: "redsocks_read_expected sizes_equal 2 c cs = Some (Inr (bs, c'))" "length bs = 2"
    and t: "hs_taken bv' said (heard @ bs) c' cs" and hs: "hp_hs (socks5_spec cfg) c' said heard" and sc: "same_client c c'"
  have s': "rc_state c' = socks5_auth_sent" using s sc by (simp add: same_client_def)
  show ?thesis
  proof (cases "bs ! 0 = 1 \<and> bs ! 1 = 0")
    case False
    with e t show ?thesis by (simp add: socks5_read_auth_reply_def)
  next
    case True
    with length_2 [OF e(2)] have bs: "bs = [1, 0]" by simp
    obtain login password where lp: "rcfg_login cfg = Some login" "rcfg_password cfg = Some password" "rc_do_password c'"
      "said = socks5_mkmethods_plain True @ socks5_mkpassword_plain login password" "heard = [5, 2]"
      using hs s' by (auto simp: socks5_hs_def)
    have "rs_outcome tot (rs_state (socks5_spec cfg) adds)
        (redsocks_write_helper os (Some (socks5_mkconnect c')) socks5_request_sent 4 c' cs)"
      by (intro write_helper_state [OF socks5_stable t])
        (use hs greeted_password [OF lp(1,2)] bs lp in \<open>auto simp: socks5_hs_def socks5_need_def socks5_mkconnect_def\<close>)
    with e True show ?thesis by (simp add: socks5_read_auth_reply_def)
  qed
qed (use s in \<open>simp_all add: socks5_need_def sizes_equal_def\<close>)

lemma socks5_hs_request:
  assumes "socks5_hs cfg c said heard" "socks5_request_sent \<le> rc_state c"
  obtains s h where "socks5_greeted cfg (rc_do_password c) s h" "said = s @ socks5_mkconnect c"
    "rc_state c = socks5_request_sent \<Longrightarrow> heard = h"
    "rc_state c = socks5_skip_domain \<Longrightarrow> \<exists>x. heard = h @ [5, 0, x, 3]"
    "rc_state c = socks5_skip_address \<Longrightarrow> \<exists>head. socks5_reply_head head (rc_to_skip c) \<and> heard = h @ head"
  using assms by (auto simp: socks5_hs_def split: if_splits)

lemma socks5_skip:
  assumes t: "hs_taken bv said (h @ head) c cs" and g: "socks5_greeted cfg (rc_do_password c) s h" "said = s @ socks5_mkconnect c"
    and hd: "socks5_reply_head head n" and pw: "rc_do_password c = socks5_is_valid_cred (rcfg_login cfg) (rcfg_password cfg)"
  shows "rs_outcome tot (rs_state (socks5_spec cfg) adds)
    (redsocks_write_helper os None socks5_skip_address n (c\<lparr>rc_to_skip := n\<rparr>) cs)"
proof (rule write_helper_state [OF socks5_stable hs_taken_fields [OF t]])
  show "0 < n" using hd by cases auto
  show "hp_hs (socks5_spec cfg) (c\<lparr>rc_to_skip := n, rc_state := socks5_skip_address\<rparr>) (said @ []) (h @ head)"
    using g hd pw by (auto simp: socks5_hs_def socks5_mkconnect_def)
qed (simp_all add: socks5_need_def)

lemma socks5_reply_state:
  assumes r: "hs_ready (socks5_spec cfg) bv said heard c cs" and s: "rc_state c = socks5_request_sent"
  shows "rs_outcome tot (rs_state (socks5_spec cfg) adds) (socks5_read_reply os c cs)"
proof (rule read_expected_ready [OF socks5_stable r, of 4 sizes_greater_equal])
  fix bv' bs c'
  assume e: "redsocks_read_expected sizes_greater_equal 4 c cs = Some (Inr (bs, c'))" "length bs = 4"
    and t: "hs_taken bv' said (heard @ bs) c' cs" and hs: "hp_hs (socks5_spec cfg) c' said heard" and sc: "same_client c c'"
  have s': "rc_state c' = socks5_request_sent" using s sc by (simp add: same_client_def)
  have pw: "rc_do_password c' = socks5_is_valid_cred (rcfg_login cfg) (rcfg_password cfg)" using hs by (simp add: socks5_hs_def)
  obtain said1 where g: "socks5_greeted cfg (rc_do_password c') said1 heard" "said = said1 @ socks5_mkconnect c'"
    by (rule socks5_hs_request [of cfg c' said heard]) (use hs s' in auto)
  consider "bs ! 0 \<noteq> 5 \<or> bs ! 1 \<noteq> 0 \<or> bs ! 3 \<notin> {1, 3, 4}" | "bs = [5, 0, bs ! 2, 1]" | "bs = [5, 0, bs ! 2, 4]" | "bs = [5, 0, bs ! 2, 3]"
    using length_4 [OF e(2)] by (cases "bs ! 0 = 5 \<and> bs ! 1 = 0 \<and> bs ! 3 \<in> {1, 3, 4}") auto
  then show ?thesis
  proof cases
    case 1
    with e t show ?thesis by (auto simp: socks5_read_reply_def)
  next
    case 2
    then have b: "bs ! 0 = 5" "bs ! 1 = 0" "bs ! 3 = 1" by (metis nth_Cons_0 nth_Cons_Suc numeral_3_eq_3 One_nat_def)+
    have "socks5_reply_head bs 6" using head_ipv4 [of "bs ! 2"] 2 by simp
    from socks5_skip [OF t g this pw] e b show ?thesis by (simp add: socks5_read_reply_def)
  next
    case 3
    then have b: "bs ! 0 = 5" "bs ! 1 = 0" "bs ! 3 = 4" by (metis nth_Cons_0 nth_Cons_Suc numeral_3_eq_3 One_nat_def)+
    have "socks5_reply_head bs 18" using head_ipv6 [of "bs ! 2"] 3 by simp
    from socks5_skip [OF t g this pw] e b show ?thesis by (simp add: socks5_read_reply_def)
  next
    case 4
    then have b: "bs ! 0 = 5" "bs ! 1 = 0" "bs ! 3 = 3" by (metis nth_Cons_0 nth_Cons_Suc numeral_3_eq_3 One_nat_def)+
    have "rs_outcome tot (rs_state (socks5_spec cfg) adds) (redsocks_write_helper os None socks5_skip_domain 1 c' cs)"
      by (rule write_helper_state [OF socks5_stable t])
        (use g pw 4 in \<open>auto simp: socks5_hs_def socks5_mkconnect_def socks5_need_def\<close>)
    with e b show ?thesis by (simp add: socks5_read_reply_def)
  qed
qed (use s in \<open>simp_all add: socks5_need_def sizes_greater_equal_def\<close>)

lemma socks5_domain:
  assumes r: "hs_ready (socks5_spec cfg) bv said heard c cs" and s: "rc_state c = socks5_skip_domain"
  obtains bs c' where "redsocks_read_expected sizes_greater_equal 1 c cs = Some (Inr (bs, c'))"
    "rs_outcome tot (rs_state (socks5_spec cfg) adds)
      (redsocks_write_helper os None socks5_skip_address (unat (bs ! 0) + 2) (c'\<lparr>rc_to_skip := unat (bs ! 0) + 2\<rparr>) cs)"
proof (rule read_expected_ready [OF socks5_stable r, of 1 sizes_greater_equal])
  fix bv' bs c'
  assume e: "redsocks_read_expected sizes_greater_equal 1 c cs = Some (Inr (bs, c'))" "length bs = 1"
    and t: "hs_taken bv' said (heard @ bs) c' cs" and hs: "hp_hs (socks5_spec cfg) c' said heard" and sc: "same_client c c'"
  have s': "rc_state c' = socks5_skip_domain" using s sc by (simp add: same_client_def)
  have pw: "rc_do_password c' = socks5_is_valid_cred (rcfg_login cfg) (rcfg_password cfg)" using hs by (simp add: socks5_hs_def)
  obtain said1 h x where g: "socks5_greeted cfg (rc_do_password c') said1 h" "said = said1 @ socks5_mkconnect c'"
    and h: "heard = h @ [5, 0, x, 3]"
    by (rule socks5_hs_request [of cfg c' said heard]) (use hs s' in auto)
  obtain n where n: "bs = [n]" using e(2) by (auto simp: length_Suc_conv)
  have "hs_taken bv' said (h @ [5, 0, x, 3, n]) c' cs" using t h n by simp
  from socks5_skip [OF this g head_domain pw] that [OF e(1)] n show thesis by simp
qed (use s in \<open>simp_all add: socks5_need_def sizes_greater_equal_def\<close>)

lemma socks5_address:
  assumes r: "hs_ready (socks5_spec cfg) bv said heard c cs" and s: "rc_state c = socks5_skip_address"
  obtains bs c' where "redsocks_read_expected sizes_greater_equal (rc_to_skip c) c cs = Some (Inr (bs, c'))"
    "rs_outcome tot (rs_state (socks5_spec cfg) adds) (redsocks_start_relay os c' cs)"
proof (rule read_expected_ready [OF socks5_stable r, of "rc_to_skip c" sizes_greater_equal])
  fix bv' bs c'
  assume e: "redsocks_read_expected sizes_greater_equal (rc_to_skip c) c cs = Some (Inr (bs, c'))" "length bs = rc_to_skip c"
    and t: "hs_taken bv' said (heard @ bs) c' cs" and hs: "hp_hs (socks5_spec cfg) c' said heard" and sc: "same_client c c'"
  have s': "rc_state c' = socks5_skip_address" "rc_to_skip c' = rc_to_skip c" using s sc by (simp_all add: same_client_def)
  obtain said1 h where g: "socks5_greeted cfg (rc_do_password c') said1 h" "said = said1 @ socks5_mkconnect c'"
    and "\<exists>head. socks5_reply_head head (rc_to_skip c) \<and> heard = h @ head"
    by (rule socks5_hs_request [of cfg c' said heard]) (use hs s' in simp_all)
  then obtain head where h: "socks5_reply_head head (rc_to_skip c)" "heard = h @ head" by blast
  have "hp_granted (socks5_spec cfg) c' said (heard @ bs)"
    unfolding socks5_spec_simps s5_granted_def using g h e(2)
    by (intro exI [of _ said1] exI [of _ h] exI [of _ head] exI [of _ "rc_to_skip c"] exI [of _ bs]) simp
  from start_relay_state [OF socks5_stable t this] that [OF e(1)] show thesis by simp
qed (use s in \<open>simp_all add: socks5_need_def sizes_greater_equal_def\<close>)

lemma socks5_readcb:
  assumes r: "hs_ready (socks5_spec cfg) bv said heard c cs"
  shows "rs_outcome tot (rs_state (socks5_spec cfg) adds) (socks5_read_cb os cfg c cs)"
proof -
  define c1 cs1 where "c1 = c\<lparr>rc_last_event := bo_time os cs\<rparr>" and "cs1 = Be_Time # cs"
  have r1: "hs_ready (socks5_spec cfg) bv said heard c1 cs1" using hs_ready_touch [OF socks5_stable r] by (simp add: c1_def cs1_def)
  have t: "redsocks_touch_client os c cs = (c1, cs1)" by (simp add: redsocks_touch_client_def c1_def cs1_def)
  have "rs_inv bv (hs_data said heard) c1 cs1" using r1 by (simp add: hs_ready_def hs_base_def)
  then have drop: "rs_outcome tot Q (Some (redsocks_drop_client c1 cs1))" for Q by simp
  consider "rc_state c1 = socks5_method_sent" | "rc_state c1 = socks5_auth_sent" | "rc_state c1 = socks5_request_sent"
    | "rc_state c1 = socks5_skip_domain" | "rc_state c1 = socks5_skip_address"
    | "rc_state c1 \<notin> {socks5_method_sent, socks5_auth_sent, socks5_request_sent, socks5_skip_domain, socks5_skip_address}" by blast
  then show ?thesis
  proof cases
    case 4
    show ?thesis
      by (rule socks5_domain [OF r1 4, of tot adds os]) (simp add: socks5_read_cb_def t 4 Let_def)
  next
    case 5
    show ?thesis
      by (rule socks5_address [OF r1 5, of tot adds os]) (simp add: socks5_read_cb_def t 5)
  qed (use socks5_auth_methods [OF r1] socks5_auth_reply [OF r1] socks5_reply_state [OF r1] drop in \<open>simp_all add: socks5_read_cb_def t\<close>)
qed

interpretation s5: relay_subsystem socks5_subsys cfg "socks5_spec cfg" for cfg
proof (unfold_locales, goal_cases)
  case 1
  show ?case by (rule socks5_stable)
next
  case (2 c)
  show ?case by (simp add: socks5_subsys_def socks5_client_init_def socks5_hs_def socks5_need_def)
next
  case (3 os bv said heard c cs)
  from socks5_writecb [OF 3(2)] show ?case by (simp add: socks5_subsys_def)
next
  case (4 os bv said heard c cs)
  then have "hs_ready (socks5_spec cfg) bv said heard c cs" by (simp add: hs_ready_def)
  from socks5_readcb [OF this] show ?case by (simp add: socks5_subsys_def)
qed (simp add: socks5_subsys_def)

section \<open>SOCKS 4\<close>

definition s4_granted :: "redsocks_config \<Rightarrow> redsocks_client \<Rightarrow> bytes \<Rightarrow> bytes \<Rightarrow> bool" where
  "s4_granted cfg c said heard \<longleftrightarrow> said = socks4_mkconnect cfg c \<and> (\<exists>rest. length rest = 6 \<and> heard = [0, 90] @ rest)"

definition socks4_hs :: "redsocks_config \<Rightarrow> redsocks_client \<Rightarrow> bytes \<Rightarrow> bytes \<Rightarrow> bool" where
  "socks4_hs cfg c said heard \<longleftrightarrow> heard = [] \<and>
     (if rc_state c = socks4_new then said = []
      else rc_state c = socks4_request_sent \<and> said = socks4_mkconnect cfg c)"

definition socks4_need :: "redsocks_client \<Rightarrow> nat" where
  "socks4_need c = (if rc_state c = socks4_request_sent then 8 else 0)"

definition socks4_spec :: "redsocks_config \<Rightarrow> hs_spec" where
  "socks4_spec cfg = \<lparr>hp_hs = socks4_hs cfg, hp_granted = s4_granted cfg, hp_need = socks4_need, hp_exact = True, hp_total = True\<rparr>"

lemma socks4_spec_simps [simp]:
  "hp_hs (socks4_spec cfg) = socks4_hs cfg" "hp_granted (socks4_spec cfg) = s4_granted cfg"
  "hp_need (socks4_spec cfg) = socks4_need" "hp_exact (socks4_spec cfg)" "hp_total (socks4_spec cfg)"
  by (simp_all add: socks4_spec_def)

lemma socks4_stable: "hs_stable (socks4_spec cfg)"
  unfolding hs_stable_def socks4_spec_simps
  by (simp add: same_client_def socks4_hs_def s4_granted_def socks4_need_def socks4_mkconnect_def)

lemma socks4_writecb:
  assumes ph: "hs_phase (socks4_spec cfg) ss_cbs bv said heard c cs"
  shows "rs_outcome tot (rs_state (socks4_spec cfg) adds) (socks4_write_cb os cfg c cs)"
proof -
  define c1 cs1 where "c1 = c\<lparr>rc_last_event := bo_time os cs\<rparr>" and "cs1 = Be_Time # cs"
  have t: "redsocks_touch_client os c cs = (c1, cs1)" by (simp add: redsocks_touch_client_def c1_def cs1_def)
  have hs: "socks4_hs cfg c said heard" using ph by (simp add: hs_phase_def)
  show ?thesis
  proof (cases "rc_state c = socks4_new")
    case True
    have "hs_taken bv said heard c1 cs1" using hs_phase_taken [OF ph] True by (simp add: socks4_need_def c1_def cs1_def)
    then have "rs_outcome tot (rs_state (socks4_spec cfg) adds)
        (redsocks_write_helper os (Some (socks4_mkconnect cfg c1)) socks4_request_sent 8 c1 cs1)"
      by (rule write_helper_state [OF socks4_stable])
        (use hs True in \<open>simp_all add: socks4_hs_def socks4_need_def socks4_mkconnect_def c1_def\<close>)
    with t True show ?thesis by (simp add: socks4_write_cb_def c1_def)
  next
    case False
    let ?r = "bufferevent_disable False True (bv Relay)" and ?c = "set_bev Relay (bufferevent_disable False True (bv Relay)) c1"
    have i: "rs_inv bv (hs_data said heard) c1 cs1"
      using hs_base_touch [of bv said heard c cs] ph by (simp add: hs_phase_def hs_base_def c1_def cs1_def)
    have "rs_inv (bv(Relay := ?r)) (hs_data said heard) ?c cs1" by (rule rs_inv_quiet [OF i]) auto
    moreover have "same_client c ?c" by (simp add: same_client_def c1_def)
    ultimately have "hs_phase (socks4_spec cfg) ss_cbs (bv(Relay := ?r)) said heard ?c cs1"
      using ph hs_stableD [OF socks4_stable, of c ?c] same_io_disable [of "bv Relay" False True]
      by (auto simp: hs_phase_def hs_base_def hs_exact_def hs_marks_def same_io_def c1_def split: if_splits)
    with False t rs_inv_bev [OF i, of Relay] show ?thesis
      by (auto simp: socks4_write_cb_def c1_def rs_state_def handshaking_def)
  qed
qed

lemma socks4_readcb:
  assumes r: "hs_ready (socks4_spec cfg) bv said heard c cs" and ne: "be_input (bv Relay) \<noteq> []"
  shows "rs_outcome tot (rs_state (socks4_spec cfg) adds) (socks4_read_cb os cfg c cs)"
proof -
  define c1 cs1 where "c1 = c\<lparr>rc_last_event := bo_time os cs\<rparr>" and "cs1 = Be_Time # cs"
  have r1: "hs_ready (socks4_spec cfg) bv said heard c1 cs1" using hs_ready_touch [OF socks4_stable r] by (simp add: c1_def cs1_def)
  have t: "redsocks_touch_client os c cs = (c1, cs1)" by (simp add: redsocks_touch_client_def c1_def cs1_def)
  have s: "rc_state c1 = socks4_request_sent" "rc_state c = socks4_request_sent"
    using r ne by (auto simp: hs_ready_def hs_full_def socks4_hs_def socks4_need_def c1_def split: if_splits)
  show ?thesis
  proof (rule read_expected_ready [OF socks4_stable r1, of 8 sizes_greater_equal])
    fix bv' bs c'
    assume e: "redsocks_read_expected sizes_greater_equal 8 c1 cs1 = Some (Inr (bs, c'))" "length bs = 8"
      and tk: "hs_taken bv' said (heard @ bs) c' cs1" and hs: "hp_hs (socks4_spec cfg) c' said heard" and sc: "same_client c1 c'"
    let ?c = "c'\<lparr>rc_state := socks4_reply_came\<rparr>"
    have tk': "hs_taken bv' said (heard @ bs) ?c cs1" using tk by (simp add: hs_taken_def hs_base_def)
    show ?thesis
    proof (cases "bs ! 0 = 0 \<and> bs ! 1 = 90")
      case False
      with e t s tk' show ?thesis by (simp add: socks4_read_cb_def Let_def)
    next
      case True
      have "bs = [bs ! 0, bs ! 1] @ drop 2 bs" using e(2) by (cases bs; cases "tl bs") auto
      then have "hp_granted (socks4_spec cfg) ?c said (heard @ bs)"
        using True hs sc s e(2) by (auto simp: s4_granted_def socks4_hs_def same_client_def socks4_mkconnect_def intro!: exI [of _ "drop 2 bs"])
      from start_relay_state [OF socks4_stable tk' this] True e t s show ?thesis by (simp add: socks4_read_cb_def Let_def)
    qed
  qed (use s in \<open>simp_all add: socks4_need_def sizes_greater_equal_def\<close>)
qed

interpretation s4: relay_subsystem socks4_subsys cfg "socks4_spec cfg" for cfg
proof (unfold_locales, goal_cases)
  case 1
  show ?case by (rule socks4_stable)
next
  case (2 c)
  show ?case by (simp add: socks4_subsys_def socks4_client_init_def socks4_hs_def socks4_need_def)
next
  case (3 os bv said heard c cs)
  from socks4_writecb [OF 3(2)] show ?case by (simp add: socks4_subsys_def)
next
  case (4 os bv said heard c cs)
  then have "hs_ready (socks4_spec cfg) bv said heard c cs" by (simp add: hs_ready_def)
  from socks4_readcb [OF this 4(8)] show ?case by (simp add: socks4_subsys_def)
qed (simp add: socks4_subsys_def)

end
