(* ===== verification/Http_Connect.thy ===== *)
theory Http_Connect
  imports Redsocks Scanf
begin

text \<open>
  \<open>redsocks/http-connect.c\<close>: the handshake with an HTTP proxy, a \<open>CONNECT\<close> request whose reply is read line
  by line. A challenge of the proxy is kept for all clients of the instance and answered over a new
  connection.
\<close>

section \<open>Lines and texts\<close>

text \<open>
  \<open>evbuffer_readln\<close> with \<open>EVBUFFER_EOL_CRLF\<close>: a line ends at the first line feed, or at a carriage return
  before it. The caller sees the line as a C string, up to the first zero byte.
\<close>

fun evbuffer_readln :: "bytes \<Rightarrow> (bytes \<times> bytes) option" where
  "evbuffer_readln [] = None"
| "evbuffer_readln (b # bs) =
     (if b = 10 then Some ([], bs)
      else if b = 13 \<and> take 1 bs = [10] then Some ([], drop 1 bs)
      else map_option (\<lambda>(line, rest). (b # line, rest)) (evbuffer_readln bs))"

definition redsocks_evbuffer_readline :: "bytes \<Rightarrow> (string \<times> bytes) option" where
  "redsocks_evbuffer_readline buf = map_option (\<lambda>(line, rest). (map (\<lambda>b. char_of (unat b)) (cstr line), rest)) (evbuffer_readln buf)"

definition crlf :: string where "crlf = [CHR 0x0D, CHR 0x0A]"

fun dec :: "nat \<Rightarrow> string" where
  "dec n = (if n < 10 then [char_of (48 + n)] else dec (n div 10) @ [char_of (48 + n mod 10)])"

declare dec.simps [simp del]

definition inet_ntoa :: "bytes \<Rightarrow> string" where
  "inet_ntoa addr = concat (map (\<lambda>b. dec (unat b)) (take 1 addr) @ map (\<lambda>b. CHR ''.'' # dec (unat b)) (drop 1 addr))"

definition dest_text :: "redsocks_client \<Rightarrow> string" where
  "dest_text c = inet_ntoa (rc_destaddr c) @ '':'' @ dec (unat (ntohs (rc_destport c)))"

definition hex4 :: "u16 \<Rightarrow> string" where
  "hex4 w = dump_hash (be16b w)"

definition auth_request_header :: string where "auth_request_header = ''Proxy-Authenticate:''"
definition auth_response_header :: string where "auth_response_header = ''Proxy-Authorization:''"

section \<open>The request\<close>

abbreviation httpc_new :: nat where "httpc_new \<equiv> 0"
abbreviation httpc_request_sent :: nat where "httpc_request_sent \<equiv> 1"
abbreviation httpc_reply_came :: nat where "httpc_reply_came \<equiv> 2"
abbreviation httpc_headers_skipped :: nat where "httpc_headers_skipped \<equiv> 3"

definition HTTP_HEAD_WM_HIGH :: nat where "HTTP_HEAD_WM_HIGH = 4096"

definition httpc_client_init :: "redsocks_config \<Rightarrow> redsocks_client \<Rightarrow> redsocks_client" where
  "httpc_client_init cfg c = c\<lparr>rc_state := httpc_new\<rparr>"

text \<open>Four random numbers, each masked to 16 bits.\<close>

fun random_words :: "nat \<Rightarrow> be_os \<Rightarrow> be_calls \<Rightarrow> u16 list \<times> be_calls" where
  "random_words 0 os cs = ([], cs)"
| "random_words (Suc n) os cs =
     (let (ws, cs') = random_words n os (Be_Rand # cs) in (of_int (bo_random os cs) # ws, cs'))"

text \<open>
  The answer to the last challenge, as scheme and text, or none. A digest challenge is read from its
  eighth character on, which lies outside the string when it is \<open>Digest\<close> and nothing else. The digest does
  not depend on what the uninitialised context holds.
\<close>

definition httpc_auth_string :: "be_os \<Rightarrow> redsocks_config \<Rightarrow> redsocks_client \<Rightarrow> http_auth \<Rightarrow> be_calls \<Rightarrow>
    ((string \<times> string) option \<times> be_calls) option" where
  "httpc_auth_string os cfg c auth cs =
     (case last_auth_query auth of
        None \<Rightarrow> Some (None, cs)
      | Some query \<Rightarrow>
          if strncaseeq query ''Basic'' 5 then
            do {
              login \<leftarrow> rcfg_login cfg;
              password \<leftarrow> rcfg_password cfg;
              Some (map_option (Pair ''Basic'') (basic_authentication_encode login password), cs)
            }
          else if strncaseeq query ''Digest'' 6 then
            let (ws, cs) = random_words 4 os cs;
                cnounce = concat (map hex4 ws) in
            if length query < 7 then None
            else
              do {
                r \<leftarrow> digest_authentication_encode (drop 7 query) (rcfg_login cfg) (rcfg_password cfg) (Some ''CONNECT'')
                       (Some (dest_text c)) (last_auth_count auth) cnounce (replicate 64 0);
                Some (map_option (Pair ''Digest'') r, cs)
              }
          else Some (None, cs))"

definition httpc_mkconnect :: "be_os \<Rightarrow> redsocks_config \<Rightarrow> redsocks_client \<Rightarrow> be_calls \<Rightarrow>
    (bytes \<times> redsocks_client \<times> be_calls) option" where
  "httpc_mkconnect os cfg c cs =
     do {
       let auth = (rc_auth c)\<lparr>last_auth_count := last_auth_count (rc_auth c) + 1\<rparr>;
       (auth_string, cs) \<leftarrow> httpc_auth_string os cfg c auth cs;
       let header = (case auth_string of
            None \<Rightarrow> []
          | Some (scheme, s) \<Rightarrow> auth_response_header @ '' '' @ scheme @ '' '' @ s @ crlf);
       Some (c_bytes (''CONNECT '' @ dest_text c @ '' HTTP/1.0'' @ crlf @ header @ crlf), c\<lparr>rc_auth := auth\<rparr>, cs)
     }"

definition httpc_write_cb :: "be_os \<Rightarrow> redsocks_config \<Rightarrow> redsocks_client \<Rightarrow> be_calls \<Rightarrow> rs_result" where
  "httpc_write_cb os cfg c cs =
     (let (c, cs) = redsocks_touch_client os c cs in
      if rc_state c = httpc_new then
        do {
          (buff, c, cs) \<leftarrow> httpc_mkconnect os cfg c cs;
          redsocks_write_helper_ex os (Some buff) httpc_request_sent 1 HTTP_HEAD_WM_HIGH c cs
        }
      else
        do {
          r \<leftarrow> rc_bev c Relay;
          Some (Some (set_bev Relay (bufferevent_disable False True r) c), cs)
        })"

section \<open>The reply\<close>

text \<open>\<open>sscanf\<close> with \<open>HTTP/%*u.%*u %u\<close>: the code, when all of it matched.\<close>

definition httpc_code :: "string \<Rightarrow> u32 option" where
  "httpc_code line =
     (if take 5 line \<noteq> ''HTTP/'' then None
      else
        do {
          (_, l) \<leftarrow> scan_u (drop 5 line);
          l \<leftarrow> scan_lit (CHR ''.'') l;
          (_, l) \<leftarrow> scan_u l;
          (code, l) \<leftarrow> scan_u l;
          Some code
        })"

lemma evbuffer_readln_shorter: "evbuffer_readln buf = Some (line, rest) \<Longrightarrow> length rest < length buf"
proof (induction buf arbitrary: line)
  case (Cons b bs)
  then show ?case by (fastforce split: if_splits)
qed simp

lemma readline_shorter: "redsocks_evbuffer_readline buf = Some (line, rest) \<Longrightarrow> length rest < length buf"
  by (auto simp: redsocks_evbuffer_readline_def dest: evbuffer_readln_shorter)

function get_auth_request_header :: "bytes \<Rightarrow> string option" where
  "get_auth_request_header buf =
     (case redsocks_evbuffer_readline buf of
        None \<Rightarrow> None
      | Some (line, rest) \<Rightarrow>
          if line = [] \<or> CHR '':'' \<notin> set line then None
          else if strncaseeq line auth_request_header (length auth_request_header) then Some line
          else get_auth_request_header rest)"
  by auto
termination
  by (relation "measure length") (auto dest: readline_shorter)

text \<open>The headers up to an empty line: whether it was there and what is left of the input.\<close>

function skip_headers :: "bytes \<Rightarrow> bool \<times> bytes" where
  "skip_headers buf =
     (case redsocks_evbuffer_readline buf of
        None \<Rightarrow> (False, buf)
      | Some (line, rest) \<Rightarrow> if line = [] then (True, rest) else skip_headers rest)"
  by auto
termination
  by (relation "measure length") (auto dest: readline_shorter)

declare get_auth_request_header.simps [simp del] skip_headers.simps [simp del]

text \<open>
  The proxy asks for authentication: the challenge is kept, the connection to the proxy is closed and a
  new one opened. The client is dropped when it has answered this challenge already, has no
  credentials, or there is no challenge.
\<close>

definition httpc_auth_required :: "be_os \<Rightarrow> redsocks_config \<Rightarrow> redsocks_client \<Rightarrow> be_calls \<Rightarrow> rs_result" where
  "httpc_auth_required os cfg c cs =
     do {
       r \<leftarrow> rc_bev c Relay;
       let auth = rc_auth c;
       Some
        (if last_auth_query auth \<noteq> None \<and> last_auth_count auth = 1 then redsocks_drop_client c cs
         else if rcfg_login cfg = None \<or> rcfg_password cfg = None then redsocks_drop_client c cs
         else case get_auth_request_header (be_input r) of
           None \<Rightarrow> redsocks_drop_client c cs
         | Some auth_request \<Rightarrow>
             let query = dropWhile isspace (drop (length auth_request_header) auth_request)
             in redsocks_connect_relay os
                  (c\<lparr>rc_auth := \<lparr>last_auth_query = Some query, last_auth_count = 0\<rparr>, rc_state := httpc_new\<rparr>)
                  (Be_Close (be_fd r) # cs))
     }"

text \<open>The status line: a result that ends the callback, or the client to go on with.\<close>

definition httpc_status :: "be_os \<Rightarrow> redsocks_config \<Rightarrow> redsocks_client \<Rightarrow> be_calls \<Rightarrow>
    (redsocks_client option \<times> be_calls + redsocks_client) option" where
  "httpc_status os cfg c cs =
     do {
       r \<leftarrow> rc_bev c Relay;
       case redsocks_evbuffer_readline (be_input r) of
         None \<Rightarrow>
           if HTTP_HEAD_WM_HIGH \<le> length (be_input r) then Some (Inl (redsocks_drop_client c cs)) else Some (Inr c)
       | Some (line, rest) \<Rightarrow>
           let c = set_bev Relay (r\<lparr>be_input := rest\<rparr>) c in
           (case httpc_code line of
              None \<Rightarrow> Some (Inr c)
            | Some code \<Rightarrow>
                if code = 407 then map_option Inl (httpc_auth_required os cfg c cs)
                else if 200 \<le> code \<and> code \<le> 299 then Some (Inr (c\<lparr>rc_state := httpc_reply_came\<rparr>))
                else Some (Inl (redsocks_drop_client c cs)))
     }"

definition httpc_headers :: "be_os \<Rightarrow> redsocks_client \<Rightarrow> be_calls \<Rightarrow> rs_result" where
  "httpc_headers os c cs =
     do {
       r \<leftarrow> rc_bev c Relay;
       let (skipped, rest) = (if rc_state c = httpc_reply_came then skip_headers (be_input r) else (False, be_input r));
       let c = set_bev Relay (r\<lparr>be_input := rest\<rparr>) c;
       let c = (if skipped then c\<lparr>rc_state := httpc_headers_skipped\<rparr> else c);
       if rc_state c = httpc_headers_skipped then redsocks_start_relay os c cs else Some (Some c, cs)
     }"

definition httpc_read_cb :: "be_os \<Rightarrow> redsocks_config \<Rightarrow> redsocks_client \<Rightarrow> be_calls \<Rightarrow> rs_result" where
  "httpc_read_cb os cfg c cs =
     (if rc_state c < httpc_request_sent then None
      else
        let (c, cs) = redsocks_touch_client os c cs in
        if rc_state c = httpc_request_sent then
          do {
            r \<leftarrow> httpc_status os cfg c cs;
            case r of Inl res \<Rightarrow> Some res | Inr c \<Rightarrow> httpc_headers os c cs
          }
        else httpc_headers os c cs)"

definition http_connect_subsys :: relay_subsys where
  "http_connect_subsys = \<lparr>ss_readcb = httpc_read_cb, ss_writecb = httpc_write_cb, ss_clientcb = None,
     ss_init = httpc_client_init, ss_connect_relay = None\<rparr>"

end
