(* ===== verification/Http_Props.thy ===== *)
theory Http_Props
  imports Http_Connect Redsocks_Handshake
begin

text \<open>
  The HTTP handshake keeps the contract of a relay subsystem: what is said is one \<open>CONNECT\<close> request for the
  destination of the client, and relaying starts after a status line with a code from 200 to 299 and the
  end of its headers. The handshake is not exact, because what follows the headers may already have been
  read, and it is not free of undefined behaviour.
\<close>

section \<open>Lines\<close>

lemma evbuffer_readln_split:
  "evbuffer_readln buf = Some (line, rest) \<Longrightarrow> \<exists>x. buf = x @ rest \<and> evbuffer_readln x = Some (line, [])"
proof (induction buf arbitrary: line)
  case (Cons b bs)
  consider "b = 10" | "b = 13" "take 1 bs = [10]" | l where "b \<noteq> 10" "\<not> (b = 13 \<and> take 1 bs = [10])" "line = b # l" "evbuffer_readln bs = Some (l, rest)"
    using Cons.prems by (auto split: if_splits)
  then show ?case
  proof cases
    case 1
    then show ?thesis using Cons.prems by (intro exI [of _ "[b]"]) simp
  next
    case 2
    then have "bs = 10 # drop 1 bs" by (cases bs) auto
    then show ?thesis using 2 Cons.prems by (intro exI [of _ "[b, 10]"]) (auto split: if_splits)
  next
    case 3
    from Cons.IH [OF 3(4)] obtain x where x: "bs = x @ rest" "evbuffer_readln x = Some (l, [])" by blast
    then have "take 1 x = take 1 bs" by (cases x) auto
    with x 3 show ?thesis by (intro exI [of _ "b # x"]) auto
  qed
qed simp

lemma readline_split:
  "redsocks_evbuffer_readline buf = Some (line, rest) \<Longrightarrow> \<exists>x. buf = x @ rest \<and> redsocks_evbuffer_readline x = Some (line, [])"
  by (fastforce simp: redsocks_evbuffer_readline_def dest: evbuffer_readln_split)

inductive http_lines :: "(string \<Rightarrow> bool) \<Rightarrow> bytes \<Rightarrow> bool" for P where
  lines_none: "http_lines P []"
| lines_more: "http_lines P bs \<Longrightarrow> redsocks_evbuffer_readline x = Some (line, []) \<Longrightarrow> P line \<Longrightarrow> http_lines P (bs @ x)"

lemma http_lines_append: "http_lines P ys \<Longrightarrow> http_lines P xs \<Longrightarrow> http_lines P (xs @ ys)"
  by (induction rule: http_lines.induct) (auto simp flip: append_assoc intro: lines_more)

lemma http_lines_one: "redsocks_evbuffer_readline x = Some (line, []) \<Longrightarrow> P line \<Longrightarrow> http_lines P x"
  using lines_more [OF lines_none] by fastforce

lemma skip_headers_lines:
  "skip_headers buf = (skipped, rest) \<Longrightarrow> \<exists>h e. buf = h @ e @ rest \<and> http_lines (\<lambda>l. l \<noteq> []) h \<and>
     (if skipped then redsocks_evbuffer_readline e = Some ([], []) else e = [])"
proof (induction buf rule: skip_headers.induct)
  case (1 buf)
  show ?case
  proof (cases "redsocks_evbuffer_readline buf")
    case None
    with "1.prems" have "buf = [] @ [] @ rest" "\<not> skipped" by (auto simp: skip_headers.simps [of buf])
    then show ?thesis using lines_none by fastforce
  next
    case (Some p)
    then obtain line r where p: "redsocks_evbuffer_readline buf = Some (line, r)" by (cases p) auto
    from readline_split [OF this] obtain x where x: "buf = x @ r" "redsocks_evbuffer_readline x = Some (line, [])" by blast
    show ?thesis
    proof (cases "line = []")
      case True
      with "1.prems" p have "skipped" "rest = r" by (auto simp: skip_headers.simps [of buf])
      with x True lines_none show ?thesis by (intro exI [of _ "[]"] exI [of _ x]) simp
    next
      case False
      with "1.prems" p have "skip_headers r = (skipped, rest)" by (simp add: skip_headers.simps [of buf])
      from "1.IH" [OF p refl False this] obtain h e where h: "r = h @ e @ rest" "http_lines (\<lambda>l. l \<noteq> []) h"
        "if skipped then redsocks_evbuffer_readline e = Some ([], []) else e = []" by blast
      have "http_lines (\<lambda>l. l \<noteq> []) x" using x(2) False by (rule http_lines_one)
      from http_lines_append [OF h(2) this] h x(1) show ?thesis
        by (intro exI [of _ "x @ h"] exI [of _ e]) simp
    qed
  qed
qed

section \<open>The dialogue\<close>

definition http_request :: "redsocks_client \<Rightarrow> bytes \<Rightarrow> bool" where
  "http_request c said \<longleftrightarrow> (\<exists>header. (header = [] \<or> (\<exists>t. header = auth_response_header @ '' '' @ t @ crlf)) \<and>
     said = c_bytes (''CONNECT '' @ dest_text c @ '' HTTP/1.0'' @ crlf @ header @ crlf))"

lemma http_request_fields [simp]:
  "http_request (c\<lparr>rc_bev := f\<rparr>) = http_request c" "http_request (c\<lparr>rc_last_event := t\<rparr>) = http_request c"
  "http_request (c\<lparr>rc_state := n\<rparr>) = http_request c" "http_request (c\<lparr>rc_auth := a\<rparr>) = http_request c"
  by (simp_all add: http_request_def dest_text_def fun_eq_iff)

definition http_accepted :: "bytes \<Rightarrow> bool" where
  "http_accepted bs \<longleftrightarrow> (\<exists>line code. redsocks_evbuffer_readline bs = Some (line, []) \<and> httpc_code line = Some code \<and>
     200 \<le> code \<and> code \<le> 299)"

definition http_replied :: "bytes \<Rightarrow> bool" where
  "http_replied heard \<longleftrightarrow> (\<exists>junk status headers. http_lines (\<lambda>l. httpc_code l = None) junk \<and> http_accepted status \<and>
     http_lines (\<lambda>l. l \<noteq> []) headers \<and> heard = junk @ status @ headers)"

definition http_granted :: "redsocks_client \<Rightarrow> bytes \<Rightarrow> bytes \<Rightarrow> bool" where
  "http_granted c said heard \<longleftrightarrow> http_request c said \<and>
     (\<exists>reply blank. http_replied reply \<and> redsocks_evbuffer_readline blank = Some ([], []) \<and> heard = reply @ blank)"

definition http_hs :: "redsocks_client \<Rightarrow> bytes \<Rightarrow> bytes \<Rightarrow> bool" where
  "http_hs c said heard \<longleftrightarrow>
     (if rc_state c = httpc_new then said = [] \<and> heard = []
      else http_request c said \<and>
        (if rc_state c = httpc_request_sent then http_lines (\<lambda>l. httpc_code l = None) heard
         else rc_state c = httpc_reply_came \<and> http_replied heard))"

definition http_spec :: hs_spec where
  "http_spec = \<lparr>hp_hs = http_hs, hp_granted = http_granted, hp_need = (\<lambda>c. 0), hp_exact = False, hp_total = False\<rparr>"

lemma http_spec_simps [simp]:
  "hp_hs http_spec = http_hs" "hp_granted http_spec = http_granted" "hp_need http_spec c = 0" "\<not> hp_exact http_spec" "\<not> hp_total http_spec"
  by (simp_all add: http_spec_def)

lemma http_stable: "hs_stable http_spec"
  unfolding hs_stable_def http_spec_simps
  by (simp add: same_client_def http_hs_def http_granted_def http_request_def dest_text_def)

lemma http_replied_more: "http_replied heard \<Longrightarrow> http_lines (\<lambda>l. l \<noteq> []) h \<Longrightarrow> http_replied (heard @ h)"
  unfolding http_replied_def by (metis append_assoc http_lines_append)

section \<open>The laws\<close>

text \<open>Taking bytes from the input of the relay.\<close>

lemma hs_base_take:
  assumes "hs_base bv said heard c cs" "be_input (bv Relay) = x @ rest"
  shows "hs_base (bv(Relay := (bv Relay)\<lparr>be_input := rest\<rparr>)) said (heard @ x) (set_bev Relay ((bv Relay)\<lparr>be_input := rest\<rparr>) c) cs"
proof -
  note i = hs_base_inv [OF assms(1), unfolded rs_inv_def]
  let ?bv = "bv(Relay := (bv Relay)\<lparr>be_input := rest\<rparr>)"
  have "rs_bytes ?bv (hs_data said (heard @ x)) cs"
    by (rule hs_bytesI) (use i hs_bytesD [of bv said heard cs] assms(2) in simp_all)
  moreover have "rs_fds ?bv cs" using i by (simp add: rs_fds_def)
  ultimately show ?thesis using assms(1) i by (auto simp: hs_base_def rs_inv_def rs_shut_ok_def all_shut_def)
qed

lemma hs_base_fields:
  "hs_base bv said heard c cs \<Longrightarrow> hs_base bv said heard (c\<lparr>rc_auth := a\<rparr>) cs"
  "hs_base bv said heard c cs \<Longrightarrow> n \<noteq> 0 \<Longrightarrow> hs_base bv said heard (c\<lparr>rc_state := n\<rparr>) cs"
  by (auto simp: hs_base_def)

lemma http_state:
  assumes "hs_base bv said heard c cs" "http_hs c said heard" "be_readcb (bv Relay) = Some Cb_Ss_Read" "be_writecb (bv Relay) = Some Cb_Ss_Write"
  shows "rs_state http_spec adds c cs"
proof -
  have "hs_phase http_spec ss_cbs bv said heard c cs" using assms by (simp add: hs_phase_def hs_exact_def hs_marks_def)
  then show ?thesis by (auto simp: rs_state_def handshaking_def)
qed

lemma http_headers_state:
  assumes base: "hs_base bv said heard c cs" and hs: "http_hs c said heard" and s: "rc_state c \<in> {httpc_request_sent, httpc_reply_came}"
    and cbs: "be_readcb (bv Relay) = Some Cb_Ss_Read" "be_writecb (bv Relay) = Some Cb_Ss_Write"
  shows "rs_outcome tot (rs_state http_spec adds) (httpc_headers os c cs)"
proof -
  note inv = hs_base_inv [OF base]
  note bev = rs_inv_bev [OF inv, of Relay]
  show ?thesis
  proof (cases "rc_state c = httpc_reply_came")
    case False
    then have "httpc_headers os c cs = Some (Some c, cs)"
      using s bev set_bev_same [OF inv, of Relay] by (simp add: httpc_headers_def)
    with http_state [OF base hs cbs] show ?thesis by simp
  next
    case True
    obtain skipped rest where sk: "skip_headers (be_input (bv Relay)) = (skipped, rest)" by force
    from skip_headers_lines [OF this] obtain h e where x: "be_input (bv Relay) = (h @ e) @ rest" and h: "http_lines (\<lambda>l. l \<noteq> []) h"
      and e: "if skipped then redsocks_evbuffer_readline e = Some ([], []) else e = []" by auto
    let ?r = "(bv Relay)\<lparr>be_input := rest\<rparr>"
    let ?bv = "bv(Relay := ?r)" and ?c = "set_bev Relay ?r c"
    have base': "hs_base ?bv said (heard @ h @ e) ?c cs" using hs_base_take [OF base x] .
    have rep: "http_request c said" "http_replied (heard @ h)" using hs True h http_replied_more by (auto simp: http_hs_def)
    show ?thesis
    proof (cases skipped)
      case False
      then have "httpc_headers os c cs = Some (Some ?c, cs)" using bev sk True by (simp add: httpc_headers_def)
      moreover have "rs_state http_spec adds ?c cs"
        by (rule http_state [OF base']) (use False e rep True cbs in \<open>simp_all add: http_hs_def\<close>)
      ultimately show ?thesis by simp
    next
      case skipped: True
      let ?c3 = "?c\<lparr>rc_state := httpc_headers_skipped\<rparr>"
      have f: "httpc_headers os c cs = redsocks_start_relay os ?c3 cs" using bev sk True skipped by (simp add: httpc_headers_def)
      have g: "hp_granted http_spec ?c3 said (heard @ h @ e)"
        unfolding http_spec_simps http_granted_def using rep e skipped
        by (intro conjI exI [of _ "heard @ h"] exI [of _ e]) simp_all
      have inv3: "rs_inv ?bv (hs_data said (heard @ h @ e)) ?c3 cs" using hs_base_inv [OF base'] by simp
      show ?thesis
      proof (rule start_relay_inv [OF inv3 g])
        show "hp_granted http_spec c' said (heard @ h @ e)" if "same_client ?c3 c'" for c'
          using g hs_stableD(2) [OF http_stable that] by simp
      next
        fix res
        assume "redsocks_start_relay os ?c3 cs = Some res" "rs_post (relaying http_spec adds) res"
        then show ?thesis unfolding f by (auto intro: rs_post_mono simp: rs_state_def)
      qed simp
    qed
  qed
qed

text \<open>A challenge: a new connection to the proxy server.\<close>

lemma http_reconnect:
  assumes os: "socket_contract os" and base: "hs_base bv said heard c cs" and sh: "\<not> rc_shut_rd c Relay"
  shows "rs_post (connecting http_spec) (redsocks_connect_relay os (c\<lparr>rc_auth := a, rc_state := httpc_new\<rparr>) (Be_Close (be_fd (bv Relay)) # cs))"
proof (rule connect_relay_connecting [OF os, of _ "bv Client"])
  note i = hs_base_inv [OF base, unfolded rs_inv_def]
  show "rc_bev (c\<lparr>rc_auth := a, rc_state := httpc_new\<rparr>) Client = Some (bv Client)" using i by simp
  show "idle_bev (bv Client)" using base by (simp add: hs_base_def)
  show "calls_ok (Be_Close (be_fd (bv Relay)) # cs)" using i by (simp add: rs_fds_def)
  show "is_open fd (Be_Close (be_fd (bv Relay)) # cs) \<longleftrightarrow> fd = be_fd (bv Client)" for fd using i by (auto simp: rs_fds_def)
  show "bytes_read (be_fd (bv Client)) (Be_Close (be_fd (bv Relay)) # cs) = be_input (bv Client)"
    "bytes_written (be_fd (bv Client)) (Be_Close (be_fd (bv Relay)) # cs) = []" "be_output (bv Client) = []"
    using i hs_bytesD [of bv said heard cs] by simp_all
  show "rs_shut_ok (c\<lparr>rc_auth := a, rc_state := httpc_new\<rparr>)" using i by (simp add: rs_shut_ok_def all_shut_def)
qed (use sh http_stable in \<open>simp_all add: http_hs_def\<close>)

lemma http_auth_required:
  assumes os: "socket_contract os" and base: "hs_base bv said heard c cs" and sh: "\<not> rc_shut_rd c Relay"
  obtains res where "httpc_auth_required os cfg c cs = Some res" "rs_post (rs_state http_spec adds) res"
proof -
  note inv = hs_base_inv [OF base]
  let ?new = "\<lambda>q. redsocks_connect_relay os (c\<lparr>rc_auth := \<lparr>last_auth_query = Some q, last_auth_count = 0\<rparr>, rc_state := httpc_new\<rparr>)
    (Be_Close (be_fd (bv Relay)) # cs)"
  have "rs_post (rs_state http_spec adds) (?new q)" for q
    by (rule rs_post_mono [OF http_reconnect [OF os base sh]]) (simp add: rs_state_def)
  moreover have "rs_post (rs_state http_spec adds) (redsocks_drop_client c cs)" using inv by simp
  moreover have "\<exists>q. httpc_auth_required os cfg c cs \<in> {Some (redsocks_drop_client c cs), Some (?new q)}"
    using rs_inv_bev [OF inv, of Relay] by (auto simp: httpc_auth_required_def Let_def split: option.split)
  ultimately show thesis using that by blast
qed

text \<open>A line of the response has been taken from the input: its status decides.\<close>

lemma http_status_line:
  assumes os: "socket_contract os" and base: "hs_base bv said heard c cs" and hs: "http_hs c said heard" "rc_state c = httpc_request_sent"
    and sh: "\<not> rc_shut_rd c Relay"
    and cbs: "be_readcb (bv Relay) = Some Cb_Ss_Read" "be_writecb (bv Relay) = Some Cb_Ss_Write"
    and l: "redsocks_evbuffer_readline (be_input (bv Relay)) = Some (line, rest)"
  obtains (finished) res where "httpc_status os cfg c cs = Some (Inl res)" "rs_post (rs_state http_spec adds) res"
  | (go_on) bv' heard' c' where "httpc_status os cfg c cs = Some (Inr c')" "hs_base bv' said heard' c' cs" "http_hs c' said heard'"
      "rc_state c' \<in> {httpc_request_sent, httpc_reply_came}" "be_readcb (bv' Relay) = Some Cb_Ss_Read" "be_writecb (bv' Relay) = Some Cb_Ss_Write"
proof -
  from readline_split [OF l] obtain x where x: "be_input (bv Relay) = x @ rest" "redsocks_evbuffer_readline x = Some (line, [])" by blast
  let ?r = "(bv Relay)\<lparr>be_input := rest\<rparr>"
  let ?bv = "bv(Relay := ?r)" and ?c = "set_bev Relay ?r c"
  note b = hs_base_take [OF base x(1)] and bev = rs_inv_bev [OF hs_base_inv [OF base], of Relay]
  have hs': "http_request ?c said" "http_lines (\<lambda>l. httpc_code l = None) heard" using hs by (simp_all add: http_hs_def)
  have st: "httpc_status os cfg c cs = (case httpc_code line of
            None \<Rightarrow> Some (Inr ?c)
          | Some code \<Rightarrow>
              if code = 407 then map_option Inl (httpc_auth_required os cfg ?c cs)
              else if 200 \<le> code \<and> code \<le> 299 then Some (Inr (?c\<lparr>rc_state := httpc_reply_came\<rparr>))
              else Some (Inl (redsocks_drop_client ?c cs)))"
    using bev l by (simp add: httpc_status_def Let_def)
  consider "httpc_code line = None" | "httpc_code line = Some 407"
    | code where "httpc_code line = Some code" "200 \<le> code" "code \<le> 299" "code \<noteq> 407"
    | code where "httpc_code line = Some code" "code \<noteq> 407" "\<not> (200 \<le> code \<and> code \<le> 299)" by fastforce
  then show thesis
  proof cases
    case 1
    with st hs' lines_more [OF hs'(2) x(2)] b hs(2) cbs show thesis by (intro go_on [OF _ b]) (simp_all add: http_hs_def)
  next
    case 2
    have "\<not> rc_shut_rd ?c Relay" using sh by simp
    from http_auth_required [OF os b this, of cfg adds] obtain res
      where "httpc_auth_required os cfg ?c cs = Some res" "rs_post (rs_state http_spec adds) res" .
    with 2 st show thesis by (intro finished [of res]) simp_all
  next
    case 3
    have "http_replied (heard @ x)"
      unfolding http_replied_def http_accepted_def using hs'(2) x(2) 3 lines_none [of "\<lambda>l. l \<noteq> []"]
      by (intro exI [of _ heard] exI [of _ x] exI [of _ "[]"]) auto
    with hs'(1) have "http_hs (?c\<lparr>rc_state := httpc_reply_came\<rparr>) said (heard @ x)" by (simp add: http_hs_def)
    moreover have "hs_base ?bv said (heard @ x) (?c\<lparr>rc_state := httpc_reply_came\<rparr>) cs" by (rule hs_base_fields(2) [OF b]) simp
    moreover have "httpc_status os cfg c cs = Some (Inr (?c\<lparr>rc_state := httpc_reply_came\<rparr>))" using st 3 by simp
    ultimately show thesis using cbs by (intro go_on [of "?c\<lparr>rc_state := httpc_reply_came\<rparr>" ?bv "heard @ x"]) simp_all
  next
    case 4
    with st hs_base_inv [OF b] show thesis by (intro finished [of "redsocks_drop_client ?c cs"]) simp_all
  qed
qed

lemma http_status_state:
  assumes os: "socket_contract os" and base: "hs_base bv said heard c cs" and hs: "http_hs c said heard" "rc_state c = httpc_request_sent"
    and sh: "\<not> rc_shut_rd c Relay"
    and cbs: "be_readcb (bv Relay) = Some Cb_Ss_Read" "be_writecb (bv Relay) = Some Cb_Ss_Write"
  obtains (finished) res where "httpc_status os cfg c cs = Some (Inl res)" "rs_post (rs_state http_spec adds) res"
  | (go_on) bv' heard' c' where "httpc_status os cfg c cs = Some (Inr c')" "hs_base bv' said heard' c' cs" "http_hs c' said heard'"
      "rc_state c' \<in> {httpc_request_sent, httpc_reply_came}" "be_readcb (bv' Relay) = Some Cb_Ss_Read" "be_writecb (bv' Relay) = Some Cb_Ss_Write"
proof -
  note inv = hs_base_inv [OF base]
  note bev = rs_inv_bev [OF inv, of Relay]
  show thesis
  proof (cases "redsocks_evbuffer_readline (be_input (bv Relay))")
    case None
    show thesis
    proof (cases "HTTP_HEAD_WM_HIGH \<le> length (be_input (bv Relay))")
      case True
      with None bev inv show thesis by (intro finished [of "redsocks_drop_client c cs"]) (simp_all add: httpc_status_def)
    next
      case False
      with None bev base hs cbs show thesis by (intro go_on [of c bv heard]) (simp_all add: httpc_status_def)
    qed
  next
    case (Some p)
    then obtain line rest where "redsocks_evbuffer_readline (be_input (bv Relay)) = Some (line, rest)" by (cases p) auto
    then show thesis by (rule http_status_line [OF os base hs sh cbs]) (rule finished, assumption+, rule go_on, assumption+)
  qed
qed

lemma http_readcb:
  assumes os: "be_os_ok os" and base: "hs_base bv said heard c cs" and hs: "http_hs c said heard"
    and cbs: "be_readcb (bv Relay) = Some Cb_Ss_Read" "be_writecb (bv Relay) = Some Cb_Ss_Write" and ev: "be_ev_read (bv Relay)"
  shows "rs_outcome tot (rs_state http_spec adds) (httpc_read_cb os cfg c cs)"
proof -
  define c1 cs1 where "c1 = c\<lparr>rc_last_event := bo_time os cs\<rparr>" and "cs1 = Be_Time # cs"
  have t: "redsocks_touch_client os c cs = (c1, cs1)" by (simp add: redsocks_touch_client_def c1_def cs1_def)
  have b1: "hs_base bv said heard c1 cs1" using hs_base_touch [OF base] by (simp add: c1_def cs1_def)
  have hs1: "http_hs c1 said heard" using hs by (simp add: http_hs_def c1_def)
  have s: "rc_state c1 = rc_state c" "rc_state c \<in> {httpc_request_sent, httpc_reply_came}" "\<not> rc_shut_rd c1 Relay"
    using base ev hs by (auto simp: hs_base_def http_hs_def c1_def split: if_splits)
  show ?thesis
  proof (cases "rc_state c = httpc_request_sent")
    case False
    with http_headers_state [OF b1 hs1 _ cbs] t s show ?thesis by (simp add: httpc_read_cb_def)
  next
    case True
    have sc: "socket_contract os" using os by (simp add: be_os_ok_def)
    have s1: "rc_state c1 = httpc_request_sent" using s True by simp
    show ?thesis
    proof (cases rule: http_status_state [OF sc b1 hs1 s1 s(3) cbs, of cfg adds])
      case (1 res)
      with t s1 True show ?thesis by (simp add: httpc_read_cb_def)
    next
      case (2 bv' heard' c')
      from http_headers_state [OF 2(2-6)] 2(1) t s1 True show ?thesis by (simp add: httpc_read_cb_def)
    qed
  qed
qed

lemma random_words_quiet: "quiet P cs (snd (random_words n os cs))"
proof (induction n arbitrary: cs)
  case (Suc n)
  have "quiet P cs (Be_Rand # cs)" by simp
  from quiet_trans [OF Suc this] show ?case by (simp add: case_prod_unfold Let_def)
qed simp

lemma httpc_auth_string_quiet:
  assumes "httpc_auth_string os cfg c auth cs = Some (s, cs')"
  shows "quiet P cs cs'"
  using assms random_words_quiet [of P cs 4 os]
  by (auto simp: httpc_auth_string_def Let_def case_prod_unfold bind_eq_Some_conv split: option.splits if_splits)

lemma httpc_mkconnect_request:
  assumes "httpc_mkconnect os cfg c cs = Some (buff, c', cs')"
  shows "http_request c buff" "\<exists>a. c' = c\<lparr>rc_auth := a\<rparr>" "quiet P cs cs'"
proof -
  let ?auth = "(rc_auth c)\<lparr>last_auth_count := last_auth_count (rc_auth c) + 1\<rparr>"
  obtain s where s: "httpc_auth_string os cfg c ?auth cs = Some (s, cs')"
    and buff: "buff = c_bytes (''CONNECT '' @ dest_text c @ '' HTTP/1.0'' @ crlf @ (case s of
            None \<Rightarrow> [] | Some (scheme, s) \<Rightarrow> auth_response_header @ '' '' @ scheme @ '' '' @ s @ crlf) @ crlf)"
    and c': "c' = c\<lparr>rc_auth := ?auth\<rparr>"
    using assms unfolding httpc_mkconnect_def by (auto simp: bind_eq_Some_conv Let_def)
  show "quiet P cs cs'" using s by (rule httpc_auth_string_quiet)
  show "\<exists>a. c' = c\<lparr>rc_auth := a\<rparr>" using c' by blast
  show "http_request c buff"
    unfolding http_request_def
  proof (intro exI conjI)
    show "(case s of None \<Rightarrow> [] | Some (scheme, s) \<Rightarrow> auth_response_header @ '' '' @ (scheme @ '' '' @ s) @ crlf) = [] \<or>
      (\<exists>t. (case s of None \<Rightarrow> [] | Some (scheme, s) \<Rightarrow> auth_response_header @ '' '' @ (scheme @ '' '' @ s) @ crlf) = auth_response_header @ '' '' @ t @ crlf)"
      by (cases s) auto
  qed (simp add: buff split: option.split)
qed

lemma http_writecb:
  assumes ph: "hs_phase http_spec ss_cbs bv said heard c cs"
  shows "rs_outcome False (rs_state http_spec adds) (httpc_write_cb os cfg c cs)"
proof -
  define c1 cs1 where "c1 = c\<lparr>rc_last_event := bo_time os cs\<rparr>" and "cs1 = Be_Time # cs"
  have t: "redsocks_touch_client os c cs = (c1, cs1)" by (simp add: redsocks_touch_client_def c1_def cs1_def)
  have hs: "http_hs c said heard" and base: "hs_base bv said heard c cs"
    and cbs: "be_readcb (bv Relay) = Some Cb_Ss_Read" "be_writecb (bv Relay) = Some Cb_Ss_Write" using ph by (simp_all add: hs_phase_def)
  have b1: "hs_base bv said heard c1 cs1" using hs_base_touch [OF base] by (simp add: c1_def cs1_def)
  note bev = rs_inv_bev [OF hs_base_inv [OF b1], of Relay]
  show ?thesis
  proof (cases "rc_state c = httpc_new")
    case False
    let ?r = "bufferevent_disable False True (bv Relay)"
    let ?bv = "bv(Relay := ?r)" and ?c = "set_bev Relay ?r c1"
    have "rs_inv ?bv (hs_data said heard) ?c cs1" by (rule rs_inv_quiet [OF hs_base_inv [OF b1]]) auto
    then have "hs_base ?bv said heard ?c cs1"
      using b1 same_io_disable [of "bv Relay" False True] by (auto simp: hs_base_def same_io_def)
    then have "rs_state http_spec adds ?c cs1"
      by (rule http_state) (use hs cbs same_io_disable [of "bv Relay" False True] in \<open>simp_all add: http_hs_def same_io_def c1_def\<close>)
    with False t bev show ?thesis by (simp add: httpc_write_cb_def c1_def)
  next
    case True
    show ?thesis
    proof (cases "httpc_mkconnect os cfg c1 cs1")
      case None
      with True t show ?thesis by (simp add: httpc_write_cb_def c1_def rs_outcome_def)
    next
      case (Some p)
      obtain buff c2 cs2 where m: "httpc_mkconnect os cfg c1 cs1 = Some (buff, c2, cs2)" using Some by (cases p) auto
      from httpc_mkconnect_request(2) [OF m] obtain a where c2: "c2 = c1\<lparr>rc_auth := a\<rparr>" by blast
      have sh: "\<not> rc_shut_rd c Relay" "said = []" "heard = []" using base hs True by (auto simp: hs_base_def http_hs_def)
      have inv: "rs_inv bv (hs_data said heard) c2 cs2"
        using rs_inv_calls [OF hs_base_inv [OF b1] httpc_mkconnect_request(3) [OF m]] by (simp add: c2)
      show ?thesis
      proof (rule write_helper_ex_inv [OF inv, of os "Some buff" httpc_request_sent 1 HTTP_HEAD_WM_HIGH])
        fix r cs'
        let ?c = "set_bev Relay r (c2\<lparr>rc_state := httpc_request_sent\<rparr>)"
        assume w: "redsocks_write_helper_ex os (Some buff) httpc_request_sent 1 HTTP_HEAD_WM_HIGH c2 cs2 = Some (Some ?c, cs')"
          "rs_inv (bv(Relay := r)) (hs_data (said @ (case Some buff of None \<Rightarrow> [] | Some m \<Rightarrow> m)) heard) ?c cs'"
          "be_write_low r = be_write_low (bv Relay)" "be_readcb r = be_readcb (bv Relay)" "be_writecb r = be_writecb (bv Relay)"
        have "hs_base (bv(Relay := r)) buff [] ?c cs'" using w b1 sh by (auto simp: hs_base_def c2 c1_def)
        moreover have "http_hs ?c buff []" using httpc_mkconnect_request(1) [OF m] lines_none by (simp add: http_hs_def c2 c1_def)
        ultimately have "rs_state http_spec adds ?c cs'" by (rule http_state) (use w cbs in simp_all)
        with w(1) m True t show ?thesis by (simp add: httpc_write_cb_def c1_def)
      qed
    qed
  qed
qed

interpretation hc: relay_subsystem http_connect_subsys cfg http_spec for cfg
proof (unfold_locales, goal_cases)
  case 1
  show ?case by (rule http_stable)
next
  case (2 c)
  show ?case by (simp add: http_connect_subsys_def httpc_client_init_def http_hs_def)
next
  case (3 os bv said heard c cs)
  from http_writecb [OF 3(2)] show ?case by (simp add: http_connect_subsys_def)
next
  case (4 os bv said heard c cs)
  then have "http_hs c said heard" by simp
  from http_readcb [OF 4(1,2) this 4(5-7)] show ?case by (simp add: http_connect_subsys_def)
qed (simp add: http_connect_subsys_def)

section \<open>Where the behaviour is defined\<close>

text \<open>
  The state of the authentication with which a request can be made: credentials when there is a
  challenge, and a digest challenge is more than the word.
\<close>

definition http_auth_safe :: "redsocks_config \<Rightarrow> http_auth \<Rightarrow> bool" where
  "http_auth_safe cfg auth \<longleftrightarrow> (case last_auth_query auth of None \<Rightarrow> True
     | Some q \<Rightarrow> rcfg_login cfg \<noteq> None \<and> rcfg_password cfg \<noteq> None \<and> (strncaseeq q ''Digest'' 6 \<longrightarrow> 7 \<le> length q))"

lemma not_basic: "strncaseeq q ''Digest'' 6 \<Longrightarrow> \<not> strncaseeq q ''Basic'' 5"
proof (cases q)
  case (Cons a t)
  have "tolower (CHR ''D'') \<noteq> tolower (CHR ''B'')" by code_simp
  then show "strncaseeq q ''Digest'' 6 \<Longrightarrow> \<not> strncaseeq q ''Basic'' 5" using Cons by (simp add: numeral_eq_Suc)
qed (simp add: numeral_eq_Suc)

lemma digest_encode_defined: "digest_authentication_encode line user passwd method path count cnonce buf \<noteq> None"
  by (simp add: digest_authentication_encode_def Let_def case_prod_unfold split: option.split)
    (use digest_text_fits in simp)

lemma httpc_auth_string_defined:
  assumes "http_auth_safe cfg auth"
  shows "httpc_auth_string os cfg c auth cs \<noteq> None"
  using assms
  by (auto simp: digest_encode_defined httpc_auth_string_def http_auth_safe_def Let_def case_prod_unfold split: option.splits bind_splits)

lemma httpc_mkconnect_defined:
  assumes "http_auth_safe cfg (rc_auth c)"
  shows "httpc_mkconnect os cfg c cs \<noteq> None"
proof -
  have "http_auth_safe cfg ((rc_auth c)\<lparr>last_auth_count := n\<rparr>)" for n using assms by (simp add: http_auth_safe_def)
  from httpc_auth_string_defined [OF this] show ?thesis by (auto simp: httpc_mkconnect_def Let_def split: bind_splits)
qed

lemma httpc_write_cb_defined:
  assumes "http_auth_safe cfg (rc_auth c)" "hs_phase http_spec ss_cbs bv said heard c cs"
  shows "httpc_write_cb os cfg c cs \<noteq> None"
proof -
  have "rc_bev c Relay \<noteq> None" using rs_inv_bev [OF hs_phase_inv [OF assms(2)], of Relay] by simp
  moreover obtain buff c' cs' where "httpc_mkconnect os cfg (c\<lparr>rc_last_event := bo_time os cs\<rparr>) (Be_Time # cs) = Some (buff, c', cs')"
    "rc_bev c' = rc_bev c"
    using httpc_mkconnect_defined [of cfg "c\<lparr>rc_last_event := bo_time os cs\<rparr>" os "Be_Time # cs"] assms(1)
      httpc_mkconnect_request(2) [of os cfg "c\<lparr>rc_last_event := bo_time os cs\<rparr>" "Be_Time # cs"] by fastforce
  ultimately show ?thesis
    by (auto simp: httpc_write_cb_def redsocks_touch_client_def redsocks_write_helper_ex_def Let_def case_prod_unfold split: bind_splits)
qed

text \<open>
  A subsystem that makes no request when it could not be made. It has no undefined behaviour, and as long
  as the request can be made it does what the code does.
\<close>

definition http_guarded_subsys :: relay_subsys where
  "http_guarded_subsys = \<lparr>ss_readcb = httpc_read_cb,
     ss_writecb = (\<lambda>os cfg c cs. if http_auth_safe cfg (rc_auth c) then httpc_write_cb os cfg c cs else Some (redsocks_drop_client c cs)),
     ss_clientcb = None, ss_init = httpc_client_init, ss_connect_relay = None\<rparr>"

lemma http_spec_total [simp]:
  "hs_stable (http_spec\<lparr>hp_total := True\<rparr>)" "hs_phase (http_spec\<lparr>hp_total := t\<rparr>) = hs_phase http_spec"
  "rs_state (http_spec\<lparr>hp_total := t\<rparr>) = rs_state http_spec"
  using http_stable
  by (simp_all add: hs_stable_def fun_eq_iff hs_phase_def hs_exact_def hs_marks_def rs_state_def connecting_def handshaking_def relaying_def)

interpretation hg: relay_subsystem http_guarded_subsys cfg "http_spec\<lparr>hp_total := True\<rparr>" for cfg
proof (unfold_locales, goal_cases)
  case 1
  show ?case by simp
next
  case (2 c)
  show ?case by (simp add: http_guarded_subsys_def httpc_client_init_def http_hs_def)
next
  case (3 os bv said heard c cs)
  then have ph: "hs_phase http_spec ss_cbs bv said heard c cs" by simp
  note http_writecb [OF ph, of "os_adds os" os cfg] httpc_write_cb_defined [OF _ ph, of cfg os]
  moreover have "rs_post Q (redsocks_drop_client c cs)" for Q using hs_phase_inv [OF ph] by simp
  ultimately show ?case by (auto simp: http_guarded_subsys_def rs_outcome_def)
next
  case (4 os bv said heard c cs)
  then have "http_hs c said heard" by simp
  from http_readcb [OF 4(1,2) this 4(5-7)] show ?case by (simp add: http_guarded_subsys_def)
qed (simp add: http_guarded_subsys_def)

lemma http_guarded_fire:
  assumes "http_auth_safe cfg (rc_auth c)"
  shows "rs_fire os http_guarded_subsys cfg s e c cs = rs_fire os http_connect_subsys cfg s e c cs"
proof -
  have "run_cb os http_guarded_subsys cfg cb c' cs' = run_cb os http_connect_subsys cfg cb c' cs'" if "rc_auth c' = rc_auth c" for cb c' cs'
    using that assms
    by (cases cb) (auto simp: http_guarded_subsys_def http_connect_subsys_def redsocks_relay_connected_def redsocks_touch_client_def
        red_is_socket_connected_ok_def intro!: Option.bind_cong)
  then show ?thesis
    by (auto simp: rs_fire_def run_cb_option_def Let_def case_prod_unfold intro!: Option.bind_cong split: be_run.split option.split)
qed

end
