(* ===== verification/Redsocks_Runs.thy ===== *)
theory Redsocks_Runs
  imports Socks_Props Http_Props
begin

text \<open>
  What the contract of a relay subsystem gives for the runs of a client: well-formedness, the streams of
  bytes, progress of the response, and what is kept from some moment on. Proved once in the locale
  \<open>relay_subsystem\<close>; the last section has runs that can be evaluated.
\<close>

section \<open>Consequences of the invariant\<close>

text \<open>The two sockets of a client, their descriptors, the shut down directions and the callbacks.\<close>

definition rs_wf :: "redsocks_client \<Rightarrow> be_calls \<Rightarrow> bool" where
  "rs_wf c cs \<longleftrightarrow> (\<exists>b r. rc_bev c Client = Some b \<and> rc_bev c Relay = Some r \<and> be_fd b \<noteq> be_fd r \<and>
     (\<forall>fd. is_open fd cs \<longleftrightarrow> fd = be_fd b \<or> fd = be_fd r) \<and>
     \<not> all_shut c \<and> (\<forall>s. rc_shut_wr c s \<longrightarrow> rc_shut_rd c (other_side s)) \<and>
     ((be_readcb b, be_writecb b, be_readcb r, be_writecb r) \<in>
       {(None, None, None, Some Cb_Connected), (None, None, Some Cb_Ss_Read, Some Cb_Ss_Write),
        (Some (Cb_Relay_Read Client), Some (Cb_Relay_Write Client), Some (Cb_Relay_Read Relay), Some (Cb_Relay_Write Relay))}))"

lemma rs_inv_wf:
  assumes "rs_inv bv d c cs" "(be_readcb (bv Client), be_writecb (bv Client), be_readcb (bv Relay), be_writecb (bv Relay)) \<in>
       {(None, None, None, Some Cb_Connected), (None, None, Some Cb_Ss_Read, Some Cb_Ss_Write),
        (Some (Cb_Relay_Read Client), Some (Cb_Relay_Write Client), Some (Cb_Relay_Read Relay), Some (Cb_Relay_Write Relay))}"
  shows "rs_wf c cs" "calls_ok cs"
  using assms unfolding rs_wf_def rs_inv_def rs_fds_def rs_shut_ok_def by auto

lemma rs_state_wf:
  assumes "rs_state sp adds c cs"
  shows "rs_wf c cs" "calls_ok cs"
proof -
  from assms obtain bv d where "rs_inv bv d c cs"
    "(be_readcb (bv Client), be_writecb (bv Client), be_readcb (bv Relay), be_writecb (bv Relay)) \<in>
       {(None, None, None, Some Cb_Connected), (None, None, Some Cb_Ss_Read, Some Cb_Ss_Write),
        (Some (Cb_Relay_Read Client), Some (Cb_Relay_Write Client), Some (Cb_Relay_Read Relay), Some (Cb_Relay_Write Relay))}"
    unfolding rs_state_def connecting_def handshaking_def relaying_def hs_phase_def hs_base_def idle_bev_def relay_shape_def
    by auto
  then show "rs_wf c cs" "calls_ok cs" by (rule rs_inv_wf)+
qed

text \<open>Where the bytes of both directions are.\<close>

definition hs_streams :: "hs_spec \<Rightarrow> rs_bev \<Rightarrow> rs_bev \<Rightarrow> redsocks_client \<Rightarrow> be_calls \<Rightarrow> bool" where
  "hs_streams sp b r c cs \<longleftrightarrow> (\<exists>said heard. hp_hs sp c said heard \<and>
     bytes_written (be_fd b) cs = [] \<and> bytes_read (be_fd b) cs = be_input b \<and>
     bytes_written (be_fd r) cs @ be_output r = said \<and> bytes_read (be_fd r) cs = heard @ be_input r)"

definition relay_streams :: "hs_spec \<Rightarrow> rs_bev \<Rightarrow> rs_bev \<Rightarrow> redsocks_client \<Rightarrow> be_calls \<Rightarrow> bool" where
  "relay_streams sp b r c cs \<longleftrightarrow> (\<exists>said heard. hp_granted sp c said heard \<and>
     bytes_written (be_fd r) cs @ be_output r @ be_input b = said @ bytes_read (be_fd b) cs \<and>
     bytes_read (be_fd r) cs = heard @ bytes_written (be_fd b) cs @ be_output b @ be_input r)"

lemma rs_state_streams:
  assumes "rs_state sp adds c cs" "rc_bev c Client = Some b" "rc_bev c Relay = Some r"
  shows "if be_readcb b = None then hs_streams sp b r c cs else relay_streams sp b r c cs"
proof -
  have hs: ?thesis if ph: "hs_phase sp cbs bv said heard c cs" for cbs bv said heard
  proof -
    have inv: "rs_bytes bv (hs_data said heard) cs" and bv: "b = bv Client" "r = bv Relay" "be_readcb (bv Client) = None"
      using ph assms(2,3) by (auto simp: hs_phase_def hs_base_def rs_inv_def idle_bev_def)
    have "hs_streams sp b r c cs"
      unfolding hs_streams_def using hs_bytesD [OF inv] ph by (auto simp: bv hs_phase_def)
    then show ?thesis using bv by simp
  qed
  have ?thesis if "relaying sp adds c cs"
  proof -
    from that obtain bv d said heard where i: "rs_inv bv d c cs" and sh: "relay_shape bv"
      and dl: "same_dialogue (hs_data said heard) d" and g: "hp_granted sp c said heard"
      unfolding relaying_def by blast
    have bv: "b = bv Client" "r = bv Relay" "be_readcb (bv Client) \<noteq> None"
      using i sh assms(2,3) by (auto simp: rs_inv_def relay_shape_def)
    have "bytes_read (be_fd (bv s)) cs = rd_pre (d s) @ rd_moved (d s) @ be_input (bv s) \<and>
      bytes_written (be_fd (bv s)) cs @ be_output (bv s) = rd_msg (d s) @ rd_moved (d (other_side s))" for s
      using i by (simp add: rs_inv_def rs_bytes_def)
    from this [of Client] this [of Relay] have "relay_streams sp b r c cs"
      unfolding relay_streams_def bv using g dl
      by (intro exI [of _ said] exI [of _ heard]) (simp add: same_dialogue_def all_sides flip: append_assoc)
    then show ?thesis using bv by auto
  qed
  with assms(1) hs show ?thesis by (auto simp: rs_state_def connecting_def handshaking_def)
qed

text \<open>The response direction of an exact handshake.\<close>

lemma rs_state_response:
  assumes "rs_state sp adds c cs" "hp_exact sp" "rc_bev c Client = Some b" "rc_bev c Relay = Some r" "be_readcb b \<noteq> None"
  shows "rc_shut_wr c Client \<Longrightarrow> be_output b = [] \<and> be_input r = [] \<and> rc_shut_rd c Relay"
    "adds \<Longrightarrow> \<not> rc_shut_wr c Client \<Longrightarrow> be_ev_read r \<or> be_ev_write b"
    "adds \<Longrightarrow> \<not> rc_shut_wr c Client \<Longrightarrow> be_output b \<noteq> [] \<or> be_input r \<noteq> [] \<or> rc_shut_rd c Relay \<Longrightarrow> be_ev_write b"
proof -
  have "relaying sp adds c cs"
    using assms(1,3,5) by (auto simp: rs_state_def connecting_def handshaking_def hs_phase_def hs_base_def idle_bev_def rs_inv_def)
  then obtain bv d where "rs_inv bv d c cs" "dir_ok (dir_of bv c Relay)" "adds \<longrightarrow> dir_live (dir_of bv c Relay)"
    using assms(2) unfolding relaying_def by blast
  then have bv: "b = bv Client" "r = bv Relay" and D: "dir_ok (dir_of bv c Relay)" "adds \<longrightarrow> dir_live (dir_of bv c Relay)"
    using assms(3,4) by (auto simp: rs_inv_def)
  show "rc_shut_wr c Client \<Longrightarrow> be_output b = [] \<and> be_input r = [] \<and> rc_shut_rd c Relay"
    "adds \<Longrightarrow> \<not> rc_shut_wr c Client \<Longrightarrow> be_ev_read r \<or> be_ev_write b"
    "adds \<Longrightarrow> \<not> rc_shut_wr c Client \<Longrightarrow> be_output b \<noteq> [] \<or> be_input r \<noteq> [] \<or> rc_shut_rd c Relay \<Longrightarrow> be_ev_write b"
    using D by (auto simp: bv dir_ok_def dir_live_def dir_of_def)
qed

text \<open>A client that closes its side before the proxy server is connected.\<close>

lemma connecting_eof:
  assumes "connecting sp c cs" "rc_bev c Client = Some b" "be_ev_read b" "bo_read os cs (be_fd b) MAX_TO_READ_EVER = Rd_Data []"
  shows "\<exists>c' cs'. rs_fire os ss cfg Client Readable c cs = Some (Some c', cs') \<and> (\<forall>s e. \<not> rs_pending s e c') \<and>
    (\<forall>fd. is_open fd cs' \<longleftrightarrow> is_open fd cs)"
proof -
  from assms(1) obtain bv where ph: "hs_phase sp (None, Some Cb_Connected) bv [] [] c cs" and s0: "rc_state c = 0"
    by (auto simp: connecting_def)
  have bv: "rc_bev c = (\<lambda>s. Some (bv s))" "b = bv Client" using ph assms(2) by (auto simp: hs_phase_def hs_base_def rs_inv_def)
  have b: "idle_bev b" "\<not> be_ev_read (bv Relay)" "\<not> rc_shut_rd c Relay"
    using ph s0 bv(2) by (auto simp: hs_phase_def hs_base_def)
  have out: "be_output (bv Relay) = []" using hs_bytesD(5) [of bv "[]" "[]" cs] ph by (simp add: hs_phase_def hs_base_def rs_inv_def)
  let ?cs = "Be_Read (be_fd b) MAX_TO_READ_EVER (Rd_Data []) # cs" and ?b = "bufferevent_disable True False b"
  have r: "bufferevent_readcb os b cs = (Run_Eventcb Reading_Eof, ?b, ?cs)"
    using assms(4) b(1) by (simp add: bufferevent_readcb_def idle_bev_def)
  have "rs_fire os ss cfg Client Readable c cs = redsocks_event_error os Client Reading_Eof (set_bev Client ?b c) ?cs"
    using r bv by (simp add: rs_fire_def)
  moreover have "\<exists>c' cs'. redsocks_event_error os Client Reading_Eof (set_bev Client ?b c) ?cs = Some (Some c', cs') \<and>
    (\<forall>s e. \<not> rs_pending s e c') \<and> (\<forall>fd. is_open fd cs' \<longleftrightarrow> is_open fd cs)"
    using b out bv
    by (simp add: redsocks_event_error_def redsocks_touch_client_def redsocks_shutdown_def all_shut_def all_sides rs_pending_def
        idle_bev_def split: rs_event.split)
  ultimately show ?thesis by simp
qed

text \<open>The states that follow a state of a client.\<close>

inductive rs_later :: "be_os \<Rightarrow> relay_subsys \<Rightarrow> redsocks_config \<Rightarrow> redsocks_client \<Rightarrow> be_calls \<Rightarrow> redsocks_client \<Rightarrow> be_calls \<Rightarrow> bool"
  for os ss cfg c cs where
  later_now: "rs_later os ss cfg c cs c cs"
| later_event: "rs_later os ss cfg c cs c1 cs1 \<Longrightarrow> rs_pending s e c1 \<Longrightarrow> rs_fire os ss cfg s e c1 cs1 = Some (Some c2, cs2) \<Longrightarrow>
    rs_later os ss cfg c cs c2 cs2"
| later_others: "rs_later os ss cfg c cs c1 cs1 \<Longrightarrow> rs_later os ss cfg c cs (c1\<lparr>rc_auth := auth\<rparr>) cs1"

text \<open>
  What is kept over the run of a relaying client: a statement about its two directions and what was read
  and written that no step of a direction changes.
\<close>

type_synonym relay_pred = "(rs_side \<Rightarrow> rs_dir) \<Rightarrow> (rs_side \<Rightarrow> bytes) \<Rightarrow> (rs_side \<Rightarrow> bytes) \<Rightarrow> bool"

definition step_keeps :: "relay_pred \<Rightarrow> bool" where
  "step_keeps P \<longleftrightarrow> (\<forall>ok s D D' i w rd wr. P D rd wr \<longrightarrow> dir_step ok (D s) i w (D' s) \<longrightarrow> D' (other_side s) = D (other_side s) \<longrightarrow>
     P D' (rd(s := rd s @ i)) (wr(other_side s := wr (other_side s) @ w)))"

definition relay_holds :: "relay_pred \<Rightarrow> (rs_side \<Rightarrow> int) \<Rightarrow> redsocks_client \<Rightarrow> be_calls \<Rightarrow> bool" where
  "relay_holds P fd c cs \<longleftrightarrow> (\<exists>bv d. rs_inv bv d c cs \<and> relay_shape bv \<and> (\<forall>s. be_fd (bv s) = fd s) \<and>
     P (dir_of bv c) (\<lambda>s. bytes_read (fd s) cs) (\<lambda>s. bytes_written (fd s) cs))"

lemma relay_holds_step:
  assumes P: "step_keeps P" and st: "relay_step ok s bv d c cs c' cs'" and fd: "\<And>s. be_fd (bv s) = fd s"
    and p: "P (dir_of bv c) (\<lambda>s. bytes_read (fd s) cs) (\<lambda>s. bytes_written (fd s) cs)"
  shows "relay_holds P fd c' cs'"
proof -
  let ?o = "other_side s"
  obtain bv' d' i w where n: "rs_inv bv' d' c' cs'" "relay_shape bv'" "\<forall>t. be_fd (bv' t) = be_fd (bv t)"
    and D: "dir_step ok (dir_of bv c s) i w (dir_of bv' c' s)" "dir_of bv' c' ?o = dir_of bv c ?o"
    and rw: "bytes_read (fd s) cs' = bytes_read (fd s) cs @ i" "bytes_written (fd ?o) cs' = bytes_written (fd ?o) cs @ w"
      "bytes_read (fd ?o) cs' = bytes_read (fd ?o) cs" "bytes_written (fd s) cs' = bytes_written (fd s) cs"
    using st unfolding relay_step_def fd by blast
  have "(\<lambda>t. bytes_read (fd t) cs') = (\<lambda>t. bytes_read (fd t) cs)(s := bytes_read (fd s) cs @ i)"
    "(\<lambda>t. bytes_written (fd t) cs') = (\<lambda>t. bytes_written (fd t) cs)(?o := bytes_written (fd ?o) cs @ w)"
    using rw by (auto simp: fun_eq_iff other_side_iff)
  then have "P (dir_of bv' c') (\<lambda>s. bytes_read (fd s) cs') (\<lambda>s. bytes_written (fd s) cs')"
    using P [unfolded step_keeps_def, rule_format, OF p D] by simp
  with n fd show ?thesis unfolding relay_holds_def by auto
qed

lemma relay_holds_fire:
  assumes P: "step_keeps P" and h: "relay_holds P fd c cs" and pe: "rs_pending s e c" and f: "rs_fire os ss cfg s e c cs = Some (Some c', cs')"
  shows "relay_holds P fd c' cs'"
proof -
  obtain bv d where i: "rs_inv bv d c cs" "relay_shape bv" and fd: "\<And>s. be_fd (bv s) = fd s"
    and p: "P (dir_of bv c) (\<lambda>s. bytes_read (fd s) cs) (\<lambda>s. bytes_written (fd s) cs)"
    using h unfolding relay_holds_def by blast
  note step = relay_holds_step [OF P _ fd p]
  show ?thesis
  proof (cases e)
    case Readable
    with pe rs_inv_bev [OF i(1), of s] have "be_ev_read (bv s)" by (simp add: rs_pending_def)
    from fire_readable [OF i this, of os ss cfg] f Readable step show ?thesis by (metis option.inject rs_post_simps(1))
  next
    case Writable
    with pe rs_inv_bev [OF i(1), of s] have "be_ev_write (bv s)" by (simp add: rs_pending_def)
    from fire_writable [OF i this, of os ss cfg] f Writable step show ?thesis by (metis option.inject rs_post_simps(1))
  qed
qed

lemma relay_holds_later:
  "rs_later os ss cfg c cs c' cs' \<Longrightarrow> step_keeps P \<Longrightarrow> relay_holds P fd c cs \<Longrightarrow> relay_holds P fd c' cs'"
proof (induction rule: rs_later.induct)
  case (later_event c1 cs1 s e c2 cs2)
  then show ?case by (blast intro: relay_holds_fire)
next
  case (later_others c1 cs1 auth)
  have "dir_of bv (c1\<lparr>rc_auth := auth\<rparr>) = dir_of bv c1" for bv by (simp add: dir_of_def fun_eq_iff)
  with later_others show ?case by (simp add: relay_holds_def)
qed

text \<open>A direction whose reading was suspended never reads again.\<close>

definition dir_stalled :: "bytes \<Rightarrow> relay_pred" where
  "dir_stalled bs D rd wr \<longleftrightarrow> di_suspended (D Client) \<and> \<not> di_reading (D Client) \<and> rd Client = bs"

lemma dir_step_stalled:
  "dir_step ok D i w D' \<Longrightarrow> di_suspended D \<Longrightarrow> \<not> di_reading D \<Longrightarrow> di_suspended D' \<and> \<not> di_reading D' \<and> i = []"
  by (induction rule: dir_step.induct) (auto simp: dir_push_def)

lemma stalled_kept: "step_keeps (dir_stalled bs)"
  unfolding step_keeps_def dir_stalled_def
proof (intro allI impI)
  fix ok s D D' i w rd wr
  assume "di_suspended (D Client) \<and> \<not> di_reading (D Client) \<and> rd Client = bs" "dir_step ok (D s) i w (D' s)" "D' (other_side s) = D (other_side s)"
  then show "di_suspended (D' Client) \<and> \<not> di_reading (D' Client) \<and> (rd(s := rd s @ i)) Client = bs"
    using dir_step_stalled [of ok "D s" i w "D' s"] by (cases s) auto
qed

text \<open>A direction that neither reads nor writes stays as it is.\<close>

definition dir_dead :: "bytes \<Rightarrow> relay_pred" where
  "dir_dead bs D rd wr \<longleftrightarrow> \<not> di_reading (D Relay) \<and> \<not> di_writing (D Relay) \<and> wr Client = bs"

lemma dir_step_dead: "dir_step ok D i w D' \<Longrightarrow> \<not> di_reading D \<Longrightarrow> \<not> di_writing D \<Longrightarrow> D' = D \<and> w = []"
  by (induction rule: dir_step.induct) auto

lemma dead_kept: "step_keeps (dir_dead bs)"
  unfolding step_keeps_def dir_dead_def
proof (intro allI impI)
  fix ok s D D' i w rd wr
  assume "\<not> di_reading (D Relay) \<and> \<not> di_writing (D Relay) \<and> wr Client = bs" "dir_step ok (D s) i w (D' s)" "D' (other_side s) = D (other_side s)"
  then show "\<not> di_reading (D' Relay) \<and> \<not> di_writing (D' Relay) \<and> (wr(other_side s := wr (other_side s) @ w)) Client = bs"
    using dir_step_dead [of ok "D s" i w "D' s"] by (cases s) auto
qed

lemma relaying_stalls:
  assumes "relaying sp adds c cs" "rc_bev c Client = Some b" "\<not> be_read_suspended b" "REDSOCKS_RELAY_HALFBUFF \<le> length (be_input b)"
    "rs_fire os ss cfg Client Readable c cs = Some (Some c', cs')"
  obtains fd where "fd Client = be_fd b" "relay_holds (dir_stalled (bytes_read (be_fd b) cs)) fd c' cs'"
proof -
  obtain bv d where i: "rs_inv bv d c cs" "relay_shape bv" using assms(1) unfolding relaying_def by blast
  have b: "b = bv Client" "be_read_high b = REDSOCKS_RELAY_HALFBUFF" using i assms(2) by (auto simp: rs_inv_def relay_shape_def)
  let ?b = "bufferevent_suspend_read b"
  have "bufferevent_readcb os b cs = (Run_Nothing, ?b, cs)"
    using b assms(4) by (simp add: bufferevent_readcb_def REDSOCKS_RELAY_HALFBUFF_def)
  then have c: "c' = set_bev Client ?b c" "cs' = cs" using assms(2,5) by (simp_all add: rs_fire_def)
  have "rs_inv (bv(Client := ?b)) d c' cs'" unfolding c by (rule rs_inv_quiet [OF i(1)]) (simp_all add: b)
  moreover have "relay_shape (bv(Client := ?b))" by (rule relay_shape_same_io [OF i(2)]) (simp add: b)
  moreover have "di_suspended (dir_of (bv(Client := ?b)) c' Client)" "\<not> di_reading (dir_of (bv(Client := ?b)) c' Client)"
    using assms(3) by (simp_all add: dir_of_def bufferevent_suspend_read_def be_socket_disable_def)
  moreover have "be_fd ?b = be_fd b" using same_io_suspend [of b] by (simp add: same_io_def)
  ultimately have "relay_holds (dir_stalled (bytes_read (be_fd b) cs)) (\<lambda>s. be_fd (bv s)) c' cs'"
    unfolding relay_holds_def dir_stalled_def by (intro exI [of _ "bv(Client := ?b)"] exI [of _ d]) (simp add: b c)
  then show thesis using that [of "\<lambda>s. be_fd (bv s)"] by (simp add: b)
qed

text \<open>The end of the server's stream when nothing waits to be written and something to be moved.\<close>

lemma relaying_loses:
  assumes "relaying sp adds c cs" "rc_bev c Client = Some b" "rc_bev c Relay = Some r"
    and r: "be_ev_read r" "\<not> be_read_suspended r" "length (be_input r) < REDSOCKS_RELAY_HALFBUFF" and b: "be_output b = []"
    and eof: "bo_read os cs (be_fd r) (REDSOCKS_RELAY_HALFBUFF - length (be_input r)) = Rd_Data []"
    and f: "rs_fire os ss cfg Relay Readable c cs = Some (Some c', cs')"
  obtains fd where "fd Client = be_fd b" "relay_holds (dir_dead (bytes_written (be_fd b) cs)) fd c' cs'"
proof -
  obtain bv d where i: "rs_inv bv d c cs" "relay_shape bv" using assms(1) unfolding relaying_def by blast
  have bv: "b = bv Client" "r = bv Relay" "be_read_high r = REDSOCKS_RELAY_HALFBUFF" using i assms(2,3) by (auto simp: rs_inv_def relay_shape_def)
  let ?r = "bufferevent_disable True False r" and ?n = "REDSOCKS_RELAY_HALFBUFF - length (be_input r)"
  let ?cs = "Be_Read (be_fd r) ?n (Rd_Data []) # cs" and ?bv = "bv(Relay := bufferevent_disable True False r)" and ?c = "set_bev Relay ?r c"
  have "bufferevent_readcb os r cs = (Run_Eventcb Reading_Eof, ?r, ?cs)"
    using r bv(3) eof by (simp add: bufferevent_readcb_def REDSOCKS_RELAY_HALFBUFF_def MAX_TO_READ_EVER_def Let_def)
  then have ev: "redsocks_event_error os Relay Reading_Eof ?c ?cs = Some (Some c', cs')" using f assms(3) by (simp add: rs_fire_def)
  have "rs_inv ?bv d ?c ?cs" by (rule rs_inv_quiet [OF i(1)]) (use rs_inv_open [OF i(1), of Relay] in \<open>auto simp: bv\<close>)
  then obtain res where "redsocks_event_error os Relay Reading_Eof ?c ?cs = Some res"
    "rs_post (\<lambda>c' cs'. Reading_Eof = Reading_Eof \<and> eof_post Relay ?bv d ?c ?cs c' cs') res" by (rule event_error_inv)
  with ev have e: "eof_post Relay ?bv d ?c ?cs c' cs'" by simp
  have q: "quiet (\<lambda>fd. is_open fd ?cs) ?cs cs'" using e by (simp add: eof_post_def)
  have i': "rs_inv (eof_bevs Relay ?bv) d c' cs'" using e by (simp add: eof_post_def)
  have io: "same_io (bv t) (eof_bevs Relay ?bv t)" for t
    by (auto simp: eof_bevs_def same_io_def bufferevent_disable_def be_socket_disable_def Let_def bv)
  then have "relay_shape (eof_bevs Relay ?bv)" using i(2) unfolding relay_shape_def same_io_def by metis
  moreover have "\<not> di_reading (dir_of (eof_bevs Relay ?bv) c' Relay)" "\<not> di_writing (dir_of (eof_bevs Relay ?bv) c' Relay)"
    using b by (simp_all add: dir_of_def eof_bevs_def Let_def bv)
  ultimately have "relay_holds (dir_dead (bytes_written (be_fd b) cs)) (\<lambda>s. be_fd (bv s)) c' cs'"
    unfolding relay_holds_def dir_dead_def using i' io quiet_data(2) [OF q]
    by (intro exI [of _ "eof_bevs Relay ?bv"] exI [of _ d]) (simp add: bv same_io_def)
  then show thesis using that [of "\<lambda>s. be_fd (bv s)"] by (simp add: bv)
qed

section \<open>Every subsystem\<close>

lemma outcome_safe:
  assumes "rs_outcome True (rs_state sp adds) r"
  shows "\<exists>c' cs'. r = Some (c', cs') \<and> calls_ok cs' \<and> (case c' of None \<Rightarrow> \<forall>fd. \<not> is_open fd cs' | Some d \<Rightarrow> rs_wf d cs')"
proof -
  from assms obtain c' cs' where "r = Some (c', cs')" "rs_post (rs_state sp adds) (c', cs')"
    by (auto simp: rs_outcome_def split: option.splits)
  then show ?thesis by (cases c') (auto simp: rs_closed_def rs_state_wf)
qed

context relay_subsystem
begin

lemma fire_safe:
  assumes "be_os_ok os" "rs_reach os ss cfg c cs" "rs_pending s e c" "hp_total sp"
  shows "\<exists>c' cs'. rs_fire os ss cfg s e c cs = Some (c', cs') \<and> calls_ok cs' \<and>
    (case c' of None \<Rightarrow> \<forall>fd. \<not> is_open fd cs' | Some d \<Rightarrow> rs_wf d cs')"
  using outcome_safe fire_state [OF assms(1) reach_state [OF assms(1,2)] assms(3)] assms(4) by simp

lemma reach_bevs:
  assumes "be_os_ok os" "rs_reach os ss cfg c cs"
  obtains b r where "rc_bev c Client = Some b" "rc_bev c Relay = Some r"
  using rs_state_wf(1) [OF reach_state [OF assms]] unfolding rs_wf_def by blast

lemma reach_eof:
  assumes "be_os_ok os" "rs_reach os ss cfg c cs" "rc_bev c Relay = Some r" "be_writecb r = Some Cb_Connected"
    "rc_bev c Client = Some b" "be_ev_read b" "bo_read os cs (be_fd b) MAX_TO_READ_EVER = Rd_Data []"
  shows "\<exists>c' cs'. rs_fire os ss cfg Client Readable c cs = Some (Some c', cs') \<and> (\<forall>s e. \<not> rs_pending s e c') \<and>
    (\<forall>fd. is_open fd cs' \<longleftrightarrow> is_open fd cs)"
proof -
  have "connecting sp c cs" using reach_state [OF assms(1,2)] assms(3,4)
    by (auto simp: rs_state_def handshaking_def relaying_def hs_phase_def hs_base_def rs_inv_def relay_shape_def)
  then show ?thesis using assms(5-7) by (rule connecting_eof)
qed

lemma reach_relaying:
  assumes "be_os_ok os" "rs_reach os ss cfg c cs" "rc_bev c Client = Some b" "be_readcb b \<noteq> None"
  shows "relaying sp (os_adds os) c cs"
  using reach_state [OF assms(1,2)] assms(3,4)
  by (auto simp: rs_state_def connecting_def handshaking_def hs_phase_def hs_base_def idle_bev_def rs_inv_def)

lemma reach_stalls:
  assumes "be_os_ok os" "rs_reach os ss cfg c cs" "rc_bev c Client = Some b" "be_readcb b \<noteq> None" "\<not> be_read_suspended b"
    "REDSOCKS_RELAY_HALFBUFF \<le> length (be_input b)" "rs_fire os ss cfg Client Readable c cs = Some (Some c1, cs1)"
    "rs_later os ss cfg c1 cs1 c2 cs2"
  shows "\<not> rs_pending Client Readable c2 \<and> bytes_read (be_fd b) cs2 = bytes_read (be_fd b) cs"
proof -
  obtain fd where fd: "fd Client = be_fd b" and h: "relay_holds (dir_stalled (bytes_read (be_fd b) cs)) fd c1 cs1"
    by (rule relaying_stalls [OF reach_relaying [OF assms(1-4)] assms(3,5-7)])
  from relay_holds_later [OF assms(8) stalled_kept h] fd show ?thesis
    by (auto simp: relay_holds_def dir_stalled_def rs_pending_def rs_inv_def dir_of_def)
qed

lemma reach_loses:
  assumes "be_os_ok os" "rs_reach os ss cfg c cs" "rc_bev c Client = Some b" "rc_bev c Relay = Some r" "be_readcb b \<noteq> None"
    "be_ev_read r" "\<not> be_read_suspended r" "length (be_input r) < REDSOCKS_RELAY_HALFBUFF" "be_output b = []"
    "bo_read os cs (be_fd r) (REDSOCKS_RELAY_HALFBUFF - length (be_input r)) = Rd_Data []"
    "rs_fire os ss cfg Relay Readable c cs = Some (Some c1, cs1)" "rs_later os ss cfg c1 cs1 c2 cs2"
  shows "bytes_written (be_fd b) cs2 = bytes_written (be_fd b) cs"
proof -
  obtain fd where fd: "fd Client = be_fd b" and h: "relay_holds (dir_dead (bytes_written (be_fd b) cs)) fd c1 cs1"
    by (rule relaying_loses [OF reach_relaying [OF assms(1-3,5)] assms(3,4,6-11)])
  from relay_holds_later [OF assms(12) dead_kept h] fd show ?thesis by (auto simp: relay_holds_def dir_dead_def)
qed

end

section \<open>The delay of the listener\<close>

text \<open>
  With the bounds that the configuration is checked for, the delay is positive and within them, and the
  listener is off until the timer has run. The doubling wraps around before it is bounded.
\<close>

lemma back_off_bounds:
  assumes "0 < rcfg_min_backoff_ms cfg" "rcfg_min_backoff_ms cfg < rcfg_max_backoff_ms cfg"
    and "redsocks_back_off os cfg self cs = (self', cs')"
  shows "rcfg_min_backoff_ms cfg \<le> ri_backoff_ms self' \<and> ri_backoff_ms self' \<le> rcfg_max_backoff_ms cfg \<and> \<not> ri_listening self' \<and>
    (\<exists>delay. ri_backoff self' = Some delay \<and> 1 \<le> delay \<and> delay \<le> uint (ri_backoff_ms self'))"
    "ri_listening (redsocks_accept_backoff self')"
proof -
  let ?ms = "ri_backoff_ms self'"
  have ms: "?ms = clamp_value (push_bit 1 (ri_backoff_ms self) + 1) (rcfg_min_backoff_ms cfg) (rcfg_max_backoff_ms cfg)"
    and d: "ri_backoff self' = Some (bo_random os cs mod uint ?ms + 1)" "\<not> ri_listening self'"
    using assms(3) by (auto simp: redsocks_back_off_def Let_def)
  have b: "rcfg_min_backoff_ms cfg \<le> ?ms" "?ms \<le> rcfg_max_backoff_ms cfg" using assms(2) by (auto simp: ms clamp_value_def Let_def)
  then have p: "0 < uint ?ms" using assms(1) by (simp add: word_less_def word_le_def)
  have "bo_random os cs mod uint ?ms + 1 \<le> uint ?ms" using pos_mod_bound [OF p, of "bo_random os cs"] by linarith
  with p show "rcfg_min_backoff_ms cfg \<le> ?ms \<and> ?ms \<le> rcfg_max_backoff_ms cfg \<and> \<not> ri_listening self' \<and>
    (\<exists>delay. ri_backoff self' = Some delay \<and> 1 \<le> delay \<and> delay \<le> uint ?ms)"
    using b d by simp
  show "ri_listening (redsocks_accept_backoff self')" by (simp add: redsocks_accept_backoff_def)
qed

lemma back_off_wraps:
  "ri_backoff_ms (fst (redsocks_back_off os (cfg\<lparr>rcfg_min_backoff_ms := 100, rcfg_max_backoff_ms := 60000\<rparr>)
     (self\<lparr>ri_backoff_ms := 51711\<rparr>) cs)) = 37887"
  by (simp add: redsocks_back_off_def clamp_value_def Let_def)

section \<open>Runs to evaluate\<close>

fun rs_run :: "be_os \<Rightarrow> relay_subsys \<Rightarrow> redsocks_config \<Rightarrow> (rs_side \<times> rs_event) list \<Rightarrow> redsocks_client \<Rightarrow> be_calls \<Rightarrow>
    (redsocks_client \<times> be_calls) option" where
  "rs_run os ss cfg [] c cs = Some (c, cs)"
| "rs_run os ss cfg ((s, e) # es) c cs =
     (if rs_pending s e c then
        (case rs_fire os ss cfg s e c cs of Some (Some c, cs) \<Rightarrow> rs_run os ss cfg es c cs | _ \<Rightarrow> None)
      else None)"

definition rs_life :: "be_os \<Rightarrow> relay_subsys \<Rightarrow> redsocks_config \<Rightarrow> http_auth \<Rightarrow> redsocks_instance \<Rightarrow> (rs_side \<times> rs_event) list \<Rightarrow>
    (redsocks_client \<times> be_calls) option" where
  "rs_life os ss cfg auth self es =
     (case redsocks_accept_client os ss cfg auth self [] of (_, Some c, cs) \<Rightarrow> rs_run os ss cfg es c cs | _ \<Rightarrow> None)"

lemma rs_run_reach: "rs_run os ss cfg es c cs = Some (c', cs') \<Longrightarrow> rs_reach os ss cfg c cs \<Longrightarrow> rs_reach os ss cfg c' cs'"
proof (induction es arbitrary: c cs)
  case (Cons x es)
  obtain s e where x: "x = (s, e)" by force
  with Cons.prems(1) obtain c1 cs1 where "rs_pending s e c" "rs_fire os ss cfg s e c cs = Some (Some c1, cs1)" "rs_run os ss cfg es c1 cs1 = Some (c', cs')"
    by (auto split: if_splits option.splits)
  with Cons show ?case by (blast intro: reach_event)
qed simp

lemma rs_life_reach: "rs_life os ss cfg auth self es = Some (c, cs) \<Longrightarrow> rs_reach os ss cfg c cs"
  by (auto simp: rs_life_def intro: rs_run_reach reach_accept split: prod.splits option.splits)

text \<open>A system that answers reads of each descriptor from a list of chunks.\<close>

fun chunk :: "int \<Rightarrow> be_calls \<Rightarrow> bytes list \<Rightarrow> rd_answer" where
  "chunk fd cs [] = Rd_Again"
| "chunk fd [] (x # xs) = Rd_Data x"
| "chunk fd (Be_Read f n (Rd_Data bs) # cs) (x # xs) = (if f = fd then chunk fd cs xs else chunk fd cs (x # xs))"
| "chunk fd (_ # cs) (x # xs) = chunk fd cs (x # xs)"

definition script_os :: "bytes list \<Rightarrow> bytes list \<Rightarrow> be_os" where
  "script_os client relay =
     \<lparr>bo_read = (\<lambda>cs fd n. case chunk fd cs (if fd = 3 then client else relay) of
          Rd_Data bs \<Rightarrow> Rd_Data (take n bs) | answer \<Rightarrow> answer),
      bo_write = (\<lambda>cs fd bs. Wr_Sent (length bs)),
      bo_event_add = (\<lambda>cs fd. True),
      bo_accept = (\<lambda>cs. Acc_Fd 3),
      bo_getsockname = (\<lambda>cs fd. True),
      bo_destaddr = (\<lambda>cs fd. Some ([10, 0, 0, 1], 0x5000)),
      bo_random = (\<lambda>cs. 0),
      bo_socket = (\<lambda>cs. if is_open 4 cs then -1 else 4),
      bo_nonblock = (\<lambda>cs fd. True),
      bo_keepalive = (\<lambda>cs fd. True),
      bo_connect = (\<lambda>cs fd. True),
      bo_so_error = (\<lambda>cs fd. 0),
      bo_time = (\<lambda>cs. 1)\<rparr>"

lemma script_os_ok [simp]: "be_os_ok (script_os client relay)" "os_adds (script_os client relay)"
  by (auto simp: be_os_ok_def read_contract_def socket_contract_def script_os_def os_adds_def split: rd_answer.splits)

text \<open>
  A SOCKS 5 server without authentication. The client has sent its request early; the answer of the
  server comes in one piece after the reply, and then the server closes.
\<close>

definition sample_rs_config :: redsocks_config where
  "sample_rs_config = \<lparr>rcfg_login = None, rcfg_password = None, rcfg_min_backoff_ms = 100, rcfg_max_backoff_ms = 60000\<rparr>"

definition sample_rs_auth :: http_auth where
  "sample_rs_auth = \<lparr>last_auth_query = None, last_auth_count = 0\<rparr>"

definition sample_instance :: redsocks_instance where
  "sample_instance = \<lparr>ri_backoff_ms = 0, ri_listening = True, ri_backoff = None\<rparr>"

definition sample_server :: "bytes list" where
  "sample_server = [[5, 0], [5, 0, 0, 1], [10, 0, 0, 1, 4, 56], [72, 105], []]"

definition sample_dialogue :: "(rs_side \<times> rs_event) list" where
  "sample_dialogue = [(Client, Readable), (Relay, Writable), (Relay, Writable), (Relay, Readable), (Relay, Writable),
     (Relay, Readable), (Relay, Readable)]"

abbreviation sample_life :: "bytes list \<Rightarrow> (rs_side \<times> rs_event) list \<Rightarrow> (redsocks_client \<times> be_calls) option" where
  "sample_life client es \<equiv> rs_life (script_os client sample_server) socks5_subsys sample_rs_config sample_rs_auth sample_instance es"

lemmas rs_eval = rs_life_def redsocks_accept_client_def redsocks_accepted_def new_client_def redsocks_touch_client_def
  bufferevent_enable_def bufferevent_new_def be_socket_enable_def be_socket_add_read_def be_socket_add_write_def
  redsocks_connect_relay_def red_connect_relay_def script_os_def rs_pending_def rs_fire_def
  bufferevent_readcb_def bufferevent_writecb_def bufferevent_written_def run_cb_option_def redsocks_relay_connected_def
  red_is_socket_connected_ok_def redsocks_write_helper_def redsocks_write_helper_ex_def bufferevent_write_buffer_def
  bufferevent_socket_outbuf_cb_def redsocks_read_expected_def sizes_equal_def sizes_greater_equal_def
  redsocks_start_relay_def relay_bev_def relay_readcb_def relay_writecb_def redsocks_relay_readcb_def redsocks_relay_writecb_def
  rs_move_def redsocks_shutdown_def redsocks_event_error_def all_shut_def bufferevent_disable_def be_socket_disable_def
  bufferevent_suspend_read_def MAX_TO_READ_EVER_def MAX_TO_WRITE_EVER_def REDSOCKS_RELAY_HALFBUFF_def
  socks5_subsys_def socks5_client_init_def socks5_is_valid_cred_def socks5_write_cb_def socks5_read_cb_def
  socks5_mkmethods_plain_def socks5_read_auth_methods_def socks5_is_known_auth_method_def socks5_mkconnect_def socks5_mkcommand_plain_def
  socks5_read_reply_def
  le16b_def Let_def
  sample_rs_config_def sample_rs_auth_def sample_instance_def sample_server_def sample_dialogue_def

text \<open>After the dialogue, and when the server has answered and closed while its answer is still to be written.\<close>

lemma sample_relaying:
  obtains c cs b r where "sample_life [[7, 8]] (sample_dialogue @ [(Relay, Writable), (Relay, Readable)]) = Some (c, cs)"
    "rc_bev c Client = Some b" "rc_bev c Relay = Some r" "be_readcb b = Some (Cb_Relay_Read Client)" "be_ev_write b" "\<not> rc_shut_wr c Client"
proof -
  have "\<exists>c cs b r. sample_life [[7, 8]] (sample_dialogue @ [(Relay, Writable), (Relay, Readable)]) = Some (c, cs) \<and>
    rc_bev c Client = Some b \<and> rc_bev c Relay = Some r \<and> be_readcb b = Some (Cb_Relay_Read Client) \<and> be_ev_write b \<and> \<not> rc_shut_wr c Client"
    by (simp add: rs_eval)
  then show thesis using that by blast
qed

text \<open>
  An HTTP proxy that accepts the connection and has data right behind the reply, and one that asks for
  digest authentication and gives no parameters.
\<close>

definition sample_http_config :: redsocks_config where
  "sample_http_config = sample_rs_config\<lparr>rcfg_login := Some ''joe'', rcfg_password := Some ''pw''\<rparr>"


abbreviation sample_http_life :: "bytes list \<Rightarrow> (rs_side \<times> rs_event) list \<Rightarrow> (redsocks_client \<times> be_calls) option" where
  "sample_http_life server es \<equiv>
     rs_life (script_os [] server) http_connect_subsys sample_http_config sample_rs_auth sample_instance es"

definition sample_connect :: "(rs_side \<times> rs_event) list" where
  "sample_connect = [(Relay, Writable), (Relay, Writable), (Relay, Readable)]"

definition sample_200 :: bytes where
  "sample_200 = c_bytes (''HTTP/1.0 200 OK'' @ crlf @ crlf @ ''Hi'')"

definition sample_407 :: bytes where
  "sample_407 = c_bytes (''HTTP/1.0 407 No'' @ crlf @ ''Proxy-Authenticate: Digest'' @ crlf @ crlf)"

lemma sample_200_eval:
  "redsocks_evbuffer_readline sample_200 = Some (''HTTP/1.0 200 OK'', [13, 10, 72, 105])"
  "httpc_code ''HTTP/1.0 200 OK'' = Some 200" "skip_headers [13, 10, 72, 105] = (True, [72, 105])" "sample_200 \<noteq> []"
  by code_simp+

lemma sample_407_eval:
  "redsocks_evbuffer_readline sample_407 = Some (''HTTP/1.0 407 No'', drop 17 sample_407)"
  "httpc_code ''HTTP/1.0 407 No'' = Some 407"
  "get_auth_request_header (drop 17 sample_407) = Some ''Proxy-Authenticate: Digest''" "sample_407 \<noteq> []"
  by code_simp+

lemma sample_lengths: "take 4096 sample_200 = sample_200" "take 4096 sample_407 = sample_407" "length sample_200 = 21" "length sample_407 = 47"
  by (simp_all add: sample_200_def sample_407_def c_bytes_def crlf_def)

lemma sample_dest:
  assumes "rc_destaddr c = [10, 0, 0, 1]" "rc_destport c = 0x5000"
  shows "dest_text c = ''10.0.0.1:80''"
proof -
  have "inet_ntoa [10, 0, 0, 1] = ''10.0.0.1''" "dec (unat (ntohs 0x5000)) = ''80''" by code_simp+
  then show ?thesis using assms by (simp add: dest_text_def)
qed

lemmas http_eval = sample_dest crlf_def c_bytes_def http_connect_subsys_def httpc_client_init_def httpc_write_cb_def httpc_mkconnect_def httpc_auth_string_def
  httpc_read_cb_def httpc_status_def httpc_headers_def httpc_auth_required_def
  auth_request_header_def isspace_def HTTP_HEAD_WM_HIGH_def sample_200_eval sample_407_eval sample_lengths
  sample_http_config_def sample_connect_def

lemma sample_http_relaying:
  obtains c cs b r where "sample_http_life [sample_200, []] sample_connect = Some (c, cs)"
    "rc_bev c Client = Some b" "rc_bev c Relay = Some r" "be_readcb b = Some (Cb_Relay_Read Client)"
proof -
  have "\<exists>c cs b r. sample_http_life [sample_200, []] sample_connect = Some (c, cs) \<and>
    rc_bev c Client = Some b \<and> rc_bev c Relay = Some r \<and> be_readcb b = Some (Cb_Relay_Read Client)"
    by (simp add: rs_eval http_eval)
  then show thesis using that by blast
qed

end
