(* ===== verification/Redsocks_Props.thy ===== *)
theory Redsocks_Props
  imports Redsocks_Runs
begin

text \<open>
  The properties of the transparent proxy: memory safety, the streams of bytes, progress, and the runs in
  which the code leaves a connection behind or loses data. They are stated for the SOCKS and HTTP
  subsystems and rest on the facts of their interpretations.
\<close>

section \<open>Properties\<close>

text \<open>
  C10: Whatever the system answers and in whatever order the pending events of a client are handled, from
  its accept on, the handler of the next one has no undefined behaviour (no null pointer or freed client
  is used, no assertion fails), every system call is on a descriptor that is open, and when the client was
  freed all its descriptors have been closed, each once. For SOCKS proxies this holds always, for HTTP
  proxies as long as the instance has credentials for the challenge it keeps and a digest challenge has
  parameters.
\<close>

theorem redsocks_memory_safe:
  assumes "ss = socks5_subsys \<or> ss = socks4_subsys \<or> ss = http_connect_subsys \<and> http_auth_safe cfg (rc_auth c)"
    "be_os_ok os" "rs_reach os ss cfg c cs" "rs_pending s e c"
  shows "\<exists>c' cs'. rs_fire os ss cfg s e c cs = Some (c', cs') \<and> calls_ok cs' \<and>
    (case c' of None \<Rightarrow> \<forall>fd. \<not> is_open fd cs' | Some d \<Rightarrow> rs_wf d cs')"
proof -
  from assms(1) consider "ss = socks5_subsys" | "ss = socks4_subsys" | "ss = http_connect_subsys" "http_auth_safe cfg (rc_auth c)" by blast
  then show ?thesis
  proof cases
    case 3
    with assms(3) have "rs_state http_spec (os_adds os) c cs" using hc.reach_state [OF assms(2)] by simp
    with hg.fire_state [OF assms(2) _ assms(4)] have "rs_outcome True (rs_state http_spec (os_adds os)) (rs_fire os http_guarded_subsys cfg s e c cs)" by simp
    from outcome_safe [OF this] 3 show ?thesis by (simp add: http_guarded_fire)
  qed (use s5.fire_safe [OF assms(2) _ assms(4)] s4.fire_safe [OF assms(2) _ assms(4)] assms(3) in simp_all)
qed

theorem redsocks_memory_safe_witness:
  "\<exists>c cs c' cs'. rs_reach (script_os [[7, 8]] sample_server) socks5_subsys sample_rs_config c cs \<and> rs_pending Client Writable c \<and>
    rs_fire (script_os [[7, 8]] sample_server) socks5_subsys sample_rs_config Client Writable c cs = Some (c', cs') \<and> calls_ok cs'"
proof (rule sample_relaying)
  fix c cs b r
  assume "sample_life [[7, 8]] (sample_dialogue @ [(Relay, Writable), (Relay, Readable)]) = Some (c, cs)" "rc_bev c Client = Some b" "be_ev_write b"
  then have "rs_reach (script_os [[7, 8]] sample_server) socks5_subsys sample_rs_config c cs" "rs_pending Client Writable c"
    by (simp_all add: rs_life_reach rs_pending_def)
  with redsocks_memory_safe [OF disjI1 [OF refl] script_os_ok(1) this] show ?thesis by blast
qed

text \<open>
  C16: In every reachable state a client has both its sockets, on two descriptors that are the ones open;
  not all directions are shut down, a direction is closed only after its source ended, and the
  callbacks are those of connecting, of the handshake or of relaying on both sockets.
\<close>

theorem redsocks_client_wf:
  assumes "ss = socks5_subsys \<or> ss = socks4_subsys \<or> ss = http_connect_subsys" "be_os_ok os" "rs_reach os ss cfg c cs"
  shows "rs_wf c cs \<and> calls_ok cs"
  using rs_state_wf [OF s5.reach_state [OF assms(2)]] rs_state_wf [OF s4.reach_state [OF assms(2)]]
    rs_state_wf [OF hc.reach_state [OF assms(2)]] assms(1,3) by auto

theorem redsocks_client_wf_witness:
  "\<exists>c cs. rs_reach (script_os [[7, 8]] sample_server) socks5_subsys sample_rs_config c cs \<and> rs_wf c cs"
proof (rule sample_relaying)
  fix c cs
  assume "sample_life [[7, 8]] (sample_dialogue @ [(Relay, Writable), (Relay, Readable)]) = Some (c, cs)"
  then have r: "rs_reach (script_os [[7, 8]] sample_server) socks5_subsys sample_rs_config c cs" by (simp add: rs_life_reach)
  with redsocks_client_wf [OF disjI1 [OF refl] script_os_ok(1) this] show ?thesis by blast
qed



text \<open>
  C15: The response of a server behind a SOCKS 5 proxy is never stuck. As long as events can be added to
  the loop, a client that relays and whose response has not been completed waits for room to write to the
  client, or everything has been written, the server has not ended and data of the server is waited for.
\<close>

theorem socks5_response_live:
  assumes "be_os_ok os" "os_adds os" "rs_reach os socks5_subsys cfg c cs" "rc_bev c Client = Some b" "rc_bev c Relay = Some r"
    "be_readcb b = Some (Cb_Relay_Read Client)" "\<not> rc_shut_wr c Client"
  shows "rs_pending Client Writable c \<or>
    rs_pending Relay Readable c \<and> be_output b = [] \<and> be_input r = [] \<and> \<not> rc_shut_rd c Relay"
proof -
  note resp = rs_state_response [OF s5.reach_state [OF assms(1,3)] _ assms(4,5)]
  from resp(2,3) assms(2,4-7) show ?thesis by (auto simp: rs_pending_def)
qed

theorem socks5_response_live_witness:
  "\<exists>c cs b r. rs_reach (script_os [[7, 8]] sample_server) socks5_subsys sample_rs_config c cs \<and>
    rc_bev c Client = Some b \<and> rc_bev c Relay = Some r \<and>
    (rs_pending Client Writable c \<or> rs_pending Relay Readable c \<and> be_output b = [] \<and> be_input r = [])"
proof (rule sample_relaying)
  fix c cs b r
  assume s: "sample_life [[7, 8]] (sample_dialogue @ [(Relay, Writable), (Relay, Readable)]) = Some (c, cs)" "rc_bev c Client = Some b"
    "rc_bev c Relay = Some r" "be_readcb b = Some (Cb_Relay_Read Client)" "\<not> rc_shut_wr c Client"
  then have "rs_reach (script_os [[7, 8]] sample_server) socks5_subsys sample_rs_config c cs" by (simp add: rs_life_reach)
  with socks5_response_live [OF script_os_ok this s(2-5)] s show ?thesis by blast
qed

text \<open>
  C35: When a client closes its connection before the proxy server is connected, no event of it is left
  in the loop, but it is not dropped: both descriptors stay open for good.
\<close>

theorem redsocks_client_leaked:
  assumes "ss = socks5_subsys \<or> ss = socks4_subsys \<or> ss = http_connect_subsys" "be_os_ok os" "rs_reach os ss cfg c cs"
    "rc_bev c Relay = Some r" "be_writecb r = Some Cb_Connected"
    "rc_bev c Client = Some b" "be_ev_read b" "bo_read os cs (be_fd b) MAX_TO_READ_EVER = Rd_Data []"
  shows "\<exists>c' cs'. rs_fire os ss cfg Client Readable c cs = Some (Some c', cs') \<and> (\<forall>s e. \<not> rs_pending s e c') \<and>
    (\<forall>fd. is_open fd cs' \<longleftrightarrow> is_open fd cs)"
  using s5.reach_eof [OF assms(2) _ assms(4-8)] s4.reach_eof [OF assms(2) _ assms(4-8)] hc.reach_eof [OF assms(2) _ assms(4-8)]
    assms(1,3) by auto

theorem redsocks_client_leaked_witness:
  "\<exists>c cs c' cs'. rs_reach (script_os [[]] sample_server) socks5_subsys sample_rs_config c cs \<and>
    rs_fire (script_os [[]] sample_server) socks5_subsys sample_rs_config Client Readable c cs = Some (Some c', cs') \<and>
    (\<forall>s e. \<not> rs_pending s e c')"
proof -
  have "\<exists>c cs r b. sample_life [[]] [] = Some (c, cs) \<and> rc_bev c Relay = Some r \<and> be_writecb r = Some Cb_Connected \<and>
    rc_bev c Client = Some b \<and> be_ev_read b \<and> bo_read (script_os [[]] sample_server) cs (be_fd b) MAX_TO_READ_EVER = Rd_Data []"
    by (simp add: rs_eval)
  then obtain c cs b r where s: "sample_life [[]] [] = Some (c, cs)" and r: "rc_bev c Relay = Some r" "be_writecb r = Some Cb_Connected"
    and b: "rc_bev c Client = Some b" "be_ev_read b" "bo_read (script_os [[]] sample_server) cs (be_fd b) MAX_TO_READ_EVER = Rd_Data []"
    by blast
  have "rs_reach (script_os [[]] sample_server) socks5_subsys sample_rs_config c cs" using s by (rule rs_life_reach)
  with redsocks_client_leaked [OF disjI1 [OF refl] script_os_ok(1) this r b] show ?thesis by blast
qed

text \<open>
  C36: When relaying starts with 4096 bytes or more of the client's request waiting and the client can be
  read before the server can be written to, the reading of the client is suspended and never resumed:
  in no later state does the loop wait for data of the client, so the rest of the request is never read.
\<close>

theorem socks5_request_stalled:
  assumes "be_os_ok os" "rs_reach os socks5_subsys cfg c cs" "rc_bev c Client = Some b" "be_readcb b \<noteq> None"
    "\<not> be_read_suspended b" "REDSOCKS_RELAY_HALFBUFF \<le> length (be_input b)"
    "rs_fire os socks5_subsys cfg Client Readable c cs = Some (Some c1, cs1)" "rs_later os socks5_subsys cfg c1 cs1 c2 cs2"
  shows "\<not> rs_pending Client Readable c2 \<and> bytes_read (be_fd b) cs2 = bytes_read (be_fd b) cs"
  using assms by (rule s5.reach_stalls)

theorem socks5_request_stalled_witness:
  "\<exists>c cs c1 cs1 c2 cs2 b. rs_reach (script_os [replicate 4096 0] sample_server) socks5_subsys sample_rs_config c cs \<and>
    rc_bev c Client = Some b \<and> length (be_input b) = 4096 \<and>
    rs_fire (script_os [replicate 4096 0] sample_server) socks5_subsys sample_rs_config Client Readable c cs = Some (Some c1, cs1) \<and>
    rs_fire (script_os [replicate 4096 0] sample_server) socks5_subsys sample_rs_config Relay Writable c1 cs1 = Some (Some c2, cs2) \<and>
    \<not> rs_pending Client Readable c2"
proof -
  define data :: bytes where "data = replicate 4096 0"
  then have data: "length data = 4096" by simp
  then have ne: "data \<noteq> []" by auto
  let ?os = "script_os [data] sample_server"
  have "\<exists>c cs b c1 cs1 c2 cs2. sample_life [data] sample_dialogue = Some (c, cs) \<and>
    rc_bev c Client = Some b \<and> be_readcb b \<noteq> None \<and> \<not> be_read_suspended b \<and> be_input b = data \<and>
    rs_fire ?os socks5_subsys sample_rs_config Client Readable c cs = Some (Some c1, cs1) \<and> rs_pending Relay Writable c1 \<and>
    rs_fire ?os socks5_subsys sample_rs_config Relay Writable c1 cs1 = Some (Some c2, cs2)"
    using data ne by (simp add: rs_eval)
  then obtain c cs b c1 cs1 c2 cs2 where s: "sample_life [data] sample_dialogue = Some (c, cs)"
    and b: "rc_bev c Client = Some b" "be_readcb b \<noteq> None" "\<not> be_read_suspended b" "be_input b = data"
    and f: "rs_fire ?os socks5_subsys sample_rs_config Client Readable c cs = Some (Some c1, cs1)" "rs_pending Relay Writable c1"
      "rs_fire ?os socks5_subsys sample_rs_config Relay Writable c1 cs1 = Some (Some c2, cs2)"
    by blast
  have r: "rs_reach ?os socks5_subsys sample_rs_config c cs" using s by (rule rs_life_reach)
  have l: "REDSOCKS_RELAY_HALFBUFF \<le> length (be_input b)" using b data by (simp add: REDSOCKS_RELAY_HALFBUFF_def)
  have "\<not> rs_pending Client Readable c2"
    using socks5_request_stalled [OF script_os_ok(1) r b(1-3) l f(1) later_event [OF later_now f(2,3)]] by blast
  moreover have "length (be_input b) = 4096" using b data by simp
  ultimately show ?thesis using r b(1) f(1,3) unfolding data_def by blast
qed

text \<open>
  C17: The streams of a client of an HTTP proxy. Until relaying starts nothing is written to the client,
  and the proxy server is told at most one request, for the destination of the client. When it has
  started, the server has answered it with a status line of a code from 200 to 299 and the end of the
  headers, and in both directions what was written is what was read, less what is still buffered.
\<close>

theorem http_streams:
  assumes "be_os_ok os" "rs_reach os http_connect_subsys cfg c cs"
  shows "\<exists>b r said heard. rc_bev c Client = Some b \<and> rc_bev c Relay = Some r \<and>
    (if be_readcb b = None then
       http_hs c said heard \<and> bytes_written (be_fd r) cs @ be_output r = said \<and> bytes_read (be_fd r) cs = heard @ be_input r \<and>
       bytes_read (be_fd b) cs = be_input b \<and> bytes_written (be_fd b) cs = []
     else
       http_granted c said heard \<and>
       bytes_written (be_fd r) cs @ be_output r @ be_input b = said @ bytes_read (be_fd b) cs \<and>
       bytes_read (be_fd r) cs = heard @ bytes_written (be_fd b) cs @ be_output b @ be_input r)"
proof -
  obtain b r where br: "rc_bev c Client = Some b" "rc_bev c Relay = Some r" using assms by (rule hc.reach_bevs)
  with rs_state_streams [OF hc.reach_state [OF assms] br] show ?thesis
    by (cases "be_readcb b = None") (auto simp: hs_streams_def relay_streams_def)
qed

theorem http_streams_witness:
  "\<exists>c cs b r said heard. rs_reach (script_os [] [sample_200, []]) http_connect_subsys sample_http_config c cs \<and>
    rc_bev c Client = Some b \<and> rc_bev c Relay = Some r \<and> http_granted c said heard \<and>
    bytes_read (be_fd r) cs = heard @ bytes_written (be_fd b) cs @ be_output b @ be_input r"
proof (rule sample_http_relaying)
  fix c cs b r
  assume s: "sample_http_life [sample_200, []] sample_connect = Some (c, cs)" "rc_bev c Client = Some b" "rc_bev c Relay = Some r"
    "be_readcb b = Some (Cb_Relay_Read Client)"
  then have "rs_reach (script_os [] [sample_200, []]) http_connect_subsys sample_http_config c cs" by (simp add: rs_life_reach)
  moreover obtain said heard where "http_granted c said heard"
    "bytes_read (be_fd r) cs = heard @ bytes_written (be_fd b) cs @ be_output b @ be_input r"
    using http_streams [OF script_os_ok(1) calculation] s by auto
  ultimately show ?thesis using s(2,3) by blast
qed

text \<open>
  C39: A proxy that asks for digest authentication without any parameter, with nothing behind the word,
  makes the next request of the instance read outside the string of the challenge: when the new
  connection is made, the behaviour is undefined.
\<close>

theorem http_digest_overread:
  assumes "rc_bev c Relay = Some r" "be_writecb r = Some Cb_Connected" "rc_state c = httpc_new" "be_output r = []"
    "bo_so_error os (Be_Time # cs) (be_fd r) = 0"
    "last_auth_query (rc_auth c) = Some q" "strncaseeq q ''Digest'' 6" "length q = 6"
  shows "rs_fire os http_connect_subsys cfg Relay Writable c cs = None"
  using assms not_basic [OF assms(7)]
  by (simp add: rs_fire_def bufferevent_writecb_def bufferevent_written_def run_cb_option_def redsocks_relay_connected_def
      redsocks_touch_client_def red_is_socket_connected_ok_def http_connect_subsys_def httpc_write_cb_def httpc_mkconnect_def
      httpc_auth_string_def Let_def case_prod_unfold)

theorem http_digest_overread_witness:
  "\<exists>c cs. rs_reach (script_os [] [sample_407]) http_connect_subsys sample_http_config c cs \<and> rs_pending Relay Writable c \<and>
    rs_fire (script_os [] [sample_407]) http_connect_subsys sample_http_config Relay Writable c cs = None"
proof -
  have "\<exists>c cs r. sample_http_life [sample_407] sample_connect = Some (c, cs) \<and> rc_bev c Relay = Some r \<and> be_ev_write r \<and>
    be_writecb r = Some Cb_Connected \<and> rc_state c = httpc_new \<and> be_output r = [] \<and> last_auth_query (rc_auth c) = Some ''Digest''"
    by (simp add: rs_eval http_eval)
  then obtain c cs r where s: "sample_http_life [sample_407] sample_connect = Some (c, cs)" "be_ev_write r"
    and r: "rc_bev c Relay = Some r" "be_writecb r = Some Cb_Connected" "rc_state c = httpc_new" "be_output r = []"
      "last_auth_query (rc_auth c) = Some ''Digest''" by blast
  have "bo_so_error (script_os [] [sample_407]) (Be_Time # cs) (be_fd r) = 0" by (simp add: script_os_def)
  from http_digest_overread [OF r(1-4) this r(5), of sample_http_config] have
    "rs_fire (script_os [] [sample_407]) http_connect_subsys sample_http_config Relay Writable c cs = None"
    by (simp add: numeral_eq_Suc)
  with s r(1) show ?thesis by (intro exI [of _ c] exI [of _ cs]) (simp add: rs_life_reach rs_pending_def)
qed

text \<open>
  When an HTTP proxy sends data of the server right behind its reply and closes before the client
  could be written to, the data is lost: it was read behind the dialogue and nothing more is ever
  written to the client.
\<close>

theorem http_response_lost:
  assumes "be_os_ok os" "rs_reach os http_connect_subsys cfg c cs" "rc_bev c Client = Some b" "rc_bev c Relay = Some r"
    "be_readcb b \<noteq> None" "be_ev_read r" "\<not> be_read_suspended r" "length (be_input r) < REDSOCKS_RELAY_HALFBUFF" "be_output b = []"
    "bo_read os cs (be_fd r) (REDSOCKS_RELAY_HALFBUFF - length (be_input r)) = Rd_Data []"
    "rs_fire os http_connect_subsys cfg Relay Readable c cs = Some (Some c1, cs1)" "rs_later os http_connect_subsys cfg c1 cs1 c2 cs2"
  shows "\<exists>said heard. http_granted c said heard \<and> bytes_read (be_fd r) cs = heard @ bytes_written (be_fd b) cs @ be_input r \<and>
    bytes_written (be_fd b) cs2 = bytes_written (be_fd b) cs"
proof -
  have "bytes_written (be_fd b) cs2 = bytes_written (be_fd b) cs" using assms by (rule hc.reach_loses)
  moreover have "relay_streams http_spec b r c cs"
    using rs_state_streams [OF hc.reach_state [OF assms(1,2)] assms(3,4)] assms(5) by simp
  ultimately show ?thesis using assms(9) by (auto simp: relay_streams_def)
qed

theorem http_response_lost_witness:
  "\<exists>c cs b r c1 cs1. rs_reach (script_os [] [sample_200, []]) http_connect_subsys sample_http_config c cs \<and>
    rc_bev c Client = Some b \<and> rc_bev c Relay = Some r \<and> be_input r = [72, 105] \<and>
    rs_fire (script_os [] [sample_200, []]) http_connect_subsys sample_http_config Relay Readable c cs = Some (Some c1, cs1) \<and>
    bytes_written (be_fd b) cs1 = bytes_written (be_fd b) cs"
proof -
  let ?os = "script_os [] [sample_200, []]"
  have "\<exists>c cs b r c1 cs1. sample_http_life [sample_200, []] sample_connect = Some (c, cs) \<and> rc_bev c Client = Some b \<and>
    rc_bev c Relay = Some r \<and> be_readcb b \<noteq> None \<and> be_ev_read r \<and> \<not> be_read_suspended r \<and> be_input r = [72, 105] \<and> be_output b = [] \<and>
    bo_read ?os cs (be_fd r) 4094 = Rd_Data [] \<and>
    rs_fire ?os http_connect_subsys sample_http_config Relay Readable c cs = Some (Some c1, cs1)"
    by (simp add: rs_eval http_eval)
  then obtain c cs b r c1 cs1 where s: "sample_http_life [sample_200, []] sample_connect = Some (c, cs)"
    and b: "rc_bev c Client = Some b" "rc_bev c Relay = Some r" "be_readcb b \<noteq> None" "be_ev_read r" "\<not> be_read_suspended r"
    and i: "be_input r = [72, 105]" and o: "be_output b = []" and e: "bo_read ?os cs (be_fd r) 4094 = Rd_Data []"
    and f: "rs_fire ?os http_connect_subsys sample_http_config Relay Readable c cs = Some (Some c1, cs1)" by blast
  have r: "rs_reach ?os http_connect_subsys sample_http_config c cs" using s by (rule rs_life_reach)
  have l: "length (be_input r) < REDSOCKS_RELAY_HALFBUFF" "bo_read ?os cs (be_fd r) (REDSOCKS_RELAY_HALFBUFF - length (be_input r)) = Rd_Data []"
    using i e by (simp_all add: REDSOCKS_RELAY_HALFBUFF_def)
  from http_response_lost [OF script_os_ok(1) r b l(1) o l(2) f later_now] r b(1,2) i f show ?thesis by blast
qed

end
