(* ===== verification/Conf_Token.thy ===== *)
theory Conf_Token
  imports Scanf
begin

text \<open>
  \<open>redsocks/parser.c\<close>, first half: the scanner of the configuration file, \<open>gettoken\<close>. A pointer into a C
  string is the rest of the string from there on, so the final zero is the end of the list; no character
  of such a string is zero. The scanner first counts the characters of the token and then copies them
  into memory of that size; both passes are modelled, and that they agree is what makes the copy safe.
\<close>

section \<open>Characters\<close>

definition isdigit :: "char \<Rightarrow> bool" where
  "isdigit c \<longleftrightarrow> 48 \<le> (of_char c :: nat) \<and> (of_char c :: nat) \<le> 57"

definition isalpha :: "char \<Rightarrow> bool" where
  "isalpha c \<longleftrightarrow> 65 \<le> (of_char c :: nat) \<and> (of_char c :: nat) \<le> 90 \<or> 97 \<le> (of_char c :: nat) \<and> (of_char c :: nat) \<le> 122"

definition isalnum :: "char \<Rightarrow> bool" where
  "isalnum c \<longleftrightarrow> isalpha c \<or> isdigit c"

abbreviation Newline :: char where "Newline \<equiv> CHR 0x0A"
abbreviation Quote :: char where "Quote \<equiv> CHR 0x22"
abbreviation Backslash :: char where "Backslash \<equiv> CHR 0x5C"
abbreviation Nul :: char where "Nul \<equiv> CHR 0x00"

definition unescape :: "char \<Rightarrow> char" where
  "unescape c =
     (if c = CHR ''n'' then Newline
      else if c = CHR ''t'' then CHR 0x09
      else if c = CHR ''r'' then CHR 0x0D
      else if c = Backslash \<or> c = CHR 0x27 \<or> c = Quote then c
      else Nul)"

section \<open>The scanner\<close>

text \<open>
  What the counting pass finds: the number of characters, that the string ends too early, or a character
  that must not follow a backslash. The last two make \<open>gettoken\<close> return \<open>NULL\<close>, the last with an error.
\<close>

datatype gt_count = Gt_Len nat | Gt_More | Gt_Bad

fun gt_add :: "nat \<Rightarrow> gt_count \<Rightarrow> gt_count" where
  "gt_add k (Gt_Len n) = Gt_Len (k + n)"
| "gt_add k Gt_More = Gt_More"
| "gt_add k Gt_Bad = Gt_Bad"

fun cstr_count :: "string \<Rightarrow> gt_count" where
  "cstr_count [] = Gt_More"
| "cstr_count (c # p) =
     (if c = Quote then Gt_Len 0
      else if c = Backslash then
        (case p of
           [] \<Rightarrow> Gt_More
         | d # q \<Rightarrow> if unescape d \<noteq> Nul then gt_add 1 (cstr_count q) else Gt_Bad)
      else gt_add 1 (cstr_count p))"

fun number_count :: "string \<Rightarrow> gt_count" where
  "number_count [] = Gt_More"
| "number_count (c # p) =
     (if isdigit c \<or> c = CHR ''.'' then gt_add 1 (number_count p)
      else if c = CHR ''/'' then
        (case p of
           [] \<Rightarrow> Gt_More
         | d # q \<Rightarrow>
             if isdigit d then gt_add 1 (number_count p)
             else if d = CHR ''/'' \<or> d = CHR ''*'' then Gt_Len 0
             else Gt_More)
      else Gt_Len 0)"

fun word_count :: "string \<Rightarrow> gt_count" where
  "word_count [] = Gt_More"
| "word_count (c # p) =
     (if isalnum c \<or> c = CHR ''_'' \<or> c = CHR ''.'' \<or> c = CHR ''-'' then gt_add 1 (word_count p) else Gt_Len 0)"

text \<open>The copying pass of a string in quotes, with the rest behind the closing quote.\<close>

fun cstr_copy :: "string \<Rightarrow> string \<times> string" where
  "cstr_copy [] = ([], [])"
| "cstr_copy (c # p) =
     (if c = Quote then ([], p)
      else if c = Backslash then
        (case p of
           [] \<Rightarrow> ([], [])
         | d # q \<Rightarrow> (case cstr_copy q of (s, r) \<Rightarrow> (unescape d # s, r)))
      else (case cstr_copy p of (s, r) \<Rightarrow> (c # s, r)))"

text \<open>
  The result of \<open>gettoken\<close>: a token with the rest of the buffer, or \<open>NULL\<close> with the buffer behind the
  white space that was skipped, or \<open>NULL\<close> after an error with its message.
\<close>

datatype gt_result = Token string string | No_Token string | Bad_Token string string

definition gt_plainstr :: "string \<Rightarrow> gt_count \<Rightarrow> gt_result" where
  "gt_plainstr iter count = (case count of Gt_Len len \<Rightarrow> Token (take len iter) (drop len iter) | _ \<Rightarrow> No_Token iter)"

text \<open>The count of a token without quotes; \<open>None\<close> for a character that cannot start one.\<close>

definition plain_count :: "char \<Rightarrow> string \<Rightarrow> gt_count option" where
  "plain_count c p =
     (if isdigit c then Some (number_count (c # p))
      else if isalpha c then Some (word_count (c # p))
      else if c = CHR ''{'' \<or> c = CHR ''}'' \<or> c = CHR ''='' \<or> c = CHR '';'' then Some (Gt_Len 1)
      else if c = CHR ''/'' \<and> (case p of [] \<Rightarrow> False | d # q \<Rightarrow> d = CHR ''/'' \<or> d = CHR ''*'') then Some (Gt_Len 2)
      else None)"

definition gettoken :: "string \<Rightarrow> gt_result" where
  "gettoken str =
     (case dropWhile isspace str of
        [] \<Rightarrow> No_Token []
      | c # p \<Rightarrow>
          if c = Quote then
            (case cstr_count p of
               Gt_Len len \<Rightarrow> (case cstr_copy p of (s, r) \<Rightarrow> Token s r)
             | Gt_More \<Rightarrow> No_Token (c # p)
             | Gt_Bad \<Rightarrow> Bad_Token ''unknown escaped char after backslash'' (c # p))
          else
            (case plain_count c p of
               Some count \<Rightarrow> gt_plainstr (c # p) count
             | None \<Rightarrow> Bad_Token ''unexpected char'' (c # p)))"

section \<open>The copy fits what was counted\<close>

lemma gt_add_simps [simp]: "gt_add k x = Gt_Len n \<longleftrightarrow> (\<exists>m. x = Gt_Len m \<and> n = k + m)" "gt_add k x = Gt_More \<longleftrightarrow> x = Gt_More"
  "gt_add k x = Gt_Bad \<longleftrightarrow> x = Gt_Bad"
  by (cases x; auto)+

lemma cstr_count_fits:
  "cstr_count p = Gt_Len n \<Longrightarrow> cstr_copy p = (s, r) \<Longrightarrow> length s = n \<and> length r < length p \<and> (\<exists>q. p = q @ r)"
proof (induction p arbitrary: n s rule: cstr_count.induct)
  case (2 c p)
  show ?case
  proof (cases "c = Quote")
    case True
    with 2(3,4) show ?thesis by (auto intro: exI [of _ "[Quote]"])
  next
    case nq: False
    show ?thesis
    proof (cases "c = Backslash")
      case True
      with 2(3) nq obtain d q where p: "p = d # q" and u: "unescape d \<noteq> Nul" by (auto split: list.splits if_splits)
      with 2(3) nq True obtain m where m: "cstr_count q = Gt_Len m" "n = Suc m" by auto
      obtain s' where s': "cstr_copy q = (s', r)" "s = unescape d # s'" using 2(4) nq True p by (auto split: prod.splits)
      from 2(1) [OF nq True p u m(1) s'(1)] m s' p show ?thesis by (auto intro: exI [of _ "c # d # x" for x])
    next
      case False
      with 2(3) nq obtain m where m: "cstr_count p = Gt_Len m" "n = Suc m" by auto
      obtain s' where s': "cstr_copy p = (s', r)" "s = c # s'" using 2(4) nq False by (auto split: prod.splits)
      from 2(2) [OF nq False m(1) s'(1)] m s' show ?thesis by (auto intro: exI [of _ "c # x" for x])
    qed
  qed
qed simp

lemma number_count_le: "number_count p = Gt_Len n \<Longrightarrow> n \<le> length p"
  by (induction p arbitrary: n rule: number_count.induct) (auto split: if_splits list.splits)

lemma word_count_le: "word_count p = Gt_Len n \<Longrightarrow> n \<le> length p"
  by (induction p arbitrary: n rule: word_count.induct) (auto split: if_splits)

lemma gt_plainstr_simps [simp]:
  "gt_plainstr s k = Token t r \<longleftrightarrow> (\<exists>n. k = Gt_Len n \<and> t = take n s \<and> r = drop n s)"
  "gt_plainstr s k = No_Token r \<longleftrightarrow> (\<forall>n. k \<noteq> Gt_Len n) \<and> r = s" "gt_plainstr s k \<noteq> Bad_Token m r"
  by (auto simp: gt_plainstr_def split: gt_count.splits)

text \<open>A token that is not in quotes is a nonempty part of the buffer.\<close>

lemma plain_count_len:
  assumes "plain_count c p = Some (Gt_Len n)"
  shows "0 < n" "n \<le> length (c # p)"
  using assms number_count_le [of "c # p" n] word_count_le [of "c # p" n]
  by (auto simp: plain_count_def isalnum_def split: if_splits list.splits)

lemma gettoken_plain:
  assumes "gettoken str = Token tok rest" "dropWhile isspace str = c # p" "c \<noteq> Quote"
  obtains n where "0 < n" "n \<le> length (c # p)" "tok = take n (c # p)" "rest = drop n (c # p)"
  using assms that plain_count_len [of c p] by (auto simp: gettoken_def split: option.splits)

text \<open>Every token takes something from the buffer, which is why the loop over the tokens ends.\<close>

lemma gettoken_shorter:
  assumes "gettoken str = Token tok rest"
  shows "length rest < length str" "\<exists>q. str = q @ rest"
proof -
  obtain c p where s: "dropWhile isspace str = c # p" using assms by (cases "dropWhile isspace str") (auto simp: gettoken_def)
  have le: "Suc (length p) \<le> length str" using length_dropWhile_le [of isspace str] s by simp
  have split: "str = takeWhile isspace str @ c # p" using takeWhile_dropWhile_id [of isspace str] s by simp
  have "length rest < length (c # p) \<and> (\<exists>q. c # p = q @ rest)"
  proof (cases "c = Quote")
    case True
    then obtain n where "cstr_count p = Gt_Len n" "cstr_copy p = (tok, rest)" using assms s by (auto simp: gettoken_def split: gt_count.splits prod.splits)
    from cstr_count_fits [OF this] show ?thesis by (auto intro: exI [of _ "c # x" for x])
  next
    case False
    from gettoken_plain [OF assms s this] obtain n where "0 < n" "n \<le> length (c # p)" "rest = drop n (c # p)" .
    then show ?thesis by (auto intro!: exI [of _ "take n (c # p)"])
  qed
  with le split show "length rest < length str" "\<exists>q. str = q @ rest" by (auto intro: exI [of _ "takeWhile isspace str @ x" for x])
qed

section \<open>Scanning a longer buffer\<close>

text \<open>
  The parser scans what it has read so far, up to the end of a line, and scans the unfinished rest again
  with the next line. A token found in whole lines is found in any continuation of them, and so is an
  error; without a token the scanner goes on where it stopped.
\<close>

definition whole_lines :: "string \<Rightarrow> bool" where
  "whole_lines s \<longleftrightarrow> s = [] \<or> last s = Newline"

lemma whole_lines_append: "whole_lines (p @ r) \<Longrightarrow> whole_lines r"
  by (cases r) (auto simp: whole_lines_def last_append)

lemma whole_lines_cons: "whole_lines (c # p) \<longleftrightarrow> (if p = [] then c = Newline else whole_lines p)"
  by (simp add: whole_lines_def)

lemma whole_lines_Nil [simp]: "whole_lines []"
  by (simp add: whole_lines_def)

lemma cstr_count_append:
  "cstr_count p = Gt_Len n \<Longrightarrow> cstr_count (p @ e) = Gt_Len n" "cstr_count p = Gt_Bad \<Longrightarrow> cstr_count (p @ e) = Gt_Bad"
  by (induction p arbitrary: n rule: cstr_count.induct) (auto split: if_splits list.splits)

lemma cstr_copy_append: "cstr_count p = Gt_Len n \<Longrightarrow> cstr_copy p = (s, r) \<Longrightarrow> cstr_copy (p @ e) = (s, r @ e)"
  by (induction p arbitrary: n s rule: cstr_count.induct) (auto split: if_splits list.splits prod.splits)

lemma newline_class [simp]: "\<not> isdigit Newline" "\<not> isalpha Newline" "\<not> isalnum Newline" "isspace Newline"
  by (simp_all add: isdigit_def isalpha_def isalnum_def isspace_def)

lemma number_count_append: "whole_lines p \<Longrightarrow> p \<noteq> [] \<Longrightarrow> number_count (p @ e) = number_count p"
proof (induction p)
  case (Cons c p)
  show ?case
  proof (cases p)
    case Nil
    with Cons.prems show ?thesis by (simp add: whole_lines_cons)
  next
    case p: (Cons d q)
    with Cons have "number_count (p @ e) = number_count p" by (simp add: whole_lines_cons)
    with number_count.simps(2) [of c "p @ e"] number_count.simps(2) [of c p] show ?thesis by (simp add: p del: number_count.simps)
  qed
qed simp

lemma word_count_append: "whole_lines p \<Longrightarrow> p \<noteq> [] \<Longrightarrow> word_count (p @ e) = word_count p"
proof (induction p)
  case (Cons c p)
  then show ?case by (cases p) (simp_all add: whole_lines_cons)
qed simp

lemma gt_plainstr_append:
  "gt_plainstr s k = Token tok rest \<Longrightarrow> (\<And>n. k = Gt_Len n \<Longrightarrow> n \<le> length s) \<Longrightarrow> gt_plainstr (s @ e) k = Token tok (rest @ e)"
  by auto

lemma no_token_rest: "gettoken str = No_Token rest \<or> gettoken str = Bad_Token m rest \<Longrightarrow> rest = dropWhile isspace str"
proof (cases "dropWhile isspace str")
  case (Cons c p)
  assume "gettoken str = No_Token rest \<or> gettoken str = Bad_Token m rest"
  with Cons show ?thesis
    by (auto simp: gettoken_def split: if_splits option.splits gt_count.splits prod.splits)
next
  case Nil
  assume "gettoken str = No_Token rest \<or> gettoken str = Bad_Token m rest"
  with Nil show ?thesis unfolding gettoken_def Nil by simp
qed

lemma gettoken_head:
  assumes "dropWhile isspace s = c # p" "dropWhile isspace t = c # p"
  shows "gettoken s = gettoken t"
  using assms by (simp add: gettoken_def)

lemma plain_count_append:
  assumes w: "whole_lines (c # p)" and c: "\<not> isspace c"
  shows "plain_count c (p @ e) = plain_count c p"
proof -
  have "p \<noteq> []" using w c by (auto simp: whole_lines_cons)
  then have "(case p @ e of [] \<Rightarrow> False | d # q \<Rightarrow> P d) = (case p of [] \<Rightarrow> False | d # q \<Rightarrow> P d)" for P by (cases p) auto
  with number_count_append [OF w, of e] word_count_append [OF w, of e] show ?thesis
    unfolding plain_count_def by (simp del: number_count.simps word_count.simps)
qed

lemma gettoken_append_cons:
  assumes w: "whole_lines (c # p)" and c: "\<not> isspace c"
  shows "gettoken (c # p) = Token tok rest \<Longrightarrow> gettoken ((c # p) @ e) = Token tok (rest @ e)"
    "gettoken (c # p) = Bad_Token m rest \<Longrightarrow> gettoken ((c # p) @ e) = Bad_Token m (rest @ e)"
proof -
  { assume g: "gettoken (c # p) = Token tok rest"
    show "gettoken ((c # p) @ e) = Token tok (rest @ e)"
    proof (cases "c = Quote")
      case True
      with g c obtain n where n: "cstr_count p = Gt_Len n" "cstr_copy p = (tok, rest)" by (auto simp: gettoken_def split: gt_count.splits prod.splits)
      then show ?thesis using True c cstr_count_append(1) [OF n(1)] cstr_copy_append [OF n] by (simp add: gettoken_def)
    next
      case False
      with g c obtain k where k: "plain_count c p = Some k" "gt_plainstr (c # p) k = Token tok rest" by (auto simp: gettoken_def split: option.splits)
      have "gt_plainstr ((c # p) @ e) k = Token tok (rest @ e)" by (rule gt_plainstr_append [OF k(2)]) (use plain_count_len(2) k(1) in blast)
      with False c k(1) plain_count_append [OF assms] show ?thesis by (simp add: gettoken_def)
    qed }
  { assume "gettoken (c # p) = Bad_Token m rest"
    then show "gettoken ((c # p) @ e) = Bad_Token m (rest @ e)"
      using c cstr_count_append(2) [of p e] plain_count_append [OF assms]
      by (auto simp: gettoken_def split: if_splits option.splits gt_count.splits prod.splits) }
qed

lemma gettoken_append:
  assumes w: "whole_lines str"
  shows "gettoken str = Token tok rest \<Longrightarrow> gettoken (str @ e) = Token tok (rest @ e)"
    "gettoken str = Bad_Token m rest \<Longrightarrow> gettoken (str @ e) = Bad_Token m (rest @ e)"
    "gettoken str = No_Token rest \<Longrightarrow> gettoken (str @ e) = gettoken (rest @ e)"
proof -
  have eq: "gettoken str = gettoken (c # p)" "gettoken (str @ e) = gettoken ((c # p) @ e)" "whole_lines (c # p)" "\<not> isspace c"
    if d: "dropWhile isspace str = c # p" for c p
  proof -
    have split: "str = takeWhile isspace str @ c # p" using takeWhile_dropWhile_id [of isspace str] d by simp
    show c: "\<not> isspace c" using d by (simp add: dropWhile_eq_Cons_conv)
    show "whole_lines (c # p)" using w whole_lines_append [of "takeWhile isspace str" "c # p"] split by simp
    have "c \<in> set str" by (subst split) simp
    then have "dropWhile isspace (str @ e) = (c # p) @ e" using d dropWhile_append1 [of c str isspace e] c by simp
    with d c show "gettoken str = gettoken (c # p)" "gettoken (str @ e) = gettoken ((c # p) @ e)" by (auto intro: gettoken_head)
  qed
  show "gettoken str = Token tok rest \<Longrightarrow> gettoken (str @ e) = Token tok (rest @ e)"
    "gettoken str = Bad_Token m rest \<Longrightarrow> gettoken (str @ e) = Bad_Token m (rest @ e)"
    using eq gettoken_append_cons by (cases "dropWhile isspace str"; simp add: gettoken_def)+
  assume n: "gettoken str = No_Token rest"
  show "gettoken (str @ e) = gettoken (rest @ e)"
  proof (cases "dropWhile isspace str")
    case Nil
    then have "\<And>x. x \<in> set str \<Longrightarrow> isspace x" by (simp add: dropWhile_eq_Nil_conv)
    then have "dropWhile isspace (str @ e) = dropWhile isspace e" by (rule dropWhile_append2)
    moreover have "rest = []" using no_token_rest [of str rest] n Nil by simp
    ultimately show ?thesis by (simp add: gettoken_def)
  next
    case (Cons c p)
    with n no_token_rest [of str rest] eq [OF Cons] show ?thesis by simp
  qed
qed

lemma gettoken_whole_lines:
  assumes "whole_lines str"
  shows "gettoken str = Token tok rest \<Longrightarrow> whole_lines rest" "gettoken str = No_Token rest \<or> gettoken str = Bad_Token m rest \<Longrightarrow> whole_lines rest"
proof -
  { assume "gettoken str = Token tok rest"
    with gettoken_shorter(2) [OF this] assms whole_lines_append show "whole_lines rest" by blast }
  { assume "gettoken str = No_Token rest \<or> gettoken str = Bad_Token m rest"
    from no_token_rest [OF this] show "whole_lines rest" using assms whole_lines_append [of "takeWhile isspace str" rest] by simp }
qed

text \<open>No token ends with the newline, so there is always something behind it.\<close>

lemma cstr_copy_quote: "cstr_count p = Gt_Len n \<Longrightarrow> cstr_copy p = (s, r) \<Longrightarrow> \<exists>q. p = q @ Quote # r"
proof (induction p arbitrary: n s rule: cstr_count.induct)
  case (2 c p)
  show ?case
  proof (cases "c = Quote")
    case True
    with 2(4) show ?thesis by auto
  next
    case nq: False
    show ?thesis
    proof (cases "c = Backslash")
      case True
      with 2(3) nq obtain d q m where p: "p = d # q" and u: "unescape d \<noteq> Nul" and m: "cstr_count q = Gt_Len m"
        by (auto split: list.splits if_splits)
      obtain s' where "cstr_copy q = (s', r)" using 2(4) nq True p by (auto split: prod.splits)
      from 2(1) [OF nq True p u m this] p show ?thesis by (metis append_Cons)
    next
      case False
      with 2(3) nq obtain m where m: "cstr_count p = Gt_Len m" by auto
      obtain s' where "cstr_copy p = (s', r)" using 2(4) nq False by (auto split: prod.splits)
      from 2(2) [OF nq False m this] show ?thesis by (metis append_Cons)
    qed
  qed
qed simp

lemma number_count_newline: "number_count p = Gt_Len n \<Longrightarrow> Newline \<notin> set (take n p)"
  by (induction p arbitrary: n rule: number_count.induct) (auto split: if_splits list.splits)

lemma word_count_newline: "word_count p = Gt_Len n \<Longrightarrow> Newline \<notin> set (take n p)"
  by (induction p arbitrary: n rule: word_count.induct) (auto split: if_splits)

lemma plain_count_newline:
  assumes "plain_count c p = Some (Gt_Len n)"
  shows "Newline \<notin> set (take n (c # p))"
proof (cases "isdigit c \<or> isalpha c")
  case True
  with assms number_count_newline [of "c # p" n] word_count_newline [of "c # p" n] show ?thesis
    by (auto simp: plain_count_def simp del: number_count.simps word_count.simps split: if_splits)
next
  case False
  with assms show ?thesis by (cases p) (auto simp: plain_count_def split: if_splits)
qed

lemma gettoken_rest:
  assumes w: "whole_lines str" and g: "gettoken str = Token tok rest"
  shows "rest \<noteq> []"
proof
  assume r: "rest = []"
  obtain c p where s: "dropWhile isspace str = c # p" using g by (cases "dropWhile isspace str") (auto simp: gettoken_def)
  have "str = takeWhile isspace str @ c # p" using takeWhile_dropWhile_id [of isspace str] s by simp
  with w have l: "last (c # p) = Newline" by (metis last_appendR list.distinct(1) append_is_Nil_conv whole_lines_def)
  show False
  proof (cases "c = Quote")
    case True
    then obtain n where "cstr_count p = Gt_Len n" "cstr_copy p = (tok, rest)" using g s by (auto simp: gettoken_def split: gt_count.splits prod.splits)
    from cstr_copy_quote [OF this] r l True show False by auto
  next
    case False
    then obtain n where n: "plain_count c p = Some (Gt_Len n)" "rest = drop n (c # p)" using g s by (auto simp: gettoken_def split: option.splits)
    with r have "take n (c # p) = c # p" by simp
    with plain_count_newline [OF n(1)] l show False by (metis last_in_set list.distinct(1))
  qed
qed

end
