(* ===== verification/Conf_Parser.thy ===== *)
theory Conf_Parser
  imports Conf_Token
begin

text \<open>
  \<open>redsocks/parser.c\<close>, second half: the values of the configuration and the loop that reads the file line
  by line into a growing buffer and acts on its tokens. The sections belong to the subsystems; what
  entering and leaving a section and storing a value do to their data is in the section.
\<close>

section \<open>Numbers and addresses\<close>

text \<open>
  \<open>strtoul\<close> with base 0, the value and what \<open>end\<close> points to. The program is built for 32 bit machines only,
  where \<open>unsigned long\<close> has 32 bits. Without any digit the end is the beginning.
\<close>

definition strtoul_base :: "string \<Rightarrow> nat \<times> string" where
  "strtoul_base s =
     (if strip_0x s \<noteq> s then (16, strip_0x s)
      else if s \<noteq> [] \<and> hd s = CHR ''0'' then (8, s)
      else (10, s))"

definition strtoul :: "string \<Rightarrow> u32 \<times> string" where
  "strtoul s =
     (let (neg, t) = scan_sign (dropWhile isspace s);
          (base, t) = strtoul_base t
      in case scan_digits base t of
           None \<Rightarrow> (0, s)
         | Some (n, rest) \<Rightarrow> if n > 2 ^ 32 - 1 then (- 1, rest) else (if neg then - of_int n else of_int n, rest))"

text \<open>The numbers-and-dots notation of \<open>inet_aton\<close>: each part a decimal, octal or hexadecimal number, the last filling what is left.\<close>

fun split_dots :: "string \<Rightarrow> string list" where
  "split_dots [] = [[]]"
| "split_dots (c # s) =
     (if c = CHR ''.'' then [] # split_dots s else (case split_dots s of [] \<Rightarrow> [[c]] | p # ps \<Rightarrow> (c # p) # ps))"

definition inet_part :: "string \<Rightarrow> nat option" where
  "inet_part s =
     (if s = [] \<or> \<not> isdigit (hd s) then None
      else let (base, t) = strtoul_base s in
        case scan_digits base t of
          Some (n, []) \<Rightarrow> if n \<le> 2 ^ 32 - 1 then Some (nat n) else None
        | _ \<Rightarrow> None)"

definition inet_aton :: "string \<Rightarrow> bytes option" where
  "inet_aton s =
     do {
       parts \<leftarrow> those (map inet_part (split_dots s));
       if length parts \<le> 4 \<and> (\<forall>p \<in> set (butlast parts). p \<le> 255) \<and> last parts < 256 ^ (5 - length parts)
       then Some (map of_nat (butlast parts) @ drop (length parts - 1) (be32b (of_nat (last parts))))
       else None
     }"

section \<open>Values\<close>

datatype parser_type = Pt_Bool | Pt_Pchar | Pt_Uint16 | Pt_In_Addr | Pt_In_Addr2

text \<open>What is stored at the address of an entry; a network has its mask behind it.\<close>

datatype conf_value = V_Bool bool | V_Pchar string | V_Uint16 u16 | V_In_Addr bytes | V_In_Mask bytes

text \<open>The resolver and the random number generator; the number says how many addresses were parsed before.\<close>

record conf_env =
  ce_getaddrinfo :: "nat \<Rightarrow> string \<Rightarrow> string + bytes list"
  ce_rand :: "nat \<Rightarrow> nat"

text \<open>A value parser: what it stores and the error it reports before it returns \<open>-1\<close>, or \<open>None\<close> for undefined behaviour.\<close>

type_synonym vp_result = "(conf_value list \<times> string list) option"

definition strtrue :: "string list" where "strtrue = [''ok'', ''on'', ''yes'', ''true'']"
definition strfalse :: "string list" where "strfalse = [''off'', ''no'', ''false'']"

definition vp_pbool :: "string \<Rightarrow> vp_result" where
  "vp_pbool tok =
     (if tok \<in> set strtrue then Some ([V_Bool True], [])
      else if tok \<in> set strfalse then Some ([V_Bool False], [])
      else Some ([], [''boolean is not parsed'']))"

definition vp_pchar :: "string \<Rightarrow> vp_result" where
  "vp_pchar tok = Some ([V_Pchar tok], [])"

definition vp_uint16 :: "string \<Rightarrow> vp_result" where
  "vp_uint16 tok =
     (let (uli, end) = strtoul tok in
      if uli > 0xFFFF then Some ([], [''integer out of 16bit range''])
      else if end \<noteq> [] then Some ([], [''integer is not parsed''])
      else Some ([V_Uint16 (ucast uli)], []))"

definition vp_in_addr :: "conf_env \<Rightarrow> nat \<Rightarrow> string \<Rightarrow> vp_result" where
  "vp_in_addr env k tok =
     (case inet_aton tok of
        Some ia \<Rightarrow> Some ([V_In_Addr ia], [])
      | None \<Rightarrow>
          (case ce_getaddrinfo env k tok of
             Inr ainfo \<Rightarrow> if ainfo = [] then None else Some ([V_In_Addr (ainfo ! (ce_rand env k mod length ainfo))], [])
           | Inl err \<Rightarrow> Some ([], [err])))"

definition vp_in_addr2 :: "string \<Rightarrow> vp_result" where
  "vp_in_addr2 tok =
     (let host = takeWhile (\<lambda>c. c \<noteq> CHR ''/'') tok;
          mask = drop (length host) tok;
          net = (case inet_aton host of Some ia \<Rightarrow> ([V_In_Addr ia], []) | None \<Rightarrow> ([], [''invalid IP address'']));
          bits = (case mask of
              [] \<Rightarrow> ([], [])
            | _ # mask \<Rightarrow>
                (let (uli, end) = strtoul mask in
                 if end \<noteq> [] \<and> hd end = CHR ''.'' then
                   (case inet_aton mask of Some ia \<Rightarrow> ([V_In_Mask ia], []) | None \<Rightarrow> ([], [''invalid IP address'']))
                 else if 0 < uli \<and> uli < 32 then ([V_In_Mask (be32b (push_bit (32 - unat uli) (- 1)))], [])
                 else ([], [''number of netmask bits out of range''])))
      in Some (fst net @ fst bits, snd net @ snd bits))"

definition value_parser_by_type :: "conf_env \<Rightarrow> nat \<Rightarrow> parser_type \<Rightarrow> string \<Rightarrow> vp_result" where
  "value_parser_by_type env k type tok =
     (case type of
        Pt_Bool \<Rightarrow> vp_pbool tok
      | Pt_Pchar \<Rightarrow> vp_pchar tok
      | Pt_Uint16 \<Rightarrow> vp_uint16 tok
      | Pt_In_Addr \<Rightarrow> vp_in_addr env k tok
      | Pt_In_Addr2 \<Rightarrow> vp_in_addr2 tok)"

section \<open>Sections and tokens\<close>

text \<open>
  A section of a subsystem whose data is of type \<open>'a\<close>. The handlers return the message of the error they
  report when they return \<open>-1\<close>; \<open>sec_write\<close> stores at the address of the entry with the key.
\<close>

record 'a parser_section =
  sec_name :: string
  sec_onenter :: "'a \<Rightarrow> 'a \<times> string option"
  sec_onexit :: "'a \<Rightarrow> 'a \<times> string option"
  sec_entries :: "(string \<times> parser_type) list"
  sec_write :: "string \<Rightarrow> conf_value \<Rightarrow> 'a \<Rightarrow> 'a"

text \<open>The part of the state that the tokens change; the errors are in the order of their reports.\<close>

record 'a parser_core =
  pr_errors :: "string list"
  pr_section :: "'a parser_section option"
  pr_section_token :: "string option"
  pr_key_token :: "string option"
  pr_value_token :: "string option"
  pr_lookups :: nat
  pr_data :: 'a

definition parser_error :: "string \<Rightarrow> 'a parser_core \<Rightarrow> 'a parser_core" where
  "parser_error msg co = co\<lparr>pr_errors := pr_errors co @ [msg]\<rparr>"

definition token_open :: "'a parser_section list \<Rightarrow> 'a parser_core \<Rightarrow> 'a parser_core" where
  "token_open sections co =
     (if pr_section co \<noteq> None then parser_error ''section-in-section is invalid'' co
      else case pr_section_token co of
        None \<Rightarrow> parser_error ''expected token before opening brace'' co
      | Some name \<Rightarrow>
          (case find (\<lambda>p. sec_name p = name) sections of
             Some section \<Rightarrow>
               (let (d, err) = sec_onenter section (pr_data co);
                    co = co\<lparr>pr_section := Some section, pr_data := d, pr_section_token := None\<rparr>
                in case err of None \<Rightarrow> co | Some m \<Rightarrow> parser_error ''section->onenter failed'' (parser_error m co))
           | None \<Rightarrow> parser_error ''unknown section'' (co\<lparr>pr_section_token := None\<rparr>)))"

definition token_close :: "'a parser_core \<Rightarrow> 'a parser_core" where
  "token_close co =
     (case pr_section co of
        Some section \<Rightarrow>
          (let (d, err) = sec_onexit section (pr_data co);
               co = co\<lparr>pr_section := None, pr_data := d\<rparr>
           in case err of None \<Rightarrow> co | Some m \<Rightarrow> parser_error ''section->onexit failed'' (parser_error m co))
      | None \<Rightarrow> parser_error ''can't close non-opened section'' co)"

definition token_assign :: "'a parser_core \<Rightarrow> 'a parser_core" where
  "token_assign co =
     (if pr_section co = None then parser_error ''assignment used outside of any section'' co
      else if pr_key_token co = None then parser_error ''assignment used without key'' co
      else co)"

text \<open>
  The end of an assignment. The search for the key stops at the empty entry at the end of the table, which
  is not a null pointer: an unknown key has the type \<open>pt_bool\<close> and the null pointer for its address, so
  storing its value is undefined. A semicolon without an assignment runs into an assertion.
\<close>

definition entry_type :: "'a parser_section \<Rightarrow> string \<Rightarrow> parser_type option" where
  "entry_type section key = map_of (sec_entries section) key"

definition entry_value :: "conf_env \<Rightarrow> 'a parser_section \<Rightarrow> nat \<Rightarrow> string \<Rightarrow> string \<Rightarrow> vp_result" where
  "entry_value env section k key val =
     (case entry_type section key of
        Some type \<Rightarrow> value_parser_by_type env k type val
      | None \<Rightarrow> (case vp_pbool val of Some ([], errs) \<Rightarrow> Some ([], errs) | _ \<Rightarrow> None))"

definition assign_value :: "conf_env \<Rightarrow> 'a parser_section \<Rightarrow> string \<Rightarrow> string \<Rightarrow> 'a parser_core \<Rightarrow> 'a parser_core option" where
  "assign_value env section key val co =
     do {
       (writes, errs) \<leftarrow> entry_value env section (pr_lookups co) key val;
       let co = co\<lparr>pr_data := fold (sec_write section key) writes (pr_data co), pr_errors := pr_errors co @ errs,
                   pr_lookups := pr_lookups co + (if entry_type section key = Some Pt_In_Addr then 1 else 0)\<rparr>;
       Some (if errs = [] then co else parser_error ''value can't be parsed'' co)
     }"

definition token_end :: "conf_env \<Rightarrow> 'a parser_core \<Rightarrow> 'a parser_core option" where
  "token_end env co =
     do {
       co \<leftarrow> (case pr_section co of
           None \<Rightarrow> Some (parser_error ''assignment termination outside of any section'' co)
         | Some section \<Rightarrow>
             (case (pr_key_token co, pr_value_token co) of
                (Some key, None) \<Rightarrow> Some (parser_error ''assignment has only key but no value'' co)
              | (Some key, Some val) \<Rightarrow> assign_value env section key val co
              | (None, _) \<Rightarrow> None));
       Some (co\<lparr>pr_key_token := None, pr_value_token := None\<rparr>)
     }"

definition token_word :: "string \<Rightarrow> 'a parser_core \<Rightarrow> 'a parser_core" where
  "token_word tok co =
     (if pr_section co = None \<and> pr_section_token co = None then co\<lparr>pr_section_token := Some tok\<rparr>
      else if pr_section co \<noteq> None \<and> pr_key_token co = None then co\<lparr>pr_key_token := Some tok\<rparr>
      else if pr_section co \<noteq> None \<and> pr_value_token co = None then co\<lparr>pr_value_token := Some tok\<rparr>
      else parser_error ''invalid token order'' co)"

definition run_token :: "conf_env \<Rightarrow> 'a parser_section list \<Rightarrow> string \<Rightarrow> 'a parser_core \<Rightarrow> 'a parser_core option" where
  "run_token env sections tok co =
     (if tok = ''{'' then Some (token_open sections co)
      else if tok = ''}'' then Some (token_close co)
      else if tok = ''='' then Some (token_assign co)
      else if tok = '';'' then token_end env co
      else Some (token_word tok co))"

text \<open>
  The loop over the tokens of the buffer. The result has the rest of the buffer, whether a comment has
  begun, and whether the loop ended for want of a token. A comment to the end of the line is cut out up to
  the newline; without one the pointer arithmetic is undefined.
\<close>

fun after_newline :: "string \<Rightarrow> string option" where
  "after_newline [] = None"
| "after_newline (c # s) = (if c = Newline then Some s else after_newline s)"

lemma after_newline_shorter: "after_newline s = Some r \<Longrightarrow> length r < length s"
  by (induction s) (auto split: if_splits)

function run_tokens :: "conf_env \<Rightarrow> 'a parser_section list \<Rightarrow> 'a parser_core \<Rightarrow> string \<Rightarrow>
    ('a parser_core \<times> string \<times> bool \<times> bool) option" where
  "run_tokens env sections co iter =
     (if pr_errors co \<noteq> [] then Some (co, iter, False, False)
      else case gettoken iter of
        No_Token rest \<Rightarrow> Some (co, rest, False, True)
      | Bad_Token msg rest \<Rightarrow> Some (parser_error msg co, rest, False, True)
      | Token tok rest \<Rightarrow>
          if tok = ''//'' then
            (case after_newline rest of None \<Rightarrow> None | Some rest \<Rightarrow> run_tokens env sections co rest)
          else if tok = ''/*'' then Some (co, rest, True, False)
          else (case run_token env sections tok co of None \<Rightarrow> None | Some co \<Rightarrow> run_tokens env sections co rest))"
  by pat_completeness auto
termination
  by (relation "measure (\<lambda>(env, sections, co, iter). length iter)") (auto dest!: gettoken_shorter(1) after_newline_shorter)

declare run_tokens.simps [simp del]

section \<open>The file and the buffer\<close>

text \<open>A file has the bytes that are still to come, and whether reading ends with the end of the file or with an error.\<close>

record conf_file =
  fi_data :: string
  fi_broken :: bool
  fi_eof :: bool
  fi_error :: bool

text \<open>The characters up to a newline or to the size of the buffer, whichever comes first, and whether either was reached.\<close>

fun read_line :: "nat \<Rightarrow> string \<Rightarrow> string \<times> string \<times> bool" where
  "read_line 0 s = ([], s, True)"
| "read_line (Suc n) [] = ([], [], False)"
| "read_line (Suc n) (c # s) =
     (if c = Newline then ([c], s, True) else (case read_line n s of (l, r, full) \<Rightarrow> (c # l, r, full)))"

definition fgets :: "nat \<Rightarrow> conf_file \<Rightarrow> string option \<times> conf_file" where
  "fgets n f =
     (let (l, r, full) = read_line (n - 1) (fi_data f); f = f\<lparr>fi_data := r\<rparr> in
      if full then (Some l, f)
      else if fi_broken f then (None, f\<lparr>fi_error := True\<rparr>)
      else (if l = [] then None else Some l, f\<lparr>fi_eof := True\<rparr>))"

text \<open>The context of the parser with the local variables of \<open>parser_run\<close>; \<open>pc_data\<close> is the buffer up to \<open>filled\<close>.\<close>

record 'a parser_context =
  pc_core :: "'a parser_core"
  pc_file :: conf_file
  pc_line :: nat
  pc_size :: nat
  pc_data :: string
  pc_in_comment :: bool
  pc_need_more_space :: bool
  pc_need_more_data :: bool
  pc_failed :: bool

definition parser_start :: "'a \<Rightarrow> conf_file \<Rightarrow> 'a parser_context" where
  "parser_start d f =
     \<lparr>pc_core = \<lparr>pr_errors = [], pr_section = None, pr_section_token = None, pr_key_token = None, pr_value_token = None,
                 pr_lookups = 0, pr_data = d\<rparr>,
      pc_file = f, pc_line = 0, pc_size = 128, pc_data = [], pc_in_comment = False, pc_need_more_space = False,
      pc_need_more_data = True, pc_failed = False\<rparr>"

fun after_comment :: "string \<Rightarrow> string option" where
  "after_comment (c # d # s) = (if c = CHR ''*'' \<and> d = CHR ''/'' then Some s else after_comment (d # s))"
| "after_comment s = None"

text \<open>
  One round of the loop: more space, then more data, and with a whole line in the buffer the comment and
  the tokens. \<open>None\<close> is undefined behaviour: a failed assertion, a write outside the buffer, or that of a token.
\<close>

definition parser_scan :: "conf_env \<Rightarrow> 'a parser_section list \<Rightarrow> 'a parser_context \<Rightarrow> 'a parser_context option" where
  "parser_scan env sections cx =
     (case (if pc_in_comment cx then after_comment (pc_data cx) else Some (pc_data cx)) of
        None \<Rightarrow> Some (cx\<lparr>pc_data := [], pc_need_more_data := True\<rparr>)
      | Some iter \<Rightarrow>
          do {
            (co, rest, in_comment, no_token) \<leftarrow> run_tokens env sections (pc_core cx) iter;
            Some (cx\<lparr>pc_core := co, pc_data := rest, pc_in_comment := in_comment,
                     pc_need_more_data := pc_need_more_data cx \<or> no_token\<rparr>)
          })"

definition parser_round :: "conf_env \<Rightarrow> 'a parser_section list \<Rightarrow> 'a parser_context \<Rightarrow> 'a parser_context option" where
  "parser_round env sections cx =
     (if \<not> length (pc_data cx) < pc_size cx then None
      else
        let cx = (if pc_need_more_space cx then cx\<lparr>pc_size := pc_size cx * 2, pc_need_more_space := False\<rparr> else cx) in
        if pc_need_more_data cx then
          (case fgets (pc_size cx - length (pc_data cx)) (pc_file cx) of
             (None, f) \<Rightarrow>
               Some (if fi_error f
                     then cx\<lparr>pc_file := f, pc_core := parser_error ''file read failure'' (pc_core cx), pc_failed := True\<rparr>
                     else cx\<lparr>pc_file := f\<rparr>)
           | (Some line, f) \<Rightarrow>
               (let sbegin = takeWhile (\<lambda>c. c \<noteq> Nul) line;
                    cx = cx\<lparr>pc_file := f, pc_data := pc_data cx @ sbegin\<rparr> in
                if \<not> length (pc_data cx) < pc_size cx then None
                else if sbegin \<noteq> [] \<and> last sbegin = Newline
                then parser_scan env sections (cx\<lparr>pc_line := pc_line cx + 1, pc_need_more_data := False\<rparr>)
                else Some (cx\<lparr>pc_need_more_space := True\<rparr>)))
        else parser_scan env sections cx)"

text \<open>The loop. The outer \<open>None\<close> would be a loop that never ends, the inner one undefined behaviour.\<close>

partial_function (option) parser_loop :: "conf_env \<Rightarrow> 'a parser_section list \<Rightarrow> 'a parser_context \<Rightarrow> 'a parser_context option option" where
  "parser_loop env sections cx =
     (if pr_errors (pc_core cx) \<noteq> [] \<or> fi_eof (pc_file cx) \<or> pc_failed cx then Some (Some cx)
      else case parser_round env sections cx of
        None \<Rightarrow> Some None
      | Some cx \<Rightarrow> parser_loop env sections cx)"

text \<open>What is open at the end is an error.\<close>

definition report_stale :: "'b option \<Rightarrow> string \<Rightarrow> 'a parser_core \<Rightarrow> 'a parser_core" where
  "report_stale x msg co = (if x = None then co else parser_error msg co)"

definition parser_finish :: "'a parser_core \<Rightarrow> 'a parser_core" where
  "parser_finish co =
     report_stale (pr_value_token co) ''stale value_token''
       (report_stale (pr_key_token co) ''stale key_token''
         (report_stale (pr_section_token co) ''stale section_token''
           (report_stale (pr_section co) ''unclosed section'' co)))"

text \<open>The result: whether \<open>parser_run\<close> returned 0, and the data of the sections.\<close>

definition parser_result :: "'a parser_core \<Rightarrow> bool \<times> 'a" where
  "parser_result co = (pr_errors co = [], pr_data co)"

definition parser_run :: "conf_env \<Rightarrow> 'a parser_section list \<Rightarrow> 'a \<Rightarrow> conf_file \<Rightarrow> (bool \<times> 'a) option option" where
  "parser_run env sections d f =
     map_option (map_option (\<lambda>cx. parser_result (if pc_failed cx then pc_core cx else parser_finish (pc_core cx))))
       (parser_loop env sections (parser_start d f))"

end
