(* ===== verification/Conf_Ref.thy ===== *)
theory Conf_Ref
  imports Conf_Parser
begin

text \<open>
  What the configuration parser computes, without its buffer: the text is cut into tokens at once, and the
  tokens are acted on in their order. The loop of \<open>parser.c\<close>, which reads the file in pieces that fit its
  buffer and scans unfinished lines again, is shown to compute the same, for every file and whatever
  the size of the buffer, and to end.
\<close>

section \<open>The reference\<close>

datatype lexeme = Lx_Token string | Lx_Error string | Lx_Undefined

function conf_lex :: "bool \<Rightarrow> string \<Rightarrow> lexeme list" where
  "conf_lex in_comment s =
     (if in_comment then (case after_comment s of None \<Rightarrow> [] | Some r \<Rightarrow> conf_lex False r)
      else case gettoken s of
        No_Token r \<Rightarrow> []
      | Bad_Token msg r \<Rightarrow> [Lx_Error msg]
      | Token tok r \<Rightarrow>
          if tok = ''//'' then (case after_newline r of None \<Rightarrow> [Lx_Undefined] | Some r \<Rightarrow> conf_lex False r)
          else if tok = ''/*'' then conf_lex True r
          else Lx_Token tok # conf_lex False r)"
  by pat_completeness auto

lemma after_comment_shorter: "after_comment s = Some r \<Longrightarrow> length r < length s"
  by (induction s rule: after_comment.induct) (auto split: if_splits)

termination conf_lex
  by (relation "measure (\<lambda>(in_comment, s). length s)") (auto dest!: gettoken_shorter(1) after_newline_shorter after_comment_shorter)

declare conf_lex.simps [simp del]

fun conf_exec :: "conf_env \<Rightarrow> 'a parser_section list \<Rightarrow> 'a parser_core \<Rightarrow> lexeme list \<Rightarrow> 'a parser_core option" where
  "conf_exec env sections co [] = Some co"
| "conf_exec env sections co (x # xs) =
     (if pr_errors co \<noteq> [] then Some co
      else case x of
        Lx_Error msg \<Rightarrow> Some (parser_error msg co)
      | Lx_Undefined \<Rightarrow> None
      | Lx_Token tok \<Rightarrow> (case run_token env sections tok co of None \<Rightarrow> None | Some co \<Rightarrow> conf_exec env sections co xs))"

text \<open>The part of a text that consists of whole lines; a last line without a newline is never looked at.\<close>

definition line_part :: "string \<Rightarrow> string" where
  "line_part s = rev (dropWhile (\<lambda>c. c \<noteq> Newline) (rev s))"

abbreviation conf_read :: "conf_env \<Rightarrow> 'a parser_section list \<Rightarrow> bool \<Rightarrow> 'a parser_core \<Rightarrow> string \<Rightarrow> 'a parser_core option" where
  "conf_read env sections in_comment co s \<equiv> conf_exec env sections co (conf_lex in_comment s)"

lemma conf_exec_errors [simp]: "pr_errors co \<noteq> [] \<Longrightarrow> conf_exec env sections co xs = Some co"
  by (cases xs) auto

section \<open>Whole lines\<close>

lemma line_part_append: "line_part (s @ t) = (if Newline \<in> set t then s @ line_part t else line_part s)"
proof (cases "Newline \<in> set t")
  case True
  then show ?thesis by (simp add: line_part_def dropWhile_append1 [of Newline])
next
  case False
  then have "dropWhile (\<lambda>c. c \<noteq> Newline) (rev t @ rev s) = dropWhile (\<lambda>c. c \<noteq> Newline) (rev s)" by (intro dropWhile_append2) auto
  with False show ?thesis by (simp add: line_part_def)
qed

lemma line_part_whole [simp]: "whole_lines s \<Longrightarrow> line_part s = s"
  by (cases s rule: rev_cases) (auto simp: line_part_def whole_lines_def)

lemma line_part_no_newline [simp]: "Newline \<notin> set s \<Longrightarrow> line_part s = []"
  by (auto simp: line_part_def dropWhile_eq_Nil_conv)

lemma after_newline_append:
  assumes "whole_lines s" "s \<noteq> []"
  obtains r where "after_newline s = Some r" "after_newline (s @ e) = Some (r @ e)" "whole_lines r"
proof -
  have "\<exists>r. after_newline s = Some r \<and> after_newline (s @ e) = Some (r @ e) \<and> whole_lines r" using assms
    by (induction s) (auto simp: whole_lines_cons split: if_splits)
  with that show thesis by blast
qed

lemma after_comment_append: "after_comment s = Some r \<Longrightarrow> after_comment (s @ e) = Some (r @ e)"
  by (induction s rule: after_comment.induct) (auto split: if_splits)

lemma after_comment_none:
  assumes "whole_lines s" "after_comment s = None"
  shows "after_comment (s @ e) = after_comment e"
  using assms
  by (induction s rule: after_comment.induct) (cases e; auto simp: whole_lines_cons split: if_splits)+

lemma after_comment_whole:
  assumes "whole_lines s" "after_comment s = Some r"
  shows "whole_lines r"
  using assms by (induction s rule: after_comment.induct) (auto simp: whole_lines_cons split: if_splits)

section \<open>The tokens of the buffer\<close>

text \<open>What the loop over the tokens leaves of whole lines is read on with whatever follows them.\<close>

lemma run_tokens_read:
  assumes "whole_lines d"
  shows "case run_tokens env sections co d of
      None \<Rightarrow> conf_read env sections False co (d @ e) = None
    | Some (co', rest, in_comment, no_token) \<Rightarrow>
        conf_read env sections False co (d @ e) = conf_read env sections in_comment co' (rest @ e) \<and> whole_lines rest \<and>
        (no_token \<longrightarrow> pr_errors co' \<noteq> [] \<or> conf_lex in_comment rest = []) \<and> (in_comment \<longrightarrow> length rest < length d) \<and>
        (no_token \<or> in_comment \<or> pr_errors co' \<noteq> [])"
  using assms
proof (induction env sections co d rule: run_tokens.induct)
  case (1 env sections co iter)
  note w = 1(3)
  show ?case
  proof (cases "pr_errors co = []")
    case False
    with w show ?thesis by (simp add: run_tokens.simps)
  next
    case ok: True
    show ?thesis
    proof (cases "gettoken iter")
      case (No_Token rest)
      from gettoken_append(3) [OF w this] have g: "gettoken (iter @ e) = gettoken (rest @ e)" "gettoken rest = No_Token rest" for e
        using No_Token gettoken_append(3) [OF w No_Token, of "[]"] by simp_all
      then have "conf_lex False (iter @ e) = conf_lex False (rest @ e)" "conf_lex False rest = []" by (simp_all add: conf_lex.simps)
      then show ?thesis using ok No_Token gettoken_whole_lines(2) [OF w] by (simp add: run_tokens.simps)
    next
      case (Bad_Token m rest)
      from gettoken_append(2) [OF w this, of e] have "conf_lex False (iter @ e) = [Lx_Error m]" by (simp add: conf_lex.simps)
      moreover have "whole_lines rest" using gettoken_whole_lines(2) [OF w] Bad_Token by blast
      ultimately show ?thesis using ok Bad_Token by (simp add: run_tokens.simps parser_error_def)
    next
      case (Token tok rest)
      note g = gettoken_append(1) [OF w this, of e] and wr = gettoken_whole_lines(1) [OF w Token] and ne = gettoken_rest [OF w Token]
        and sh = gettoken_shorter(1) [OF Token]
      consider "tok = ''//''" | "tok = ''/*''" | "tok \<noteq> ''//''" "tok \<noteq> ''/*''" by blast
      then show ?thesis
      proof cases
        case 1
        obtain r where r: "after_newline rest = Some r" "after_newline (rest @ e) = Some (r @ e)" "whole_lines r"
          by (rule after_newline_append [OF wr ne])
        have "conf_lex False (iter @ e) = conf_lex False (r @ e)" using g 1 r(2) conf_lex.simps [of False "iter @ e"] by simp
        moreover have "run_tokens env sections co iter = run_tokens env sections co r" using ok Token 1 r(1) run_tokens.simps [of env sections co iter] by simp
        moreover note "1.IH"(1) [OF _ Token 1 r(1) r(3)] after_newline_shorter [OF r(1)]
        ultimately show ?thesis using ok sh by (auto split: option.splits)
      next
        case 2
        then have "conf_lex False (iter @ e) = conf_lex True (rest @ e)" using g conf_lex.simps [of False "iter @ e"] by simp
        with 2 ok Token wr sh show ?thesis by (simp add: run_tokens.simps)
      next
        case 3
        then have l: "conf_lex False (iter @ e) = Lx_Token tok # conf_lex False (rest @ e)" using g conf_lex.simps [of False "iter @ e"] by simp
        show ?thesis
        proof (cases "run_token env sections tok co")
          case None
          with 3 ok Token l show ?thesis by (simp add: run_tokens.simps)
        next
          case (Some co2)
          have "run_tokens env sections co iter = run_tokens env sections co2 rest" using 3 ok Token Some run_tokens.simps [of env sections co iter] by simp
          with "1.IH"(2) [OF _ Token 3 Some wr] l ok Some sh show ?thesis by (auto split: option.splits)
        qed
      qed
    qed
  qed
qed

section \<open>Reading the file\<close>

lemma read_line_split:
  "read_line n s = (l, r, full) \<Longrightarrow> s = l @ r \<and> length l \<le> n \<and> (full \<longrightarrow> (length l = n \<or> l \<noteq> [] \<and> last l = Newline)) \<and>
     (\<not> full \<longrightarrow> r = [] \<and> Newline \<notin> set l) \<and> Newline \<notin> set (butlast l)"
  by (induction n s arbitrary: l r full rule: read_line.induct) (auto split: if_splits prod.splits)

lemma fgets_cases:
  assumes "fgets n f = (res, f')" "0 < n"
  obtains (line) l where "res = Some l" "fi_data f = l @ fi_data f'" "length l < n" "Newline \<notin> set (butlast l)" "l = [] \<Longrightarrow> n = 1"
      "fi_eof f' \<Longrightarrow> fi_data f' = [] \<and> Newline \<notin> set l \<or> fi_eof f" "fi_broken f' = fi_broken f" "fi_error f' = fi_error f"
  | (none) "res = None" "fi_data f' = []" "fi_error f' \<or> fi_eof f' \<and> fi_data f = []" "fi_broken f \<or> fi_error f' = fi_error f" "fi_broken f' = fi_broken f"
proof -
  obtain l r full where r: "read_line (n - 1) (fi_data f) = (l, r, full)" by (cases "read_line (n - 1) (fi_data f)")
  note s = read_line_split [OF r]
  show thesis
  proof (cases "full \<or> \<not> fi_broken f \<and> l \<noteq> []")
    case True
    show thesis by (rule line [of l]) (use assms r s True in \<open>auto simp: fgets_def Let_def split: if_splits\<close>)
  next
    case False
    show thesis by (rule none) (use assms r s False in \<open>auto simp: fgets_def Let_def split: if_splits\<close>)
  qed
qed

text \<open>The order in which the loop makes progress.\<close>

definition parser_progress :: "('a parser_context \<times> 'a parser_context) set" where
  "parser_progress = measures
     [\<lambda>cx. length (fi_data (pc_file cx)) + (if fi_eof (pc_file cx) \<or> pc_failed cx then 0 else 1),
      \<lambda>cx. if pc_need_more_data cx then 0 else 1,
      \<lambda>cx. if pc_need_more_space cx then 0 else 1,
      \<lambda>cx. length (pc_data cx)]"

definition buffer_ok :: "'a parser_context \<Rightarrow> bool" where
  "buffer_ok cx \<longleftrightarrow> length (pc_data cx) < pc_size cx \<and> (pc_need_more_space cx \<longrightarrow> pc_need_more_data cx) \<and>
     (\<not> pc_need_more_data cx \<longrightarrow> whole_lines (pc_data cx)) \<and>
     (pc_need_more_data cx \<longrightarrow> pr_errors (pc_core cx) \<noteq> [] \<or>
        (\<exists>left part. pc_data cx = left @ part \<and> whole_lines left \<and> Newline \<notin> set part \<and> conf_lex (pc_in_comment cx) left = []))"

text \<open>What is still to be computed, from the buffer and the rest of the file.\<close>

definition rest_read :: "conf_env \<Rightarrow> 'a parser_section list \<Rightarrow> 'a parser_context \<Rightarrow> 'a parser_core option" where
  "rest_read env sections cx =
     conf_read env sections (pc_in_comment cx) (pc_core cx) (line_part (pc_data cx @ fi_data (pc_file cx)))"

lemma line_part_whole_append: "whole_lines d \<Longrightarrow> line_part (d @ u) = d @ line_part u"
  by (cases "Newline \<in> set u") (simp_all add: line_part_append)

lemma run_tokens_shorter: "run_tokens env sections co d = Some (co', rest, ic, no) \<Longrightarrow> length rest \<le> length d"
proof (induction env sections co d rule: run_tokens.induct)
  case (1 env sections co iter)
  from "1.prems" gettoken_shorter(1) [of iter] show ?case
  proof (cases "gettoken iter")
    case (No_Token r)
    with "1.prems" no_token_rest [of iter r] show ?thesis by (auto simp: run_tokens.simps [of env sections co iter] length_dropWhile_le split: if_splits)
  next
    case (Bad_Token m r)
    with "1.prems" no_token_rest [of iter r m] show ?thesis by (auto simp: run_tokens.simps [of env sections co iter] length_dropWhile_le split: if_splits)
  next
    case (Token tok r)
    with "1.prems" "1.IH" gettoken_shorter(1) [OF Token] show ?thesis
      by (fastforce simp: run_tokens.simps [of env sections co iter] split: if_splits option.splits dest: after_newline_shorter)
  qed
qed

lemma parser_scan_step:
  assumes w: "whole_lines (pc_data cx)" and l: "length (pc_data cx) < pc_size cx" and n: "\<not> pc_need_more_data cx" "\<not> pc_need_more_space cx"
  shows "case parser_scan env sections cx of
      None \<Rightarrow> rest_read env sections cx = None
    | Some cx' \<Rightarrow> buffer_ok cx' \<and> rest_read env sections cx' = rest_read env sections cx \<and>
        pc_file cx' = pc_file cx \<and> pc_failed cx' = pc_failed cx \<and>
        (pr_errors (pc_core cx') \<noteq> [] \<or> (cx', cx) \<in> parser_progress)"
proof -
  let ?u = "line_part (fi_data (pc_file cx))"
  have lp: "line_part (pc_data cx @ fi_data (pc_file cx)) = pc_data cx @ ?u" by (rule line_part_whole_append [OF w])
  show ?thesis
  proof (cases "if pc_in_comment cx then after_comment (pc_data cx) else Some (pc_data cx)")
    case None
    then have c: "pc_in_comment cx" "after_comment (pc_data cx) = None" by (auto split: if_splits)
    then have "conf_lex True (pc_data cx @ ?u) = conf_lex True ?u" using after_comment_none [OF w, of ?u] by (simp add: conf_lex.simps)
    with None c n l show ?thesis
      by (simp add: parser_scan_def buffer_ok_def rest_read_def lp parser_progress_def conf_lex.simps [of True "[]"])
  next
    case (Some d)
    have d: "whole_lines d" "length d \<le> length (pc_data cx)" "conf_lex (pc_in_comment cx) (pc_data cx @ ?u) = conf_lex False (d @ ?u)"
      using Some w after_comment_whole [OF w] after_comment_shorter [of "pc_data cx" d] after_comment_append [of "pc_data cx" d ?u]
      by (auto simp: conf_lex.simps [of True] split: if_splits)
    note rt = run_tokens_read [OF d(1), of env sections "pc_core cx" ?u]
    show ?thesis
    proof (cases "run_tokens env sections (pc_core cx) d")
      case None
      with rt Some d(3) show ?thesis by (simp add: parser_scan_def rest_read_def lp)
    next
      case r: (Some p)
      obtain co rest ic no where p: "p = (co, rest, ic, no)" by (cases p)
      with rt r have q: "conf_read env sections False (pc_core cx) (d @ ?u) = conf_read env sections ic co (rest @ ?u)" "whole_lines rest"
        "no \<longrightarrow> pr_errors co \<noteq> [] \<or> conf_lex ic rest = []" "ic \<longrightarrow> length rest < length d" "no \<or> ic \<or> pr_errors co \<noteq> []" by auto
      have "length rest \<le> length d" using run_tokens_shorter r p by blast
      then have "length rest < pc_size cx" using d(2) l by simp
      moreover have "pc_need_more_data cx \<or> no \<longrightarrow> pr_errors co \<noteq> [] \<or> (\<exists>left part. rest = left @ part \<and> whole_lines left \<and> Newline \<notin> set part \<and> conf_lex ic left = [])"
        using q(2,3) n by (auto intro: exI [of _ rest] exI [of _ "[]"])
      ultimately show ?thesis using Some r p q n d
        by (auto simp: parser_scan_def buffer_ok_def rest_read_def lp line_part_whole_append [OF q(2)] parser_progress_def)
    qed
  qed
qed

text \<open>A file of text that can be read to its end.\<close>

definition text_file :: "conf_file \<Rightarrow> bool" where
  "text_file f \<longleftrightarrow> Nul \<notin> set (fi_data f) \<and> \<not> fi_broken f \<and> \<not> fi_error f"

definition at_eof :: "'a parser_context \<Rightarrow> bool" where
  "at_eof cx \<longleftrightarrow> (fi_eof (pc_file cx) \<longrightarrow> pc_need_more_data cx \<and> fi_data (pc_file cx) = [])"

text \<open>One round: the buffer stays as it should be, the round makes progress, and what is still to be read stays the same.\<close>

abbreviation grown :: "'a parser_context \<Rightarrow> 'a parser_context" where
  "grown cx \<equiv> (if pc_need_more_space cx then cx\<lparr>pc_size := pc_size cx * 2, pc_need_more_space := False\<rparr> else cx)"

definition round_ok :: "conf_env \<Rightarrow> 'a parser_section list \<Rightarrow> 'a parser_context \<Rightarrow> 'a parser_context option \<Rightarrow> bool" where
  "round_ok env sections cx res =
     (case res of
        None \<Rightarrow> text_file (pc_file cx) \<longrightarrow> rest_read env sections cx = None
      | Some cx' \<Rightarrow> buffer_ok cx' \<and> at_eof cx' \<and> (pr_errors (pc_core cx') \<noteq> [] \<or> (cx', cx) \<in> parser_progress) \<and>
          (text_file (pc_file cx) \<longrightarrow>
             text_file (pc_file cx') \<and> \<not> pc_failed cx' \<and> rest_read env sections cx' = rest_read env sections cx))"

lemma takeWhile_Nul: "Nul \<notin> set l \<Longrightarrow> takeWhile (\<lambda>c. c \<noteq> Nul) l = l"
  by (auto simp: takeWhile_eq_all_conv)

lemma buffer_okD:
  assumes "buffer_ok cx" "pc_need_more_data cx" "pr_errors (pc_core cx) = []"
  obtains left part where "pc_data cx = left @ part" "whole_lines left" "Newline \<notin> set part" "conf_lex (pc_in_comment cx) left = []"
  using assms by (auto simp: buffer_ok_def)

lemma round_line:
  fixes cx :: "'a parser_context"
  assumes ok: "buffer_ok cx" and more: "pc_need_more_data cx" and run: "pr_errors (pc_core cx) = []" "\<not> fi_eof (pc_file cx)" "\<not> pc_failed cx"
    and fg: "fgets (pc_size (grown cx) - length (pc_data cx)) (pc_file cx) = (Some l, f)"
  shows "round_ok env sections cx (parser_round env sections cx)"
proof -
  define g where "g = grown cx"
  have g: "pc_core g = pc_core cx" "pc_data g = pc_data cx" "pc_in_comment g = pc_in_comment cx" "pc_need_more_data g" "\<not> pc_need_more_space g"
    "pc_failed g = pc_failed cx" "pc_file g = pc_file cx" using more ok by (simp_all add: g_def)
  let ?n = "pc_size g - length (pc_data cx)" and ?sb = "takeWhile (\<lambda>c. c \<noteq> Nul) l"
  let ?cx = "g\<lparr>pc_file := f, pc_data := pc_data cx @ ?sb\<rparr>"
  have n: "0 < ?n" and n1: "pc_need_more_space cx \<Longrightarrow> ?n \<noteq> 1" using ok by (auto simp: buffer_ok_def g_def)
  from fg [folded g_def] n have l: "fi_data (pc_file cx) = l @ fi_data f" "length l < ?n" "Newline \<notin> set (butlast l)" "l = [] \<Longrightarrow> ?n = 1"
    "fi_eof f \<Longrightarrow> fi_data f = [] \<and> Newline \<notin> set l" "fi_broken f = fi_broken (pc_file cx)" "fi_error f = fi_error (pc_file cx)"
    using run(2) by (auto elim!: fgets_cases)
  have len: "length (pc_data cx @ ?sb) < pc_size g" using l(2) length_takeWhile_le [of "\<lambda>c. c \<noteq> Nul" l] by simp
  have tx: "?sb = l" "text_file f" if "text_file (pc_file cx)" using that l by (auto simp: text_file_def takeWhile_Nul)
  have rr: "rest_read env sections c = rest_read env sections cx"
    if "text_file (pc_file cx)" "pc_data c = pc_data cx @ ?sb" "pc_file c = f" "pc_core c = pc_core cx" "pc_in_comment c = pc_in_comment cx" for c
    using that tx l(1) by (simp add: rest_read_def)
  show ?thesis
  proof (cases "?sb \<noteq> [] \<and> last ?sb = Newline")
    case True
    let ?cx3 = "?cx\<lparr>pc_line := pc_line ?cx + 1, pc_need_more_data := False\<rparr>"
    have nl: "Newline \<in> set l" using True set_takeWhileD last_in_set by metis
    have res: "parser_round env sections cx = parser_scan env sections ?cx3"
      using fg [folded g_def] len True g ok by (simp add: parser_round_def buffer_ok_def flip: g_def)
    have w: "whole_lines (pc_data ?cx3)" using True by (simp add: whole_lines_def)
    have "length (fi_data f) < length (fi_data (pc_file cx))" "\<not> fi_eof f" using nl l(1,5) by auto
    then have pg: "(c, cx) \<in> parser_progress" if "pc_file c = f" "pc_failed c = pc_failed cx" for c
      using that run by (simp add: parser_progress_def)
    from parser_scan_step [OF w, of env sections] len g have
      "case parser_scan env sections ?cx3 of None \<Rightarrow> rest_read env sections ?cx3 = None
       | Some cx' \<Rightarrow> buffer_ok cx' \<and> rest_read env sections cx' = rest_read env sections ?cx3 \<and> pc_file cx' = f \<and> pc_failed cx' = pc_failed cx"
      by (auto split: option.splits)
    with res rr [of ?cx3] tx(2) pg g run(3) \<open>\<not> fi_eof f\<close> show ?thesis
      by (auto simp: round_ok_def at_eof_def split: option.splits)
  next
    case False
    let ?cx3 = "?cx\<lparr>pc_need_more_space := True\<rparr>"
    have res: "parser_round env sections cx = Some ?cx3"
      using fg [folded g_def] len False g ok by (auto simp add: parser_round_def buffer_ok_def simp flip: g_def)
    obtain t where t: "l = ?sb @ t" by (metis takeWhile_dropWhile_id)
    have nonl: "Newline \<notin> set ?sb"
    proof (cases "t = []")
      case True
      with t have "?sb = l" by simp
      with l(3) False show ?thesis by (cases l rule: rev_cases) auto
    next
      case False
      with t l(3) show ?thesis by (metis Un_iff butlast_append set_append)
    qed
    obtain left part where "pc_data cx = left @ part" "whole_lines left" "Newline \<notin> set part" "conf_lex (pc_in_comment cx) left = []"
      by (rule buffer_okD [OF ok more run(1)])
    with nonl g have "\<exists>left part. pc_data ?cx3 = left @ part \<and> whole_lines left \<and> Newline \<notin> set part \<and> conf_lex (pc_in_comment ?cx3) left = []"
      by (intro exI [of _ left] exI [of _ "part @ ?sb"]) simp
    then have "buffer_ok ?cx3" using len g by (simp add: buffer_ok_def)
    moreover have "at_eof ?cx3" using l(5) g by (simp add: at_eof_def)
    moreover have "(?cx3, cx) \<in> parser_progress"
      using l(1,4) n1 run more g by (cases l) (auto simp: parser_progress_def)
    ultimately show ?thesis using res rr [of ?cx3] tx(2) run(3) g by (simp add: round_ok_def)
  qed
qed

lemma round_step:
  assumes ok: "buffer_ok cx" and run: "pr_errors (pc_core cx) = []" "\<not> fi_eof (pc_file cx)" "\<not> pc_failed cx"
  shows "round_ok env sections cx (parser_round env sections cx)"
proof (cases "pc_need_more_data cx")
  case False
  then have "parser_round env sections cx = parser_scan env sections cx" using ok by (simp add: parser_round_def buffer_ok_def)
  moreover have "whole_lines (pc_data cx)" "length (pc_data cx) < pc_size cx" "\<not> pc_need_more_space cx" using ok False by (auto simp: buffer_ok_def)
  ultimately show ?thesis using parser_scan_step [of cx env sections] run False by (auto simp: round_ok_def at_eof_def split: option.splits)
next
  case more: True
  obtain res f where fg: "fgets (pc_size (grown cx) - length (pc_data cx)) (pc_file cx) = (res, f)" by fastforce
  show ?thesis
  proof (cases res)
    case (Some l)
    with fg round_line [OF ok more run] show ?thesis by blast
  next
    case None
    have n: "0 < pc_size (grown cx) - length (pc_data cx)" using ok by (auto simp: buffer_ok_def)
    from fg n None have f: "fi_data f = []" "fi_error f \<or> fi_eof f \<and> fi_data (pc_file cx) = []" "fi_broken (pc_file cx) \<or> fi_error f = fi_error (pc_file cx)"
      "fi_broken f = fi_broken (pc_file cx)"
      by (auto elim!: fgets_cases)
    let ?g = "(grown cx)\<lparr>pc_file := f\<rparr>"
    let ?cx = "if fi_error f then ?g\<lparr>pc_core := parser_error ''file read failure'' (pc_core cx), pc_failed := True\<rparr> else ?g"
    have res: "parser_round env sections cx = Some ?cx"
      using fg None ok more by (cases "pc_need_more_space cx") (auto simp: parser_round_def Let_def buffer_ok_def)
    have "buffer_ok ?cx" using ok more run(1) by (auto simp: buffer_ok_def parser_error_def)
    moreover have "at_eof ?cx" using f(1) more by (simp add: at_eof_def)
    moreover have "pr_errors (pc_core ?cx) \<noteq> [] \<or> (?cx, cx) \<in> parser_progress"
      using f run by (auto simp: parser_progress_def parser_error_def)
    moreover have "text_file f \<and> \<not> pc_failed ?cx \<and> rest_read env sections ?cx = rest_read env sections cx" if "text_file (pc_file cx)"
      using that f run by (auto simp: text_file_def rest_read_def)
    ultimately show ?thesis using res by (auto simp: round_ok_def)
  qed
qed

section \<open>The whole run\<close>

lemma wf_parser_progress: "wf parser_progress"
  by (simp add: parser_progress_def)

text \<open>The loop ends, whatever is in the file.\<close>

lemma parser_loop_returns:
  assumes "buffer_ok cx"
  shows "parser_loop env sections cx \<noteq> None"
  using assms
proof (induction cx rule: wf_induct_rule [OF wf_parser_progress])
  case (1 cx)
  show ?case
  proof (cases "pr_errors (pc_core cx) \<noteq> [] \<or> fi_eof (pc_file cx) \<or> pc_failed cx")
    case True
    then show ?thesis by (subst parser_loop.simps) simp
  next
    case False
    with round_step [OF "1.prems", of env sections] have r: "round_ok env sections cx (parser_round env sections cx)" by blast
    show ?thesis
    proof (cases "parser_round env sections cx")
      case None
      with False show ?thesis by (subst parser_loop.simps) simp
    next
      case (Some cx')
      with r have "buffer_ok cx'" "pr_errors (pc_core cx') \<noteq> [] \<or> (cx', cx) \<in> parser_progress" by (auto simp: round_ok_def)
      moreover have "parser_loop env sections cx' \<noteq> None" if "pr_errors (pc_core cx') \<noteq> []" using that by (subst parser_loop.simps) simp
      ultimately have "parser_loop env sections cx' \<noteq> None" using "1.IH" by blast
      with False Some show ?thesis by (subst parser_loop.simps) simp
    qed
  qed
qed

text \<open>For a text it has read all whole lines as the reference does.\<close>

lemma parser_loop_read:
  assumes "buffer_ok cx" "at_eof cx" "text_file (pc_file cx)" "\<not> pc_failed cx"
  shows "map_option (map_option (\<lambda>cx. (pc_core cx, pc_failed cx))) (parser_loop env sections cx) =
    Some (map_option (\<lambda>co. (co, False)) (rest_read env sections cx))"
  using assms
proof (induction cx rule: wf_induct_rule [OF wf_parser_progress])
  case (1 cx)
  note p = "1.prems"
  show ?case
  proof (cases "pr_errors (pc_core cx) \<noteq> [] \<or> fi_eof (pc_file cx)")
    case True
    have "rest_read env sections cx = Some (pc_core cx)"
    proof (cases "pr_errors (pc_core cx) = []")
      case ok: True
      with True p(2) have e: "pc_need_more_data cx" "fi_data (pc_file cx) = []" by (auto simp: at_eof_def)
      obtain left part where "pc_data cx = left @ part" "whole_lines left" "Newline \<notin> set part" "conf_lex (pc_in_comment cx) left = []"
        by (rule buffer_okD [OF p(1) e(1) ok])
      then show ?thesis using e(2) by (simp add: rest_read_def line_part_append)
    qed (simp add: rest_read_def)
    with True p(4) show ?thesis by (subst parser_loop.simps) simp
  next
    case False
    then have r: "round_ok env sections cx (parser_round env sections cx)" using round_step [OF p(1)] p(4) by blast
    show ?thesis
    proof (cases "parser_round env sections cx")
      case None
      with False p r show ?thesis by (subst parser_loop.simps) (simp add: round_ok_def)
    next
      case (Some cx')
      with r p(3) have q: "buffer_ok cx'" "at_eof cx'" "text_file (pc_file cx')" "\<not> pc_failed cx'"
        "pr_errors (pc_core cx') \<noteq> [] \<or> (cx', cx) \<in> parser_progress" "rest_read env sections cx' = rest_read env sections cx"
        by (simp_all add: round_ok_def)
      have "map_option (map_option (\<lambda>cx. (pc_core cx, pc_failed cx))) (parser_loop env sections cx') =
          Some (map_option (\<lambda>co. (co, False)) (rest_read env sections cx'))"
      proof (cases "pr_errors (pc_core cx') = []")
        case True
        with "1.IH" q show ?thesis by blast
      next
        case False
        with q(4) show ?thesis by (subst parser_loop.simps) (simp add: rest_read_def)
      qed
      with False p(4) Some q(6) show ?thesis by (subst parser_loop.simps) simp
    qed
  qed
qed

lemma buffer_ok_start: "buffer_ok (parser_start d f)"
  by (simp add: buffer_ok_def parser_start_def conf_lex.simps gettoken_def)

definition core_start :: "'a \<Rightarrow> 'a parser_core" where
  "core_start d = pc_core (parser_start d undefined)"

lemma parser_run_read:
  assumes "text_file f" "\<not> fi_eof f"
  shows "parser_run env sections d f =
    Some (map_option (\<lambda>co. parser_result (parser_finish co)) (conf_read env sections False (core_start d) (line_part (fi_data f))))"
proof -
  have "map_option (map_option (\<lambda>cx. (pc_core cx, pc_failed cx))) (parser_loop env sections (parser_start d f)) =
    Some (map_option (\<lambda>co. (co, False)) (rest_read env sections (parser_start d f)))"
    by (rule parser_loop_read [OF buffer_ok_start]) (use assms in \<open>simp_all add: at_eof_def parser_start_def\<close>)
  moreover have "rest_read env sections (parser_start d f) = conf_read env sections False (core_start d) (line_part (fi_data f))"
    by (simp add: rest_read_def parser_start_def core_start_def)
  ultimately show ?thesis unfolding parser_run_def
    by (cases "parser_loop env sections (parser_start d f)"; cases "the (parser_loop env sections (parser_start d f))") (auto simp: map_option_case split: option.splits)
qed

end
