(* ===== verification/Conf_Print.thy ===== *)
theory Conf_Print
  imports Conf_Ref
begin

text \<open>
  Configurations as text and what reading them back does. A configuration is a list of sections with
  their assignments; the printer writes names and keys as they are and every value in quotes. What the
  assignments mean, on the data of the subsystems, is \<open>apply_conf\<close>.
\<close>

section \<open>Printing\<close>

definition quote_char :: "char \<Rightarrow> string" where
  "quote_char c =
     (if c = Newline then [Backslash, CHR ''n'']
      else if c = CHR 0x09 then [Backslash, CHR ''t'']
      else if c = CHR 0x0D then [Backslash, CHR ''r'']
      else if c = Quote \<or> c = Backslash then [Backslash, c]
      else [c])"

definition print_value :: "string \<Rightarrow> string" where
  "print_value s = Quote # concat (map quote_char s) @ [Quote]"

type_synonym conf_assign = "string \<times> string"
type_synonym conf_text = "(string \<times> conf_assign list) list"

definition print_assign :: "conf_assign \<Rightarrow> string" where
  "print_assign a = CHR 0x09 # fst a @ '' = '' @ print_value (snd a) @ [CHR '';'', Newline]"

definition print_section :: "string \<times> conf_assign list \<Rightarrow> string" where
  "print_section s = fst s @ '' {'' @ [Newline] @ concat (map print_assign (snd s)) @ [CHR ''}'', Newline]"

definition print_conf :: "conf_text \<Rightarrow> string" where
  "print_conf ss = concat (map print_section ss)"

section \<open>Reading tokens back\<close>

definition is_word :: "string \<Rightarrow> bool" where
  "is_word s \<longleftrightarrow> s \<noteq> [] \<and> isalpha (hd s) \<and> list_all (\<lambda>c. isalnum c \<or> c = CHR ''_'' \<or> c = CHR ''.'' \<or> c = CHR ''-'') s"

lemma cstr_quoted:
  assumes "Nul \<notin> set s"
  shows "cstr_count (concat (map quote_char s) @ Quote # r) = Gt_Len (length s)"
    "cstr_copy (concat (map quote_char s) @ Quote # r) = (s, r)"
  using assms by (induction s) (auto simp: quote_char_def unescape_def)

lemma gettoken_space [simp]: "isspace c \<Longrightarrow> gettoken (c # s) = gettoken s"
  by (simp add: gettoken_def)

lemma gettoken_quoted: "Nul \<notin> set v \<Longrightarrow> gettoken (print_value v @ r) = Token v r"
  by (simp add: gettoken_def print_value_def cstr_quoted isspace_def)

lemma gettoken_punctuation: "c \<in> {CHR ''{'', CHR ''}'', CHR ''='', CHR '';''} \<Longrightarrow> gettoken (c # r) = Token [c] r"
  by (elim insertE emptyE; hypsubst; simp add: gettoken_def isspace_def plain_count_def isdigit_def isalpha_def gt_plainstr_def)

lemma word_count_word:
  assumes "list_all (\<lambda>c. isalnum c \<or> c = CHR ''_'' \<or> c = CHR ''.'' \<or> c = CHR ''-'') w"
    and "\<not> isalnum c" "c \<noteq> CHR ''_''" "c \<noteq> CHR ''.''" "c \<noteq> CHR ''-''"
  shows "word_count (w @ c # r) = Gt_Len (length w)"
  using assms by (induction w) auto

lemma gettoken_word:
  assumes "is_word w"
  shows "gettoken (w @ CHR '' '' # r) = Token w (CHR '' '' # r)"
proof -
  obtain a w' where w: "w = a # w'" "isalpha a" using assms by (cases w) (auto simp: is_word_def)
  have "\<not> isspace a" "\<not> isdigit a" "a \<noteq> Quote" using w(2) by (auto simp: isalpha_def isspace_def isdigit_def)
  moreover have "\<not> isalnum (CHR '' '')" by (simp add: isalnum_def isalpha_def isdigit_def)
  then have "word_count (w @ CHR '' '' # r) = Gt_Len (length w)" using assms by (intro word_count_word) (auto simp: is_word_def)
  ultimately show ?thesis using w by (simp add: gettoken_def plain_count_def gt_plainstr_def del: word_count.simps)
qed

lemma lex_token: "gettoken s = Token tok r \<Longrightarrow> tok \<notin> {''//'', ''/*''} \<Longrightarrow> conf_lex False s = Lx_Token tok # conf_lex False r"
  by (simp add: conf_lex.simps [of False s])

lemma lex_space [simp]: "isspace c \<Longrightarrow> conf_lex False (c # s) = conf_lex False s"
  by (simp add: conf_lex.simps)

lemma word_no_comment: "is_word w \<Longrightarrow> w \<notin> {''//'', ''/*''}"
  by (auto simp: is_word_def isalpha_def)

lemma word_no_punctuation: "is_word w \<Longrightarrow> w \<notin> {''{'', ''}'', ''='', '';''}"
  by (auto simp: is_word_def isalpha_def)

text \<open>The tokens of a configuration.\<close>

definition assign_tokens :: "conf_assign \<Rightarrow> string list" where
  "assign_tokens a = [fst a, ''='', snd a, '';'']"

definition section_tokens :: "string \<times> conf_assign list \<Rightarrow> string list" where
  "section_tokens s = fst s # ''{'' # concat (map assign_tokens (snd s)) @ [''}'']"

definition assign_ok :: "conf_assign \<Rightarrow> bool" where
  "assign_ok a \<longleftrightarrow> is_word (fst a) \<and> Nul \<notin> set (snd a) \<and> snd a \<notin> {''//'', ''/*''}"

definition section_ok :: "string \<times> conf_assign list \<Rightarrow> bool" where
  "section_ok s \<longleftrightarrow> is_word (fst s) \<and> list_all assign_ok (snd s)"

lemma spaces [simp]: "isspace (CHR 0x09)" "isspace (CHR '' '')"
  by (simp_all add: isspace_def)

lemma lex_key: "is_word k \<Longrightarrow> conf_lex False (print_assign (k, v) @ r) = Lx_Token k # Lx_Token ''='' # conf_lex False (print_value v @ CHR '';'' # Newline # r)"
  using lex_token [OF gettoken_word [of k] word_no_comment] lex_token [OF gettoken_punctuation [of "CHR ''=''"]]
  by (simp add: print_assign_def)

lemma lex_assign:
  assumes "assign_ok a"
  shows "conf_lex False (print_assign a @ r) = map Lx_Token (assign_tokens a) @ conf_lex False r"
proof -
  obtain k v where a: "a = (k, v)" by (cases a)
  have "conf_lex False (print_value v @ CHR '';'' # Newline # r) = Lx_Token v # Lx_Token '';'' # conf_lex False r"
    using assms a lex_token [OF gettoken_quoted [of v]] lex_token [OF gettoken_punctuation [of "CHR '';''"]] by (simp add: assign_ok_def)
  with assms a lex_key [of k v r] show ?thesis by (simp add: assign_ok_def assign_tokens_def)
qed

lemma lex_assigns: "list_all assign_ok as \<Longrightarrow>
    conf_lex False (concat (map print_assign as) @ r) = map Lx_Token (concat (map assign_tokens as)) @ conf_lex False r"
  by (induction as) (simp_all add: lex_assign)

lemma lex_open: "is_word n \<Longrightarrow> conf_lex False (n @ CHR '' '' # CHR ''{'' # Newline # r) = Lx_Token n # Lx_Token ''{'' # conf_lex False r"
  using lex_token [OF gettoken_word [of n] word_no_comment] lex_token [OF gettoken_punctuation [of "CHR ''{''"]] by simp

lemma lex_section:
  assumes "section_ok s"
  shows "conf_lex False (print_section s @ r) = map Lx_Token (section_tokens s) @ conf_lex False r"
  using assms lex_token [OF gettoken_punctuation [of "CHR ''}''"]]
  by (simp add: print_section_def section_tokens_def section_ok_def lex_open lex_assigns)

lemma lex_conf: "list_all section_ok ss \<Longrightarrow> conf_lex False (print_conf ss @ r) = map Lx_Token (concat (map section_tokens ss)) @ conf_lex False r"
  by (induction ss) (simp_all add: print_conf_def lex_section)

lemma lex_Nil [simp]: "conf_lex False [] = []"
  by (simp add: conf_lex.simps gettoken_def)

section \<open>What a configuration means\<close>

text \<open>Values that the parser takes for something else, even in quotes.\<close>

definition punctuation :: "string set" where
  "punctuation = {''{'', ''}'', ''='', '';'', ''//'', ''/*''}"

definition apply_assign :: "conf_env \<Rightarrow> 'a parser_section \<Rightarrow> conf_assign \<Rightarrow> nat \<times> 'a \<Rightarrow> (nat \<times> 'a) option" where
  "apply_assign env sec a st =
     do {
       type \<leftarrow> entry_type sec (fst a);
       (writes, errs) \<leftarrow> value_parser_by_type env (fst st) type (snd a);
       if errs = [] then Some (fst st + (if type = Pt_In_Addr then 1 else 0), fold (sec_write sec (fst a)) writes (snd st)) else None
     }"

fun apply_assigns :: "conf_env \<Rightarrow> 'a parser_section \<Rightarrow> conf_assign list \<Rightarrow> nat \<times> 'a \<Rightarrow> (nat \<times> 'a) option" where
  "apply_assigns env sec [] st = Some st"
| "apply_assigns env sec (a # as) st = do { st \<leftarrow> apply_assign env sec a st; apply_assigns env sec as st }"

definition accepted :: "'a \<times> string option \<Rightarrow> 'a option" where
  "accepted r = (case snd r of None \<Rightarrow> Some (fst r) | Some msg \<Rightarrow> None)"

definition apply_section :: "conf_env \<Rightarrow> 'a parser_section list \<Rightarrow> string \<times> conf_assign list \<Rightarrow> nat \<times> 'a \<Rightarrow> (nat \<times> 'a) option" where
  "apply_section env sections s st =
     do {
       sec \<leftarrow> find (\<lambda>p. sec_name p = fst s) sections;
       d \<leftarrow> accepted (sec_onenter sec (snd st));
       (k, d) \<leftarrow> apply_assigns env sec (snd s) (fst st, d);
       d \<leftarrow> accepted (sec_onexit sec d);
       Some (k, d)
     }"

lemma accepted_Some: "accepted r = Some d \<longleftrightarrow> r = (d, None)"
  by (cases r) (auto simp: accepted_def split: option.splits)

fun apply_conf :: "conf_env \<Rightarrow> 'a parser_section list \<Rightarrow> conf_text \<Rightarrow> nat \<times> 'a \<Rightarrow> (nat \<times> 'a) option" where
  "apply_conf env sections [] st = Some st"
| "apply_conf env sections (s # ss) st = do { st \<leftarrow> apply_section env sections s st; apply_conf env sections ss st }"

text \<open>The state of the parser between sections and between the assignments of a section.\<close>

definition core_at :: "'a parser_section option \<Rightarrow> nat \<times> 'a \<Rightarrow> 'a parser_core" where
  "core_at sec st =
     \<lparr>pr_errors = [], pr_section = sec, pr_section_token = None, pr_key_token = None, pr_value_token = None,
      pr_lookups = fst st, pr_data = snd st\<rparr>"

lemma core_start_at: "core_start d = core_at None (0, d)"
  by (simp add: core_start_def core_at_def parser_start_def)

lemma exec_word:
  "pr_errors co = [] \<Longrightarrow> tok \<notin> {''{'', ''}'', ''='', '';''} \<Longrightarrow>
   conf_exec env sections co (Lx_Token tok # xs) = conf_exec env sections (token_word tok co) xs"
  by (simp add: run_token_def)

lemma exec_assign:
  assumes a: "apply_assign env sec a st = Some st'" and ok: "is_word (fst a)" "snd a \<notin> punctuation"
  shows "conf_exec env sections (core_at (Some sec) st) (map Lx_Token (assign_tokens a) @ xs) = conf_exec env sections (core_at (Some sec) st') xs"
proof -
  obtain type writes where t: "entry_type sec (fst a) = Some type" "value_parser_by_type env (fst st) type (snd a) = Some (writes, [])"
    "st' = (fst st + (if type = Pt_In_Addr then 1 else 0), fold (sec_write sec (fst a)) writes (snd st))"
    using a by (auto simp: apply_assign_def bind_eq_Some_conv split: if_splits)
  have "run_token env sections '';'' ((core_at (Some sec) st)\<lparr>pr_key_token := Some (fst a), pr_value_token := Some (snd a)\<rparr>) = Some (core_at (Some sec) st')"
    using t by (simp add: run_token_def token_end_def assign_value_def entry_value_def core_at_def)
  moreover have "snd a \<notin> {''{'', ''}'', ''='', '';''}" using ok(2) by (simp add: punctuation_def)
  ultimately show ?thesis using word_no_punctuation [OF ok(1)]
    by (simp add: assign_tokens_def exec_word token_word_def core_at_def)
      (simp add: run_token_def token_assign_def exec_word token_word_def)
qed

lemma exec_assigns:
  assumes "apply_assigns env sec as st = Some st'" "\<forall>a \<in> set as. is_word (fst a) \<and> snd a \<notin> punctuation"
  shows "conf_exec env sections (core_at (Some sec) st) (map Lx_Token (concat (map assign_tokens as)) @ xs) = conf_exec env sections (core_at (Some sec) st') xs"
  using assms by (induction as arbitrary: st) (auto simp: bind_eq_Some_conv exec_assign)

lemma exec_open:
  assumes "is_word n" "find (\<lambda>p. sec_name p = n) sections = Some sec" "sec_onenter sec (snd st) = (d, None)"
  shows "conf_exec env sections (core_at None st) (Lx_Token n # Lx_Token ''{'' # xs) = conf_exec env sections (core_at (Some sec) (fst st, d)) xs"
proof -
  have "token_word n (core_at None st) = (core_at None st)\<lparr>pr_section_token := Some n\<rparr>" by (simp add: token_word_def core_at_def)
  with assms word_no_punctuation [OF assms(1)] show ?thesis
    by (simp add: exec_word core_at_def) (simp add: run_token_def token_open_def)
qed

lemma exec_section:
  assumes s: "apply_section env sections s st = Some st'" and ok: "is_word (fst s)" "\<forall>a \<in> set (snd s). is_word (fst a) \<and> snd a \<notin> punctuation"
  shows "conf_exec env sections (core_at None st) (map Lx_Token (section_tokens s) @ xs) = conf_exec env sections (core_at None st') xs"
proof -
  obtain sec d k d2 d3 where f: "find (\<lambda>p. sec_name p = fst s) sections = Some sec" "sec_onenter sec (snd st) = (d, None)"
    and as: "apply_assigns env sec (snd s) (fst st, d) = Some (k, d2)" and x: "sec_onexit sec d2 = (d3, None)" "st' = (k, d3)"
    using s by (auto simp: apply_section_def bind_eq_Some_conv accepted_Some)
  have "run_token env sections ''}'' (core_at (Some sec) (k, d2)) = Some (core_at None st')"
    using x by (simp add: run_token_def token_close_def core_at_def)
  then show ?thesis using exec_open [OF ok(1) f] exec_assigns [OF as ok(2)] by (simp add: section_tokens_def core_at_def)
qed

definition conf_ok :: "conf_text \<Rightarrow> bool" where
  "conf_ok ss \<longleftrightarrow> list_all (\<lambda>s. is_word (fst s) \<and> list_all (\<lambda>a. is_word (fst a) \<and> Nul \<notin> set (snd a) \<and> snd a \<notin> punctuation) (snd s)) ss"

lemma conf_ok_section: "conf_ok ss \<Longrightarrow> list_all section_ok ss"
  by (auto simp: conf_ok_def section_ok_def assign_ok_def punctuation_def list_all_iff)

lemma exec_conf:
  assumes "apply_conf env sections ss st = Some st'" "conf_ok ss"
  shows "conf_exec env sections (core_at None st) (map Lx_Token (concat (map section_tokens ss)) @ xs) = conf_exec env sections (core_at None st') xs"
  using assms by (induction ss arbitrary: st) (auto simp: bind_eq_Some_conv conf_ok_def list_all_iff exec_section)

section \<open>Printed texts as files\<close>

lemma whole_lines_concat: "(\<And>x. x \<in> set xs \<Longrightarrow> whole_lines x) \<Longrightarrow> whole_lines (concat xs)"
  by (induction xs) (auto simp: whole_lines_def last_append)

lemma print_conf_lines: "whole_lines (print_conf ss)"
proof -
  have "whole_lines (print_section s)" for s by (simp add: print_section_def whole_lines_def)
  then show ?thesis unfolding print_conf_def by (intro whole_lines_concat) auto
qed

lemma word_no_nul: "is_word w \<Longrightarrow> Nul \<notin> set w"
  by (auto simp: is_word_def list_all_iff isalnum_def isalpha_def isdigit_def)

lemma quote_no_nul: "Nul \<notin> set v \<Longrightarrow> Nul \<notin> set (print_value v)"
  by (auto simp: print_value_def quote_char_def split: if_splits)

lemma print_assign_nul: "assign_ok a \<Longrightarrow> Nul \<notin> set (print_assign a)"
  using word_no_nul [of "fst a"] quote_no_nul [of "snd a"] by (simp add: print_assign_def assign_ok_def)

lemma print_section_nul: "section_ok s \<Longrightarrow> Nul \<notin> set (print_section s)"
  using word_no_nul [of "fst s"] print_assign_nul by (auto simp: print_section_def section_ok_def list_all_iff)

lemma print_conf_nul: "list_all section_ok ss \<Longrightarrow> Nul \<notin> set (print_conf ss)"
  using print_section_nul by (auto simp: print_conf_def list_all_iff)

definition file_of :: "string \<Rightarrow> conf_file" where
  "file_of s = \<lparr>fi_data = s, fi_broken = False, fi_eof = False, fi_error = False\<rparr>"

lemma parser_run_text:
  assumes "Nul \<notin> set s"
  shows "parser_run env sections d (file_of s) =
    Some (map_option (\<lambda>co. parser_result (parser_finish co)) (conf_read env sections False (core_at None (0, d)) (line_part s)))"
  using parser_run_read [of "file_of s" env sections d] assms by (simp add: file_of_def text_file_def core_start_at)

lemma parser_run_print:
  assumes "list_all section_ok ss"
  shows "parser_run env sections d (file_of (print_conf ss)) =
    Some (map_option (\<lambda>co. parser_result (parser_finish co)) (conf_exec env sections (core_at None (0, d)) (map Lx_Token (concat (map section_tokens ss)))))"
  using parser_run_text [OF print_conf_nul [OF assms]] print_conf_lines [of ss] lex_conf [OF assms, of "[]"] by simp

lemma print_read:
  assumes "conf_ok ss" "apply_conf env sections ss (0, d) = Some (k, d')"
  shows "parser_run env sections d (file_of (print_conf ss)) = Some (Some (True, d'))"
  using parser_run_print [OF conf_ok_section [OF assms(1)], of env sections d] exec_conf [OF assms(2,1), of "[]"]
  by (simp add: parser_result_def parser_finish_def report_stale_def core_at_def)

section \<open>Values in quotes that are punctuation\<close>

lemma print_value_nul: "v \<in> punctuation \<Longrightarrow> Nul \<notin> set v"
  by (auto simp: punctuation_def)

lemma lex_punctuation:
  assumes "v \<in> punctuation"
  shows "conf_lex False (print_value v @ CHR '';'' # Newline # CHR ''}'' # Newline # []) =
    (if v = ''//'' then [Lx_Token ''}''] else if v = ''/*'' then [] else [Lx_Token v, Lx_Token '';'', Lx_Token ''}''])"
proof -
  let ?r = "CHR '';'' # Newline # CHR ''}'' # Newline # []"
  have g: "gettoken (print_value v @ ?r) = Token v ?r" by (rule gettoken_quoted [OF print_value_nul [OF assms]])
  have close: "conf_lex False (CHR ''}'' # Newline # []) = [Lx_Token ''}'']"
    using lex_token [OF gettoken_punctuation [of "CHR ''}''"]] by simp
  have rest: "conf_lex False ?r = [Lx_Token '';'', Lx_Token ''}'']"
    using lex_token [OF gettoken_punctuation [of "CHR '';''"]] close by simp
  consider "v = ''//''" | "v = ''/*''" | "v \<notin> {''//'', ''/*''}" by blast
  then show ?thesis
  proof cases
    case 1
    with g conf_lex.simps [of False "print_value v @ ?r"] close show ?thesis by simp
  next
    case 2
    then have "conf_lex False (print_value v @ ?r) = conf_lex True ?r" using g conf_lex.simps [of False "print_value v @ ?r"] by simp
    also have "\<dots> = []" by (simp add: conf_lex.simps)
    finally show ?thesis using 2 by simp
  next
    case 3
    with lex_token [OF g 3] rest show ?thesis by simp
  qed
qed

lemma exec_key:
  assumes "is_word k"
  shows "conf_exec env sections (core_at (Some sec) st) (Lx_Token k # Lx_Token ''='' # xs) =
    conf_exec env sections ((core_at (Some sec) st)\<lparr>pr_key_token := Some k\<rparr>) xs"
proof -
  let ?co = "core_at (Some sec) st"
  have "token_word k ?co = ?co\<lparr>pr_key_token := Some k\<rparr>" by (simp add: token_word_def core_at_def)
  moreover have "run_token env sections ''='' (?co\<lparr>pr_key_token := Some k\<rparr>) = Some (?co\<lparr>pr_key_token := Some k\<rparr>)"
    by (simp add: run_token_def token_assign_def core_at_def)
  ultimately show ?thesis using exec_word [OF _ word_no_punctuation [OF assms], of ?co] by (simp add: core_at_def)
qed

text \<open>Each of them ends in an error, or leaves the key behind.\<close>

definition left_wrong :: "'a parser_core \<Rightarrow> bool" where
  "left_wrong co \<longleftrightarrow> pr_errors co \<noteq> [] \<or> pr_section co \<noteq> None \<or> pr_key_token co \<noteq> None"

lemma left_wrong_refused: "left_wrong co \<Longrightarrow> \<exists>d. parser_result (parser_finish co) = (False, d)"
  by (auto simp: left_wrong_def parser_result_def parser_finish_def report_stale_def parser_error_def)

lemma exec_punctuation:
  fixes sec :: "'a parser_section" and st k
  assumes "v \<in> punctuation"
  defines "co \<equiv> (core_at (Some sec) st)\<lparr>pr_key_token := Some k\<rparr>"
  shows "\<exists>co'. conf_exec env sections co
    (if v = ''//'' then [Lx_Token ''}''] else if v = ''/*'' then [] else [Lx_Token v, Lx_Token '';'', Lx_Token ''}'']) = Some co' \<and> left_wrong co'"
proof -
  obtain d err where x: "sec_onexit sec (snd st) = (d, err)" by (cases "sec_onexit sec (snd st)")
  have close: "pr_section (token_close co) = None \<and> pr_key_token (token_close co) = Some k"
    by (cases err) (simp_all add: co_def core_at_def token_close_def x parser_error_def)
  have co: "pr_errors co = []" "pr_section co = Some sec" "pr_key_token co = Some k" "pr_value_token co = None" by (simp_all add: co_def core_at_def)
  from assms(1) consider "v = ''//''" | "v = ''/*''" | "v = ''{''" | "v = ''}''" | "v = ''=''" | "v = '';''" by (auto simp: punctuation_def)
  then show ?thesis
  proof cases
    case 1
    with co close show ?thesis by (simp add: run_token_def left_wrong_def)
  next
    case 4
    with co close show ?thesis
      by (cases "pr_errors (token_close co) = []") (auto simp: run_token_def left_wrong_def token_end_def parser_error_def)
  qed (use co in \<open>simp_all add: run_token_def left_wrong_def token_open_def token_assign_def token_end_def parser_error_def\<close>)
qed

lemma punctuation_refused:
  assumes "is_word n" "is_word k" "v \<in> punctuation" "find (\<lambda>p. sec_name p = n) sections = Some sec" "sec_onenter sec d = (d', None)"
  shows "\<exists>d''. parser_run env sections d (file_of (print_conf [(n, [(k, v)])])) = Some (Some (False, d''))"
proof -
  let ?s = "print_conf [(n, [(k, v)])]" and ?co = "(core_at (Some sec) (0, d'))\<lparr>pr_key_token := Some k\<rparr>"
  have nul: "Nul \<notin> set ?s"
    using word_no_nul [OF assms(1)] word_no_nul [OF assms(2)] quote_no_nul [OF print_value_nul [OF assms(3)]]
    by (simp add: print_conf_def print_section_def print_assign_def)
  have wl: "line_part ?s = ?s" by (rule line_part_whole [OF print_conf_lines])
  have s: "?s = n @ CHR '' '' # CHR ''{'' # Newline # print_assign (k, v) @ CHR ''}'' # Newline # []" by (simp add: print_conf_def print_section_def)
  obtain co' where c: "conf_exec env sections ?co (conf_lex False (print_value v @ CHR '';'' # Newline # CHR ''}'' # Newline # [])) = Some co'" "left_wrong co'"
    using exec_punctuation [OF assms(3), where env = env and sections = sections and sec = sec and st = "(0, d')" and k = k] unfolding lex_punctuation [OF assms(3)] by blast
  have "conf_read env sections False (core_at None (0, d)) ?s = Some co'"
    unfolding s lex_open [OF assms(1)] lex_key [OF assms(2)] using exec_open [OF assms(1,4), of "(0, d)" d'] assms(5)
    by (simp only: snd_conv fst_conv exec_key [OF assms(2)] c(1))
  with parser_run_text [OF nul, of env sections d] left_wrong_refused [OF c(2)] show ?thesis unfolding wl by auto
qed

end
