(* ===== verification/Conf_Sections.thy ===== *)
theory Conf_Sections
  imports Conf_Print Redsocks
begin

text \<open>
  The sections of the configuration: \<open>base\<close> (\<open>redsocks/base.c\<close>) and \<open>redsocks\<close> (\<open>redsocks/redsocks.c\<close>), which are
  the two of the Android build. Their handlers and entries are those of the code; \<open>sec_write\<close> is what the
  value parsers do through the address of an entry. An invariant of the data that the handlers keep, as long
  as they report no error, holds for whatever an accepted file leaves (locale \<open>conf_invariant\<close>).
\<close>

section \<open>The base section\<close>

record base_instance =
  bi_configured :: bool
  bi_chroot :: "string option"
  bi_user :: "string option"
  bi_group :: "string option"
  bi_redirector_name :: "string option"
  bi_redirector :: "string option"
  bi_log_name :: "string option"
  bi_log_debug :: bool
  bi_log_info :: bool
  bi_daemon :: bool
  bi_tcp_keepalive_time :: u16
  bi_tcp_keepalive_probes :: u16
  bi_tcp_keepalive_intvl :: u16

definition zero_base :: base_instance where
  "zero_base =
     \<lparr>bi_configured = False, bi_chroot = None, bi_user = None, bi_group = None, bi_redirector_name = None, bi_redirector = None,
      bi_log_name = None, bi_log_debug = False, bi_log_info = False, bi_daemon = False, bi_tcp_keepalive_time = 0,
      bi_tcp_keepalive_probes = 0, bi_tcp_keepalive_intvl = 0\<rparr>"

text \<open>The redirectors of the build: \<open>config.h\<close> asks for the one of iptables.\<close>

definition redirector_subsystems :: "string list" where
  "redirector_subsystems = [''iptables'', ''generic'']"

definition base_entries :: "(string \<times> parser_type) list" where
  "base_entries =
     [(''chroot'', Pt_Pchar), (''user'', Pt_Pchar), (''group'', Pt_Pchar), (''redirector'', Pt_Pchar), (''log'', Pt_Pchar),
      (''log_debug'', Pt_Bool), (''log_info'', Pt_Bool), (''daemon'', Pt_Bool), (''tcp_keepalive_time'', Pt_Uint16),
      (''tcp_keepalive_probes'', Pt_Uint16), (''tcp_keepalive_intvl'', Pt_Uint16)]"

definition base_write :: "string \<Rightarrow> conf_value \<Rightarrow> base_instance \<Rightarrow> base_instance" where
  "base_write key v b =
     (case v of
        V_Pchar s \<Rightarrow>
          (if key = ''chroot'' then b\<lparr>bi_chroot := Some s\<rparr>
           else if key = ''user'' then b\<lparr>bi_user := Some s\<rparr>
           else if key = ''group'' then b\<lparr>bi_group := Some s\<rparr>
           else if key = ''redirector'' then b\<lparr>bi_redirector_name := Some s\<rparr>
           else if key = ''log'' then b\<lparr>bi_log_name := Some s\<rparr> else b)
      | V_Bool x \<Rightarrow>
          (if key = ''log_debug'' then b\<lparr>bi_log_debug := x\<rparr>
           else if key = ''log_info'' then b\<lparr>bi_log_info := x\<rparr>
           else if key = ''daemon'' then b\<lparr>bi_daemon := x\<rparr> else b)
      | V_Uint16 n \<Rightarrow>
          (if key = ''tcp_keepalive_time'' then b\<lparr>bi_tcp_keepalive_time := n\<rparr>
           else if key = ''tcp_keepalive_probes'' then b\<lparr>bi_tcp_keepalive_probes := n\<rparr>
           else if key = ''tcp_keepalive_intvl'' then b\<lparr>bi_tcp_keepalive_intvl := n\<rparr> else b)
      | _ \<Rightarrow> b)"

definition base_onenter :: "base_instance \<Rightarrow> base_instance \<times> string option" where
  "base_onenter b = (if bi_configured b then (b, Some ''only one instance of base is valid'') else (zero_base, None))"

definition base_onexit :: "base_instance \<Rightarrow> base_instance \<times> string option" where
  "base_onexit b =
     (case bi_redirector_name b of
        None \<Rightarrow> (b, Some ''no `redirector` set'')
      | Some name \<Rightarrow>
          let b = (if name \<in> set redirector_subsystems then b\<lparr>bi_redirector := Some name\<rparr> else b)
          in if bi_redirector b = None then (b, Some ''invalid `redirector` set'') else (b\<lparr>bi_configured := True\<rparr>, None))"

section \<open>The redsocks section\<close>

text \<open>The configuration of an instance. A port is in host order until the section is left.\<close>

record redsocks_settings =
  rset_bindaddr :: bytes
  rset_bindport :: u16
  rset_relayaddr :: bytes
  rset_relayport :: u16
  rset_type :: "string option"
  rset_login :: "string option"
  rset_password :: "string option"
  rset_min_backoff_ms :: u16
  rset_max_backoff_ms :: u16
  rset_listenq :: u16
  rset_relay_ss :: "string option"

definition relay_subsystems :: "string list" where
  "relay_subsystems = [''http-connect'', ''http-relay'', ''socks4'', ''socks5'']"

definition redsocks_entries :: "(string \<times> parser_type) list" where
  "redsocks_entries =
     [(''local_ip'', Pt_In_Addr), (''local_port'', Pt_Uint16), (''ip'', Pt_In_Addr), (''port'', Pt_Uint16), (''type'', Pt_Pchar),
      (''login'', Pt_Pchar), (''password'', Pt_Pchar), (''listenq'', Pt_Uint16), (''min_accept_backoff'', Pt_Uint16),
      (''max_accept_backoff'', Pt_Uint16)]"

definition redsocks_onenter :: redsocks_settings where
  "redsocks_onenter =
     \<lparr>rset_bindaddr = [127, 0, 0, 1], rset_bindport = 0, rset_relayaddr = [127, 0, 0, 1], rset_relayport = 0, rset_type = None,
      rset_login = None, rset_password = None, rset_min_backoff_ms = 100, rset_max_backoff_ms = 60000, rset_listenq = 128,
      rset_relay_ss = None\<rparr>"

definition redsocks_write :: "string \<Rightarrow> conf_value \<Rightarrow> redsocks_settings \<Rightarrow> redsocks_settings" where
  "redsocks_write key v r =
     (case v of
        V_In_Addr a \<Rightarrow>
          (if key = ''local_ip'' then r\<lparr>rset_bindaddr := a\<rparr>
           else if key = ''ip'' then r\<lparr>rset_relayaddr := a\<rparr> else r)
      | V_Uint16 n \<Rightarrow>
          (if key = ''local_port'' then r\<lparr>rset_bindport := n\<rparr>
           else if key = ''port'' then r\<lparr>rset_relayport := n\<rparr>
           else if key = ''listenq'' then r\<lparr>rset_listenq := n\<rparr>
           else if key = ''min_accept_backoff'' then r\<lparr>rset_min_backoff_ms := n\<rparr>
           else if key = ''max_accept_backoff'' then r\<lparr>rset_max_backoff_ms := n\<rparr> else r)
      | V_Pchar s \<Rightarrow>
          (if key = ''type'' then r\<lparr>rset_type := Some s\<rparr>
           else if key = ''login'' then r\<lparr>rset_login := Some s\<rparr>
           else if key = ''password'' then r\<lparr>rset_password := Some s\<rparr> else r)
      | _ \<Rightarrow> r)"

text \<open>The settings as they are when the section is left, the error if there is one, and whether the instance was put into the list.\<close>

definition redsocks_onexit :: "redsocks_settings \<Rightarrow> redsocks_settings \<times> string option \<times> bool" where
  "redsocks_onexit r =
     (let r = r\<lparr>rset_bindport := ntohs (rset_bindport r), rset_relayport := ntohs (rset_relayport r)\<rparr> in
      case rset_type r of
        None \<Rightarrow> (r, Some ''no `type` for redsocks'', False)
      | Some type \<Rightarrow>
          if type \<notin> set relay_subsystems then (r, Some ''invalid `type` for redsocks'', False)
          else
            (r\<lparr>rset_relay_ss := Some type\<rparr>,
             if rset_min_backoff_ms r = 0 then Some ''`min_accept_backoff` must be positive, 0 ms is too low''
             else if rset_max_backoff_ms r = 0 then Some ''`max_accept_backoff` must be positive, 0 ms is too low''
             else if \<not> rset_min_backoff_ms r < rset_max_backoff_ms r then Some ''`min_accept_backoff` must be less than `max_accept_backoff`''
             else None,
             True))"

section \<open>The two together\<close>

text \<open>The data of both: the instance of \<open>base\<close>, the list of instances of redsocks and the one whose section is open.\<close>

record conf_data =
  cd_base :: base_instance
  cd_instances :: "redsocks_settings list"
  cd_current :: "redsocks_settings option"

definition base_conf_section :: "conf_data parser_section" where
  "base_conf_section =
     \<lparr>sec_name = ''base'',
      sec_onenter = (\<lambda>d. let (b, err) = base_onenter (cd_base d) in (d\<lparr>cd_base := b\<rparr>, err)),
      sec_onexit = (\<lambda>d. let (b, err) = base_onexit (cd_base d) in (d\<lparr>cd_base := b\<rparr>, err)),
      sec_entries = base_entries,
      sec_write = (\<lambda>key v d. d\<lparr>cd_base := base_write key v (cd_base d)\<rparr>)\<rparr>"

definition redsocks_conf_section :: "conf_data parser_section" where
  "redsocks_conf_section =
     \<lparr>sec_name = ''redsocks'',
      sec_onenter = (\<lambda>d. (d\<lparr>cd_current := Some redsocks_onenter\<rparr>, None)),
      sec_onexit = (\<lambda>d. case cd_current d of
          None \<Rightarrow> (d, None)
        | Some r \<Rightarrow> (let (r, err, listed) = redsocks_onexit r
                      in (d\<lparr>cd_current := None, cd_instances := (if listed then r # cd_instances d else cd_instances d)\<rparr>, err))),
      sec_entries = redsocks_entries,
      sec_write = (\<lambda>key v d. d\<lparr>cd_current := map_option (redsocks_write key v) (cd_current d)\<rparr>)\<rparr>"

text \<open>\<open>parser_add_section\<close> puts a section in front of the others; \<open>main\<close> adds those of \<open>subsystems\<close> in order.\<close>

definition conf_sections :: "conf_data parser_section list" where
  "conf_sections = [base_conf_section, redsocks_conf_section]"

definition conf_initial :: conf_data where
  "conf_initial = \<lparr>cd_base = zero_base, cd_instances = [], cd_current = None\<rparr>"

definition settings_config :: "redsocks_settings \<Rightarrow> redsocks_config" where
  "settings_config r =
     \<lparr>rcfg_login = rset_login r, rcfg_password = rset_password r, rcfg_min_backoff_ms = rset_min_backoff_ms r,
      rcfg_max_backoff_ms = rset_max_backoff_ms r\<rparr>"

section \<open>Values have their types\<close>

fun value_ok :: "conf_value \<Rightarrow> bool" where
  "value_ok (V_In_Addr a) \<longleftrightarrow> length a = 4"
| "value_ok (V_In_Mask a) \<longleftrightarrow> length a = 4"
| "value_ok v \<longleftrightarrow> True"

text \<open>What is relied on of the resolver: an answer has addresses of four bytes, at least one.\<close>

definition resolver_contract :: "conf_env \<Rightarrow> bool" where
  "resolver_contract env \<longleftrightarrow> (\<forall>k name as. ce_getaddrinfo env k name = Inr as \<longrightarrow> as \<noteq> [] \<and> (\<forall>a \<in> set as. length a = 4))"

lemma those_length: "those xs = Some ys \<Longrightarrow> length ys = length xs"
  by (induction xs arbitrary: ys) (auto split: option.splits)

lemma split_dots_nonempty [simp]: "split_dots s \<noteq> []"
  by (induction s) (auto split: list.splits)

lemma inet_aton_length:
  assumes "inet_aton s = Some a"
  shows "length a = 4"
proof -
  obtain parts where p: "those (map inet_part (split_dots s)) = Some parts" "length parts \<le> 4"
    "a = map of_nat (butlast parts) @ drop (length parts - 1) (be32b (of_nat (last parts)))"
    using assms by (auto simp: inet_aton_def bind_eq_Some_conv split: if_splits)
  obtain n where "length parts = Suc n" using those_length [OF p(1)] by (cases parts) auto
  then show ?thesis using p(2,3) by (simp add: be32b_def)
qed

lemma vp_pbool_writes: "vp_pbool tok = Some (writes, errs) \<Longrightarrow> writes = [] \<and> errs \<noteq> [] \<or> (\<exists>b. writes = [V_Bool b]) \<and> errs = []"
  by (auto simp: vp_pbool_def split: if_splits)

lemma vp_in_addr2_writes: "vp_in_addr2 tok = Some (writes, errs) \<Longrightarrow> v \<in> set writes \<Longrightarrow> value_ok v"
  by (auto simp: vp_in_addr2_def Let_def be32b_def dest!: inet_aton_length split: option.splits list.splits if_splits prod.splits)

lemma value_parser_ok:
  assumes "value_parser_by_type env k type tok = Some (writes, errs)" "resolver_contract env" "v \<in> set writes"
  shows "value_ok v"
proof (cases type)
  case Pt_Bool
  with assms vp_pbool_writes [of tok writes errs] show ?thesis by (auto simp: value_parser_by_type_def)
next
  case Pt_In_Addr
  with assms show ?thesis
    by (auto simp: value_parser_by_type_def vp_in_addr_def resolver_contract_def dest!: inet_aton_length split: option.splits sum.splits if_splits)
next
  case Pt_In_Addr2
  with assms vp_in_addr2_writes show ?thesis by (auto simp: value_parser_by_type_def)
next
  case Pt_Pchar
  with assms show ?thesis by (auto simp: value_parser_by_type_def vp_pchar_def)
next
  case Pt_Uint16
  with assms show ?thesis by (auto simp: value_parser_by_type_def vp_uint16_def split: if_splits prod.splits)
qed

section \<open>Invariants of what is read\<close>

text \<open>
  The contract between the parser and the sections: an invariant of their data is kept by entering and
  leaving a section without an error, and by storing a value of the right type.
\<close>

locale conf_invariant =
  fixes sections :: "'a parser_section list" and Q :: "'a \<Rightarrow> bool"
  assumes enter: "sec \<in> set sections \<Longrightarrow> Q d \<Longrightarrow> sec_onenter sec d = (d', None) \<Longrightarrow> Q d'"
    and leave: "sec \<in> set sections \<Longrightarrow> Q d \<Longrightarrow> sec_onexit sec d = (d', None) \<Longrightarrow> Q d'"
    and store: "sec \<in> set sections \<Longrightarrow> Q d \<Longrightarrow> value_ok v \<Longrightarrow> Q (sec_write sec key v d)"
begin

definition core_inv :: "'a parser_core \<Rightarrow> bool" where
  "core_inv co \<longleftrightarrow> (pr_errors co = [] \<longrightarrow> Q (pr_data co)) \<and> (\<forall>sec. pr_section co = Some sec \<longrightarrow> sec \<in> set sections)"

lemma core_inv_error [simp]: "core_inv (parser_error msg co) \<longleftrightarrow> (\<forall>sec. pr_section co = Some sec \<longrightarrow> sec \<in> set sections)"
  by (simp add: core_inv_def parser_error_def)

lemma find_section: "find P sections = Some sec \<Longrightarrow> sec \<in> set sections"
  by (auto simp: find_Some_iff)

lemma token_open_inv:
  assumes "core_inv co" "pr_errors co = []"
  shows "core_inv (token_open sections co)"
proof (cases "pr_section co = None \<and> pr_section_token co \<noteq> None")
  case False
  with assms show ?thesis by (auto simp: token_open_def core_inv_def parser_error_def)
next
  case True
  then obtain n where n: "pr_section co = None" "pr_section_token co = Some n" by auto
  show ?thesis
  proof (cases "find (\<lambda>p. sec_name p = n) sections")
    case None
    with n show ?thesis by (simp add: token_open_def)
  next
    case (Some sec)
    obtain d err where e: "sec_onenter sec (pr_data co) = (d, err)" by (cases "sec_onenter sec (pr_data co)")
    have "Q d" if "err = None" using enter [OF find_section [OF Some], of "pr_data co" d] e assms that by (simp add: core_inv_def)
    with n Some e find_section [OF Some] show ?thesis by (cases err) (simp_all add: token_open_def Let_def core_inv_def parser_error_def)
  qed
qed

lemma token_close_inv:
  assumes "core_inv co" "pr_errors co = []"
  shows "core_inv (token_close co)"
proof (cases "pr_section co")
  case None
  then show ?thesis by (simp add: token_close_def)
next
  case (Some sec)
  obtain d err where e: "sec_onexit sec (pr_data co) = (d, err)" by (cases "sec_onexit sec (pr_data co)")
  have "Q d" if "err = None" using leave [of sec "pr_data co" d] e assms Some that by (simp add: core_inv_def)
  with Some e show ?thesis by (cases err) (simp_all add: token_close_def Let_def core_inv_def parser_error_def)
qed

lemma fold_store:
  assumes "sec \<in> set sections" "\<forall>v \<in> set vs. value_ok v" "Q d"
  shows "Q (fold (sec_write sec key) vs d)"
  using assms by (induction vs arbitrary: d) (auto intro: store)

lemma entry_value_ok: "resolver_contract env \<Longrightarrow> entry_value env sec k key val = Some (writes, errs) \<Longrightarrow> \<forall>v \<in> set writes. value_ok v"
  using value_parser_ok by (auto simp: entry_value_def split: option.splits list.splits)

lemma assign_value_inv:
  assumes "core_inv co" "pr_errors co = []" "sec \<in> set sections" "assign_value env sec key val co = Some co'" "resolver_contract env"
  shows "core_inv co'"
proof -
  obtain writes errs where w: "entry_value env sec (pr_lookups co) key val = Some (writes, errs)"
    using assms(4) by (cases "entry_value env sec (pr_lookups co) key val") (auto simp: assign_value_def)
  have "Q (fold (sec_write sec key) writes (pr_data co))" using assms(1-3) entry_value_ok [OF assms(5) w] by (intro fold_store) (auto simp: core_inv_def)
  then show ?thesis using assms w by (cases "errs = []") (auto simp: assign_value_def core_inv_def parser_error_def)
qed

lemma core_inv_clear [simp]: "core_inv (c\<lparr>pr_key_token := k, pr_value_token := v\<rparr>) \<longleftrightarrow> core_inv c"
  by (simp add: core_inv_def)

lemma token_end_inv:
  assumes "core_inv co" "pr_errors co = []" "token_end env co = Some co'" "resolver_contract env"
  shows "core_inv co'"
proof (cases "pr_section co")
  case None
  with assms show ?thesis by (auto simp: token_end_def)
next
  case (Some sec)
  then have "sec \<in> set sections" using assms(1) by (simp add: core_inv_def)
  note av = assign_value_inv [OF assms(1,2) this _ assms(4)]
  show ?thesis
  proof (cases "pr_key_token co")
    case None
    with Some assms(3) show ?thesis by (simp add: token_end_def)
  next
    case k: (Some k)
    show ?thesis
    proof (cases "pr_value_token co")
      case None
      with Some k assms show ?thesis by (auto simp: token_end_def core_inv_def parser_error_def)
    next
      case v: (Some v)
      with Some k assms(3) obtain c where "assign_value env sec k v co = Some c" "co' = c\<lparr>pr_key_token := None, pr_value_token := None\<rparr>"
        by (cases "assign_value env sec k v co") (auto simp: token_end_def)
      with av show ?thesis by simp
    qed
  qed
qed

lemma token_word_inv: "core_inv co \<Longrightarrow> core_inv (token_word tok co)" "core_inv co \<Longrightarrow> core_inv (token_assign co)"
  by (simp_all add: token_word_def token_assign_def core_inv_def parser_error_def)

lemma run_token_inv:
  assumes "core_inv co" "pr_errors co = []" "run_token env sections tok co = Some co'" "resolver_contract env"
  shows "core_inv co'"
  using assms token_open_inv [OF assms(1,2)] token_close_inv [OF assms(1,2)] token_end_inv [OF assms(1,2) _ assms(4)] token_word_inv [OF assms(1)]
  unfolding run_token_def by (auto split: if_split_asm)

lemma run_tokens_inv:
  assumes "run_tokens env sections co d = Some (co', r)" "core_inv co" and resolver: "resolver_contract env"
  shows "core_inv co'"
  using assms(1,2)
proof (induction d arbitrary: co rule: length_induct)
  case (1 iter)
  note step = run_tokens.simps [of env sections co iter]
  show ?case
  proof (cases "pr_errors co = []")
    case False
    with "1.prems" show ?thesis by (simp add: step)
  next
    case ok: True
    show ?thesis
    proof (cases "gettoken iter")
      case (Token tok rest)
      note sh = gettoken_shorter(1) [OF Token]
      show ?thesis
      proof (cases "tok = ''//'' \<or> tok = ''/*''")
        case True
        then show ?thesis using "1.prems" ok Token sh "1.IH" after_newline_shorter [of rest]
          by (auto simp: step split: if_splits option.splits dest: less_trans)
      next
        case False
        with "1.prems"(1) ok Token obtain co2 where "run_token env sections tok co = Some co2" "run_tokens env sections co2 rest = Some (co', r)"
          by (auto simp: step split: option.splits)
        with run_token_inv [OF "1.prems"(2) ok _ resolver] "1.IH" sh show ?thesis by blast
      qed
    qed (use "1.prems" ok in \<open>auto simp: step core_inv_def parser_error_def\<close>)
  qed
qed

lemma parser_scan_inv:
  assumes "parser_scan env sections cx = Some cx'" "core_inv (pc_core cx)" "resolver_contract env"
  shows "core_inv (pc_core cx')"
proof (cases "if pc_in_comment cx then after_comment (pc_data cx) else Some (pc_data cx)")
  case None
  with assms show ?thesis by (auto simp: parser_scan_def)
next
  case (Some d)
  with assms(1) obtain co r where "run_tokens env sections (pc_core cx) d = Some (co, r)" "pc_core cx' = co"
    by (cases "run_tokens env sections (pc_core cx) d") (auto simp: parser_scan_def)
  with run_tokens_inv assms(2,3) show ?thesis by blast
qed

lemma parser_round_inv:
  assumes "parser_round env sections cx = Some cx'" "core_inv (pc_core cx)" "resolver_contract env"
  shows "core_inv (pc_core cx')"
proof -
  obtain res f where fg: "fgets (pc_size (grown cx) - length (pc_data cx)) (pc_file cx) = (res, f)" by fastforce
  have "core_inv (parser_error ''file read failure'' (pc_core cx))" using assms(2) by (simp add: core_inv_def parser_error_def)
  moreover have "core_inv (pc_core cx')" if "parser_scan env sections c = Some cx'" "pc_core c = pc_core cx" for c
    using parser_scan_inv [OF that(1)] that(2) assms(2,3) by simp
  ultimately show ?thesis using assms fg
    by (cases res) (auto simp: parser_round_def Let_def split: if_splits)
qed

lemma parser_loop_inv:
  assumes "parser_loop env sections cx = Some (Some cx')" "core_inv (pc_core cx)" and resolver: "resolver_contract env"
  shows "core_inv (pc_core cx')"
proof -
  have "env = env \<longrightarrow> sections = sections \<longrightarrow> core_inv (pc_core cx) \<longrightarrow> (\<forall>c. Some cx' = Some c \<longrightarrow> core_inv (pc_core c))"
  proof (rule parser_loop.raw_induct [OF _ assms(1), of "\<lambda>e s cx y. e = env \<longrightarrow> s = sections \<longrightarrow> core_inv (pc_core cx) \<longrightarrow> (\<forall>c. y = Some c \<longrightarrow> core_inv (pc_core c))"])
    fix loop e and s :: "'a parser_section list" and cx y
    assume IH: "\<And>e s cx y. loop e s cx = Some y \<Longrightarrow> e = env \<longrightarrow> s = sections \<longrightarrow> core_inv (pc_core cx) \<longrightarrow> (\<forall>c. y = Some c \<longrightarrow> core_inv (pc_core c))"
      and y: "(if pr_errors (pc_core cx) \<noteq> [] \<or> fi_eof (pc_file cx) \<or> pc_failed cx then Some (Some cx)
        else case parser_round e s cx of None \<Rightarrow> Some None | Some cx \<Rightarrow> loop e s cx) = Some y"
    show "e = env \<longrightarrow> s = sections \<longrightarrow> core_inv (pc_core cx) \<longrightarrow> (\<forall>c. y = Some c \<longrightarrow> core_inv (pc_core c))"
    proof (cases "parser_round e s cx")
      case None
      with y show ?thesis by (auto split: if_splits)
    next
      case (Some c)
      with y IH [of e s c y] parser_round_inv [OF _ _ resolver, of cx c] show ?thesis by (auto split: if_splits)
    qed
  qed
  with assms(2) show ?thesis by blast
qed

lemma parser_run_inv:
  assumes "parser_run env sections d f = Some (Some (True, d'))" "Q d" "resolver_contract env"
  shows "Q d'"
proof -
  obtain cx where l: "parser_loop env sections (parser_start d f) = Some (Some cx)"
    and r: "(True, d') = parser_result (if pc_failed cx then pc_core cx else parser_finish (pc_core cx))"
    using assms(1) by (auto simp: parser_run_def)
  have "core_inv (pc_core cx)" by (rule parser_loop_inv [OF l _ assms(3)]) (use assms(2) in \<open>simp add: core_inv_def parser_start_def\<close>)
  moreover have "pr_errors (pc_core cx) = []" "pr_data (pc_core cx) = d'"
    using r by (auto simp: parser_result_def parser_finish_def report_stale_def parser_error_def split: if_splits)
  ultimately show ?thesis by (simp add: core_inv_def)
qed

end

section \<open>What an accepted file leaves\<close>

definition settings_ok :: "redsocks_settings \<Rightarrow> bool" where
  "settings_ok r \<longleftrightarrow> length (rset_bindaddr r) = 4 \<and> length (rset_relayaddr r) = 4 \<and>
     (\<exists>ss \<in> set relay_subsystems. rset_type r = Some ss \<and> rset_relay_ss r = Some ss) \<and>
     0 < rset_min_backoff_ms r \<and> rset_min_backoff_ms r < rset_max_backoff_ms r"

definition conf_inv :: "conf_data \<Rightarrow> bool" where
  "conf_inv d \<longleftrightarrow> (\<forall>r \<in> set (cd_instances d). settings_ok r) \<and>
     (\<forall>r. cd_current d = Some r \<longrightarrow> length (rset_bindaddr r) = 4 \<and> length (rset_relayaddr r) = 4) \<and>
     (\<forall>n. bi_redirector (cd_base d) = Some n \<longrightarrow> n \<in> set redirector_subsystems) \<and>
     (bi_configured (cd_base d) \<longrightarrow> bi_redirector (cd_base d) \<noteq> None)"

lemma base_write_keeps [simp]: "bi_redirector (base_write key v b) = bi_redirector b" "bi_configured (base_write key v b) = bi_configured b"
  by (simp_all add: base_write_def split: conf_value.split)

lemma redsocks_write_keeps:
  "value_ok v \<Longrightarrow> length (rset_bindaddr r) = 4 \<Longrightarrow> length (rset_bindaddr (redsocks_write key v r)) = 4"
  "value_ok v \<Longrightarrow> length (rset_relayaddr r) = 4 \<Longrightarrow> length (rset_relayaddr (redsocks_write key v r)) = 4"
  by (auto simp: redsocks_write_def split: conf_value.split)

lemma redsocks_onexit_ok:
  assumes "redsocks_onexit r = (r', None, listed)" "length (rset_bindaddr r) = 4" "length (rset_relayaddr r) = 4"
  shows "settings_ok r'"
  using assms
  by (auto simp: redsocks_onexit_def settings_ok_def Let_def word_neq_0_conv [symmetric] split: option.splits if_splits)

interpretation cf: conf_invariant conf_sections conf_inv
proof
  fix sec d d'
  assume sec: "sec \<in> set conf_sections" and i: "conf_inv d"
  { assume "sec_onenter sec d = (d', None)"
    with sec i show "conf_inv d'"
      by (auto simp: conf_sections_def base_conf_section_def redsocks_conf_section_def base_onenter_def zero_base_def redsocks_onenter_def conf_inv_def split: if_splits) }
  { assume x: "sec_onexit sec d = (d', None)"
    show "conf_inv d'"
    proof (cases "sec = base_conf_section")
      case True
      with x i show ?thesis
        by (auto simp: base_conf_section_def base_onexit_def Let_def conf_inv_def split: option.splits if_splits)
    next
      case False
      then have sec': "sec = redsocks_conf_section" using sec by (simp add: conf_sections_def)
      show ?thesis
      proof (cases "cd_current d")
        case None
        with x i sec' show ?thesis by (simp add: redsocks_conf_section_def)
      next
        case (Some r)
        obtain r' err listed where e: "redsocks_onexit r = (r', err, listed)" by (cases "redsocks_onexit r")
        with x Some sec' have "err = None" "d' = d\<lparr>cd_current := None, cd_instances := (if listed then r' # cd_instances d else cd_instances d)\<rparr>"
          by (simp_all add: redsocks_conf_section_def)
        moreover from this(1) e i Some redsocks_onexit_ok [of r r' listed] have "settings_ok r'" by (simp add: conf_inv_def)
        ultimately show ?thesis using i by (auto simp: conf_inv_def)
      qed
    qed }
next
  fix sec d v key
  assume "sec \<in> set conf_sections" "conf_inv d" "value_ok v"
  then show "conf_inv (sec_write sec key v d)"
    by (auto simp: conf_sections_def base_conf_section_def redsocks_conf_section_def conf_inv_def redsocks_write_keeps)
qed

lemma conf_inv_initial: "conf_inv conf_initial"
  by (simp add: conf_inv_def conf_initial_def zero_base_def)

end
