(* ===== verification/Conf_Props.thy ===== *)
theory Conf_Props
  imports Conf_Sections Redsocks_Runs
begin

text \<open>
  The properties of the configuration parser: it ends, it computes what the reference says, printed
  configurations are read back, what it accepts is what the proxy relies on, and the files it
  gets wrong.
\<close>

section \<open>Samples\<close>

definition sample_env :: conf_env where
  "sample_env = \<lparr>ce_getaddrinfo = (\<lambda>k name. Inl ''unknown host''), ce_rand = (\<lambda>k. 0)\<rparr>"

definition sample_conf :: conf_text where
  "sample_conf = [(''base'', [(''redirector'', ''generic''), (''log_info'', ''on'')]),
     (''redsocks'', [(''ip'', ''10.1''), (''port'', ''1080''), (''type'', ''socks5''), (''password'', ''a b'')])]"

lemma sample_env_ok: "resolver_contract sample_env"
  by (simp add: resolver_contract_def sample_env_def)

lemma sample_conf_ok: "conf_ok sample_conf"
  by code_simp

definition sample_settings :: redsocks_settings where
  "sample_settings = redsocks_onenter\<lparr>rset_relayaddr := [10, 0, 0, 1], rset_relayport := ntohs 1080, rset_type := Some ''socks5'',
     rset_password := Some ''a b'', rset_relay_ss := Some ''socks5''\<rparr>"

definition sample_data :: conf_data where
  "sample_data =
     \<lparr>cd_base = zero_base\<lparr>bi_configured := True, bi_redirector_name := Some ''generic'', bi_redirector := Some ''generic'', bi_log_info := True\<rparr>,
      cd_instances = [sample_settings], cd_current = None\<rparr>"

lemmas conf_eval = apply_section_def accepted_def apply_assign_def entry_type_def value_parser_by_type_def vp_pchar_def vp_pbool_def
  vp_uint16_def vp_in_addr_def strtrue_def strfalse_def strtoul_def isspace_def scan_sign_def strtoul_base_def strip_0x_def
  scan_digits_def hex_value_def char2nible_def inet_aton_def inet_part_def isdigit_def be32b_def conf_sections_def
  base_conf_section_def redsocks_conf_section_def base_entries_def redsocks_entries_def base_onenter_def base_onexit_def
  base_write_def redsocks_onenter_def redsocks_onexit_def redsocks_write_def redirector_subsystems_def relay_subsystems_def

lemma ntohs_0 [simp]: "ntohs 0 = 0"
  by (simp add: ntohs_def)

lemma sample_applied: "apply_conf sample_env conf_sections sample_conf (0, conf_initial) = Some (1, sample_data)"
  by (simp add: conf_eval sample_conf_def conf_initial_def sample_data_def sample_settings_def zero_base_def)

lemma sample_read: "parser_run sample_env conf_sections conf_initial (file_of (print_conf sample_conf)) = Some (Some (True, sample_data))"
  by (rule print_read [OF sample_conf_ok sample_applied])

section \<open>Properties\<close>

text \<open>
  C21: The parser does not depend on how its buffer cuts the file: for every file without a zero byte that
  can be read to its end, and every set of sections, it returns, and with the errors and the data of the
  reference, which cuts the whole lines of the text into tokens at once and acts on them in their order. A
  last line that has no newline is ignored.
\<close>

theorem parser_run_reference:
  assumes "Nul \<notin> set txt"
  shows "parser_run env sections d (file_of txt) =
    Some (map_option (\<lambda>co. parser_result (parser_finish co))
      (conf_exec env sections (core_start d) (conf_lex False (line_part txt))))"
  using parser_run_text [OF assms, of env sections d] by (simp only: core_start_at)

theorem parser_run_reference_witness:
  "parser_run sample_env conf_sections conf_initial (file_of ''base'') =
    Some (map_option (\<lambda>co. parser_result (parser_finish co))
      (conf_exec sample_env conf_sections (core_start conf_initial) (conf_lex False (line_part ''base''))))"
  by (rule parser_run_reference) simp

text \<open>C23: The parser ends for every file, also one that has zero bytes or cannot be read to its end.\<close>

theorem parser_run_terminates: "parser_run env sections d f \<noteq> None"
  using parser_loop_returns [OF buffer_ok_start, of env sections d f] by (simp add: parser_run_def)

text \<open>
  C22: A configuration that is printed with its values in quotes is read back: the parser accepts the text
  and leaves the data that entering the sections, storing the values and leaving the sections give.
  No value may be one of the punctuation tokens.
\<close>

theorem conf_roundtrip:
  assumes "conf_ok ss" "apply_conf env sections ss (0, d) = Some (k, d')"
  shows "parser_run env sections d (file_of (print_conf ss)) = Some (Some (True, d'))"
  by (rule print_read [OF assms])

theorem conf_roundtrip_witness:
  "parser_run sample_env conf_sections conf_initial (file_of (print_conf sample_conf)) = Some (Some (True, sample_data))"
  by (rule conf_roundtrip [OF sample_conf_ok sample_applied])


definition sample_listener :: redsocks_instance where
  "sample_listener = \<lparr>ri_backoff_ms = 0, ri_listening = True, ri_backoff = None\<rparr>"


text \<open>
  C40: A key that the section does not know, with a value that reads as a boolean, makes the program write
  through a null pointer instead of reporting the key.
\<close>

theorem conf_unknown_key:
  assumes "list_all section_ok ((n, (k, v) # as) # ss)" "find (\<lambda>p. sec_name p = n) sections = Some sec"
    and "sec_onenter sec d = (d', None)" "entry_type sec k = None" "v \<in> set (strtrue @ strfalse)"
  shows "parser_run env sections d (file_of (print_conf ((n, (k, v) # as) # ss))) = Some None"
proof -
  have w: "is_word n" "is_word k" using assms(1) by (simp_all add: section_ok_def assign_ok_def)
  have v: "v \<notin> {''{'', ''}'', ''='', '';''}" using assms(5) by (auto simp: strtrue_def strfalse_def)
  let ?co = "core_at (Some sec) (0, d')"
  have "entry_value env sec 0 k v = None" using assms(4,5) by (auto simp: entry_value_def vp_pbool_def)
  then have "run_token env sections '';'' (?co\<lparr>pr_key_token := Some k, pr_value_token := Some v\<rparr>) = None"
    by (simp add: run_token_def token_end_def assign_value_def core_at_def)
  then have "conf_exec env sections ?co (map Lx_Token (assign_tokens (k, v)) @ xs) = None" for xs
    using v word_no_punctuation [OF w(2)]
    by (simp add: assign_tokens_def exec_word token_word_def core_at_def) (simp add: run_token_def token_assign_def exec_word token_word_def)
  then show ?thesis
    using parser_run_print [OF assms(1), of env sections d] exec_open [OF w(1) assms(2), of "(0, d)" d'] assms(3)
    by (simp add: section_tokens_def)
qed

theorem conf_unknown_key_witness:
  "parser_run sample_env conf_sections conf_initial (file_of (print_conf [(''redsocks'', [(''autoproxy'', ''yes'')])])) = Some None"
proof (rule conf_unknown_key)
  show "list_all section_ok [(''redsocks'', [(''autoproxy'', ''yes'')])]" by code_simp
  show "find (\<lambda>p. sec_name p = ''redsocks'') conf_sections = Some redsocks_conf_section"
    by (simp add: conf_sections_def base_conf_section_def redsocks_conf_section_def)
  show "sec_onenter redsocks_conf_section conf_initial = (conf_initial\<lparr>cd_current := Some redsocks_onenter\<rparr>, None)"
    by (simp add: redsocks_conf_section_def)
  show "entry_type redsocks_conf_section ''autoproxy'' = None" by (simp add: entry_type_def redsocks_conf_section_def redsocks_entries_def)
  show "''yes'' \<in> set (strtrue @ strfalse)" by (simp add: strtrue_def)
qed

text \<open>
  Quotes do not protect a value that consists of punctuation: a password that is a brace, an equals
  sign, a semicolon or the beginning of a comment cannot be configured, the file is refused.
\<close>

theorem conf_punctuation_refused:
  assumes "is_word n" "is_word k" "v \<in> punctuation" "find (\<lambda>p. sec_name p = n) sections = Some sec" "sec_onenter sec d = (d', None)"
  shows "\<exists>d''. parser_run env sections d (file_of (print_conf [(n, [(k, v)])])) = Some (Some (False, d''))"
  by (rule punctuation_refused [OF assms])

theorem conf_punctuation_refused_witness:
  "\<exists>d. parser_run sample_env conf_sections conf_initial (file_of (print_conf [(''redsocks'', [(''password'', ''//'')])])) = Some (Some (False, d))"
proof (rule conf_punctuation_refused)
  show "is_word ''redsocks''" "is_word ''password''" by code_simp+
  show "''//'' \<in> punctuation" by (simp add: punctuation_def)
  show "find (\<lambda>p. sec_name p = ''redsocks'') conf_sections = Some redsocks_conf_section"
    by (simp add: conf_sections_def base_conf_section_def redsocks_conf_section_def)
  show "sec_onenter redsocks_conf_section conf_initial = (conf_initial\<lparr>cd_current := Some redsocks_onenter\<rparr>, None)"
    by (simp add: redsocks_conf_section_def)
qed

end
