(* ===== verification/Http_Relay.thy ===== *)
theory Http_Relay
  imports Http_Connect
begin

text \<open>
  \<open>redsocks/http-relay.c\<close>: plain HTTP through a proxy. The client is not connected to the proxy server
  before the head of its request has been read; the request line gets the name of the server, the
  headers that concern the connection are replaced, and what follows is passed on. A challenge of the proxy is
  answered over a new connection, to which the request is sent again.
\<close>

section \<open>Buffers\<close>

abbreviation httpr_new :: nat where "httpr_new \<equiv> 0"
abbreviation httpr_recv_request_headers :: nat where "httpr_recv_request_headers \<equiv> 1"
abbreviation httpr_request_sent :: nat where "httpr_request_sent \<equiv> 2"
abbreviation httpr_reply_came :: nat where "httpr_reply_came \<equiv> 3"
abbreviation httpr_headers_skipped :: nat where "httpr_headers_skipped \<equiv> 4"

definition httpr_buffer_init :: httpr_buffer where
  "httpr_buffer_init = \<lparr>hb_buff = Some [], hb_max_len = 4096\<rparr>"

definition httpr_buffer_fini :: "httpr_buffer \<Rightarrow> httpr_buffer" where
  "httpr_buffer_fini b = b\<lparr>hb_buff := None\<rparr>"

text \<open>The size is an \<open>int\<close> that is doubled until the data fits; doubling it past the range of \<open>int\<close> is undefined.\<close>

function httpr_grow :: "nat \<Rightarrow> nat \<Rightarrow> nat option" where
  "httpr_grow need max_len =
     (if need \<le> max_len then Some max_len
      else if max_len = 0 \<or> 2 ^ 31 \<le> 2 * max_len then None
      else httpr_grow need (2 * max_len))"
  by auto
termination
  by (relation "measure (\<lambda>(need, max_len). need - max_len)") auto

declare httpr_grow.simps [simp del]

definition httpr_buffer_append :: "bytes \<Rightarrow> httpr_buffer \<Rightarrow> httpr_buffer option" where
  "httpr_buffer_append data b =
     do {
       buff \<leftarrow> hb_buff b;
       max_len \<leftarrow> httpr_grow (length buff + length data + 1) (hb_max_len b);
       Some (b\<lparr>hb_buff := Some (buff @ data), hb_max_len := max_len\<rparr>)
     }"

text \<open>A line and its end, in either buffer.\<close>

definition httpr_append_line :: "string \<Rightarrow> httpr_buffer \<Rightarrow> httpr_buffer option" where
  "httpr_append_line line b = do { b \<leftarrow> httpr_buffer_append (c_bytes line) b; httpr_buffer_append (c_bytes crlf) b }"

definition httpr_append_header :: "string \<Rightarrow> httpr_client \<Rightarrow> httpr_client option" where
  "httpr_append_header line h = do { b \<leftarrow> httpr_append_line line (httpr_client_buffer h); Some (h\<lparr>httpr_client_buffer := b\<rparr>) }"

definition httpr_append_reply :: "string \<Rightarrow> httpr_client \<Rightarrow> httpr_client option" where
  "httpr_append_reply line h = do { b \<leftarrow> httpr_append_line line (httpr_relay_buffer h); Some (h\<lparr>httpr_relay_buffer := b\<rparr>) }"

definition httpr_start :: httpr_client where
  "httpr_start = no_httpr\<lparr>httpr_client_buffer := httpr_buffer_init, httpr_relay_buffer := httpr_buffer_init\<rparr>"

definition httpr_client_init :: "redsocks_config \<Rightarrow> redsocks_client \<Rightarrow> redsocks_client" where
  "httpr_client_init cfg c = c\<lparr>rc_state := httpr_new, rc_httpr := httpr_start\<rparr>"

definition httpr_client_fini :: "redsocks_client \<Rightarrow> redsocks_client" where
  "httpr_client_fini c =
     c\<lparr>rc_httpr := \<lparr>httpr_firstline = None, httpr_host = None, httpr_has_host = httpr_has_host (rc_httpr c),
        httpr_client_buffer = httpr_buffer_fini (httpr_client_buffer (rc_httpr c)),
        httpr_relay_buffer = httpr_buffer_fini (httpr_relay_buffer (rc_httpr c))\<rparr>\<rparr>"

text \<open>The end of an instance forgets its challenge.\<close>

definition httpr_instance_fini :: "http_auth \<Rightarrow> http_auth" where
  "httpr_instance_fini auth = auth\<lparr>last_auth_query := None\<rparr>"

section \<open>The request\<close>

text \<open>The destination of the client as a host name: without the port when it is the one of HTTP.\<close>

definition fmt_http_host :: "redsocks_client \<Rightarrow> string" where
  "fmt_http_host c = (if ntohs (rc_destport c) = 80 then inet_ntoa (rc_destaddr c) else dest_text c)"

text \<open>A C string that begins in a received line, whose last byte is followed by a zero.\<close>

definition c_text :: "bytes \<Rightarrow> string" where
  "c_text bs = map (\<lambda>b. char_of (unat b)) (cstr bs)"

abbreviation is_blank :: "char \<Rightarrow> bool" where "is_blank x \<equiv> x = CHR '' ''"

text \<open>
  The request line with the server in front of a path. \<open>False\<close> is the failure the code reports. The
  destination of the client, of which the code takes its text, is an argument.
\<close>

definition httpr_toss_http_firstline :: "string \<Rightarrow> httpr_client \<Rightarrow> (bool \<times> httpr_client) option" where
  "httpr_toss_http_firstline dest h =
     do {
       firstline \<leftarrow> httpr_firstline h;
       if CHR '' '' \<notin> set firstline then Some (False, h)
       else
         do {
           let uri = dropWhile is_blank (dropWhile (\<lambda>x. \<not> is_blank x) firstline);
           nbuff \<leftarrow> httpr_buffer_append (c_bytes (take (length firstline - length uri) firstline)) httpr_buffer_init;
           nbuff \<leftarrow> (if take 1 uri = ''/'' then
                       do {
                         host \<leftarrow> (if httpr_has_host h then httpr_host h else Some dest);
                         nbuff \<leftarrow> httpr_buffer_append (c_bytes ''http://'') nbuff;
                         httpr_buffer_append (c_bytes host) nbuff
                       }
                     else Some nbuff);
           nbuff \<leftarrow> httpr_buffer_append (c_bytes uri) nbuff;
           nbuff \<leftarrow> httpr_buffer_append (c_bytes crlf) nbuff;
           buff \<leftarrow> hb_buff nbuff;
           Some (True, h\<lparr>httpr_firstline := Some (c_text buff)\<rparr>)
         }
     }"

text \<open>The end of the head: whether the request is to be dropped.\<close>

definition httpr_last_line :: "string \<Rightarrow> httpr_client \<Rightarrow> (bool \<times> httpr_client) option" where
  "httpr_last_line dest h =
     do {
       (ok, h) \<leftarrow> (if httpr_firstline h = None then Some (False, h) else httpr_toss_http_firstline dest h);
       h \<leftarrow> (if httpr_has_host h then Some h else httpr_append_header (''Host: '' @ dest) h);
       h \<leftarrow> httpr_append_header ''Proxy-Connection: close'' h;
       h \<leftarrow> httpr_append_header ''Connection: close'' h;
       h \<leftarrow> httpr_append_header [] h;
       Some (\<not> ok, h)
     }"

text \<open>
  A line that is not empty. The value of a host header is read from its sixth character on, which lies
  outside the line when it is \<open>Host\<close> and nothing else.
\<close>

definition httpr_line :: "bytes \<Rightarrow> httpr_client \<Rightarrow> httpr_client option" where
  "httpr_line raw h =
     (let line = c_text raw in
      if httpr_firstline h = None then Some (h\<lparr>httpr_firstline := Some line\<rparr>)
      else if strncaseeq line ''Host'' 4 then
        if length raw < 5 then None
        else httpr_append_header line (h\<lparr>httpr_has_host := True, httpr_host := Some (dropWhile isspace (c_text (drop 5 raw)))\<rparr>)
      else if strncaseeq line ''Proxy-Connection'' 16 \<or> strncaseeq line ''Connection'' 10 then Some h
      else httpr_append_header line h)"

text \<open>
  The lines of the head: whether it is complete, whether the client is to be dropped, what is left of the
  input, and the request so far.
\<close>

function httpr_lines :: "string \<Rightarrow> bytes \<Rightarrow> httpr_client \<Rightarrow> (bool \<times> bool \<times> bytes \<times> httpr_client) option" where
  "httpr_lines dest input h =
     (case evbuffer_readln input of
        None \<Rightarrow> Some (False, False, input, h)
      | Some (raw, rest) \<Rightarrow>
          if c_text raw = [] then
            do { (do_drop, h) \<leftarrow> httpr_last_line dest h; Some (True, do_drop, rest, h) }
          else
            do { h \<leftarrow> httpr_line raw h; httpr_lines dest rest h })"
  by auto
termination
  by (relation "measure (\<lambda>(dest, input, h). length input)") (auto dest: evbuffer_readln_shorter)

declare httpr_lines.simps [simp del]

text \<open>
  The rest of the request, in pieces of the size of the buffer: kept, in case the request has to be sent again,
  and passed on when the head has been sent.
\<close>

definition post_buffer_len :: nat where "post_buffer_len = 64 * 1024"

function httpr_content :: "be_os \<Rightarrow> bytes \<Rightarrow> redsocks_client \<Rightarrow> be_calls \<Rightarrow> (redsocks_client \<times> be_calls) option" where
  "httpr_content os input c cs =
     (if input = [] then Some (c, cs)
      else
        do {
          let piece = take post_buffer_len input;
          b \<leftarrow> httpr_buffer_append piece (httpr_client_buffer (rc_httpr c));
          let c = c\<lparr>rc_httpr := (rc_httpr c)\<lparr>httpr_client_buffer := b\<rparr>\<rparr>;
          let (c, cs) = (case rc_bev c Relay of
               None \<Rightarrow> (c, cs)
             | Some r \<Rightarrow>
                 if httpr_request_sent \<le> rc_state c
                 then let (r, cs) = bufferevent_write_buffer os piece r cs in (set_bev Relay r c, cs)
                 else (c, cs));
          httpr_content os (drop post_buffer_len input) c cs
        })"
  by auto
termination
  by (relation "measure (\<lambda>(os, input, c, cs). length input)") (auto simp: post_buffer_len_def)

declare httpr_content.simps [simp del]

definition httpr_client_read_content :: "be_os \<Rightarrow> redsocks_client \<Rightarrow> be_calls \<Rightarrow> (redsocks_client \<times> be_calls) option" where
  "httpr_client_read_content os c cs =
     do {
       b \<leftarrow> rc_bev c Client;
       httpr_content os (be_input b) (set_bev Client (b\<lparr>be_input := []\<rparr>) c) cs
     }"

definition httpr_client_read_cb :: "be_os \<Rightarrow> redsocks_config \<Rightarrow> redsocks_client \<Rightarrow> be_calls \<Rightarrow> rs_result" where
  "httpr_client_read_cb os cfg c cs =
     (let (c, cs) = redsocks_touch_client os c cs in
      if httpr_recv_request_headers \<le> rc_state c then
        do { (c, cs) \<leftarrow> httpr_client_read_content os c cs; Some (Some c, cs) }
      else
        do {
          b \<leftarrow> rc_bev c Client;
          (connect_relay, do_drop, rest, h) \<leftarrow> httpr_lines (fmt_http_host c) (be_input b) (rc_httpr c);
          let c = set_bev Client (b\<lparr>be_input := rest\<rparr>) (c\<lparr>rc_httpr := h\<rparr>);
          if do_drop then Some (redsocks_drop_client c cs)
          else if connect_relay then
            do {
              (c, cs) \<leftarrow> httpr_client_read_content os (c\<lparr>rc_state := httpr_recv_request_headers\<rparr>) cs;
              Some (redsocks_connect_relay os c cs)
            }
          else Some (Some c, cs)
        })"

definition httpr_connect_relay :: "be_os \<Rightarrow> rs_bev \<Rightarrow> redsocks_client \<Rightarrow> be_calls \<Rightarrow> redsocks_client option \<times> be_calls" where
  "httpr_connect_relay os b c cs =
     (let (ok, b, cs) = bufferevent_enable os True False (b\<lparr>be_readcb := Some Cb_Ss_Client\<rparr>) cs;
          c = set_bev Client b c
      in if ok then (Some c, cs) else redsocks_drop_client c cs)"

section \<open>Sending the request\<close>

text \<open>
  Method and path of the request line, as a digest needs them. The outer \<open>None\<close> is a line without a blank,
  where the code goes on with a null pointer, the inner one a malformed request.
\<close>

definition httpr_method_uri :: "string \<Rightarrow> (string \<times> string) option option" where
  "httpr_method_uri firstline =
     (if CHR '' '' \<notin> set firstline then None
      else Some (case dropWhile (\<lambda>x. x \<noteq> CHR ''/'') firstline of
          s1 # s2 # server \<Rightarrow>
            let uri = dropWhile (\<lambda>x. x \<noteq> CHR ''/'') server in
            if s2 = CHR ''/'' \<and> uri \<noteq> [] \<and> CHR '' '' \<in> set uri
            then Some (takeWhile (\<lambda>x. \<not> is_blank x) firstline, takeWhile (\<lambda>x. \<not> is_blank x) uri) else None
        | _ \<Rightarrow> None))"

text \<open>The answer to the last challenge; \<open>Inl\<close> when the client is to be dropped.\<close>

definition httpr_auth_string :: "be_os \<Rightarrow> redsocks_config \<Rightarrow> string option \<Rightarrow> http_auth \<Rightarrow> be_calls \<Rightarrow>
    ((unit + (string \<times> string) option) \<times> be_calls) option" where
  "httpr_auth_string os cfg firstline auth cs =
     (case last_auth_query auth of
        None \<Rightarrow> Some (Inr None, cs)
      | Some query \<Rightarrow>
          if strncaseeq query ''Basic'' 5 then
            do {
              login \<leftarrow> rcfg_login cfg;
              password \<leftarrow> rcfg_password cfg;
              Some (Inr (map_option (Pair ''Basic'') (basic_authentication_encode login password)), cs)
            }
          else if strncaseeq query ''Digest'' 6 then
            (case firstline of
               None \<Rightarrow> Some (Inr None, cs)
             | Some firstline \<Rightarrow>
                 do {
                   args \<leftarrow> httpr_method_uri firstline;
                   case args of
                     None \<Rightarrow> Some (Inl (), cs)
                   | Some (method, uri) \<Rightarrow>
                       let (ws, cs) = random_words 4 os cs;
                           cnounce = concat (map hex4 ws) in
                       if length query < 7 then None
                       else
                         do {
                           r \<leftarrow> digest_authentication_encode (drop 7 query) (rcfg_login cfg) (rcfg_password cfg) (Some method)
                                  (Some uri) (last_auth_count auth) cnounce (replicate 64 0);
                           Some (Inr (map_option (Pair ''Digest'') r), cs)
                         }
                 })
          else Some (Inr None, cs))"

fun bufferevent_writes :: "be_os \<Rightarrow> bytes list \<Rightarrow> rs_bev \<Rightarrow> be_calls \<Rightarrow> rs_bev \<times> be_calls" where
  "bufferevent_writes os [] b cs = (b, cs)"
| "bufferevent_writes os (m # ms) b cs =
     (case bufferevent_write_buffer os m b cs of (b, cs) \<Rightarrow> bufferevent_writes os ms b cs)"

definition auth_pieces :: "(string \<times> string) option \<Rightarrow> bytes list" where
  "auth_pieces auth_string =
     (case auth_string of
        None \<Rightarrow> []
      | Some (scheme, s) \<Rightarrow> map c_bytes [auth_response_header, '' '', scheme, '' '', s, crlf])"

definition httpr_relay_write_cb :: "be_os \<Rightarrow> redsocks_config \<Rightarrow> redsocks_client \<Rightarrow> be_calls \<Rightarrow> rs_result" where
  "httpr_relay_write_cb os cfg c cs =
     (if rc_state c < httpr_recv_request_headers then None
      else
        let (c, cs) = redsocks_touch_client os c cs in
        if rc_state c = httpr_recv_request_headers then
          do {
            r \<leftarrow> rc_bev c Relay;
            let h = rc_httpr c;
            let (r, cs) = (case httpr_firstline h of None \<Rightarrow> (r, cs) | Some l \<Rightarrow> bufferevent_write_buffer os (c_bytes l) r cs);
            let auth = (rc_auth c)\<lparr>last_auth_count := last_auth_count (rc_auth c) + 1\<rparr>;
            let c = set_bev Relay r (c\<lparr>rc_auth := auth\<rparr>);
            (res, cs) \<leftarrow> httpr_auth_string os cfg (httpr_firstline h) auth cs;
            case res of
              Inl _ \<Rightarrow> Some (redsocks_drop_client c cs)
            | Inr auth_string \<Rightarrow>
                do {
                  let (r, cs) = bufferevent_writes os (auth_pieces auth_string) r cs;
                  buff \<leftarrow> hb_buff (httpr_client_buffer h);
                  let (r, cs) = bufferevent_write_buffer os buff r cs;
                  let r = r\<lparr>be_read_low := 1, be_read_high := HTTP_HEAD_WM_HIGH\<rparr>;
                  let (ok, r, cs) = bufferevent_enable os True False r cs;
                  Some (Some (set_bev Relay r (c\<lparr>rc_state := httpr_request_sent\<rparr>)), cs)
                }
          }
        else Some (Some c, cs))"

section \<open>The reply\<close>

text \<open>
  The proxy asks for authentication. When its reply has no challenge the status line, which has been freed
  already, is freed again.
\<close>

definition httpr_auth_required :: "be_os \<Rightarrow> redsocks_config \<Rightarrow> redsocks_client \<Rightarrow> be_calls \<Rightarrow> rs_result" where
  "httpr_auth_required os cfg c cs =
     do {
       r \<leftarrow> rc_bev c Relay;
       let auth = rc_auth c;
       if last_auth_query auth \<noteq> None \<and> last_auth_count auth = 1 then Some (redsocks_drop_client c cs)
       else if rcfg_login cfg = None \<or> rcfg_password cfg = None then Some (redsocks_drop_client c cs)
       else case get_auth_request_header (be_input r) of
         None \<Rightarrow> None
       | Some auth_request \<Rightarrow>
           let query = dropWhile isspace (drop (length auth_request_header) auth_request);
               h = (rc_httpr c)\<lparr>httpr_relay_buffer := httpr_buffer_fini (httpr_relay_buffer (rc_httpr c))\<rparr>
           in Some (redsocks_connect_relay os
                (c\<lparr>rc_auth := \<lparr>last_auth_query = Some query, last_auth_count = 0\<rparr>, rc_httpr := h,
                   rc_state := httpr_recv_request_headers\<rparr>)
                (Be_Close (be_fd r) # cs))
     }"

text \<open>The status line: a result that ends the callback, or the client to go on with.\<close>

definition httpr_status :: "be_os \<Rightarrow> redsocks_config \<Rightarrow> redsocks_client \<Rightarrow> be_calls \<Rightarrow>
    (redsocks_client option \<times> be_calls + redsocks_client) option" where
  "httpr_status os cfg c cs =
     do {
       r \<leftarrow> rc_bev c Relay;
       case redsocks_evbuffer_readline (be_input r) of
         None \<Rightarrow>
           if HTTP_HEAD_WM_HIGH \<le> length (be_input r) then Some (Inl (redsocks_drop_client c cs)) else Some (Inr c)
       | Some (line, rest) \<Rightarrow>
           do {
             h \<leftarrow> httpr_append_reply line (rc_httpr c);
             let c = set_bev Relay (r\<lparr>be_input := rest\<rparr>) (c\<lparr>rc_httpr := h\<rparr>);
             case httpc_code line of
               None \<Rightarrow> Some (Inr c)
             | Some code \<Rightarrow>
                 if code = 407 then map_option Inl (httpr_auth_required os cfg c cs)
                 else if 100 \<le> code \<and> code \<le> 999 then Some (Inr (c\<lparr>rc_state := httpr_reply_came\<rparr>))
                 else Some (Inl (redsocks_drop_client c cs))
           }
     }"

text \<open>The headers up to an empty line: whether it was there, what is left of the input, and the reply so far.\<close>

function httpr_headers :: "bytes \<Rightarrow> httpr_client \<Rightarrow> (bool \<times> bytes \<times> httpr_client) option" where
  "httpr_headers input h =
     (case redsocks_evbuffer_readline input of
        None \<Rightarrow> Some (False, input, h)
      | Some (line, rest) \<Rightarrow>
          do {
            h \<leftarrow> httpr_append_reply line h;
            if line = [] then Some (True, rest, h) else httpr_headers rest h
          })"
  by auto
termination
  by (relation "measure (\<lambda>(input, h). length input)") (auto dest: readline_shorter)

declare httpr_headers.simps [simp del]

text \<open>The reply goes to the client once its head is complete; \<open>redsocks_start_relay\<close> begins with \<open>httpr_client_fini\<close>.\<close>

definition httpr_reply :: "be_os \<Rightarrow> redsocks_client \<Rightarrow> be_calls \<Rightarrow> rs_result" where
  "httpr_reply os c cs =
     do {
       r \<leftarrow> rc_bev c Relay;
       (skipped, rest, h) \<leftarrow> (if rc_state c = httpr_reply_came then httpr_headers (be_input r) (rc_httpr c)
                               else Some (False, be_input r, rc_httpr c));
       let c = set_bev Relay (r\<lparr>be_input := rest\<rparr>) (c\<lparr>rc_httpr := h\<rparr>);
       let c = (if skipped then c\<lparr>rc_state := httpr_headers_skipped\<rparr> else c);
       if rc_state c = httpr_headers_skipped then
         do {
           b \<leftarrow> rc_bev c Client;
           buff \<leftarrow> hb_buff (httpr_relay_buffer h);
           let (b, cs) = bufferevent_write_buffer os buff b cs;
           redsocks_start_relay os (httpr_client_fini (set_bev Client b c)) cs
         }
       else Some (Some c, cs)
     }"

definition httpr_relay_read_cb :: "be_os \<Rightarrow> redsocks_config \<Rightarrow> redsocks_client \<Rightarrow> be_calls \<Rightarrow> rs_result" where
  "httpr_relay_read_cb os cfg c cs =
     (if rc_state c < httpr_request_sent then None
      else
        let (c, cs) = redsocks_touch_client os c cs;
            c = c\<lparr>rc_httpr := (rc_httpr c)\<lparr>httpr_relay_buffer := httpr_buffer_init\<rparr>\<rparr> in
        if rc_state c = httpr_request_sent then
          do {
            r \<leftarrow> httpr_status os cfg c cs;
            case r of Inl res \<Rightarrow> Some res | Inr c \<Rightarrow> httpr_reply os c cs
          }
        else httpr_reply os c cs)"

definition http_relay_subsys :: relay_subsys where
  "http_relay_subsys = \<lparr>ss_readcb = httpr_relay_read_cb, ss_writecb = httpr_relay_write_cb, ss_clientcb = Some httpr_client_read_cb,
     ss_init = httpr_client_init, ss_connect_relay = Some httpr_connect_relay\<rparr>"

end
