(* ===== verification/Http_Relay_Text.thy ===== *)
theory Http_Relay_Text
  imports Http_Relay Http_Props
begin

text \<open>
  The texts of the HTTP relay: lines, the growing buffers, and the head of a request. How the input is
  cut into reads does not matter, and for a well-formed head what is sent is a rewriting of it.
\<close>

section \<open>Lines\<close>

lemma readline_c_text: "redsocks_evbuffer_readline buf = map_option (\<lambda>(raw, rest). (c_text raw, rest)) (evbuffer_readln buf)"
  by (simp add: redsocks_evbuffer_readline_def c_text_def)

lemma evbuffer_readln_append: "evbuffer_readln x = Some (line, rest) \<Longrightarrow> evbuffer_readln (x @ y) = Some (line, rest @ y)"
proof (induction x arbitrary: line)
  case (Cons b bs)
  have "take 1 (bs @ y) = take 1 bs" if "bs \<noteq> []" using that by (cases bs) auto
  with Cons show ?case by (cases "bs = []") (auto split: if_splits)
qed simp

lemma readline_append: "redsocks_evbuffer_readline x = Some (line, rest) \<Longrightarrow> redsocks_evbuffer_readline (x @ y) = Some (line, rest @ y)"
  by (auto simp: readline_c_text dest: evbuffer_readln_append)

text \<open>The bytes are these lines, and no more; a text has each line followed by its end.\<close>

fun lines_are :: "string list \<Rightarrow> bytes \<Rightarrow> bool" where
  "lines_are [] bs \<longleftrightarrow> bs = []"
| "lines_are (l # ls) bs \<longleftrightarrow> (case redsocks_evbuffer_readline bs of None \<Rightarrow> False | Some (line, rest) \<Rightarrow> line = l \<and> lines_are ls rest)"

definition lines_text :: "string list \<Rightarrow> bytes" where
  "lines_text ls = concat (map (\<lambda>l. c_bytes (l @ crlf)) ls)"

lemma lines_text_simps [simp]:
  "lines_text [] = []" "lines_text (l # ls) = c_bytes l @ c_bytes crlf @ lines_text ls" "lines_text (ks @ ls) = lines_text ks @ lines_text ls"
  by (simp_all add: lines_text_def)

lemma lines_are_Cons: "redsocks_evbuffer_readline x = Some (l, []) \<Longrightarrow> lines_are ls y \<Longrightarrow> lines_are (l # ls) (x @ y)"
  by (simp add: readline_append)

section \<open>Buffers\<close>

lemma buffer_append_buff: "httpr_buffer_append data b = Some b' \<Longrightarrow> hb_buff b = Some buf \<Longrightarrow> hb_buff b' = Some (buf @ data)"
  by (auto simp: httpr_buffer_append_def split: bind_splits)

lemma append_line_buff: "httpr_append_line line b = Some b' \<Longrightarrow> hb_buff b = Some buf \<Longrightarrow> hb_buff b' = Some (buf @ lines_text [line])"
  by (auto simp: httpr_append_line_def split: bind_splits dest: buffer_append_buff)

lemma append_header_buff:
  assumes "httpr_append_header line h = Some h'" "hb_buff (httpr_client_buffer h) = Some buf"
  obtains b where "h' = h\<lparr>httpr_client_buffer := b\<rparr>" "hb_buff b = Some (buf @ lines_text [line])"
  using assms by (auto simp: httpr_append_header_def simp del: lines_text_simps split: bind_splits dest: append_line_buff)

lemma append_reply_buff:
  assumes "httpr_append_reply line h = Some h'" "hb_buff (httpr_relay_buffer h) = Some buf"
  obtains b where "h' = h\<lparr>httpr_relay_buffer := b\<rparr>" "hb_buff b = Some (buf @ lines_text [line])"
  using assms by (auto simp: httpr_append_reply_def simp del: lines_text_simps split: bind_splits dest: append_line_buff)

section \<open>The head of the request\<close>

text \<open>How the input was cut does not matter: lines that have been handled can be left out.\<close>

lemma httpr_lines_append:
  "httpr_lines dest x h = Some (False, d, rest, h') \<Longrightarrow> httpr_lines dest (x @ y) h = httpr_lines dest (rest @ y) h'"
proof (induction dest x h rule: httpr_lines.induct)
  case (1 dest x h)
  show ?case
  proof (cases "evbuffer_readln x")
    case None
    then show ?thesis using "1.prems" by (simp add: httpr_lines.simps [of dest x])
  next
    case (Some p)
    then obtain raw r where p: "evbuffer_readln x = Some (raw, r)" by (cases p) auto
    then have n: "c_text raw \<noteq> []" using "1.prems" by (auto simp: httpr_lines.simps [of dest x] split: bind_splits)
    then obtain h1 where h1: "httpr_line raw h = Some h1" "httpr_lines dest r h1 = Some (False, d, rest, h')"
      using "1.prems" p by (auto simp: httpr_lines.simps [of dest x] split: bind_splits)
    have "httpr_lines dest (x @ y) h = httpr_lines dest (r @ y) h1"
      using n h1(1) evbuffer_readln_append [OF p, of y] by (simp add: httpr_lines.simps [of dest "x @ y"])
    with "1.IH" [OF p refl n h1] show ?thesis by simp
  qed
qed

lemma httpr_lines_split:
  "httpr_lines dest x h = Some (k, d, rest, h') \<Longrightarrow> \<exists>z. x = z @ rest \<and> httpr_lines dest z h = Some (k, d, [], h')"
proof (induction dest x h rule: httpr_lines.induct)
  case (1 dest x h)
  show ?case
  proof (cases "evbuffer_readln x")
    case None
    then show ?thesis using "1.prems" by (simp add: httpr_lines.simps [of dest x] httpr_lines.simps [of dest "[]"])
  next
    case (Some p)
    then obtain raw r where p: "evbuffer_readln x = Some (raw, r)" by (cases p) auto
    from evbuffer_readln_split [OF p] obtain y where y: "x = y @ r" "evbuffer_readln y = Some (raw, [])" by blast
    show ?thesis
    proof (cases "c_text raw = []")
      case True
      with "1.prems" p have "rest = r" "httpr_lines dest y h = Some (k, d, [], h')" using y(2)
        by (auto simp: httpr_lines.simps [of dest x] httpr_lines.simps [of dest y] split: bind_splits)
      with y(1) show ?thesis by blast
    next
      case False
      with "1.prems" p obtain h1 where h1: "httpr_line raw h = Some h1" "httpr_lines dest r h1 = Some (k, d, rest, h')"
        by (auto simp: httpr_lines.simps [of dest x] split: bind_splits)
      from "1.IH" [OF p refl False h1] obtain z where z: "r = z @ rest" "httpr_lines dest z h1 = Some (k, d, [], h')" by blast
      have "httpr_lines dest (y @ z) h = httpr_lines dest z h1"
        using False h1(1) evbuffer_readln_append [OF y(2), of z] by (simp add: httpr_lines.simps [of dest "y @ z"])
      with z y(1) show ?thesis by (intro exI [of _ "y @ z"]) simp
    qed
  qed
qed

text \<open>The request line and the headers that are sent for a complete head.\<close>

definition httpr_rewrite :: "string \<Rightarrow> bytes \<Rightarrow> (string \<times> bytes) option" where
  "httpr_rewrite dest head =
     do {
       (complete, do_drop, rest, h) \<leftarrow> httpr_lines dest head httpr_start;
       if complete \<and> \<not> do_drop \<and> rest = [] then
         do { l \<leftarrow> httpr_firstline h; b \<leftarrow> hb_buff (httpr_client_buffer h); Some (l, b) }
       else None
     }"

lemma start_buffers [simp]: "hb_buff (httpr_client_buffer httpr_start) = Some []" "httpr_firstline httpr_start = None"
  by (simp_all add: httpr_start_def httpr_buffer_init_def no_httpr_def)

text \<open>The request always has its buffer, and a head that is not dropped has a request line.\<close>

lemma httpr_line_buff:
  assumes "httpr_line raw h = Some h'" "hb_buff (httpr_client_buffer h) \<noteq> None"
  shows "hb_buff (httpr_client_buffer h') \<noteq> None"
  using assms by (auto simp: httpr_line_def Let_def split: if_splits elim: append_header_buff)

lemma toss_firstline_frame:
  assumes "httpr_toss_http_firstline dest h = Some (ok, h')"
  shows "httpr_client_buffer h' = httpr_client_buffer h" "httpr_has_host h' = httpr_has_host h" "httpr_firstline h' \<noteq> None"
  using assms by (auto simp: httpr_toss_http_firstline_def Let_def split: bind_splits if_splits)

text \<open>The lines that the end of the head adds.\<close>

definition closing_lines :: "string \<Rightarrow> bool \<Rightarrow> string list" where
  "closing_lines dest has_host = (if has_host then [] else [''Host: '' @ dest]) @ [''Proxy-Connection: close'', ''Connection: close'', []]"

lemma last_line_result:
  assumes "httpr_last_line dest h = Some (d, h')" "hb_buff (httpr_client_buffer h) = Some buf"
  shows "hb_buff (httpr_client_buffer h') = Some (buf @ lines_text (closing_lines dest (httpr_has_host h)))"
    "\<not> d \<Longrightarrow> \<exists>h1. httpr_toss_http_firstline dest h = Some (True, h1) \<and> httpr_firstline h' = httpr_firstline h1"
proof -
  obtain ok h1 h2 h3 h4 where h: "(if httpr_firstline h = None then Some (False, h) else httpr_toss_http_firstline dest h) = Some (ok, h1)"
    and h2: "(if httpr_has_host h1 then Some h1 else httpr_append_header (''Host: '' @ dest) h1) = Some h2"
    and h3: "httpr_append_header ''Proxy-Connection: close'' h2 = Some h3" and h4: "httpr_append_header ''Connection: close'' h3 = Some h4"
    and h5: "httpr_append_header [] h4 = Some h'" and d: "d = (\<not> ok)"
    using assms(1) by (auto simp: httpr_last_line_def simp del: append.simps split: bind_splits)
  have 1: "hb_buff (httpr_client_buffer h1) = Some buf" "httpr_has_host h1 = httpr_has_host h"
    using h assms(2) toss_firstline_frame [of dest h ok h1] by (auto split: if_splits)
  obtain b2 where 2: "h2 = h1\<lparr>httpr_client_buffer := b2\<rparr>"
    "hb_buff b2 = Some (buf @ lines_text (if httpr_has_host h then [] else [''Host: '' @ dest]))"
  proof (cases "httpr_has_host h")
    case True
    with h2 1 that [of "httpr_client_buffer h1"] show ?thesis by simp
  next
    case False
    with h2 1 show ?thesis by (auto simp del: append.simps lines_text_simps elim!: append_header_buff intro: that)
  qed
  define t where "t = buf @ lines_text (if httpr_has_host h then [] else [''Host: '' @ dest])"
  have "hb_buff (httpr_client_buffer h2) = Some t" using 2 by (simp add: t_def)
  from append_header_buff [OF h3 this] obtain b3 where 3: "h3 = h2\<lparr>httpr_client_buffer := b3\<rparr>"
    "hb_buff (httpr_client_buffer h3) = Some (t @ lines_text [''Proxy-Connection: close''])" by auto
  from append_header_buff [OF h4 3(2)] obtain b4 where 4: "h4 = h3\<lparr>httpr_client_buffer := b4\<rparr>"
    "hb_buff (httpr_client_buffer h4) = Some ((t @ lines_text [''Proxy-Connection: close'']) @ lines_text [''Connection: close''])" by auto
  from append_header_buff [OF h5 4(2)] obtain b5 where 5: "h' = h4\<lparr>httpr_client_buffer := b5\<rparr>"
    "hb_buff (httpr_client_buffer h') = Some (((t @ lines_text [''Proxy-Connection: close'']) @ lines_text [''Connection: close'']) @ lines_text [[]])"
    by auto
  show "hb_buff (httpr_client_buffer h') = Some (buf @ lines_text (closing_lines dest (httpr_has_host h)))"
    using 5(2) by (simp add: closing_lines_def t_def)
  show "\<exists>h1. httpr_toss_http_firstline dest h = Some (True, h1) \<and> httpr_firstline h' = httpr_firstline h1" if "\<not> d"
    using h d that 2 3 4 5 by (auto split: if_splits)
qed

lemma httpr_lines_buff:
  "httpr_lines dest x h = Some (k, d, rest, h') \<Longrightarrow> hb_buff (httpr_client_buffer h) \<noteq> None \<Longrightarrow>
   hb_buff (httpr_client_buffer h') \<noteq> None \<and> (k \<longrightarrow> d \<or> httpr_firstline h' \<noteq> None)"
proof (induction dest x h rule: httpr_lines.induct)
  case (1 dest x h)
  show ?case
  proof (cases "evbuffer_readln x")
    case None
    then show ?thesis using "1.prems" by (simp add: httpr_lines.simps [of dest x])
  next
    case (Some p)
    then obtain raw r where p: "evbuffer_readln x = Some (raw, r)" by (cases p) auto
    show ?thesis
    proof (cases "c_text raw = []")
      case True
      with "1.prems"(1) p have l: "httpr_last_line dest h = Some (d, h')" "k"
        by (auto simp: httpr_lines.simps [of dest x] split: bind_splits)
      from "1.prems"(2) obtain buf where "hb_buff (httpr_client_buffer h) = Some buf" by auto
      from last_line_result [OF l(1) this] show ?thesis using toss_firstline_frame(3) [of dest h True] by (cases d) auto
    next
      case False
      with "1.prems"(1) p obtain h1 where h1: "httpr_line raw h = Some h1" "httpr_lines dest r h1 = Some (k, d, rest, h')"
        by (auto simp: httpr_lines.simps [of dest x] split: bind_splits)
      show ?thesis by (rule "1.IH" [OF p refl False h1]) (rule httpr_line_buff [OF h1(1) "1.prems"(2)])
    qed
  qed
qed

section \<open>The rewriting of a well-formed head\<close>

text \<open>A buffer of at most $2^{30}$ bytes can always be appended to.\<close>

definition buffer_holds :: "bytes \<Rightarrow> httpr_buffer \<Rightarrow> bool" where
  "buffer_holds buf b \<longleftrightarrow> hb_buff b = Some buf \<and> (\<exists>k \<le> 18. hb_max_len b = 4096 * 2 ^ k)"

lemma grow_ok:
  assumes "need \<le> 2 ^ 30" "k \<le> 18"
  shows "\<exists>k' \<le> 18. httpr_grow need (4096 * 2 ^ k) = Some (4096 * 2 ^ k')"
  using assms(2)
proof (induction "18 - k" arbitrary: k)
  case 0
  then show ?case using assms(1) by (intro exI [of _ k]) (simp add: httpr_grow.simps)
next
  case (Suc n)
  show ?case
  proof (cases "need \<le> 4096 * 2 ^ k")
    case True
    then show ?thesis using Suc.prems by (intro exI [of _ k]) (simp add: httpr_grow.simps)
  next
    case False
    have "k + 13 \<le> 30" using Suc by simp
    then have "(2::nat) ^ (k + 13) \<le> 2 ^ 30" by (rule power_increasing) simp
    then have le: "2 * (4096 * 2 ^ k) < (2::nat) ^ 31" by (simp add: power_add)
    have "httpr_grow need (4096 * 2 ^ k) = httpr_grow need (4096 * 2 ^ Suc k)"
      using False le by (simp add: httpr_grow.simps [of need "4096 * 2 ^ k"])
    with Suc.hyps(1) [of "Suc k"] Suc.hyps(2) show ?thesis by auto
  qed
qed

lemma length_crlf [simp]: "length crlf = 2"
  by (simp add: crlf_def)

lemma append_holds:
  assumes "buffer_holds buf b" "length buf + length data + 1 \<le> 2 ^ 30"
  obtains b' where "httpr_buffer_append data b = Some b'" "buffer_holds (buf @ data) b'"
proof -
  obtain k where k: "k \<le> 18" "hb_max_len b = 4096 * 2 ^ k" "hb_buff b = Some buf" using assms(1) by (auto simp: buffer_holds_def)
  from grow_ok [OF assms(2) k(1)] obtain k' where "k' \<le> 18" "httpr_grow (length buf + length data + 1) (4096 * 2 ^ k) = Some (4096 * 2 ^ k')" by blast
  with k that show ?thesis by (simp add: httpr_buffer_append_def buffer_holds_def)
qed

lemma init_holds [simp]: "buffer_holds [] httpr_buffer_init"
  by (auto simp: buffer_holds_def httpr_buffer_init_def intro: exI [of _ 0])

lemma append_header_holds:
  assumes "buffer_holds buf (httpr_client_buffer h)" "length (buf @ lines_text [line]) < 2 ^ 30"
  obtains b where "httpr_append_header line h = Some (h\<lparr>httpr_client_buffer := b\<rparr>)" "buffer_holds (buf @ lines_text [line]) b"
proof -
  obtain b1 where b1: "httpr_buffer_append (c_bytes line) (httpr_client_buffer h) = Some b1" "buffer_holds (buf @ c_bytes line) b1"
    using append_holds [OF assms(1), of "c_bytes line"] assms(2) by auto
  obtain b2 where b2: "httpr_buffer_append (c_bytes crlf) b1 = Some b2" "buffer_holds ((buf @ c_bytes line) @ c_bytes crlf) b2"
    using append_holds [OF b1(2), of "c_bytes crlf"] assms(2) by auto
  from that [of b2] b1(1) b2 show ?thesis by (simp add: httpr_append_header_def httpr_append_line_def)
qed

text \<open>Lines that are C strings without line ends.\<close>

definition clean_line :: "string \<Rightarrow> bool" where
  "clean_line l \<longleftrightarrow> CHR 0x00 \<notin> set l \<and> CHR 0x0A \<notin> set l \<and> CHR 0x0D \<notin> set l"

lemma unat_of_char: "unat (of_char c :: u8) = of_char c"
proof -
  have "(of_char c :: u8) = of_nat (of_char c)" by (simp add: of_nat_of_char)
  moreover have "(of_char c :: nat) < 256" by (rule nat_of_char_less_256)
  ultimately show ?thesis by (simp only: unat_of_nat) simp
qed

lemma char_of_byte [simp]: "char_of (unat (of_char c :: u8)) = c"
  by (simp add: unat_of_char)

lemma of_char_bytes:
  "(of_char c :: u8) = 0 \<longleftrightarrow> c = CHR 0x00" "(of_char c :: u8) = 10 \<longleftrightarrow> c = CHR 0x0A" "(of_char c :: u8) = 13 \<longleftrightarrow> c = CHR 0x0D"
proof -
  have e: "(of_char c :: u8) = of_char d \<longleftrightarrow> c = d" for d by (metis char_of_byte)
  show "(of_char c :: u8) = 0 \<longleftrightarrow> c = CHR 0x00" "(of_char c :: u8) = 10 \<longleftrightarrow> c = CHR 0x0A" "(of_char c :: u8) = 13 \<longleftrightarrow> c = CHR 0x0D"
    using e [of "CHR 0x00"] e [of "CHR 0x0A"] e [of "CHR 0x0D"] by simp_all
qed

lemma c_text_bytes:
  assumes "CHR 0x00 \<notin> set l"
  shows "c_text (c_bytes l) = l"
proof -
  have "takeWhile (\<lambda>b. b \<noteq> 0) (c_bytes l) = c_bytes l"
    using assms by (auto simp: takeWhile_eq_all_conv c_bytes_def of_char_bytes)
  then have "c_text (c_bytes l) = map (\<lambda>b. char_of (unat b)) (c_bytes l)" unfolding c_text_def cstr_def by (rule arg_cong)
  then show ?thesis by (simp add: c_bytes_def comp_def)
qed

lemma clean_line_read:
  assumes "clean_line l"
  shows "evbuffer_readln (c_bytes l @ c_bytes crlf @ rest) = Some (c_bytes l, rest)" "c_text (c_bytes l) = l"
proof -
  show "evbuffer_readln (c_bytes l @ c_bytes crlf @ rest) = Some (c_bytes l, rest)"
    using assms by (induction l) (auto simp: clean_line_def c_bytes_def crlf_def of_char_bytes)
  show "c_text (c_bytes l) = l" using assms by (simp add: clean_line_def c_text_bytes)
qed

lemma clean_lineI: "clean_line l \<Longrightarrow> set s \<subseteq> set l \<Longrightarrow> clean_line s"
  by (auto simp: clean_line_def)

text \<open>The headers that go with the request, and the host they name.\<close>

definition is_host :: "string \<Rightarrow> bool" where
  "is_host l \<longleftrightarrow> strncaseeq l ''Host'' 4"

definition is_connection :: "string \<Rightarrow> bool" where
  "is_connection l \<longleftrightarrow> \<not> is_host l \<and> (strncaseeq l ''Proxy-Connection'' 16 \<or> strncaseeq l ''Connection'' 10)"

definition last_host :: "string list \<Rightarrow> string option" where
  "last_host hs = (case rev (filter is_host hs) of [] \<Rightarrow> None | l # _ \<Rightarrow> Some (dropWhile isspace (drop 5 l)))"

lemma last_host_simps:
  "last_host [] = None" "last_host (hs @ [l]) = (if is_host l then Some (dropWhile isspace (drop 5 l)) else last_host hs)"
  by (simp_all add: last_host_def)

text \<open>The request after its line and some of its headers.\<close>

definition head_read :: "string \<Rightarrow> string list \<Rightarrow> httpr_client \<Rightarrow> bool" where
  "head_read first hs h \<longleftrightarrow>
     httpr_firstline h = Some first \<and> httpr_host h = last_host hs \<and> httpr_has_host h = (last_host hs \<noteq> None) \<and>
     buffer_holds (lines_text (filter (\<lambda>l. \<not> is_connection l) hs)) (httpr_client_buffer h)"

lemma length_lines_filter: "length (lines_text (filter P hs)) \<le> length (lines_text hs)"
  by (induction hs) auto

lemma line_read:
  assumes "head_read first hs h" "clean_line l" "is_host l \<longrightarrow> 5 \<le> length l" "length (lines_text (hs @ [l])) < 2 ^ 30"
  obtains h' where "httpr_line (c_bytes l) h = Some h'" "head_read first (hs @ [l]) h'"
proof -
  let ?kept = "lines_text (filter (\<lambda>l. \<not> is_connection l) hs)"
  have drop: "c_text (drop 5 (c_bytes l)) = drop 5 l" "c_text (c_bytes l) = l"
    using clean_line_read(2) [OF clean_lineI [OF assms(2) set_drop_subset, of 5]] clean_line_read(2) [OF assms(2)]
    by (simp_all add: c_bytes_def drop_map)
  have len: "length (c_bytes l) = length l" by (simp add: c_bytes_def)
  have small: "length (?kept @ lines_text [l]) < 2 ^ 30"
    using assms(4) length_lines_filter [of "\<lambda>l. \<not> is_connection l" hs] by simp
  show ?thesis
  proof (cases "is_connection l")
    case True
    then show ?thesis using assms(1) that [of h] drop(2)
      by (auto simp: httpr_line_def head_read_def is_connection_def is_host_def last_host_simps)
  next
    case False
    let ?h = "if is_host l then h\<lparr>httpr_has_host := True, httpr_host := Some (dropWhile isspace (drop 5 l))\<rparr> else h"
    have "buffer_holds ?kept (httpr_client_buffer ?h)" using assms(1) by (simp add: head_read_def)
    from append_header_holds [OF this small] obtain b where
      b: "httpr_append_header l ?h = Some (?h\<lparr>httpr_client_buffer := b\<rparr>)" "buffer_holds (?kept @ lines_text [l]) b" .
    show ?thesis
    proof (rule that)
      show "httpr_line (c_bytes l) h = Some (?h\<lparr>httpr_client_buffer := b\<rparr>)"
        using b(1) False assms(1,3) by (auto simp: httpr_line_def head_read_def is_connection_def is_host_def drop len)
      show "head_read first (hs @ [l]) (?h\<lparr>httpr_client_buffer := b\<rparr>)"
        using assms(1) b(2) False by (auto simp: head_read_def last_host_simps)
    qed
  qed
qed

lemma headers_read:
  assumes "head_read first hs h" "\<forall>l \<in> set ls. clean_line l \<and> l \<noteq> [] \<and> (is_host l \<longrightarrow> 5 \<le> length l)"
    "length (lines_text (hs @ ls)) < 2 ^ 30"
  shows "\<exists>h'. httpr_lines dest (lines_text ls @ rest) h = httpr_lines dest rest h' \<and> head_read first (hs @ ls) h'"
  using assms
proof (induction ls arbitrary: hs h)
  case (Cons l ls)
  then obtain h1 where h1: "httpr_line (c_bytes l) h = Some h1" "head_read first (hs @ [l]) h1"
    using line_read [of first hs h l] by auto
  have "httpr_lines dest (lines_text (l # ls) @ rest) h = httpr_lines dest (lines_text ls @ rest) h1"
    using Cons.prems(2) h1(1) clean_line_read(1) [of l "lines_text ls @ rest"] clean_line_read(2) [of l]
    by (simp add: httpr_lines.simps [of dest "_ @ _"])
  with Cons.IH [OF h1(2)] Cons.prems show ?case by auto
qed auto

text \<open>The request line that is sent: a path gets the server it is on.\<close>

definition request_line :: "string \<Rightarrow> string \<Rightarrow> string" where
  "request_line host first =
     (let uri = dropWhile is_blank (dropWhile (\<lambda>x. \<not> is_blank x) first)
      in take (length first - length uri) first @ (if take 1 uri = ''/'' then ''http://'' @ host else []) @ uri)"

lemma first_parts:
  "take (length first - length (dropWhile is_blank (dropWhile (\<lambda>x. \<not> is_blank x) first))) first @
   dropWhile is_blank (dropWhile (\<lambda>x. \<not> is_blank x) first) = first"
proof -
  let ?uri = "dropWhile is_blank (dropWhile (\<lambda>x. \<not> is_blank x) first)"
  obtain p where "first = p @ ?uri"
    by (metis append.assoc takeWhile_dropWhile_id)
  then have "take (length first - length ?uri) first = p" by (metis append_eq_conv_conj length_append add_diff_cancel_right')
  with \<open>first = p @ ?uri\<close> show ?thesis by simp
qed

lemma request_line_bounds:
  "length (request_line host first) \<le> length first + length host + 7" "set (request_line host first) \<subseteq> set first \<union> set host \<union> set ''http://''"
proof -
  define uri where "uri = dropWhile is_blank (dropWhile (\<lambda>x. \<not> is_blank x) first)"
  define p where "p = take (length first - length uri) first"
  have f: "first = p @ uri" using first_parts [of first] by (simp add: p_def uri_def)
  have r: "request_line host first = p @ (if take 1 uri = ''/'' then ''http://'' @ host else []) @ uri"
    by (simp only: request_line_def Let_def p_def uri_def)
  show "length (request_line host first) \<le> length first + length host + 7" unfolding r by (subst f) simp
  show "set (request_line host first) \<subseteq> set first \<union> set host \<union> set ''http://''" unfolding r using arg_cong [OF f, of set] by auto
qed

lemma toss_request_line:
  assumes "httpr_firstline h = Some first" "CHR '' '' \<in> set first" "clean_line first" "clean_line host"
    "(if httpr_has_host h then httpr_host h else Some dest) = Some host" "length first + length host + 10 \<le> 2 ^ 30"
  shows "httpr_toss_http_firstline dest h = Some (True, h\<lparr>httpr_firstline := Some (request_line host first @ crlf)\<rparr>)"
proof -
  define uri where "uri = dropWhile is_blank (dropWhile (\<lambda>x. \<not> is_blank x) first)"
  define p where "p = take (length first - length uri) first"
  define t where "t = (if take 1 uri = ''/'' then ''http://'' @ host else [])"
  have f: "length first = length p + length uri" using first_parts [of first] by (metis p_def uri_def length_append)
  have r: "request_line host first = p @ t @ uri" by (simp only: request_line_def Let_def p_def uri_def t_def)
  obtain b1 where b1: "httpr_buffer_append (c_bytes p) httpr_buffer_init = Some b1" "buffer_holds (c_bytes p) b1"
    using append_holds [OF init_holds, of "c_bytes p"] f assms(6) by auto
  obtain b2 where b2: "(if take 1 uri = ''/'' then
                       do {
                         host \<leftarrow> (if httpr_has_host h then httpr_host h else Some dest);
                         nbuff \<leftarrow> httpr_buffer_append (c_bytes ''http://'') b1;
                         httpr_buffer_append (c_bytes host) nbuff
                       }
                     else Some b1) = Some b2" "buffer_holds (c_bytes (p @ t)) b2"
  proof (cases "take 1 uri = ''/''")
    case True
    obtain b' where b': "httpr_buffer_append (c_bytes ''http://'') b1 = Some b'" "buffer_holds (c_bytes p @ c_bytes ''http://'') b'"
      using append_holds [OF b1(2), of "c_bytes ''http://''"] f assms(6) by auto
    obtain b'' where b'': "httpr_buffer_append (c_bytes host) b' = Some b''" "buffer_holds ((c_bytes p @ c_bytes ''http://'') @ c_bytes host) b''"
      using append_holds [OF b'(2), of "c_bytes host"] f assms(6) by auto
    from True b' b'' assms(5) show ?thesis by (intro that [of b'']) (simp_all add: t_def del: append.simps)
  next
    case False
    with b1 show ?thesis by (intro that [of b1]) (simp_all add: t_def)
  qed
  have lt: "length t \<le> 7 + length host" by (simp add: t_def)
  obtain b3 where b3: "httpr_buffer_append (c_bytes uri) b2 = Some b3" "buffer_holds (c_bytes (p @ t) @ c_bytes uri) b3"
    using append_holds [OF b2(2), of "c_bytes uri"] f lt assms(6) by auto
  obtain b4 where b4: "httpr_buffer_append (c_bytes crlf) b3 = Some b4" "buffer_holds ((c_bytes (p @ t) @ c_bytes uri) @ c_bytes crlf) b4"
    using append_holds [OF b3(2), of "c_bytes crlf"] f lt assms(6) by auto
  have "CHR 0x00 \<notin> set (request_line host first @ crlf)"
    using request_line_bounds(2) [of host first] assms(3,4) by (auto simp: clean_line_def crlf_def)
  then have "c_text (c_bytes (request_line host first @ crlf)) = request_line host first @ crlf" by (rule c_text_bytes)
  moreover have "hb_buff b4 = Some (c_bytes (request_line host first @ crlf))" using b4(2) by (simp add: buffer_holds_def r)
  ultimately show ?thesis
    using b1(1) b2(1) b3(1) b4(1) assms(1,2) by (simp add: httpr_toss_http_firstline_def Let_def uri_def [symmetric] p_def [symmetric])
qed

lemma last_line_holds:
  assumes "httpr_firstline h \<noteq> None" "httpr_toss_http_firstline dest h = Some (ok, h1)" "buffer_holds buf (httpr_client_buffer h)"
    "length buf + length dest + 100 \<le> 2 ^ 30"
  shows "\<exists>h'. httpr_last_line dest h = Some (\<not> ok, h')"
proof -
  have h1: "buffer_holds buf (httpr_client_buffer h1)" using assms(3) toss_firstline_frame(1) [OF assms(2)] by simp
  obtain h2 t where h2: "(if httpr_has_host h1 then Some h1 else httpr_append_header (''Host: '' @ dest) h1) = Some h2"
    "buffer_holds t (httpr_client_buffer h2)" "length t + 80 \<le> 2 ^ 30"
  proof (cases "httpr_has_host h1")
    case True
    with h1 assms(4) that [of h1 buf] show ?thesis by simp
  next
    case False
    obtain b where "httpr_append_header (''Host: '' @ dest) h1 = Some (h1\<lparr>httpr_client_buffer := b\<rparr>)"
      "buffer_holds (buf @ lines_text [''Host: '' @ dest]) b"
      using append_header_holds [OF h1, of "''Host: '' @ dest"] assms(4) by auto
    with False assms(4) that show ?thesis by simp
  qed
  obtain b3 where h3: "httpr_append_header ''Proxy-Connection: close'' h2 = Some (h2\<lparr>httpr_client_buffer := b3\<rparr>)"
    "buffer_holds (t @ lines_text [''Proxy-Connection: close'']) b3"
    using append_header_holds [OF h2(2), of "''Proxy-Connection: close''"] h2(3) by auto
  obtain b4 where h4: "httpr_append_header ''Connection: close'' (h2\<lparr>httpr_client_buffer := b3\<rparr>) = Some (h2\<lparr>httpr_client_buffer := b4\<rparr>)"
    "buffer_holds ((t @ lines_text [''Proxy-Connection: close'']) @ lines_text [''Connection: close'']) b4"
    using append_header_holds [of "t @ lines_text [''Proxy-Connection: close'']" "h2\<lparr>httpr_client_buffer := b3\<rparr>" "''Connection: close''"] h3(2) h2(3) by auto
  obtain b5 where "httpr_append_header [] (h2\<lparr>httpr_client_buffer := b4\<rparr>) = Some (h2\<lparr>httpr_client_buffer := b5\<rparr>)"
    using append_header_holds [of "(t @ lines_text [''Proxy-Connection: close'']) @ lines_text [''Connection: close'']" "h2\<lparr>httpr_client_buffer := b4\<rparr>" "[]"] h4(2) h2(3) by auto
  then have "httpr_last_line dest h = Some (\<not> ok, h2\<lparr>httpr_client_buffer := b5\<rparr>)"
    using assms(1) by (auto simp: httpr_last_line_def assms(2) h2(1) h3(1) h4(1) del: append.simps)
  then show ?thesis by blast
qed

text \<open>The head that is sent instead of a request line and headers.\<close>

definition sent_head :: "string \<Rightarrow> string \<Rightarrow> string list \<Rightarrow> string \<times> bytes" where
  "sent_head dest first hs =
     (request_line (case last_host hs of None \<Rightarrow> dest | Some host \<Rightarrow> host) first @ crlf,
      lines_text (filter (\<lambda>l. \<not> is_connection l) hs @ closing_lines dest (last_host hs \<noteq> None)))"

definition good_headers :: "string list \<Rightarrow> bool" where
  "good_headers hs \<longleftrightarrow> (\<forall>l \<in> set hs. clean_line l \<and> l \<noteq> [] \<and> (is_host l \<longrightarrow> 5 \<le> length l))"

lemma last_host_bounds:
  assumes "last_host hs = Some host" "good_headers hs"
  shows "clean_line host" "length host \<le> length (lines_text hs)"
proof -
  from assms(1) obtain l ls where "rev (filter is_host hs) = l # ls" and l: "host = dropWhile isspace (drop 5 l)"
    by (auto simp: last_host_def split: list.splits)
  then have "l \<in> set (rev (filter is_host hs))" by simp
  then have "l \<in> set hs" by simp
  note l = this l
  have "set host \<subseteq> set l" using l(2) by (auto dest: set_dropWhileD in_set_dropD)
  then show "clean_line host" using assms(2) l(1) by (auto simp: good_headers_def intro: clean_lineI)
  have "length l \<le> length (lines_text hs)" using l(1) by (induction hs) auto
  moreover have "length host \<le> length l" using l(2) by (metis length_dropWhile_le length_drop diff_le_self le_trans)
  ultimately show "length host \<le> length (lines_text hs)" by simp
qed

lemma rewrite_good_head:
  assumes "clean_line first" "CHR '' '' \<in> set first" "good_headers hs" "clean_line dest" "length (lines_text (first # hs)) + length dest \<le> 2 ^ 29"
  shows "httpr_rewrite dest (lines_text (first # hs @ [[]])) = Some (sent_head dest first hs)"
proof -
  let ?fin = "lines_text [[]]" and ?host = "case last_host hs of None \<Rightarrow> dest | Some host \<Rightarrow> host"
  have first: "first \<noteq> []" using assms(2) by auto
  let ?h0 = "httpr_start\<lparr>httpr_firstline := Some first\<rparr>"
  have l0: "httpr_line (c_bytes first) httpr_start = Some ?h0"
    using clean_line_read(2) [OF assms(1)] by (simp add: httpr_line_def)
  have 0: "httpr_lines dest (lines_text (first # hs @ [[]])) httpr_start = httpr_lines dest (lines_text hs @ ?fin) ?h0"
    using l0 first clean_line_read(1) [OF assms(1), of "lines_text hs @ ?fin"] clean_line_read(2) [OF assms(1)]
    by (simp add: httpr_lines.simps [of dest "_ @ _"])
  have r0: "head_read first [] ?h0" by (simp add: head_read_def last_host_simps httpr_start_def no_httpr_def)
  obtain h where h: "httpr_lines dest (lines_text hs @ ?fin) ?h0 = httpr_lines dest ?fin h" "head_read first hs h"
    using headers_read [OF r0, of hs dest ?fin] assms(3,5) by (auto simp: good_headers_def)
  have host: "(if httpr_has_host h then httpr_host h else Some dest) = Some ?host" "clean_line ?host" "length first + length ?host \<le> 2 ^ 29"
    using h(2) last_host_bounds [of hs] assms(3-5) by (auto simp: head_read_def split: option.splits)
  have toss: "httpr_toss_http_firstline dest h = Some (True, h\<lparr>httpr_firstline := Some (request_line ?host first @ crlf)\<rparr>)"
    using h(2) host assms(5) by (intro toss_request_line assms) (simp_all add: head_read_def)
  let ?kept = "lines_text (filter (\<lambda>l. \<not> is_connection l) hs)"
  have kept: "buffer_holds ?kept (httpr_client_buffer h)" "httpr_firstline h \<noteq> None" using h(2) by (simp_all add: head_read_def)
  obtain h' where h': "httpr_last_line dest h = Some (False, h')"
    using last_line_holds [OF kept(2) toss kept(1)] assms(5) length_lines_filter [of "\<lambda>l. \<not> is_connection l" hs] by auto
  have "hb_buff (httpr_client_buffer h) = Some ?kept" using kept(1) by (simp add: buffer_holds_def)
  note res = last_line_result [OF h' this]
  have "httpr_lines dest ?fin h = Some (True, False, [], h')"
    using h' clean_line_read(1) [of "[]" "[]"] clean_line_read(2) [of "[]"]
    by (simp add: httpr_lines.simps [of dest "c_bytes crlf"] clean_line_def)
  with 0 h(1) have "httpr_lines dest (lines_text (first # hs @ [[]])) httpr_start = Some (True, False, [], h')" by simp
  moreover have "httpr_firstline h' = Some (request_line ?host first @ crlf)" using res(2) toss by auto
  moreover have "httpr_has_host h = (last_host hs \<noteq> None)" using h(2) by (simp add: head_read_def)
  ultimately show ?thesis using res(1) by (simp add: httpr_rewrite_def sent_head_def)
qed

end
