(* ===== verification/Http_Relay_Inv.thy ===== *)
theory Http_Relay_Inv
  imports Http_Relay_Text
begin

text \<open>
  The invariant of a client of the HTTP relay: before the head of its request is complete it has no
  connection to the proxy server; then what the server is told is the rewritten head and everything the
  client sent after it, and the client is told nothing before the head of a reply has come.
\<close>

section \<open>What is said and what is taken\<close>

lemma rs_inv_say:
  assumes inv: "rs_inv bv d c cs" and w: "bufferevent_write_buffer os m (bv s) cs = (b, cs')" and "rd_moved (d (other_side s)) = []"
  shows "rs_inv (bv(s := b)) (d(s := (d s)\<lparr>rd_msg := rd_msg (d s) @ m\<rparr>)) (set_bev s b c) cs'"
proof -
  note io = write_buffer_io [OF w]
  have q: "quiet (\<lambda>fd. is_open fd cs) cs cs'" by (rule quiet_fd [OF inv io(2)])
  have b: "be_fd b = be_fd (bv s)" "be_input b = be_input (bv s)" "be_output b = be_output (bv s) @ m"
    using io(1) by (simp_all add: same_io_def)
  note i = inv [unfolded rs_inv_def]
  have "rs_fds (bv(s := b)) cs'"
    using i quiet_data(3) [OF q] quiet_calls_ok [OF q] by (cases s) (simp_all add: rs_fds_def b)
  moreover have "rs_bytes (bv(s := b)) (d(s := (d s)\<lparr>rd_msg := rd_msg (d s) @ m\<rparr>)) cs'"
    using i assms(3) unfolding rs_bytes_def all_sides
    by (cases s) (auto simp: b quiet_data [OF q] simp flip: append_assoc)
  ultimately show ?thesis using i by (auto simp: rs_inv_def rs_shut_ok_def all_shut_def)
qed

lemma rs_inv_take:
  assumes inv: "rs_inv bv d c cs" and "be_input (bv s) = x @ rest" "rd_moved (d s) = []"
  shows "rs_inv (bv(s := (bv s)\<lparr>be_input := rest\<rparr>)) (d(s := (d s)\<lparr>rd_pre := rd_pre (d s) @ x\<rparr>)) (set_bev s ((bv s)\<lparr>be_input := rest\<rparr>) c) cs"
proof -
  note i = inv [unfolded rs_inv_def]
  let ?b = "(bv s)\<lparr>be_input := rest\<rparr>"
  have "rs_fds (bv(s := ?b)) cs" using i by (cases s) (simp_all add: rs_fds_def)
  moreover have "rs_bytes (bv(s := ?b)) (d(s := (d s)\<lparr>rd_pre := rd_pre (d s) @ x\<rparr>)) cs"
    using i assms(2,3) unfolding rs_bytes_def all_sides by (cases s) auto
  ultimately show ?thesis using i by (auto simp: rs_inv_def rs_shut_ok_def all_shut_def)
qed

lemma rs_inv_httpr [simp]: "rs_inv bv d (c\<lparr>rc_httpr := h\<rparr>) cs \<longleftrightarrow> rs_inv bv d c cs"
  by (simp add: rs_inv_def rs_shut_ok_def all_shut_def)

definition httpr_data :: "bytes \<Rightarrow> bytes \<Rightarrow> bytes \<Rightarrow> rs_side \<Rightarrow> rs_data" where
  "httpr_data pre said heard s = (case s of
       Client \<Rightarrow> \<lparr>rd_pre = pre, rd_msg = [], rd_moved = []\<rparr>
     | Relay \<Rightarrow> \<lparr>rd_pre = heard, rd_msg = said, rd_moved = []\<rparr>)"

lemma httpr_data_simps [simp]:
  "httpr_data pre said heard Client = \<lparr>rd_pre = pre, rd_msg = [], rd_moved = []\<rparr>"
  "httpr_data pre said heard Relay = \<lparr>rd_pre = heard, rd_msg = said, rd_moved = []\<rparr>"
  by (simp_all add: httpr_data_def)

lemma httpr_data_upd:
  "(httpr_data pre said heard)(Client := \<lparr>rd_pre = pre', rd_msg = [], rd_moved = []\<rparr>) = httpr_data pre' said heard"
  "(httpr_data pre said heard)(Relay := \<lparr>rd_pre = heard', rd_msg = said', rd_moved = []\<rparr>) = httpr_data pre said' heard'"
  by (auto simp: fun_eq_iff httpr_data_def split: rs_side.splits)

lemma httpr_say:
  assumes "rs_inv bv (httpr_data pre said heard) c cs" "bufferevent_write_buffer os m (bv Relay) cs = (r, cs')"
  shows "rs_inv (bv(Relay := r)) (httpr_data pre (said @ m) heard) (set_bev Relay r c) cs'"
  using rs_inv_say [OF assms] by (simp add: httpr_data_upd)

lemma httpr_take_client:
  assumes "rs_inv bv (httpr_data pre said heard) c cs" "be_input (bv Client) = x @ rest"
  shows "rs_inv (bv(Client := (bv Client)\<lparr>be_input := rest\<rparr>)) (httpr_data (pre @ x) said heard) (set_bev Client ((bv Client)\<lparr>be_input := rest\<rparr>) c) cs"
  using rs_inv_take [OF assms] by (simp add: httpr_data_upd)

lemma httpr_take_relay:
  assumes "rs_inv bv (httpr_data pre said heard) c cs" "be_input (bv Relay) = x @ rest"
  shows "rs_inv (bv(Relay := (bv Relay)\<lparr>be_input := rest\<rparr>)) (httpr_data pre said (heard @ x)) (set_bev Relay ((bv Relay)\<lparr>be_input := rest\<rparr>) c) cs"
  using rs_inv_take [OF assms] by (simp add: httpr_data_upd)

lemma httpr_says:
  assumes "rs_inv bv (httpr_data pre said heard) c cs" "bufferevent_writes os ms (bv Relay) cs = (r, cs')"
  shows "rs_inv (bv(Relay := r)) (httpr_data pre (said @ concat ms) heard) (set_bev Relay r c) cs' \<and>
    same_io ((bv Relay)\<lparr>be_output := be_output (bv Relay) @ concat ms\<rparr>) r \<and> be_ev_read r = be_ev_read (bv Relay) \<and>
    be_read_suspended r = be_read_suspended (bv Relay)"
  using assms
proof (induction ms arbitrary: bv said c cs)
  case Nil
  then have r: "r = bv Relay" "cs' = cs" by simp_all
  show ?case unfolding r set_bev_same [OF Nil(1)] using Nil(1) by simp
next
  case (Cons m ms)
  obtain b cs1 where w: "bufferevent_write_buffer os m (bv Relay) cs = (b, cs1)" by (cases "bufferevent_write_buffer os m (bv Relay) cs")
  note io = write_buffer_io(1) [OF w] and ev = write_buffer_events [OF w]
  from Cons.IH [OF httpr_say [OF Cons.prems(1) w]] Cons.prems(2) w io ev show ?case
    by (simp add: same_io_def fun_upd_same del: fun_upd_apply)
qed

section \<open>Phases\<close>

text \<open>
  What a state of the client says about the two streams. The request is the rewritten head with the
  answer to a challenge in front of its headers, if there is one, and what followed the head; it
  is kept in the buffer of the client, and once it has been sent it is what was said to the server.
\<close>

definition auth_text :: "bytes \<Rightarrow> bool" where
  "auth_text auth \<longleftrightarrow> auth = [] \<or> (\<exists>scheme s. scheme \<in> {''Basic'', ''Digest''} \<and>
     auth = c_bytes (auth_response_header @ '' '' @ scheme @ '' '' @ s @ crlf))"

definition httpr_said :: "string \<Rightarrow> bytes \<Rightarrow> bytes \<Rightarrow> bool" where
  "httpr_said dest pre said \<longleftrightarrow> (\<exists>head body l b auth. pre = head @ body \<and> httpr_rewrite dest head = Some (l, b) \<and>
     said = c_bytes l @ auth @ b @ body \<and> auth_text auth)"

definition httpr_request :: "string \<Rightarrow> bytes \<Rightarrow> httpr_client \<Rightarrow> bool" where
  "httpr_request dest pre h \<longleftrightarrow> (\<exists>head body l b. pre = head @ body \<and> httpr_rewrite dest head = Some (l, b) \<and>
     httpr_firstline h = Some l \<and> hb_buff (httpr_client_buffer h) = Some (b @ body))"

text \<open>What was heard: lines without a status, then a status line and headers.\<close>

definition status_line :: "bytes \<Rightarrow> bool" where
  "status_line x \<longleftrightarrow> (\<exists>line code. redsocks_evbuffer_readline x = Some (line, []) \<and> httpc_code line = Some code \<and>
     100 \<le> code \<and> code \<le> 999 \<and> code \<noteq> 407)"

definition httpr_heard :: "nat \<Rightarrow> bytes \<Rightarrow> bool" where
  "httpr_heard n heard \<longleftrightarrow>
     (if n = httpr_recv_request_headers then heard = []
      else if n = httpr_request_sent then http_lines (\<lambda>l. httpc_code l = None) heard
      else n = httpr_reply_came \<and> (\<exists>junk status hdrs. heard = junk @ status @ hdrs \<and>
        http_lines (\<lambda>l. httpc_code l = None) junk \<and> status_line status \<and> http_lines (\<lambda>l. l \<noteq> []) hdrs))"

definition client_bev :: "rs_bev \<Rightarrow> bool" where
  "client_bev b \<longleftrightarrow> be_readcb b = Some Cb_Ss_Client \<and> be_writecb b = None \<and> be_write_low b = 0 \<and> be_read_high b = 0 \<and> be_read_low b = 0 \<and>
     \<not> be_read_suspended b \<and> \<not> be_ev_write b"

definition httpr_phase :: "rs_cb option \<times> rs_cb option \<Rightarrow> (rs_side \<Rightarrow> rs_bev) \<Rightarrow> bytes \<Rightarrow> bytes \<Rightarrow> bytes \<Rightarrow> redsocks_client \<Rightarrow> be_calls \<Rightarrow> bool" where
  "httpr_phase cbs bv pre said heard c cs \<longleftrightarrow> rs_inv bv (httpr_data pre said heard) c cs \<and>
     client_bev (bv Client) \<and> be_input (bv Client) = [] \<and>
     be_write_low (bv Relay) = 0 \<and> (be_readcb (bv Relay), be_writecb (bv Relay)) = cbs \<and>
     (be_ev_read (bv Relay) \<or> rc_shut_rd c Relay \<longrightarrow> rc_state c \<noteq> httpr_recv_request_headers) \<and> (rc_shut_rd c Relay \<longrightarrow> \<not> be_ev_read (bv Relay)) \<and>
     httpr_request (fmt_http_host c) pre (rc_httpr c) \<and> httpr_heard (rc_state c) heard \<and>
     (if rc_state c = httpr_recv_request_headers then said = [] else httpr_said (fmt_http_host c) pre said)"

definition httpr_connecting :: "redsocks_client \<Rightarrow> be_calls \<Rightarrow> bool" where
  "httpr_connecting c cs \<longleftrightarrow> rc_state c = httpr_recv_request_headers \<and> (\<exists>bv pre. httpr_phase (None, Some Cb_Connected) bv pre [] [] c cs)"

definition httpr_talking :: "redsocks_client \<Rightarrow> be_calls \<Rightarrow> bool" where
  "httpr_talking c cs \<longleftrightarrow> (\<exists>bv pre said heard. httpr_phase ss_cbs bv pre said heard c cs)"

text \<open>Before the head is complete there is one socket, and every whole line of its input has been handled.\<close>

definition httpr_collecting :: "redsocks_client \<Rightarrow> be_calls \<Rightarrow> bool" where
  "httpr_collecting c cs \<longleftrightarrow> (\<exists>b pre. rc_bev c = (\<lambda>s. None)(Client := Some b) \<and> calls_ok cs \<and> (\<forall>fd. is_open fd cs \<longleftrightarrow> fd = be_fd b) \<and>
     bytes_read (be_fd b) cs = pre @ be_input b \<and> bytes_written (be_fd b) cs = [] \<and> be_output b = [] \<and> client_bev b \<and>
     rc_state c = httpr_new \<and> \<not> rc_shut_wr c Client \<and> \<not> rc_shut_rd c Relay \<and> \<not> rc_shut_wr c Relay \<and>
     (rc_shut_rd c Client \<longrightarrow> \<not> be_ev_read b) \<and> httpr_lines (fmt_http_host c) pre httpr_start = Some (False, False, [], rc_httpr c) \<and> evbuffer_readln (be_input b) = None)"

text \<open>
  Relaying: the client was told the head of a reply, as far as it came with the end of it, and then
  what followed; the server what followed the request.
\<close>

definition httpr_replied :: "bytes \<Rightarrow> bytes \<Rightarrow> bool" where
  "httpr_replied heard reply \<longleftrightarrow> (\<exists>lost shown ls. heard = lost @ shown \<and> lines_are (ls @ [[]]) shown \<and> reply = lines_text (ls @ [[]]))"

definition httpr_dialogue :: "bytes \<Rightarrow> bytes \<Rightarrow> bytes \<Rightarrow> bytes \<Rightarrow> rs_side \<Rightarrow> rs_data" where
  "httpr_dialogue pre said heard reply = (httpr_data pre said heard)(Client := \<lparr>rd_pre = pre, rd_msg = reply, rd_moved = []\<rparr>)"

definition httpr_relaying :: "redsocks_client \<Rightarrow> be_calls \<Rightarrow> bool" where
  "httpr_relaying c cs \<longleftrightarrow> (\<exists>bv d pre said heard reply. rs_inv bv d c cs \<and> relay_shape bv \<and>
     same_dialogue (httpr_dialogue pre said heard reply) d \<and> httpr_said (fmt_http_host c) pre said \<and>
     httpr_replied heard reply)"

definition httpr_state :: "redsocks_client \<Rightarrow> be_calls \<Rightarrow> bool" where
  "httpr_state c cs \<longleftrightarrow> httpr_collecting c cs \<or> httpr_connecting c cs \<or> httpr_talking c cs \<or> httpr_relaying c cs"

section \<open>Events without callbacks\<close>

lemma httpr_phase_inv: "httpr_phase cbs bv pre said heard c cs \<Longrightarrow> rs_inv bv (httpr_data pre said heard) c cs"
  by (simp add: httpr_phase_def)

lemma httpr_phase_heard: "httpr_phase cbs bv pre said heard c cs \<Longrightarrow> httpr_heard (rc_state c) heard"
  by (simp add: httpr_phase_def)

lemma fmt_http_host_same: "same_client c c' \<Longrightarrow> fmt_http_host c' = fmt_http_host c"
  by (simp add: same_client_def fmt_http_host_def dest_text_def)

lemma fmt_http_host_upd [simp]:
  "fmt_http_host (c\<lparr>rc_bev := x\<rparr>) = fmt_http_host c" "fmt_http_host (c\<lparr>rc_httpr := h\<rparr>) = fmt_http_host c"
  "fmt_http_host (c\<lparr>rc_last_event := t\<rparr>) = fmt_http_host c" "fmt_http_host (c\<lparr>rc_state := n\<rparr>) = fmt_http_host c"
  "fmt_http_host (c\<lparr>rc_auth := a\<rparr>) = fmt_http_host c"
  by (simp_all add: fmt_http_host_def dest_text_def)

lemma httpr_phase_keep:
  assumes "httpr_phase cbs bv pre said heard c cs" "rs_inv bv' (httpr_data pre said heard) c' cs'" "same_client c c'"
    and "client_bev (bv' Client)" "be_input (bv' Client) = []" "be_write_low (bv' Relay) = be_write_low (bv Relay)"
    "be_readcb (bv' Relay) = be_readcb (bv Relay)" "be_writecb (bv' Relay) = be_writecb (bv Relay)"
    and "be_ev_read (bv' Relay) \<or> rc_shut_rd c' Relay \<longrightarrow> be_ev_read (bv Relay) \<or> rc_shut_rd c Relay"
    "rc_shut_rd c' Relay \<longrightarrow> \<not> be_ev_read (bv' Relay)"
  shows "httpr_phase cbs bv' pre said heard c' cs'"
  using assms fmt_http_host_same [OF assms(3)] unfolding httpr_phase_def same_client_def by metis

definition httpr_kept :: "rs_cb option \<times> rs_cb option \<Rightarrow> nat \<Rightarrow> bytes \<Rightarrow> bytes \<Rightarrow> bytes \<Rightarrow> redsocks_client \<Rightarrow> be_calls \<Rightarrow> bool" where
  "httpr_kept cbs n pre said heard c cs \<longleftrightarrow> rc_state c = n \<and> (\<exists>bv. httpr_phase cbs bv pre said heard c cs)"

abbreviation connect_cbs :: "rs_cb option \<times> rs_cb option" where
  "connect_cbs \<equiv> (None, Some Cb_Connected)"

lemma httpr_phase_state:
  assumes ph: "httpr_phase cbs bv pre said heard c cs" and "cbs = ss_cbs \<or> cbs = connect_cbs \<and> rc_state c = httpr_recv_request_headers"
  shows "httpr_state c cs"
proof (cases "cbs = ss_cbs")
  case False
  then have n: "cbs = connect_cbs" "rc_state c = httpr_recv_request_headers" using assms(2) by simp_all
  then have "said = []" "heard = []" using ph by (simp_all add: httpr_phase_def httpr_heard_def)
  with n ph show ?thesis by (auto simp: httpr_state_def httpr_connecting_def)
qed (use ph in \<open>auto simp: httpr_state_def httpr_talking_def\<close>)

lemma httpr_kept_state:
  "httpr_kept cbs n pre said heard c cs \<Longrightarrow> cbs = ss_cbs \<or> cbs = connect_cbs \<and> n = httpr_recv_request_headers \<Longrightarrow> httpr_state c cs"
  by (auto simp: httpr_kept_def intro: httpr_phase_state)

lemma httpr_kept_eof:
  assumes ph: "httpr_phase cbs bv pre said heard c cs" and ev: "be_ev_read (bv s)"
    and e: "rs_post (eof_post s (bv(s := bufferevent_disable True False (bv s))) (httpr_data pre said heard)
      (set_bev s (bufferevent_disable True False (bv s)) c) cs1) res"
  shows "rs_post (httpr_kept cbs (rc_state c) pre said heard) res"
proof (rule rs_post_mono [OF e])
  fix c' cs'
  let ?bv = "bv(s := bufferevent_disable True False (bv s))"
  assume p: "eof_post s ?bv (httpr_data pre said heard) (set_bev s (bufferevent_disable True False (bv s)) c) cs1 c' cs'"
  then have sc: "same_client c c'" by (simp add: eof_post_def same_client_def)
  have w: "\<not> be_ev_write (eof_bevs s ?bv Client)"
    using eof_bevs_ev_write [of s ?bv Client] ph by (auto simp: httpr_phase_def client_bev_def split: if_splits)
  have "be_read_suspended (?bv t) = be_read_suspended (bv t)" "be_input (?bv t) = be_input (bv t)" "be_readcb (?bv t) = be_readcb (bv t)"
    "be_writecb (?bv t) = be_writecb (bv t)" "be_read_low (?bv t) = be_read_low (bv t)" "be_read_high (?bv t) = be_read_high (bv t)"
    "be_write_low (?bv t) = be_write_low (bv t)" "be_ev_read (?bv t) \<longleftrightarrow> be_ev_read (bv t) \<and> t \<noteq> s" for t
    by (simp_all add: bufferevent_disable_def be_socket_disable_def)
  note same = this eof_bevs_simps
  have i: "rs_inv (eof_bevs s ?bv) (httpr_data pre said heard) c' cs'" "rc_shut_rd c' = (rc_shut_rd c)(s := True)"
    using p by (simp_all add: eof_post_def)
  have cl: "client_bev (bv Client)" "be_input (bv Client) = []" "rc_shut_rd c Relay \<longrightarrow> \<not> be_ev_read (bv Relay)"
    using ph by (simp_all add: httpr_phase_def)
  have "httpr_phase cbs (eof_bevs s ?bv) pre said heard c' cs'"
  proof (rule httpr_phase_keep [OF ph i(1) sc])
    show "client_bev (eof_bevs s ?bv Client)" using cl(1) w unfolding client_bev_def same by simp
    show "be_ev_read (eof_bevs s ?bv Relay) \<or> rc_shut_rd c' Relay \<longrightarrow> be_ev_read (bv Relay) \<or> rc_shut_rd c Relay"
      using ev i(2) unfolding same by (cases s) simp_all
    show "rc_shut_rd c' Relay \<longrightarrow> \<not> be_ev_read (eof_bevs s ?bv Relay)" using cl(3) i(2) unfolding same by (cases s) simp_all
  qed (use cl(2) in \<open>simp_all only: same\<close>)
  then show "httpr_kept cbs (rc_state c) pre said heard c' cs'" using sc by (auto simp: httpr_kept_def same_client_def)
qed

section \<open>The callbacks of the request\<close>

lemma content_Nil [simp]: "httpr_content os [] c cs = Some (c, cs)"
  by (simp add: httpr_content.simps)

lemma content_unsent:
  assumes "httpr_content os input c cs = Some (c', cs')" "rc_bev c Relay = None \<or> rc_state c < httpr_request_sent"
    "hb_buff (httpr_client_buffer (rc_httpr c)) = Some buf"
  shows "\<exists>b. c' = c\<lparr>rc_httpr := (rc_httpr c)\<lparr>httpr_client_buffer := b\<rparr>\<rparr> \<and> cs' = cs \<and> hb_buff b = Some (buf @ input)"
  using assms
proof (induction os input c cs arbitrary: buf rule: httpr_content.induct)
  case (1 os input c cs)
  show ?case
  proof (cases "input = []")
    case True
    with "1.prems" show ?thesis by (intro exI [of _ "httpr_client_buffer (rc_httpr c)"]) simp
  next
    case False
    let ?m = "take post_buffer_len input" and ?rest = "drop post_buffer_len input"
    from "1.prems"(1) False obtain b where b: "httpr_buffer_append ?m (httpr_client_buffer (rc_httpr c)) = Some b"
      by (auto simp: httpr_content.simps [of os input] Let_def split: bind_splits)
    let ?c = "c\<lparr>rc_httpr := (rc_httpr c)\<lparr>httpr_client_buffer := b\<rparr>\<rparr>"
    have sel: "(case rc_bev ?c Relay of None \<Rightarrow> (?c, cs)
        | Some r \<Rightarrow> if httpr_request_sent \<le> rc_state ?c then let (r, cs) = bufferevent_write_buffer os ?m r cs in (set_bev Relay r ?c, cs) else (?c, cs)) = (?c, cs)"
      using "1.prems"(2) by (auto split: option.splits)
    then have "httpr_content os ?rest ?c cs = Some (c', cs')"
      using "1.prems"(1) b False by (simp add: httpr_content.simps [of os input] Let_def)
    from "1.IH" [OF False refl b refl sel [symmetric] refl this, of "buf @ ?m"] "1.prems"(2,3) buffer_append_buff [OF b]
    show ?thesis by auto
  qed
qed

text \<open>Pieces that are sent at once: the buffer and what was said grow by the same bytes.\<close>

definition content_post :: "bytes \<Rightarrow> bytes \<Rightarrow> (rs_side \<Rightarrow> rs_bev) \<Rightarrow> redsocks_client \<Rightarrow> (rs_side \<Rightarrow> rs_bev) \<Rightarrow> redsocks_client \<Rightarrow> bool" where
  "content_post buf input bv c bv' c' \<longleftrightarrow>
     (\<exists>b. same_client (c\<lparr>rc_httpr := (rc_httpr c)\<lparr>httpr_client_buffer := b\<rparr>\<rparr>) c' \<and> hb_buff b = Some (buf @ input)) \<and>
     rc_shut_rd c' = rc_shut_rd c \<and> bv' Client = bv Client \<and> be_write_low (bv' Relay) = be_write_low (bv Relay) \<and>
     be_readcb (bv' Relay) = be_readcb (bv Relay) \<and> be_writecb (bv' Relay) = be_writecb (bv Relay) \<and> be_ev_read (bv' Relay) = be_ev_read (bv Relay)"

lemma content_sent:
  assumes "httpr_content os input c cs = Some (c', cs')" "httpr_request_sent \<le> rc_state c"
    "rs_inv bv (httpr_data pre said heard) c cs" "hb_buff (httpr_client_buffer (rc_httpr c)) = Some buf"
  shows "\<exists>bv'. rs_inv bv' (httpr_data pre (said @ input) heard) c' cs' \<and> content_post buf input bv c bv' c'"
  using assms
proof (induction os input c cs arbitrary: bv said buf rule: httpr_content.induct)
  case (1 os input c cs)
  show ?case
  proof (cases "input = []")
    case True
    with "1.prems" show ?thesis
      by (intro exI [of _ bv] conjI) (auto simp: content_post_def same_client_def intro!: exI [of _ "httpr_client_buffer (rc_httpr c)"])
  next
    case False
    let ?m = "take post_buffer_len input" and ?rest = "drop post_buffer_len input"
    from "1.prems"(1) False obtain b where b: "httpr_buffer_append ?m (httpr_client_buffer (rc_httpr c)) = Some b"
      by (auto simp: httpr_content.simps [of os input] Let_def split: bind_splits)
    let ?c = "c\<lparr>rc_httpr := (rc_httpr c)\<lparr>httpr_client_buffer := b\<rparr>\<rparr>"
    obtain r cs1 where w: "bufferevent_write_buffer os ?m (bv Relay) cs = (r, cs1)" by (cases "bufferevent_write_buffer os ?m (bv Relay) cs")
    have sel: "(case rc_bev ?c Relay of None \<Rightarrow> (?c, cs)
        | Some r \<Rightarrow> if httpr_request_sent \<le> rc_state ?c then let (r, cs) = bufferevent_write_buffer os ?m r cs in (set_bev Relay r ?c, cs) else (?c, cs)) =
        (set_bev Relay r ?c, cs1)"
      using "1.prems"(2) rs_inv_bev [OF "1.prems"(3), of Relay] w by simp
    then have rest: "httpr_content os ?rest (set_bev Relay r ?c) cs1 = Some (c', cs')"
      using "1.prems"(1) b False by (simp add: httpr_content.simps [of os input] Let_def)
    have "rs_inv bv (httpr_data pre said heard) ?c cs" using "1.prems"(3) by simp
    from httpr_say [OF this w] have i: "rs_inv (bv(Relay := r)) (httpr_data pre (said @ ?m) heard) (set_bev Relay r ?c) cs1" .
    have "hb_buff (httpr_client_buffer (rc_httpr (set_bev Relay r ?c))) = Some (buf @ ?m)"
      using buffer_append_buff [OF b "1.prems"(4)] by simp
    from "1.IH" [OF False refl b refl sel [symmetric] refl rest _ i this] "1.prems"(2)
    obtain bv' where v: "rs_inv bv' (httpr_data pre ((said @ ?m) @ ?rest) heard) c' cs'"
      "content_post (buf @ ?m) ?rest (bv(Relay := r)) (set_bev Relay r ?c) bv' c'" by (auto simp del: fun_upd_apply)
    note io = write_buffer_io(1) [OF w] write_buffer_events(2) [OF w]
    have "content_post buf input bv c bv' c'" using v(2) io
      by (auto simp: content_post_def same_client_def same_io_def)
    with v(1) show ?thesis by (intro exI [of _ bv']) simp
  qed
qed

lemma httpr_request_buff: "httpr_request dest pre h \<Longrightarrow> \<exists>buf. hb_buff (httpr_client_buffer h) = Some buf"
  by (auto simp: httpr_request_def)

lemma httpr_request_more:
  "httpr_request dest pre h \<Longrightarrow> hb_buff (httpr_client_buffer h) = Some buf \<Longrightarrow> hb_buff b = Some (buf @ bs) \<Longrightarrow>
   httpr_request dest (pre @ bs) (h\<lparr>httpr_client_buffer := b\<rparr>)"
  unfolding httpr_request_def by fastforce

lemma httpr_said_more: "httpr_said dest pre said \<Longrightarrow> httpr_said dest (pre @ bs) (said @ bs)"
  unfolding httpr_said_def by fastforce

lemma client_read_phase:
  assumes ph: "httpr_phase cbs bv pre said heard c cs"
    and i: "rs_inv (bv(Client := rs_input Client bs bv)) (httpr_data pre said heard) (set_bev Client (rs_input Client bs bv) c) cs1"
    and r: "httpr_client_read_cb os cfg (set_bev Client (rs_input Client bs bv) c) cs1 = Some res"
  shows "\<exists>said'. rs_post (httpr_kept cbs (rc_state c) (pre @ bs) said' heard) res"
proof -
  let ?b = "(bv Client)\<lparr>be_input := []\<rparr>" and ?cs = "Be_Time # cs1"
  define c1 where "c1 = (set_bev Client (rs_input Client bs bv) c)\<lparr>rc_last_event := bo_time os cs1\<rparr>"
  define bv2 where "bv2 = (bv(Client := rs_input Client bs bv))(Client := ?b)"
  define c2 where "c2 = set_bev Client ?b c1"
  have h: "httpr_heard (rc_state c) heard" and rq: "httpr_request (fmt_http_host c) pre (rc_httpr c)" and bi: "be_input (bv Client) = []"
    using ph by (simp_all add: httpr_phase_def)
  then have n: "httpr_recv_request_headers \<le> rc_state c" by (auto simp: httpr_heard_def split: if_splits)
  have i1: "rs_inv (bv(Client := rs_input Client bs bv)) (httpr_data pre said heard) c1 ?cs"
    using touch_inv [OF i, of os] by (simp add: redsocks_touch_client_def c1_def)
  have i2: "rs_inv bv2 (httpr_data (pre @ bs) said heard) c2 ?cs"
    using httpr_take_client [OF i1, of bs "[]"] bi by (simp add: bv2_def c2_def)
  obtain c' cs' where c': "httpr_content os bs c2 ?cs = Some (c', cs')" "res = (Some c', cs')"
    using r n bi by (auto simp: httpr_client_read_cb_def httpr_client_read_content_def redsocks_touch_client_def c1_def c2_def split: bind_splits)
  have same: "rc_httpr c2 = rc_httpr c" "rc_state c2 = rc_state c" "fmt_http_host c2 = fmt_http_host c" "rc_shut_rd c2 = rc_shut_rd c"
    by (simp_all add: c2_def c1_def)
  obtain buf where buf: "hb_buff (httpr_client_buffer (rc_httpr c)) = Some buf" using httpr_request_buff [OF rq] by blast
  have bev: "client_bev (bv2 Client)" "be_input (bv2 Client) = []" "bv2 Relay = bv Relay"
    using ph by (simp_all add: httpr_phase_def client_bev_def bv2_def)
  show ?thesis
  proof (cases "httpr_request_sent \<le> rc_state c")
    case False
    from content_unsent [OF c'(1)] False same buf obtain b
      where b: "c' = c2\<lparr>rc_httpr := (rc_httpr c)\<lparr>httpr_client_buffer := b\<rparr>\<rparr>" "cs' = ?cs" "hb_buff b = Some (buf @ bs)" by auto
    have "fmt_http_host c' = fmt_http_host c" using same by (simp add: b)
    then have "httpr_phase cbs bv2 (pre @ bs) said heard c' cs'"
      using ph i2 httpr_request_more [OF rq buf b(3)] bev same False n h by (simp add: httpr_phase_def b)
    then show ?thesis using same b(1) by (intro exI [of _ said]) (auto simp: c'(2) httpr_kept_def)
  next
    case True
    from content_sent [OF c'(1) _ i2, of buf] True same buf obtain bv'
      where v: "rs_inv bv' (httpr_data (pre @ bs) (said @ bs) heard) c' cs'" "content_post buf bs bv2 c2 bv' c'" by auto
    from v(2) obtain b where b: "same_client (c2\<lparr>rc_httpr := (rc_httpr c2)\<lparr>httpr_client_buffer := b\<rparr>\<rparr>) c'" "hb_buff b = Some (buf @ bs)"
      by (auto simp: content_post_def)
    have f: "fmt_http_host c' = fmt_http_host c" "rc_state c' = rc_state c" "rc_httpr c' = (rc_httpr c)\<lparr>httpr_client_buffer := b\<rparr>"
      using fmt_http_host_same [OF b(1)] b(1) same by (simp_all add: same_client_def)
    have "httpr_said (fmt_http_host c) pre said" using ph True by (simp add: httpr_phase_def)
    from httpr_said_more [OF this] have "httpr_phase cbs bv' (pre @ bs) (said @ bs) heard c' cs'"
      using ph v httpr_request_more [OF rq buf b(2)] bev same True h by (simp add: httpr_phase_def f content_post_def)
    then show ?thesis using f by (intro exI [of _ "said @ bs"]) (auto simp: c'(2) httpr_kept_def)
  qed
qed

text \<open>Events of the client's socket, while the proxy server is connected to or talked to.\<close>

lemma fire_client:
  assumes ph: "httpr_phase cbs bv pre said heard c cs" and pe: "rs_pending Client e c"
    and k: "cbs = ss_cbs \<or> cbs = connect_cbs \<and> rc_state c = httpr_recv_request_headers"
  shows "rs_outcome False httpr_state (rs_fire os http_relay_subsys cfg Client e c cs)"
proof -
  note inv = httpr_phase_inv [OF ph]
  have cl: "client_bev (bv Client)" "be_input (bv Client) = []" using ph by (simp_all add: httpr_phase_def)
  have e: "e = Readable" "be_ev_read (bv Client)"
    using pe rs_inv_bev [OF inv, of Client] cl by (cases e; simp add: rs_pending_def client_bev_def)+
  have kept: "httpr_kept cbs (rc_state c) pre' said' heard c' cs' \<Longrightarrow> httpr_state c' cs'" for pre' said' c' cs'
    by (erule httpr_kept_state) (use k in auto)
  show ?thesis
  proof (cases rule: fire_read_cases [OF inv, of os http_relay_subsys cfg Client])
    case 1
    then show ?thesis using cl by (simp add: client_bev_def)
  next
    case (2 cs1)
    have "httpr_phase cbs bv pre said heard c cs1" using ph rs_inv_calls [OF inv 2(2)] by (simp add: httpr_phase_def)
    with 2 e k show ?thesis by (auto intro: httpr_phase_state)
  next
    case (3 cs1)
    with e show ?thesis by simp
  next
    case (4 res cs1)
    from httpr_kept_eof [OF ph e(2) 4(4)] 4(1) e show ?thesis by (auto intro: rs_post_mono kept)
  next
    case (5 bs n)
    have "rs_fire os http_relay_subsys cfg Client Readable c cs =
      httpr_client_read_cb os cfg (set_bev Client (rs_input Client bs bv) c) (Be_Read (be_fd (bv Client)) n (Rd_Data bs) # cs)"
      using 5(6) cl by (simp add: client_bev_def run_cb_option_def http_relay_subsys_def)
    moreover have "rs_post httpr_state res" if "httpr_client_read_cb os cfg (set_bev Client (rs_input Client bs bv) c) (Be_Read (be_fd (bv Client)) n (Rd_Data bs) # cs) = Some res" for res
      using client_read_phase [OF ph 5(7) that] by (auto intro: rs_post_mono kept)
    ultimately show ?thesis using e by (auto simp: rs_outcome_def split: option.split)
  qed
qed

section \<open>Sending the request\<close>

lemma httpr_auth_string_result:
  assumes "httpr_auth_string os cfg firstline auth cs = Some (res, cs')"
  shows "quiet P cs cs'" "res = Inr a \<Longrightarrow> auth_text (concat (auth_pieces a))"
proof -
  show "quiet P cs cs'" using assms
    by (auto simp: httpr_auth_string_def Let_def random_words_quiet case_prod_unfold split: option.splits if_splits bind_splits)
  assume "res = Inr a"
  then have "a = None \<or> (\<exists>scheme s. a = Some (scheme, s) \<and> scheme \<in> {''Basic'', ''Digest''})" using assms
    by (auto simp: httpr_auth_string_def Let_def simp del: insert_iff split: option.splits if_splits bind_splits prod.splits)
  then show "auth_text (concat (auth_pieces a))"
  proof (elim disjE exE conjE)
    fix scheme s
    assume "a = Some (scheme, s)" "scheme \<in> {''Basic'', ''Digest''}"
    moreover from this have "concat (auth_pieces a) = c_bytes (auth_response_header @ '' '' @ scheme @ '' '' @ s @ crlf)"
      by (simp add: auth_pieces_def del: append.simps)
    ultimately show ?thesis unfolding auth_text_def by blast
  qed (simp add: auth_text_def auth_pieces_def)
qed

lemma rs_inv_same_data:
  assumes "rs_inv bv d c cs" "be_fd b = be_fd (bv s)" "be_input b = be_input (bv s)" "be_output b = be_output (bv s)"
  shows "rs_inv (bv(s := b)) d (set_bev s b c) cs"
proof -
  note i = assms(1) [unfolded rs_inv_def]
  have "rs_fds (bv(s := b)) cs" using i assms(2) by (cases s) (simp_all add: rs_fds_def)
  moreover have "rs_bytes (bv(s := b)) d cs" using i assms(2-4) unfolding rs_bytes_def all_sides by (cases s) simp_all
  ultimately show ?thesis using i by (auto simp: rs_inv_def rs_shut_ok_def all_shut_def)
qed

lemma bev_state: "c\<lparr>rc_state := n, rc_bev := f\<rparr> = c\<lparr>rc_bev := f, rc_state := n\<rparr>"
  by (cases c) simp

lemma relay_write_phase:
  assumes ph: "httpr_phase ss_cbs bv pre said heard c cs" and r: "httpr_relay_write_cb os cfg c cs = Some res"
  shows "rs_post httpr_state res"
proof -
  define c0 where "c0 = c\<lparr>rc_last_event := bo_time os cs\<rparr>"
  note inv = httpr_phase_inv [OF ph]
  have i0: "rs_inv bv (httpr_data pre said heard) c0 (Be_Time # cs)" using touch_inv [OF inv, of os] by (simp add: redsocks_touch_client_def c0_def)
  have n: "\<not> rc_state c < httpr_recv_request_headers" using httpr_phase_heard [OF ph] by (auto simp: httpr_heard_def split: if_splits)
  show ?thesis
  proof (cases "rc_state c = httpr_recv_request_headers")
    case False
    then have "res = (Some c0, Be_Time # cs)" using r n by (simp add: httpr_relay_write_cb_def redsocks_touch_client_def c0_def)
    moreover have "httpr_phase ss_cbs bv pre said heard c0 (Be_Time # cs)" using ph i0 by (simp add: httpr_phase_def c0_def)
    ultimately show ?thesis by (auto intro: httpr_phase_state)
  next
    case True
    then have nil: "said = []" "heard = []" using ph by (simp_all add: httpr_phase_def httpr_heard_def)
    from ph obtain head body l b where rq: "pre = head @ body" "httpr_rewrite (fmt_http_host c) head = Some (l, b)"
      "httpr_firstline (rc_httpr c) = Some l" "hb_buff (httpr_client_buffer (rc_httpr c)) = Some (b @ body)"
      by (auto simp: httpr_phase_def httpr_request_def)
    define auth where "auth = (rc_auth c)\<lparr>last_auth_count := last_auth_count (rc_auth c) + 1\<rparr>"
    define c1 where "c1 = c0\<lparr>rc_auth := auth\<rparr>"
    obtain r1 cs1 where w1: "bufferevent_write_buffer os (c_bytes l) (bv Relay) (Be_Time # cs) = (r1, cs1)"
      by (cases "bufferevent_write_buffer os (c_bytes l) (bv Relay) (Be_Time # cs)")
    obtain ans cs2 where a: "httpr_auth_string os cfg (Some l) auth cs1 = Some (ans, cs2)"
      using r n True rs_inv_bev [OF inv, of Relay] rq(3) w1
      by (auto simp: httpr_relay_write_cb_def redsocks_touch_client_def c0_def auth_def Let_def split: bind_splits)
    have "rs_inv bv (httpr_data pre [] []) c1 (Be_Time # cs)" using i0 nil by (simp add: c1_def)
    from httpr_say [OF this w1] have i1: "rs_inv (bv(Relay := r1)) (httpr_data pre (c_bytes l) []) (set_bev Relay r1 c1) cs1" by simp
    have i2: "rs_inv (bv(Relay := r1)) (httpr_data pre (c_bytes l) []) (set_bev Relay r1 c1) cs2"
      by (rule rs_inv_calls [OF i1]) (rule httpr_auth_string_result(1) [OF a])
    show ?thesis
    proof (cases ans)
      case (Inl u)
      then have "res = redsocks_drop_client (set_bev Relay r1 c1) cs2"
        using r n True rs_inv_bev [OF inv, of Relay] rq(3) w1 a
        by (simp add: httpr_relay_write_cb_def redsocks_touch_client_def c0_def c1_def auth_def Let_def)
      with i2 show ?thesis by simp
    next
      case (Inr s)
      note at = httpr_auth_string_result(2) [OF a Inr]
      obtain r2 cs3 where w2: "bufferevent_writes os (auth_pieces s) r1 cs2 = (r2, cs3)" by (cases "bufferevent_writes os (auth_pieces s) r1 cs2")
      obtain r3 cs4 where w3: "bufferevent_write_buffer os (b @ body) r2 cs3 = (r3, cs4)" by (cases "bufferevent_write_buffer os (b @ body) r2 cs3")
      let ?r = "r3\<lparr>be_read_low := 1, be_read_high := HTTP_HEAD_WM_HIGH\<rparr>"
      obtain ok r4 cs5 where e: "bufferevent_enable os True False ?r cs4 = (ok, r4, cs5)" by (cases "bufferevent_enable os True False ?r cs4")
      define c2 where "c2 = (set_bev Relay r4 c1)\<lparr>rc_state := httpr_request_sent\<rparr>"
      have res: "res = (Some c2, cs5)"
        using r n True rs_inv_bev [OF inv, of Relay] rq(3,4) w1 a Inr w2 w3 e
        by (simp add: httpr_relay_write_cb_def redsocks_touch_client_def c0_def c1_def c2_def auth_def bev_state Let_def)
      note s2 = httpr_says [OF i2, of os "auth_pieces s" r2 cs3]
      let ?said = "c_bytes l @ concat (auth_pieces s) @ b @ body"
      have i3: "rs_inv (bv(Relay := r2)) (httpr_data pre (c_bytes l @ concat (auth_pieces s)) []) (set_bev Relay r2 c1) cs3"
        using s2 w2 by simp
      from httpr_say [OF this, of os "b @ body" r3 cs4] w3
      have i4: "rs_inv (bv(Relay := r3)) (httpr_data pre ?said []) (set_bev Relay r3 c1) cs4" by simp
      from rs_inv_same_data [OF i4, of ?r Relay]
      have i5: "rs_inv (bv(Relay := ?r)) (httpr_data pre ?said []) (set_bev Relay ?r c1) cs4" by simp
      note io = enable_io [OF e] and ev = enable_read_events [OF e]
      from rs_inv_quiet [OF i5, of Relay r4 cs5] io quiet_fd [OF i5, of Relay cs5]
      have i6: "rs_inv (bv(Relay := r4)) (httpr_data pre ?said []) (set_bev Relay r4 c1) cs5" by simp
      have "httpr_said (fmt_http_host c) pre ?said" unfolding httpr_said_def using rq(1,2) at by blast
      moreover have "be_write_low r4 = be_write_low (bv Relay)" "be_readcb r4 = be_readcb (bv Relay)" "be_writecb r4 = be_writecb (bv Relay)"
        using write_buffer_io(1) [OF w1] s2 w2 write_buffer_io(1) [OF w3] io(1) by (simp_all add: same_io_def)
      moreover have "\<not> rc_shut_rd c Relay" using ph True by (simp add: httpr_phase_def)
      ultimately have "httpr_phase ss_cbs (bv(Relay := r4)) pre ?said [] c2 cs5"
        using ph i6 nil by (simp add: httpr_phase_def c2_def c1_def c0_def httpr_heard_def lines_none)
      then show ?thesis using res by (auto intro: httpr_phase_state)
    qed
  qed
qed

section \<open>The reply\<close>

lemma lines_are_append: "lines_are ks x \<Longrightarrow> lines_are ls y \<Longrightarrow> lines_are (ks @ ls) (x @ y)"
  by (induction ks arbitrary: x) (auto split: option.splits dest: readline_append [where y = y])

lemma lines_are_http_lines: "lines_are ls x \<Longrightarrow> (\<And>l. l \<in> set ls \<Longrightarrow> P l) \<Longrightarrow> http_lines P x"
proof (induction ls arbitrary: x)
  case Nil
  then show ?case by (simp add: lines_none)
next
  case (Cons l ls)
  then obtain rest where r: "redsocks_evbuffer_readline x = Some (l, rest)" "lines_are ls rest" by (auto split: option.splits)
  from readline_split [OF r(1)] obtain y where y: "x = y @ rest" "redsocks_evbuffer_readline y = Some (l, [])" by blast
  have "http_lines P y" using y(2) Cons.prems(2) by (intro http_lines_one) auto
  with Cons.IH [OF r(2)] Cons.prems(2) y(1) show ?case by (auto intro: http_lines_append)
qed

lemma httpr_headers_result:
  "httpr_headers input h = Some (skipped, rest, h') \<Longrightarrow> hb_buff (httpr_relay_buffer h) = Some buf \<Longrightarrow>
   \<exists>x ls b. input = x @ rest \<and> lines_are ls x \<and> h' = h\<lparr>httpr_relay_buffer := b\<rparr> \<and> hb_buff b = Some (buf @ lines_text ls) \<and>
     (if skipped then \<exists>ks. ls = ks @ [[]] else [] \<notin> set ls)"
proof (induction input h arbitrary: buf rule: httpr_headers.induct)
  case (1 input h)
  show ?case
  proof (cases "redsocks_evbuffer_readline input")
    case None
    with "1.prems" show ?thesis by (intro exI [of _ "[]"] exI [of _ "[]"] exI [of _ "httpr_relay_buffer h"]) (auto simp: httpr_headers.simps [of input])
  next
    case (Some p)
    then obtain line r where p: "redsocks_evbuffer_readline input = Some (line, r)" by (cases p) auto
    from readline_split [OF this] obtain y where y: "input = y @ r" "redsocks_evbuffer_readline y = Some (line, [])" by blast
    from "1.prems"(1) p obtain h1 where h1: "httpr_append_reply line h = Some h1"
      "(if line = [] then Some (True, r, h1) else httpr_headers r h1) = Some (skipped, rest, h')"
      by (auto simp: httpr_headers.simps [of input] split: bind_splits)
    from append_reply_buff [OF h1(1) "1.prems"(2)] obtain b where b: "h1 = h\<lparr>httpr_relay_buffer := b\<rparr>" "hb_buff b = Some (buf @ lines_text [line])" .
    show ?thesis
    proof (cases "line = []")
      case True
      with h1(2) b y show ?thesis
        by (intro exI [of _ y] exI [of _ "[[]]"] exI [of _ b]) (auto simp: lines_are_Cons [where y = "[]", simplified])
    next
      case False
      with h1(2) have "httpr_headers r h1 = Some (skipped, rest, h')" by simp
      from "1.IH" [OF p refl h1(1) False this, of "buf @ lines_text [line]"] b
      obtain x ls b' where x: "r = x @ rest" "lines_are ls x" "h' = h1\<lparr>httpr_relay_buffer := b'\<rparr>"
        "hb_buff b' = Some ((buf @ lines_text [line]) @ lines_text ls)" "if skipped then \<exists>ks. ls = ks @ [[]] else [] \<notin> set ls" by auto
      have "lines_are (line # ls) (y @ x)" by (rule lines_are_Cons [OF y(2) x(2)])
      then show ?thesis using x y(1) b(1) False
        by (intro exI [of _ "y @ x"] exI [of _ "line # ls"] exI [of _ b']) auto
    qed
  qed
qed

text \<open>What the callback has of the reply: lines that ended in it.\<close>

definition httpr_shown :: "bytes \<Rightarrow> httpr_client \<Rightarrow> bool" where
  "httpr_shown heard h \<longleftrightarrow> (\<exists>lost shown ls. heard = lost @ shown \<and> lines_are ls shown \<and> hb_buff (httpr_relay_buffer h) = Some (lines_text ls))"

lemma httpr_relaying_start:
  assumes inv: "rs_inv bv (httpr_data pre said heard) c cs" and w: "bufferevent_write_buffer os reply (bv Client) cs = (b, cs1)"
    and sd: "httpr_said (fmt_http_host c) pre said" and rp: "httpr_replied heard reply"
    and r: "redsocks_start_relay os (httpr_client_fini (set_bev Client b c)) cs1 = Some res"
  shows "rs_post httpr_relaying res"
proof -
  let ?c = "httpr_client_fini (set_bev Client b c)"
  have i: "rs_inv (bv(Client := b)) (httpr_dialogue pre said heard reply) ?c cs1"
    using rs_inv_say [OF inv w] by (simp add: httpr_dialogue_def httpr_client_fini_def)
  show ?thesis
  proof (cases rule: start_relay_cases [OF i, of os])
    case (1 cs2)
    with r show ?thesis by auto
  next
    case (2 b' r' cs1 cs2)
    let ?c' = "set_bev Relay r' (set_bev Client b' ?c)"
    have "fmt_http_host ?c' = fmt_http_host c" by (simp add: httpr_client_fini_def)
    then have "httpr_relaying ?c' cs2" unfolding httpr_relaying_def using 2(2,3) sd rp same_dialogue_refl by metis
    with 2(1) r show ?thesis by auto
  qed
qed

lemma httpr_reply_phase:
  assumes ph: "httpr_phase ss_cbs bv pre said heard c cs" and n: "rc_state c \<noteq> httpr_recv_request_headers" and sh: "httpr_shown heard (rc_httpr c)"
    and r: "httpr_reply os c cs = Some res"
  shows "rs_post httpr_state res"
proof -
  note inv = httpr_phase_inv [OF ph]
  have sd: "httpr_said (fmt_http_host c) pre said" and hd: "httpr_heard (rc_state c) heard" using ph n by (simp_all add: httpr_phase_def)
  from sh obtain lost shown ls0 where s: "heard = lost @ shown" "lines_are ls0 shown" "hb_buff (httpr_relay_buffer (rc_httpr c)) = Some (lines_text ls0)"
    by (auto simp: httpr_shown_def)
  obtain skipped rest h where h: "(if rc_state c = httpr_reply_came then httpr_headers (be_input (bv Relay)) (rc_httpr c)
      else Some (False, be_input (bv Relay), rc_httpr c)) = Some (skipped, rest, h)"
    using r rs_inv_bev [OF inv, of Relay] by (auto simp: httpr_reply_def split: bind_splits)
  have "\<exists>x ls b. be_input (bv Relay) = x @ rest \<and> lines_are ls x \<and> h = (rc_httpr c)\<lparr>httpr_relay_buffer := b\<rparr> \<and>
      hb_buff b = Some (lines_text (ls0 @ ls)) \<and> (if skipped then \<exists>ks. ls = ks @ [[]] else [] \<notin> set ls) \<and>
      (rc_state c = httpr_reply_came \<or> ls = [] \<and> \<not> skipped)"
  proof (cases "rc_state c = httpr_reply_came")
    case True
    then show ?thesis using httpr_headers_result [OF _ s(3), of "be_input (bv Relay)" skipped rest h] h by simp
  next
    case False
    then show ?thesis using h s(3) by (intro exI [of _ "[]"] exI [of _ "[]"] exI [of _ "httpr_relay_buffer (rc_httpr c)"]) auto
  qed
  then obtain x ls b where x: "be_input (bv Relay) = x @ rest" "lines_are ls x" "h = (rc_httpr c)\<lparr>httpr_relay_buffer := b\<rparr>"
    "hb_buff b = Some (lines_text (ls0 @ ls))" "if skipped then \<exists>ks. ls = ks @ [[]] else [] \<notin> set ls"
    "rc_state c = httpr_reply_came \<or> ls = [] \<and> \<not> skipped" by blast
  let ?r = "(bv Relay)\<lparr>be_input := rest\<rparr>"
  define c1 where "c1 = set_bev Relay ?r (c\<lparr>rc_httpr := h\<rparr>)"
  have "rs_inv bv (httpr_data pre said heard) (c\<lparr>rc_httpr := h\<rparr>) cs" using inv by simp
  from httpr_take_relay [OF this x(1)]
  have i1: "rs_inv (bv(Relay := ?r)) (httpr_data pre said (heard @ x)) c1 cs" by (simp add: c1_def)
  show ?thesis
  proof (cases skipped)
    case False
    have "rc_state c \<noteq> httpr_headers_skipped" using hd by (auto simp: httpr_heard_def split: if_splits)
    then have res: "res = (Some c1, cs)" using r rs_inv_bev [OF inv, of Relay] h False
      by (simp add: httpr_reply_def c1_def Let_def)
    have "http_lines (\<lambda>l. l \<noteq> []) x" by (rule lines_are_http_lines [OF x(2)]) (use x(5) False in auto)
    then have "httpr_heard (rc_state c) (heard @ x)" using hd x(2,6) False
      by (auto simp: httpr_heard_def split: if_splits) (metis http_lines_append)
    moreover have "httpr_request (fmt_http_host c) pre h" using ph x(3) by (simp add: httpr_phase_def httpr_request_def)
    ultimately have "httpr_phase ss_cbs (bv(Relay := ?r)) pre said (heard @ x) c1 cs"
      using ph i1 n by (simp add: httpr_phase_def c1_def)
    with res show ?thesis by (auto intro: httpr_phase_state)
  next
    case True
    let ?c = "c1\<lparr>rc_state := httpr_headers_skipped\<rparr>"
    obtain ks where ks: "ls = ks @ [[]]" using x(5) True by auto
    obtain bc cs1 where w: "bufferevent_write_buffer os (lines_text (ls0 @ ls)) (bv Client) cs = (bc, cs1)"
      by (cases "bufferevent_write_buffer os (lines_text (ls0 @ ls)) (bv Client) cs")
    have "rs_inv (bv(Relay := ?r)) (httpr_data pre said (heard @ x)) ?c cs" using i1 by simp
    moreover have "bufferevent_write_buffer os (lines_text (ls0 @ ls)) ((bv(Relay := ?r)) Client) cs = (bc, cs1)" using w by simp
    moreover have "httpr_said (fmt_http_host ?c) pre said" using sd by (simp add: c1_def)
    moreover have "httpr_replied (heard @ x) (lines_text (ls0 @ ls))"
      unfolding httpr_replied_def using lines_are_append [OF s(2) x(2)] s(1) ks
      by (intro exI [of _ lost] exI [of _ "shown @ x"] exI [of _ "ls0 @ ks"]) simp
    moreover have "redsocks_start_relay os (httpr_client_fini (set_bev Client bc ?c)) cs1 = Some res"
      using r rs_inv_bev [OF inv] h True x(3,4) w by (simp add: httpr_reply_def c1_def Let_def)
    ultimately have "rs_post httpr_relaying res" by (rule httpr_relaying_start)
    then show ?thesis by (rule rs_post_mono) (simp add: httpr_state_def)
  qed
qed

lemma httpr_connect:
  assumes os: "socket_contract os" and b: "rc_bev c Client = Some b" "client_bev b" "be_input b = []" "be_output b = []"
    and fds: "calls_ok cs" "\<And>fd. is_open fd cs \<longleftrightarrow> fd = be_fd b"
    and bytes: "bytes_read (be_fd b) cs = pre" "bytes_written (be_fd b) cs = []"
    and c: "rs_shut_ok c" "\<not> rc_shut_rd c Relay" "rc_state c = httpr_recv_request_headers" "httpr_request (fmt_http_host c) pre (rc_httpr c)"
  shows "rs_post httpr_connecting (redsocks_connect_relay os c cs)"
  using os b(1) fds
proof (cases rule: connect_relay_cases)
  case (opened fd r cs2)
  let ?bv = "\<lambda>s. case s of Client \<Rightarrow> b | Relay \<Rightarrow> r" and ?c = "set_bev Relay r c"
  have rb: "rc_bev ?c = (\<lambda>s. Some (?bv s))" using b(1) by (auto split: rs_side.split)
  have "rs_bytes ?bv (httpr_data pre [] []) cs2" using opened b bytes by (simp add: rs_bytes_def all_sides same_io_def bufferevent_new_def)
  moreover have "rs_fds ?bv cs2" using opened by (auto simp: rs_fds_def same_io_def bufferevent_new_def)
  ultimately have "rs_inv ?bv (httpr_data pre [] []) ?c cs2" using rb c(1) by (simp add: rs_inv_def rs_shut_ok_def all_shut_def)
  then have "httpr_phase connect_cbs ?bv pre [] [] ?c cs2"
    using c b opened(2,3) by (simp add: httpr_phase_def httpr_heard_def same_io_def bufferevent_new_def)
  with c(3) opened(1) show ?thesis by (auto simp: httpr_connecting_def)
qed simp

lemma auth_required_phase:
  assumes os: "socket_contract os" and inv: "rs_inv bv (httpr_data pre said heard) c cs"
    and cl: "client_bev (bv Client)" "be_input (bv Client) = []" "\<not> rc_shut_rd c Relay" "httpr_request (fmt_http_host c) pre (rc_httpr c)"
    and r: "httpr_auth_required os cfg c cs = Some res"
  shows "rs_post httpr_state res"
proof -
  consider "res = redsocks_drop_client c cs"
    | a h where "res = redsocks_connect_relay os (c\<lparr>rc_auth := a, rc_httpr := h, rc_state := httpr_recv_request_headers\<rparr>) (Be_Close (be_fd (bv Relay)) # cs)"
        "httpr_firstline h = httpr_firstline (rc_httpr c)" "httpr_client_buffer h = httpr_client_buffer (rc_httpr c)"
    using r rs_inv_bev [OF inv, of Relay]
    by (auto simp: httpr_auth_required_def Let_def split: bind_splits if_splits option.splits)
  then show ?thesis
  proof cases
    case 1
    with inv show ?thesis by simp
  next
    case (2 a h)
    let ?cs = "Be_Close (be_fd (bv Relay)) # cs"
      and ?c = "c\<lparr>rc_auth := a, rc_httpr := h, rc_state := httpr_recv_request_headers\<rparr>"
    have i: "rs_fds bv cs" "rs_bytes bv (httpr_data pre said heard) cs" "rs_shut_ok c" using inv by (simp_all add: rs_inv_def)
    have "rs_post httpr_connecting (redsocks_connect_relay os ?c ?cs)"
    proof (rule httpr_connect [OF os, of ?c "bv Client"])
      show "rs_shut_ok ?c" using i(3) by (simp add: rs_shut_ok_def all_shut_def)
      show "httpr_request (fmt_http_host ?c) pre (rc_httpr ?c)" using cl(4) 2(2,3) by (simp add: httpr_request_def)
    qed (use i(1,2) cl rs_inv_bev [OF inv] in \<open>auto simp: rs_fds_def rs_bytes_def all_sides\<close>)
    with 2(1) show ?thesis by (auto intro: rs_post_mono simp: httpr_state_def)
  qed
qed

lemma relay_read_phase:
  assumes os: "socket_contract os" and ph: "httpr_phase ss_cbs bv pre said heard c cs" and ev: "be_ev_read (bv Relay)"
    and r: "httpr_relay_read_cb os cfg c cs = Some res"
  shows "rs_post httpr_state res"
proof -
  define c0 where "c0 = c\<lparr>rc_last_event := bo_time os cs, rc_httpr := (rc_httpr c)\<lparr>httpr_relay_buffer := httpr_buffer_init\<rparr>\<rparr>"
  let ?cs = "Be_Time # cs"
  have n: "rc_state c \<noteq> httpr_recv_request_headers" using ph ev by (simp add: httpr_phase_def)
  then have n2: "\<not> rc_state c < httpr_request_sent" using httpr_phase_heard [OF ph] by (auto simp: httpr_heard_def split: if_splits)
  have "rs_inv bv (httpr_data pre said heard) c0 ?cs"
    using touch_inv [OF httpr_phase_inv [OF ph], of os] by (simp add: redsocks_touch_client_def c0_def)
  then have p0: "httpr_phase ss_cbs bv pre said heard c0 ?cs" using ph by (simp add: httpr_phase_def c0_def httpr_request_def)
  note inv = httpr_phase_inv [OF p0]
  have st: "rc_state c0 = rc_state c" by (simp add: c0_def)
  have sh: "httpr_shown heard (rc_httpr c0)" unfolding httpr_shown_def
    by (intro exI [of _ heard] exI [of _ "[]"] exI [of _ "[]"]) (simp add: c0_def httpr_buffer_init_def)
  show ?thesis
  proof (cases "rc_state c = httpr_request_sent")
    case False
    then have "httpr_reply os c0 ?cs = Some res" using r n2 st by (simp add: httpr_relay_read_cb_def redsocks_touch_client_def c0_def)
    with httpr_reply_phase [OF p0 _ sh] n st show ?thesis by simp
  next
    case True
    then obtain ans where a: "httpr_status os cfg c0 ?cs = Some ans" "(case ans of Inl res \<Rightarrow> Some res | Inr c \<Rightarrow> httpr_reply os c ?cs) = Some res"
      using r n2 by (auto simp: httpr_relay_read_cb_def redsocks_touch_client_def c0_def split: bind_splits)
    show ?thesis
    proof (cases "redsocks_evbuffer_readline (be_input (bv Relay))")
      case None
      then have "ans = Inl (redsocks_drop_client c0 ?cs) \<or> ans = Inr c0"
        using a(1) rs_inv_bev [OF inv, of Relay] by (auto simp: httpr_status_def split: if_splits)
      then show ?thesis
      proof
        assume "ans = Inr c0"
        with a(2) httpr_reply_phase [OF p0 _ sh] n st show ?thesis by simp
      qed (use a(2) inv in auto)
    next
      case (Some p)
      then obtain line rest where p: "redsocks_evbuffer_readline (be_input (bv Relay)) = Some (line, rest)" by (cases p) auto
      from readline_split [OF p] obtain x where x: "be_input (bv Relay) = x @ rest" "redsocks_evbuffer_readline x = Some (line, [])" by blast
      obtain h where h: "httpr_append_reply line (rc_httpr c0) = Some h" using a(1) p rs_inv_bev [OF inv, of Relay]
        by (auto simp: httpr_status_def split: bind_splits)
      from append_reply_buff [OF h, of "[]"] obtain b where b: "h = (rc_httpr c0)\<lparr>httpr_relay_buffer := b\<rparr>" "hb_buff b = Some (lines_text [line])"
        by (auto simp: c0_def httpr_buffer_init_def)
      let ?r = "(bv Relay)\<lparr>be_input := rest\<rparr>"
      define c1 where "c1 = set_bev Relay ?r (c0\<lparr>rc_httpr := h\<rparr>)"
      have "rs_inv bv (httpr_data pre said heard) (c0\<lparr>rc_httpr := h\<rparr>) ?cs" using inv by simp
      from httpr_take_relay [OF this x(1)]
      have i1: "rs_inv (bv(Relay := ?r)) (httpr_data pre said (heard @ x)) c1 ?cs" by (simp add: c1_def)
      have rq: "httpr_request (fmt_http_host c1) pre (rc_httpr c1)" using p0 by (simp add: c1_def httpr_phase_def b httpr_request_def)
      have p1: "httpr_phase ss_cbs (bv(Relay := ?r)) pre said (heard @ x) (c1\<lparr>rc_state := m\<rparr>) ?cs" if "httpr_heard m (heard @ x)" "httpr_request_sent \<le> m" for m
        using p0 i1 that rq True st by (simp add: httpr_phase_def c1_def)
      have sh1: "httpr_shown (heard @ x) (rc_httpr c1)" unfolding httpr_shown_def using b x(2)
        by (intro exI [of _ heard] exI [of _ x] exI [of _ "[line]"]) (simp add: c1_def)
      have hd: "http_lines (\<lambda>l. httpc_code l = None) heard" using httpr_phase_heard [OF ph] True by (simp add: httpr_heard_def)
      have st2: "rc_state c1 = httpr_request_sent" using True st by (simp add: c1_def)
      have st1: "c1\<lparr>rc_state := httpr_request_sent\<rparr> = c1" using True st by (simp add: c1_def)
      show ?thesis
      proof (cases "httpc_code line")
        case None
        then have "ans = Inr c1" using a(1) p h rs_inv_bev [OF inv, of Relay] by (simp add: httpr_status_def c1_def Let_def)
        moreover have "httpr_heard httpr_request_sent (heard @ x)"
          using lines_more [OF hd x(2)] None by (simp add: httpr_heard_def)
        ultimately show ?thesis using httpr_reply_phase [OF p1 [of httpr_request_sent]] sh1 a(2) st1 st2 by simp
      next
        case (Some code)
        then have "httpr_status os cfg c0 ?cs = (if code = 407 then map_option Inl (httpr_auth_required os cfg c1 ?cs)
            else if 100 \<le> code \<and> code \<le> 999 then Some (Inr (c1\<lparr>rc_state := httpr_reply_came\<rparr>)) else Some (Inl (redsocks_drop_client c1 ?cs)))"
          using p h rs_inv_bev [OF inv, of Relay] by (simp add: httpr_status_def c1_def Let_def)
        note ans = this [unfolded a(1), symmetric]
        consider "code = 407" | "code \<noteq> 407" "100 \<le> code" "code \<le> 999" | "code \<noteq> 407" "\<not> (100 \<le> code \<and> code \<le> 999)" by blast
        then show ?thesis
        proof cases
          case 1
          then obtain res' where "httpr_auth_required os cfg c1 ?cs = Some res'" "ans = Inl res'" using ans by auto
          then have "httpr_auth_required os cfg c1 ?cs = Some res" using a(2) by simp
          from auth_required_phase [OF os i1 _ _ _ rq this] show ?thesis using p0 ev by (simp add: httpr_phase_def c1_def)
        next
          case 2
          have "status_line x" unfolding status_line_def using x(2) Some 2 by blast
          then have "\<exists>junk status hdrs. heard @ x = junk @ status @ hdrs \<and> http_lines (\<lambda>l. httpc_code l = None) junk \<and> status_line status \<and>
              http_lines (\<lambda>l. l \<noteq> []) hdrs"
            by - (rule exI [of _ heard], rule exI [of _ x], rule exI [of _ "[]"], simp add: hd lines_none)
          then have "httpr_heard httpr_reply_came (heard @ x)" by (simp add: httpr_heard_def)
          moreover have "httpr_reply os (c1\<lparr>rc_state := httpr_reply_came\<rparr>) ?cs = Some res" using a(2) ans 2 by auto
          ultimately show ?thesis using httpr_reply_phase [OF p1, of httpr_reply_came] sh1 by simp
        qed (use a(2) ans i1 in auto)
      qed
    qed
  qed
qed

section \<open>Every event keeps the invariant\<close>

lemma httpr_phase_input:
  assumes "httpr_phase cbs bv pre said heard c cs"
    and "rs_inv (bv(Relay := r)) (httpr_data pre said heard) (set_bev Relay r c) cs'"
    and "be_write_low r = be_write_low (bv Relay)" "be_readcb r = be_readcb (bv Relay)" "be_writecb r = be_writecb (bv Relay)"
    and "be_ev_read r \<longrightarrow> be_ev_read (bv Relay)"
  shows "httpr_phase cbs (bv(Relay := r)) pre said heard (set_bev Relay r c) cs'"
  by (rule httpr_phase_keep [OF assms(1,2)]) (use assms in \<open>auto simp: httpr_phase_def\<close>)

lemma fire_relay_read:
  assumes os: "be_os_ok os" and ph: "httpr_phase ss_cbs bv pre said heard c cs" and ev: "be_ev_read (bv Relay)"
  shows "rs_outcome False httpr_state (rs_fire os http_relay_subsys cfg Relay Readable c cs)"
proof -
  note inv = httpr_phase_inv [OF ph]
  have sc: "socket_contract os" using os by (simp add: be_os_ok_def)
  show ?thesis
  proof (cases rule: fire_read_cases [OF inv, of os http_relay_subsys cfg Relay])
    case 1
    let ?b = "bufferevent_suspend_read (bv Relay)"
    have "rs_inv (bv(Relay := ?b)) (httpr_data pre said heard) (set_bev Relay ?b c) cs" by (rule rs_inv_quiet [OF inv]) simp_all
    then have "httpr_phase ss_cbs (bv(Relay := ?b)) pre said heard (set_bev Relay ?b c) cs"
      by (rule httpr_phase_input [OF ph]) (simp_all add: bufferevent_suspend_read_def be_socket_disable_def)
    with 1 show ?thesis by (auto intro: httpr_phase_state)
  next
    case (2 cs1)
    have "httpr_phase ss_cbs bv pre said heard c cs1" using ph rs_inv_calls [OF inv 2(2)] by (simp add: httpr_phase_def)
    with 2 show ?thesis by (auto intro: httpr_phase_state)
  next
    case (3 cs1)
    then show ?thesis by simp
  next
    case (4 res cs1)
    from httpr_kept_eof [OF ph ev 4(4)] 4(1) show ?thesis by (auto intro: rs_post_mono httpr_kept_state)
  next
    case (5 bs n)
    have p1: "httpr_phase ss_cbs (bv(Relay := rs_input Relay bs bv)) pre said heard (set_bev Relay (rs_input Relay bs bv) c)
        (Be_Read (be_fd (bv Relay)) n (Rd_Data bs) # cs)"
      by (rule httpr_phase_input [OF ph 5(7)]) simp_all
    have cb: "be_readcb (bv Relay) = Some Cb_Ss_Read" using ph by (simp add: httpr_phase_def)
    have "rs_fire os http_relay_subsys cfg Relay Readable c cs =
        httpr_relay_read_cb os cfg (set_bev Relay (rs_input Relay bs bv) c) (Be_Read (be_fd (bv Relay)) n (Rd_Data bs) # cs) \<or>
      rs_fire os http_relay_subsys cfg Relay Readable c cs = Some (Some (set_bev Relay (rs_input Relay bs bv) c), Be_Read (be_fd (bv Relay)) n (Rd_Data bs) # cs)"
      using 5(6) cb by (simp add: run_cb_option_def http_relay_subsys_def)
    then show ?thesis using relay_read_phase [OF sc p1, of cfg] ev httpr_phase_state [OF p1]
      by (auto simp: rs_outcome_def split: option.split)
  qed
qed

lemma fire_relay_write:
  assumes ph: "httpr_phase cbs bv pre said heard c cs" and ev: "be_ev_write (bv Relay)"
    and k: "cbs = ss_cbs \<or> cbs = connect_cbs \<and> rc_state c = httpr_recv_request_headers"
  shows "rs_outcome False httpr_state (rs_fire os http_relay_subsys cfg Relay Writable c cs)"
proof -
  note inv = httpr_phase_inv [OF ph]
  have low: "be_write_low (bv Relay) = 0" and cb: "be_writecb (bv Relay) = snd cbs" using ph by (auto simp: httpr_phase_def)
  show ?thesis
  proof (cases rule: fire_write_cases [OF inv low, of os http_relay_subsys cfg])
    case (1 cs1)
    have "httpr_phase cbs bv pre said heard c cs1" using ph rs_inv_calls [OF inv 1(2)] by (simp add: httpr_phase_def)
    with 1 k show ?thesis by (auto intro: httpr_phase_state)
  next
    case (2 cs1)
    then show ?thesis by simp
  next
    case (3 bs out)
    from httpr_phase_input [OF ph 3(5)] have "httpr_phase cbs (bv(Relay := (bv Relay)\<lparr>be_output := out\<rparr>)) pre said heard
      (set_bev Relay ((bv Relay)\<lparr>be_output := out\<rparr>) c) (Be_Write (be_fd (bv Relay)) bs # cs)" by simp
    with 3(4) k show ?thesis by (auto intro: httpr_phase_state)
  next
    case (4 cs1)
    let ?r = "(bv Relay)\<lparr>be_output := [], be_ev_write := False\<rparr>"
    from httpr_phase_input [OF ph 4(3)] have p1: "httpr_phase cbs (bv(Relay := ?r)) pre said heard (set_bev Relay ?r c) cs1" by simp
    show ?thesis
    proof (cases "cbs = ss_cbs")
      case True
      with 4(2) cb have "rs_fire os http_relay_subsys cfg Relay Writable c cs = httpr_relay_write_cb os cfg (set_bev Relay ?r c) cs1"
        by (simp add: run_cb_option_def http_relay_subsys_def)
      then show ?thesis using relay_write_phase [OF p1 [unfolded True], of os cfg] by (auto simp: rs_outcome_def split: option.split)
    next
      case False
      then have n: "cbs = connect_cbs" "rc_state c = httpr_recv_request_headers" using k by simp_all
      let ?c = "(set_bev Relay ?r c)\<lparr>rc_last_event := bo_time os cs1\<rparr>" and ?cs = "Be_Getsockopt (be_fd (bv Relay)) # Be_Time # cs1"
      have i1: "rs_inv (bv(Relay := ?r)) (httpr_data pre said heard) ?c (Be_Time # cs1)"
        using touch_inv [OF httpr_phase_inv [OF p1], of os] by (simp add: redsocks_touch_client_def)
      have i2: "rs_inv (bv(Relay := ?r)) (httpr_data pre said heard) ?c ?cs"
        using rs_inv_open [OF i1, of Relay] by (intro rs_inv_calls [OF i1]) auto
      have f: "rs_fire os http_relay_subsys cfg Relay Writable c cs = redsocks_relay_connected os http_relay_subsys cfg (set_bev Relay ?r c) cs1"
        using 4(2) cb n by (simp add: run_cb_option_def)
      show ?thesis
      proof (cases "bo_so_error os (Be_Time # cs1) (be_fd (bv Relay)) = 0")
        case ok: False
        with f i2 show ?thesis by (simp add: redsocks_relay_connected_def redsocks_touch_client_def red_is_socket_connected_ok_def)
      next
        case ok: True
        let ?r2 = "?r\<lparr>be_readcb := Some Cb_Ss_Read, be_writecb := Some Cb_Ss_Write\<rparr>"
        have "rs_inv (bv(Relay := ?r2)) (httpr_data pre said heard) (set_bev Relay ?r2 ?c) ?cs"
          using rs_inv_same_data [OF i2, of ?r2 Relay] by simp
        then have "httpr_phase ss_cbs (bv(Relay := ?r2)) pre said heard (set_bev Relay ?r2 ?c) ?cs"
          using p1 n(2) by (simp add: httpr_phase_def)
        from relay_write_phase [OF this, of os cfg] f ok show ?thesis
          by (auto simp: redsocks_relay_connected_def redsocks_touch_client_def red_is_socket_connected_ok_def http_relay_subsys_def rs_outcome_def split: option.split)
      qed
    qed
  qed
qed

lemma fire_httpr_relaying:
  assumes r: "httpr_relaying c cs" and pe: "rs_pending s e c"
  shows "rs_outcome False httpr_state (rs_fire os ss cfg s e c cs)"
proof -
  obtain bv d pre said heard reply where inv: "rs_inv bv d c cs" and sh: "relay_shape bv" and dl: "same_dialogue (httpr_dialogue pre said heard reply) d"
    and sd: "httpr_said (fmt_http_host c) pre said" and rp: "httpr_replied heard reply"
    using r unfolding httpr_relaying_def by blast
  have step: "httpr_state c' cs'" if "relay_step (os_adds os) t bv d c cs c' cs'" for t c' cs'
  proof -
    from that obtain bv' d' where m: "rs_inv bv' d' c' cs'" "relay_shape bv'" "same_dialogue d d'" "same_client c c'"
      unfolding relay_step_def by blast
    have "same_dialogue (httpr_dialogue pre said heard reply) d'" using dl m(3) by (simp add: same_dialogue_def)
    moreover have "httpr_said (fmt_http_host c') pre said" using sd fmt_http_host_same [OF m(4)] by simp
    ultimately show ?thesis using m(1,2) rp unfolding httpr_state_def httpr_relaying_def by blast
  qed
  show ?thesis
  proof (cases e)
    case Readable
    with pe rs_inv_bev [OF inv, of s] have "be_ev_read (bv s)" by (simp add: rs_pending_def)
    from fire_readable [OF inv sh this, of os ss cfg] obtain res
      where "rs_fire os ss cfg s Readable c cs = Some res" "rs_post (relay_step (os_adds os) s bv d c cs) res" .
    with Readable show ?thesis by (auto intro: rs_post_mono step)
  next
    case Writable
    with pe rs_inv_bev [OF inv, of s] have "be_ev_write (bv s)" by (simp add: rs_pending_def)
    from fire_writable [OF inv sh this, of os ss cfg] obtain res
      where "rs_fire os ss cfg s Writable c cs = Some res" "rs_post (relay_step (os_adds os) (other_side s) bv d c cs) res" .
    with Writable show ?thesis by (auto intro: rs_post_mono step)
  qed
qed

lemma httpr_lines_incomplete: "httpr_lines dest x h = Some (False, d, rest, h') \<Longrightarrow> \<not> d \<and> evbuffer_readln rest = None"
proof (induction dest x h rule: httpr_lines.induct)
  case (1 dest x h)
  show ?case
  proof (cases "evbuffer_readln x")
    case None
    then show ?thesis using "1.prems" by (auto simp: httpr_lines.simps [of dest x])
  next
    case (Some p)
    then obtain raw r where p: "evbuffer_readln x = Some (raw, r)" by (cases p) auto
    then have n: "c_text raw \<noteq> []" using "1.prems" by (auto simp: httpr_lines.simps [of dest x] split: bind_splits)
    then obtain h1 where h1: "httpr_line raw h = Some h1" "httpr_lines dest r h1 = Some (False, d, rest, h')"
      using "1.prems" p by (auto simp: httpr_lines.simps [of dest x] split: bind_splits)
    from "1.IH" [OF p refl n h1] show ?thesis .
  qed
qed

lemma single_bev_fd: "(\<And>fd. is_open fd cs \<longleftrightarrow> fd = f) \<Longrightarrow> quiet (\<lambda>fd. fd = f) cs cs' \<Longrightarrow> calls_ok cs \<Longrightarrow>
  calls_ok cs' \<and> (\<forall>fd. is_open fd cs' \<longleftrightarrow> fd = f)"
  using quiet_calls_ok [of "\<lambda>fd. fd = f" cs cs'] quiet_data(3) [of "\<lambda>fd. fd = f" cs cs'] by auto

text \<open>The callback while the head of the request is read.\<close>

lemma collecting_read:
  assumes os: "socket_contract os" and bev: "rc_bev c = (\<lambda>s. None)(Client := Some b)" and fds: "calls_ok cs" "\<And>fd. is_open fd cs \<longleftrightarrow> fd = be_fd b"
    and bytes: "bytes_read (be_fd b) cs = pre @ be_input b" "bytes_written (be_fd b) cs = []" "be_output b = []" and cl: "client_bev b"
    and c: "rc_state c = httpr_new" "\<not> rc_shut_wr c Client" "\<not> rc_shut_rd c Relay" "\<not> rc_shut_wr c Relay"
      "rc_shut_rd c Client \<longrightarrow> \<not> be_ev_read b"
    and ls: "httpr_lines (fmt_http_host c) pre httpr_start = Some (False, False, [], rc_httpr c)"
    and r: "httpr_client_read_cb os cfg c cs = Some res"
  shows "rs_post httpr_state res"
proof -
  let ?dest = "fmt_http_host c" and ?cs = "Be_Time # cs"
  obtain k dr rest h where l: "httpr_lines ?dest (be_input b) (rc_httpr c) = Some (k, dr, rest, h)"
    using r c(1) bev by (auto simp: httpr_client_read_cb_def redsocks_touch_client_def split: bind_splits)
  from httpr_lines_split [OF l] obtain z where z: "be_input b = z @ rest" "httpr_lines ?dest z (rc_httpr c) = Some (k, dr, [], h)" by blast
  have pz: "httpr_lines ?dest (pre @ z) httpr_start = Some (k, dr, [], h)" using httpr_lines_append [OF ls, of z] z(2) by simp
  let ?b = "b\<lparr>be_input := rest\<rparr>"
  define c1 where "c1 = set_bev Client ?b (c\<lparr>rc_last_event := bo_time os cs, rc_httpr := h\<rparr>)"
  have "httpr_client_read_cb os cfg c cs = (if dr then Some (redsocks_drop_client c1 ?cs)
      else if k then
        do { (c, cs) \<leftarrow> httpr_client_read_content os (c1\<lparr>rc_state := httpr_recv_request_headers\<rparr>) ?cs; Some (redsocks_connect_relay os c cs) }
      else Some (Some c1, ?cs))"
    using c(1) bev l by (simp add: httpr_client_read_cb_def redsocks_touch_client_def c1_def Let_def)
  note res = this [unfolded r, symmetric]
  have c1: "rc_bev c1 = (\<lambda>s. None)(Client := Some ?b)" "rc_httpr c1 = h" "fmt_http_host c1 = ?dest" "rc_state c1 = httpr_new"
    "rc_shut_rd c1 = rc_shut_rd c" "rc_shut_wr c1 = rc_shut_wr c" using bev c(1) by (simp_all add: c1_def)
  consider "dr" | "\<not> dr" "\<not> k" | "\<not> dr" "k" by blast
  then show ?thesis
  proof cases
    case 1
    then have "res = (None, Be_Close (be_fd b) # ?cs)" using res c1 by (simp add: redsocks_drop_client_def close_bev_def)
    with fds show ?thesis by (auto simp: rs_closed_def)
  next
    case 2
    have "evbuffer_readln rest = None" using httpr_lines_incomplete [of ?dest "be_input b" "rc_httpr c"] l 2 by auto
    then have "httpr_collecting c1 ?cs" unfolding httpr_collecting_def using c1 2 pz fds bytes c cl z(1)
      by (intro exI [of _ ?b] exI [of _ "pre @ z"]) (auto simp: client_bev_def)
    with res 2 show ?thesis by (auto simp: httpr_state_def)
  next
    case 3
    have hb: "hb_buff (httpr_client_buffer h) \<noteq> None" "httpr_firstline h \<noteq> None" using httpr_lines_buff [OF pz] 3 by auto
    then obtain l0 b0 where h: "httpr_firstline h = Some l0" "hb_buff (httpr_client_buffer h) = Some b0" by auto
    have rw: "httpr_rewrite ?dest (pre @ z) = Some (l0, b0)" using pz h 3 by (simp add: httpr_rewrite_def)
    let ?c2 = "set_bev Client (?b\<lparr>be_input := []\<rparr>) (c1\<lparr>rc_state := httpr_recv_request_headers\<rparr>)"
    obtain c3 cs3 where ct: "httpr_content os rest ?c2 ?cs = Some (c3, cs3)" "res = redsocks_connect_relay os c3 cs3"
      using res 3 c1(1) by (auto simp: httpr_client_read_content_def split: bind_splits)
    from content_unsent [OF ct(1)] h(2) c1 obtain b' where c3: "c3 = ?c2\<lparr>rc_httpr := h\<lparr>httpr_client_buffer := b'\<rparr>\<rparr>" "cs3 = ?cs" "hb_buff b' = Some (b0 @ rest)"
      by auto
    have "rs_post httpr_connecting (redsocks_connect_relay os c3 cs3)"
    proof (rule httpr_connect [OF os, where b = "b\<lparr>be_input := []\<rparr>" and pre = "(pre @ z) @ rest"])
      show "httpr_request (fmt_http_host c3) ((pre @ z) @ rest) (rc_httpr c3)" unfolding httpr_request_def using rw h c3 c1(3)
        by (intro exI [of _ "pre @ z"] exI [of _ rest]) simp
    qed (use fds bytes cl c c1 c3(1,2) z(1) in \<open>simp_all add: client_bev_def rs_shut_ok_def all_shut_def all_sides\<close>)
    with ct(2) show ?thesis by (auto intro: rs_post_mono simp: httpr_state_def)
  qed
qed

lemma fire_collecting:
  assumes os: "socket_contract os" and co: "httpr_collecting c cs" and pe: "rs_pending s e c"
  shows "rs_outcome False httpr_state (rs_fire os http_relay_subsys cfg s e c cs)"
proof -
  obtain b pre where bev: "rc_bev c = (\<lambda>s. None)(Client := Some b)" and fds: "calls_ok cs" "\<And>fd. is_open fd cs \<longleftrightarrow> fd = be_fd b"
    and bytes: "bytes_read (be_fd b) cs = pre @ be_input b" "bytes_written (be_fd b) cs = []" "be_output b = []" and cl: "client_bev b"
    and c: "rc_state c = httpr_new" "\<not> rc_shut_wr c Client" "\<not> rc_shut_rd c Relay" "\<not> rc_shut_wr c Relay"
      "rc_shut_rd c Client \<longrightarrow> \<not> be_ev_read b"
    and ls: "httpr_lines (fmt_http_host c) pre httpr_start = Some (False, False, [], rc_httpr c)" "evbuffer_readln (be_input b) = None"
    using co unfolding httpr_collecting_def by blast
  have s: "s = Client" "e = Readable" using pe bev cl by (cases s; cases e; simp add: rs_pending_def client_bev_def)+
  obtain run b' cs1 where rd: "bufferevent_readcb os b cs = (run, b', cs1)" by (cases "bufferevent_readcb os b cs")
  let ?c = "c\<lparr>rc_bev := (\<lambda>s. None)(Client := Some b')\<rparr>"
  have f: "rs_fire os http_relay_subsys cfg s e c cs = (case run of Run_Nothing \<Rightarrow> Some (Some ?c, cs1)
     | Run_Readcb \<Rightarrow> run_cb_option os http_relay_subsys cfg (be_readcb b') ?c cs1
     | Run_Writecb \<Rightarrow> run_cb_option os http_relay_subsys cfg (be_writecb b') ?c cs1
     | Run_Eventcb what \<Rightarrow> redsocks_event_error os Client what ?c cs1)"
    using rd bev s by (simp add: rs_fire_def Let_def)
  have keep: "httpr_state c' cs2"
    if "quiet (\<lambda>fd. fd = be_fd b) cs cs2" "be_fd b2 = be_fd b" "be_input b2 = be_input b" "be_output b2 = be_output b" "client_bev b2"
      "rc_bev c' = (\<lambda>s. None)(Client := Some b2)" "same_client c c'" "\<not> rc_shut_wr c' Client" "\<not> rc_shut_rd c' Relay" "\<not> rc_shut_wr c' Relay"
      "rc_shut_rd c' Client \<longrightarrow> \<not> be_ev_read b2" for b2 c' cs2
    unfolding httpr_state_def httpr_collecting_def using bytes c(1) ls that(2-11) fmt_http_host_same [OF that(7)]
      quiet_data(1,2) [OF that(1)] single_bev_fd [OF fds(2) that(1) fds(1)]
    by (intro disjI1 exI [of _ b2] exI [of _ pre]) (simp add: same_client_def)
  from rd show ?thesis
  proof (cases rule: bufferevent_readcb_cases)
    case suspend
    with cl show ?thesis by (simp add: client_bev_def)
  next
    case quiet
    from keep [of cs1 b ?c] quiet c cl have "httpr_state ?c cs1" by (simp add: same_client_def)
    with f quiet show ?thesis by simp
  next
    case error
    note q = single_bev_fd [OF fds(2) error(3) fds(1)]
    have "rs_fire os http_relay_subsys cfg s e c cs = Some (None, Be_Close (be_fd b) # Be_Getsockopt (be_fd b) # Be_Time # cs1)"
      using f error by (simp add: redsocks_event_error_def redsocks_touch_client_def redsocks_drop_client_def close_bev_def)
    with q show ?thesis by (auto simp: rs_closed_def)
  next
    case eof
    let ?cs = "Be_Shutdown (be_fd b) Shut_Rd # Be_Time # cs1" and ?b = "bufferevent_disable True False b'"
    let ?c' = "?c\<lparr>rc_last_event := bo_time os cs1, rc_bev := (\<lambda>s. None)(Client := Some ?b), rc_shut_rd := (rc_shut_rd c)(Client := True),
      rc_shut_wr := (rc_shut_wr c)(Client := rc_shut_wr c Client)\<rparr>"
    have "redsocks_event_error os Client Reading_Eof ?c cs1 = Some (Some ?c', ?cs)"
      using eof c by (simp add: redsocks_event_error_def redsocks_touch_client_def redsocks_shutdown_def all_shut_def Let_def)
    moreover have "httpr_state ?c' ?cs"
      by (rule keep [of _ ?b]) (use eof c cl in \<open>auto simp: client_bev_def same_client_def bufferevent_disable_def be_socket_disable_def\<close>)
    ultimately show ?thesis using f eof by simp
  next
    case (data bs n)
    have cl': "client_bev b'" "be_fd b' = be_fd b" using cl data by (simp_all add: client_bev_def)
    have "rs_fire os http_relay_subsys cfg s e c cs = httpr_client_read_cb os cfg ?c cs1"
      using f data cl by (simp add: client_bev_def run_cb_option_def http_relay_subsys_def)
    moreover have "rs_post httpr_state res" if "httpr_client_read_cb os cfg ?c cs1 = Some res" for res
      by (rule collecting_read [OF os _ _ _ _ _ _ cl'(1) _ _ _ _ _ _ that, where pre = pre])
        (use bev fds bytes c ls data in simp_all)
    ultimately show ?thesis by (auto simp: rs_outcome_def split: option.split)
  qed
qed

lemma fire_httpr_state:
  assumes os: "be_os_ok os" and st: "httpr_state c cs" and pe: "rs_pending s e c"
  shows "rs_outcome False httpr_state (rs_fire os http_relay_subsys cfg s e c cs)"
proof -
  have sc: "socket_contract os" using os by (simp add: be_os_ok_def)
  from st consider "httpr_collecting c cs" | bv pre said heard cbs where "httpr_phase cbs bv pre said heard c cs"
      "cbs = ss_cbs \<or> cbs = connect_cbs \<and> rc_state c = httpr_recv_request_headers" | "httpr_relaying c cs"
    unfolding httpr_state_def httpr_connecting_def httpr_talking_def by blast
  then show ?thesis
  proof cases
    case 1
    show ?thesis by (rule fire_collecting [OF sc 1 pe])
  next
    case (2 bv pre said heard cbs)
    note bev = rs_inv_bev [OF httpr_phase_inv [OF 2(1)]]
    show ?thesis
    proof (cases s)
      case Client
      with fire_client [OF 2(1) _ 2(2)] pe show ?thesis by simp
    next
      case Relay
      show ?thesis
      proof (cases e)
        case Readable
        then have ev: "be_ev_read (bv Relay)" using pe Relay bev [of Relay] by (simp add: rs_pending_def)
        then have "httpr_phase ss_cbs bv pre said heard c cs" using 2 by (auto simp: httpr_phase_def)
        from fire_relay_read [OF os this ev] Relay Readable show ?thesis by simp
      next
        case Writable
        then have "be_ev_write (bv Relay)" using pe Relay bev [of Relay] by (simp add: rs_pending_def)
        from fire_relay_write [OF 2(1) this 2(2)] Relay Writable show ?thesis by simp
      qed
    qed
  next
    case 3
    show ?thesis by (rule fire_httpr_relaying [OF 3 pe])
  qed
qed

lemma httpr_lines_Nil [simp]: "httpr_lines dest [] h = Some (False, False, [], h)"
  by (simp add: httpr_lines.simps)

lemma accepted_httpr_state:
  shows "rs_post httpr_state (redsocks_accepted os http_relay_subsys cfg auth fd [Be_Open fd])"
proof -
  have cl: "rs_closed (Be_Close fd # cs)" if "cs = [Be_Open fd] \<or> cs = Be_Time # [Be_Open fd]" for cs
    using that by (auto simp: rs_closed_def)
  show ?thesis
  proof (cases "bo_getsockname os [Be_Open fd] fd \<and> bo_destaddr os [Be_Open fd] fd \<noteq> None \<and> bo_keepalive os [Be_Open fd] fd")
    case False
    then show ?thesis using cl by (auto simp: redsocks_accepted_def split: option.split)
  next
    case True
    then obtain destaddr destport where d: "bo_destaddr os [Be_Open fd] fd = Some (destaddr, destport)" by auto
    let ?c = "httpr_client_init cfg (new_client destaddr destport auth)"
    show ?thesis
    proof (cases "bo_time os [Be_Open fd] = -1")
      case t: True
      then show ?thesis using True d cl
        by (simp add: redsocks_accepted_def redsocks_drop_client_def close_bev_def Let_def http_relay_subsys_def httpr_client_init_def new_client_def)
    next
      case t: False
      let ?cs = "[Be_Time, Be_Time, Be_Open fd]" and ?b0 = "bufferevent_new fd None None :: rs_bev"
      define c1 where "c1 = ?c\<lparr>rc_last_event := bo_time os [Be_Time, Be_Open fd]\<rparr>"
      obtain ok b cs2 where e: "bufferevent_enable os True False ?b0 ?cs = (ok, b, cs2)" by (cases "bufferevent_enable os True False ?b0 ?cs")
      let ?b1 = "b\<lparr>be_readcb := Some Cb_Ss_Client\<rparr>"
      obtain ok2 b2 cs3 where e2: "bufferevent_enable os True False ?b1 cs2 = (ok2, b2, cs3)" by (cases "bufferevent_enable os True False ?b1 cs2")
      note io = enable_io [OF e] and ev = enable_read_events [OF e] and io2 = enable_io [OF e2] and ev2 = enable_read_events [OF e2]
      have fd: "be_fd b = fd" "be_fd b2 = fd" using io(1) io2(1) by (simp_all add: same_io_def bufferevent_new_def)
      have q: "quiet (\<lambda>x. x = fd) ?cs cs2" "quiet (\<lambda>x. x = fd) cs2 cs3" using io(2) io2(2) fd by (simp_all add: bufferevent_new_def)
      have o0: "is_open x ?cs \<longleftrightarrow> x = fd" "calls_ok ?cs" for x by auto
      note o2 = single_bev_fd [OF o0(1) q(1) o0(2)]
      have o3: "calls_ok cs3 \<and> (\<forall>x. is_open x cs3 \<longleftrightarrow> x = fd)" by (rule single_bev_fd [OF _ q(2)]) (use o2 in auto)
      have r: "redsocks_accepted os http_relay_subsys cfg auth fd [Be_Open fd] =
          (if \<not> ok then redsocks_drop_client (set_bev Client b c1) cs2
           else if ok2 then (Some (set_bev Client b2 (set_bev Client b c1)), cs3) else redsocks_drop_client (set_bev Client b2 (set_bev Client b c1)) cs3)"
        using True d t e e2 by (simp add: redsocks_accepted_def redsocks_touch_client_def c1_def http_relay_subsys_def httpr_connect_relay_def Let_def)
      have c1: "rc_bev c1 = (\<lambda>s. None)" "rc_state c1 = httpr_new" "rc_httpr c1 = httpr_start" "rc_shut_rd c1 = (\<lambda>s. False)" "rc_shut_wr c1 = (\<lambda>s. False)"
        by (simp_all add: c1_def httpr_client_init_def new_client_def)
      have b2: "be_input b2 = []" "be_output b2 = []" "client_bev b2"
        using io(1) io2(1) ev ev2 by (simp_all add: same_io_def bufferevent_new_def client_bev_def)
      have "httpr_collecting (set_bev Client b2 (set_bev Client b c1)) cs3"
        unfolding httpr_collecting_def using c1 b2 fd o3 quiet_data(1,2) [OF q(1)] quiet_data(1,2) [OF q(2)]
        by (intro exI [of _ b2] exI [of _ "[]"]) (simp del: fun_upd_apply)
      moreover have "rs_post Q (redsocks_drop_client (set_bev Client b c1) cs2)" "rs_post Q (redsocks_drop_client (set_bev Client b2 (set_bev Client b c1)) cs3)" for Q
        using c1 o2 o3 fd by (auto simp: redsocks_drop_client_def close_bev_def rs_closed_def)
      ultimately show ?thesis unfolding r by (simp add: httpr_state_def)
    qed
  qed
qed

lemma httpr_state_auth [simp]: "httpr_state (c\<lparr>rc_auth := auth\<rparr>) cs \<longleftrightarrow> httpr_state c cs"
proof -
  have "httpr_phase cbs bv pre said heard (c\<lparr>rc_auth := auth\<rparr>) cs \<longleftrightarrow> httpr_phase cbs bv pre said heard c cs" for cbs bv pre said heard
    by (simp add: httpr_phase_def)
  moreover have "httpr_collecting (c\<lparr>rc_auth := auth\<rparr>) cs \<longleftrightarrow> httpr_collecting c cs" by (simp add: httpr_collecting_def)
  moreover have "httpr_relaying (c\<lparr>rc_auth := auth\<rparr>) cs \<longleftrightarrow> httpr_relaying c cs" by (simp add: httpr_relaying_def)
  ultimately show ?thesis by (simp add: httpr_state_def httpr_connecting_def httpr_talking_def)
qed

lemma reach_httpr_state:
  assumes os: "be_os_ok os" and r: "rs_reach os http_relay_subsys cfg c cs"
  shows "httpr_state c cs"
  using r
proof (induction rule: rs_reach.induct)
  case (reach_accept auth self self' c cs)
  then obtain fd where "redsocks_accepted os http_relay_subsys cfg auth fd [Be_Open fd] = (Some c, cs)"
    by (auto simp: redsocks_accept_client_def split: accept_answer.splits prod.splits)
  with accepted_httpr_state [of os cfg auth fd] show ?case by simp
next
  case (reach_event c cs s e c' cs')
  with fire_httpr_state [OF os reach_event.IH reach_event.hyps(2), of cfg] show ?case by simp
next
  case (reach_others c cs auth)
  then show ?case by simp
qed

end
