(* ===== verification/Http_Relay_Props.thy ===== *)
theory Http_Relay_Props
  imports Http_Relay_Inv Redsocks_Runs
begin

text \<open>
  The properties of the HTTP relay, from the invariant of a client: the rewriting of a head, the streams
  of both directions, the reply that loses its beginning and the client that is left behind; with runs
  that can be evaluated.
\<close>

section \<open>Consequences of the invariant\<close>

text \<open>What is said and heard on both sides, in the terms of the descriptors.\<close>

lemma httpr_bytesD:
  assumes "rs_inv bv d c cs"
  shows "bytes_read (be_fd (bv s)) cs = rd_pre (d s) @ rd_moved (d s) @ be_input (bv s)"
    "bytes_written (be_fd (bv s)) cs @ be_output (bv s) = rd_msg (d s) @ rd_moved (d (other_side s))"
  using assms by (simp_all add: rs_inv_def rs_bytes_def)

definition httpr_told :: "rs_bev \<Rightarrow> rs_bev \<Rightarrow> redsocks_client \<Rightarrow> be_calls \<Rightarrow> bool" where
  "httpr_told b r c cs \<longleftrightarrow> (\<exists>head body line hdrs auth. bytes_read (be_fd b) cs = head @ body @ be_input b \<and>
     httpr_rewrite (fmt_http_host c) head = Some (line, hdrs) \<and> auth_text auth \<and>
     (bytes_written (be_fd r) cs @ be_output r = c_bytes line @ auth @ hdrs @ body \<or>
      bytes_written (be_fd r) cs @ be_output r = [] \<and> rc_state c = httpr_recv_request_headers))"

definition httpr_answered :: "rs_bev \<Rightarrow> rs_bev \<Rightarrow> be_calls \<Rightarrow> bool" where
  "httpr_answered b r cs \<longleftrightarrow> (\<exists>lost shown ls rest. bytes_read (be_fd r) cs = lost @ shown @ rest @ be_input r \<and>
     lines_are (ls @ [[]]) shown \<and> bytes_written (be_fd b) cs @ be_output b = lines_text (ls @ [[]]) @ rest)"

lemma phase_streams:
  assumes ph: "httpr_phase cbs bv pre said heard c cs"
  shows "httpr_told (bv Client) (bv Relay) c cs" "bytes_written (be_fd (bv Client)) cs @ be_output (bv Client) = []"
    "be_readcb (bv Client) = Some Cb_Ss_Client"
proof -
  note bd = httpr_bytesD [OF httpr_phase_inv [OF ph]]
  have rq: "httpr_request (fmt_http_host c) pre (rc_httpr c)" and i: "be_input (bv Client) = []"
    and sd: "if rc_state c = httpr_recv_request_headers then said = [] else httpr_said (fmt_http_host c) pre said"
    using ph by (simp_all add: httpr_phase_def)
  show "be_readcb (bv Client) = Some Cb_Ss_Client" using ph by (simp add: httpr_phase_def client_bev_def)
  show "bytes_written (be_fd (bv Client)) cs @ be_output (bv Client) = []" using bd(2) [of Client] by simp
  show "httpr_told (bv Client) (bv Relay) c cs"
  proof (cases "rc_state c = httpr_recv_request_headers")
    case True
    with rq sd bd(1) [of Client] bd(2) [of Relay] i show ?thesis
      unfolding httpr_request_def httpr_told_def by (auto simp: auth_text_def)
  next
    case False
    with sd obtain head body l b auth where "pre = head @ body" "httpr_rewrite (fmt_http_host c) head = Some (l, b)"
      "said = c_bytes l @ auth @ b @ body" "auth_text auth" by (auto simp: httpr_said_def)
    with bd(1) [of Client] bd(2) [of Relay] i show ?thesis unfolding httpr_told_def
      by (intro exI [of _ head] exI [of _ body] exI [of _ l] exI [of _ b] exI [of _ auth]) simp
  qed
qed

lemma relaying_streams:
  assumes "httpr_relaying c cs" "rc_bev c Client = Some b" "rc_bev c Relay = Some r"
  shows "httpr_told b r c cs" "httpr_answered b r cs" "be_readcb b \<noteq> Some Cb_Ss_Client"
proof -
  from assms(1) obtain bv d pre said heard reply where inv: "rs_inv bv d c cs" and sh: "relay_shape bv"
    and dl: "same_dialogue (httpr_dialogue pre said heard reply) d" and sd: "httpr_said (fmt_http_host c) pre said" and rp: "httpr_replied heard reply"
    by (auto simp: httpr_relaying_def)
  have bv: "b = bv Client" "r = bv Relay" using rs_inv_bev [OF inv] assms(2,3) by simp_all
  have d: "rd_pre (d Client) = pre" "rd_msg (d Client) = reply" "rd_pre (d Relay) = heard" "rd_msg (d Relay) = said"
    using dl by (simp_all add: same_dialogue_def all_sides httpr_dialogue_def)
  note bd = httpr_bytesD [OF inv, of Client] httpr_bytesD [OF inv, of Relay]
  show "be_readcb b \<noteq> Some Cb_Ss_Client" using sh bv by (simp add: relay_shape_def)
  from sd obtain head body l h auth where "pre = head @ body" "httpr_rewrite (fmt_http_host c) head = Some (l, h)"
    "said = c_bytes l @ auth @ h @ body" "auth_text auth" by (auto simp: httpr_said_def)
  with bd d show "httpr_told b r c cs" unfolding httpr_told_def bv
    by (intro exI [of _ head] exI [of _ "body @ rd_moved (d Client)"] exI [of _ l] exI [of _ h] exI [of _ auth]) simp
  from rp obtain lost shown ls where "heard = lost @ shown" "lines_are (ls @ [[]]) shown" "reply = lines_text (ls @ [[]])"
    by (auto simp: httpr_replied_def)
  with bd d show "httpr_answered b r cs" unfolding httpr_answered_def bv
    by (intro exI [of _ lost] exI [of _ shown] exI [of _ ls] exI [of _ "rd_moved (d Relay)"]) simp
qed

lemma reach_httpr_streams:
  assumes "be_os_ok os" "rs_reach os http_relay_subsys cfg c cs" "rc_bev c Client = Some b" "rc_bev c Relay = Some r"
  shows "httpr_told b r c cs \<and> (if be_readcb b = Some Cb_Ss_Client then bytes_written (be_fd b) cs @ be_output b = [] else httpr_answered b r cs)"
proof -
  have ph: ?thesis if "httpr_phase cbs bv pre said heard c cs" for cbs bv pre said heard
    using phase_streams [OF that] rs_inv_bev [OF httpr_phase_inv [OF that]] assms(3,4) by simp
  from reach_httpr_state [OF assms(1,2)] consider (coll) "httpr_collecting c cs" | (phase) cbs bv pre said heard where
    "httpr_phase cbs bv pre said heard c cs" | (relaying) "httpr_relaying c cs"
    by (auto simp: httpr_state_def httpr_connecting_def httpr_talking_def)
  then show ?thesis
  proof cases
    case coll
    with assms(4) show ?thesis by (auto simp: httpr_collecting_def)
  next
    case phase
    then show ?thesis by (rule ph)
  next
    case relaying
    with relaying_streams [OF relaying assms(3,4)] show ?thesis by simp
  qed
qed

text \<open>A client without a connection to the proxy server is still collecting the head of its request.\<close>

lemma reach_collecting:
  assumes "be_os_ok os" "rs_reach os http_relay_subsys cfg c cs" "rc_bev c Relay = None"
  shows "httpr_collecting c cs"
proof -
  have "rc_bev c Relay \<noteq> None" if "rs_inv bv d c cs" for bv d using rs_inv_bev [OF that] by simp
  with reach_httpr_state [OF assms(1,2)] assms(3) show ?thesis
    by (auto simp: httpr_state_def httpr_connecting_def httpr_talking_def httpr_relaying_def dest: httpr_phase_inv)
qed

section \<open>The reply\<close>

text \<open>Once the status line has been read, a later read shows the client only its own lines.\<close>

lemma reply_came_shown:
  assumes ph: "httpr_phase ss_cbs bv pre said heard c cs" and n: "rc_state c = httpr_reply_came"
    and r: "httpr_relay_read_cb os cfg c cs = Some (Some c', cs')" and b': "rc_bev c' Client = Some b'" "be_readcb b' \<noteq> Some Cb_Ss_Client"
  shows "\<exists>shown rest ls. bytes_read (be_fd (bv Relay)) cs' = heard @ shown @ rest \<and> lines_are (ls @ [[]]) shown \<and>
    bytes_written (be_fd b') cs' @ be_output b' = lines_text (ls @ [[]])"
proof -
  define c0 where "c0 = c\<lparr>rc_last_event := bo_time os cs, rc_httpr := (rc_httpr c)\<lparr>httpr_relay_buffer := httpr_buffer_init\<rparr>\<rparr>"
  let ?cs = "Be_Time # cs"
  have inv: "rs_inv bv (httpr_data pre said heard) c0 ?cs"
    using touch_inv [OF httpr_phase_inv [OF ph], of os] by (simp add: redsocks_touch_client_def c0_def)
  have n0: "rc_state c0 = httpr_reply_came" and h0: "hb_buff (httpr_relay_buffer (rc_httpr c0)) = Some []"
    using n by (simp_all add: c0_def httpr_buffer_init_def)
  have r0: "httpr_reply os c0 ?cs = Some (Some c', cs')"
    using r n by (simp add: httpr_relay_read_cb_def redsocks_touch_client_def c0_def)
  then obtain skipped rest h where h: "httpr_headers (be_input (bv Relay)) (rc_httpr c0) = Some (skipped, rest, h)"
    using n0 rs_inv_bev [OF inv, of Relay] by (auto simp: httpr_reply_def split: bind_splits)
  from httpr_headers_result [OF h h0] obtain x ls b where x: "be_input (bv Relay) = x @ rest" "lines_are ls x"
    "h = (rc_httpr c0)\<lparr>httpr_relay_buffer := b\<rparr>" "hb_buff b = Some (lines_text ls)" "if skipped then \<exists>ks. ls = ks @ [[]] else [] \<notin> set ls" by auto
  let ?r = "(bv Relay)\<lparr>be_input := rest\<rparr>"
  define c1 where "c1 = set_bev Relay ?r (c0\<lparr>rc_httpr := h\<rparr>)"
  have i1: "rs_inv (bv(Relay := ?r)) (httpr_data pre said (heard @ x)) c1 ?cs"
    using httpr_take_relay [of bv pre said heard "c0\<lparr>rc_httpr := h\<rparr>", OF _ x(1)] inv by (simp add: c1_def)
  have skipped
  proof (rule ccontr)
    assume "\<not> skipped"
    then have "c' = c1" using r0 h n0 rs_inv_bev [OF inv, of Relay] by (simp add: httpr_reply_def c1_def Let_def)
    then have "b' = bv Client" using b'(1) rs_inv_bev [OF inv, of Client] by (simp add: c1_def)
    then show False using ph b'(2) by (simp add: httpr_phase_def client_bev_def)
  qed
  then obtain ks where ks: "ls = ks @ [[]]" using x(5) by auto
  obtain bc cs1 where w: "bufferevent_write_buffer os (lines_text ls) (bv Client) ?cs = (bc, cs1)"
    by (cases "bufferevent_write_buffer os (lines_text ls) (bv Client) ?cs")
  let ?c = "httpr_client_fini (set_bev Client bc (c1\<lparr>rc_state := httpr_headers_skipped\<rparr>))"
  have s: "redsocks_start_relay os ?c cs1 = Some (Some c', cs')"
    using r0 rs_inv_bev [OF inv] h n0 \<open>skipped\<close> x(3,4) w by (simp add: httpr_reply_def c1_def Let_def)
  have i2: "rs_inv ((bv(Relay := ?r))(Client := bc)) (httpr_dialogue pre said (heard @ x) (lines_text ls)) ?c cs1"
    using rs_inv_say [of "bv(Relay := ?r)" "httpr_data pre said (heard @ x)" "c1\<lparr>rc_state := httpr_headers_skipped\<rparr>" ?cs os "lines_text ls" Client] i1 w
    by (simp add: httpr_dialogue_def httpr_client_fini_def)
  show ?thesis
  proof (cases rule: start_relay_cases [OF i2, of os])
    case (2 b2 r2 cs1 cs2)
    note bd = httpr_bytesD [OF 2(2), of Client] httpr_bytesD [OF 2(2), of Relay]
    have "b' = b2" "cs' = cs2" using 2(1) s b'(1) by auto
    moreover have "be_fd r2 = be_fd (bv Relay)" "be_input r2 = rest"
      using enable_io(1) [OF 2(5)] by (simp_all add: same_io_def relay_bev_def)
    ultimately show ?thesis using bd x(2) ks by (intro exI [of _ x] exI [of _ rest] exI [of _ ks]) (simp add: httpr_dialogue_def)
  qed (use s in simp)
qed

lemma fire_reply_lost:
  assumes ph: "httpr_phase ss_cbs bv pre said heard c cs" and n: "rc_state c = httpr_reply_came" and ev: "be_ev_read (bv Relay)"
    and f: "rs_fire os http_relay_subsys cfg Relay Readable c cs = Some (Some c', cs')"
    and b': "rc_bev c' Client = Some b'" "be_readcb b' \<noteq> Some Cb_Ss_Client"
  shows "\<exists>shown rest ls. bytes_read (be_fd (bv Relay)) cs' = heard @ shown @ rest \<and> lines_are (ls @ [[]]) shown \<and>
    bytes_written (be_fd b') cs' @ be_output b' = lines_text (ls @ [[]])"
proof -
  note inv = httpr_phase_inv [OF ph]
  have cl: "be_readcb (bv Client) = Some Cb_Ss_Client" "be_readcb (bv Relay) = Some Cb_Ss_Read"
    using ph by (simp_all add: httpr_phase_def client_bev_def)
  have not: "rc_bev c' Client \<noteq> Some (bv Client)" using b' cl(1) by auto
  show ?thesis
  proof (cases rule: fire_read_cases [OF inv, of os http_relay_subsys cfg Relay])
    case (4 res cs1)
    from httpr_kept_eof [OF ph ev 4(4)] 4(1) f obtain bv' where "httpr_phase ss_cbs bv' pre said heard c' cs'" by (auto simp: httpr_kept_def)
    with phase_streams(3) [OF this] rs_inv_bev [OF httpr_phase_inv [OF this], of Client] b' show ?thesis by simp
  next
    case (5 bs m)
    let ?r = "rs_input Relay bs bv"
    have p1: "httpr_phase ss_cbs (bv(Relay := ?r)) pre said heard (set_bev Relay ?r c) (Be_Read (be_fd (bv Relay)) m (Rd_Data bs) # cs)"
      by (rule httpr_phase_input [OF ph 5(7)]) simp_all
    have "httpr_relay_read_cb os cfg (set_bev Relay ?r c) (Be_Read (be_fd (bv Relay)) m (Rd_Data bs) # cs) = Some (Some c', cs')"
      using 5(6) f cl(2) not rs_inv_bev [OF inv, of Client] by (auto simp: run_cb_option_def http_relay_subsys_def split: if_splits)
    from reply_came_shown [OF p1 _ this b'] n show ?thesis by simp
  qed (use f not rs_inv_bev [OF inv, of Client] in auto)
qed

section \<open>Runs to evaluate\<close>

text \<open>A short request, and a proxy server that answers it, in one piece or in two.\<close>

definition sample_request :: bytes where
  "sample_request = c_bytes (''GET /x'' @ crlf @ crlf)"

definition sample_status :: bytes where
  "sample_status = c_bytes (''HTTP/1.0 200 OK'' @ crlf)"

definition sample_body :: bytes where
  "sample_body = [13, 10, 72, 105]"

definition sample_relay_events :: "(rs_side \<times> rs_event) list" where
  "sample_relay_events = [(Client, Readable), (Relay, Writable), (Relay, Writable), (Relay, Readable)]"

abbreviation sample_relay_os :: "bytes list \<Rightarrow> bytes list \<Rightarrow> (rs_side \<times> rs_event) list \<Rightarrow> (redsocks_client \<times> be_calls) option" where
  "sample_relay_os client server es \<equiv>
     rs_life (script_os client server) http_relay_subsys sample_rs_config sample_rs_auth sample_instance es"

lemma sample_host:
  assumes "rc_destaddr c = [10, 0, 0, 1]" "rc_destport c = 0x5000"
  shows "fmt_http_host c = ''10.0.0.1''"
proof -
  have "inet_ntoa [10, 0, 0, 1] = ''10.0.0.1''" "ntohs 0x5000 = 80" by code_simp+
  then show ?thesis using assms by (simp add: fmt_http_host_def)
qed

definition sample_sent :: httpr_client where
  "sample_sent = \<lparr>httpr_firstline = Some (''GET http://10.0.0.1/x'' @ crlf), httpr_host = None, httpr_has_host = False,
     httpr_client_buffer = \<lparr>hb_buff = Some (lines_text [''Host: 10.0.0.1'', ''Proxy-Connection: close'', ''Connection: close'', []]), hb_max_len = 4096\<rparr>,
     httpr_relay_buffer = httpr_buffer_init\<rparr>"

lemma sample_head: "httpr_lines ''10.0.0.1'' sample_request httpr_start = Some (True, False, [], sample_sent)"
  by code_simp

lemma sample_relay_reads:
  "redsocks_evbuffer_readline sample_status = Some (''HTTP/1.0 200 OK'', [])"
  "redsocks_evbuffer_readline sample_body = Some ([], [72, 105])" "redsocks_evbuffer_readline [] = None"
  "sample_status \<noteq> []" "sample_body \<noteq> []" "sample_request \<noteq> []" "length sample_status = 17" "length sample_body = 4"
  "length sample_request = 10"
  by code_simp+

lemma sample_relay_headers:
  "httpr_headers sample_body h = do { h \<leftarrow> httpr_append_reply [] h; Some (True, [72, 105], h) }" "httpr_headers [] h = Some (False, [], h)"
  by (simp_all add: httpr_headers.simps [of sample_body] httpr_headers.simps [of "[]"] sample_relay_reads)

lemma grow_fits: "n \<le> 4096 \<Longrightarrow> httpr_grow n 4096 = Some 4096"
  by (simp add: httpr_grow.simps)

lemma sample_sent_fields:
  "httpr_firstline sample_sent = Some (''GET http://10.0.0.1/x'' @ crlf)"
  "httpr_client_buffer sample_sent = \<lparr>hb_buff = Some (lines_text [''Host: 10.0.0.1'', ''Proxy-Connection: close'', ''Connection: close'', []]), hb_max_len = 4096\<rparr>"
  by (simp_all add: sample_sent_def)

lemma c_bytes_empty: "c_bytes l = [] \<longleftrightarrow> l = []"
  by (simp add: c_bytes_def)

lemmas relay_eval = c_bytes_empty crlf_def sample_host http_relay_subsys_def httpr_client_init_def httpr_connect_relay_def httpr_client_read_cb_def sample_head
  httpr_client_read_content_def httpr_relay_write_cb_def httpr_auth_string_def auth_pieces_def httpr_relay_read_cb_def httpr_status_def
  httpr_reply_def httpr_append_reply_def httpr_append_line_def httpr_buffer_append_def httpr_buffer_init_def grow_fits sample_sent_fields
  sample_relay_reads sample_relay_headers httpr_client_fini_def httpr_buffer_fini_def HTTP_HEAD_WM_HIGH_def sample_200_eval(2)
  sample_relay_events_def

section \<open>Properties\<close>

text \<open>
  C19: A request whose lines are clean and whose request line has a blank is rewritten: a path gets the
  host of the last host header in front of it, or the destination when there is no such header; the
  headers of the connection are left out, all others are kept in their order, and the relay's own follow.
\<close>

theorem httpr_head_rewritten:
  assumes "clean_line first" "CHR '' '' \<in> set first" "good_headers hs" "clean_line dest" "length (lines_text (first # hs)) + length dest \<le> 2 ^ 29"
  shows "\<exists>h. httpr_lines dest (lines_text (first # hs @ [[]])) httpr_start = Some (True, False, [], h) \<and>
    httpr_firstline h = Some (request_line (case last_host hs of None \<Rightarrow> dest | Some host \<Rightarrow> host) first @ crlf) \<and>
    hb_buff (httpr_client_buffer h) = Some (lines_text (filter (\<lambda>l. \<not> is_connection l) hs @ closing_lines dest (last_host hs \<noteq> None)))"
  using rewrite_good_head [OF assms] by (auto simp: httpr_rewrite_def sent_head_def split: bind_splits if_splits)

theorem httpr_head_rewritten_witness:
  "\<exists>h. httpr_lines ''10.0.0.1'' (lines_text [''GET /x HTTP/1.0'', ''Host: a'', ''Connection: x'', ''Accept: b'', []]) httpr_start = Some (True, False, [], h) \<and>
    httpr_firstline h = Some (''GET http://a/x HTTP/1.0'' @ crlf) \<and>
    hb_buff (httpr_client_buffer h) = Some (lines_text [''Host: a'', ''Accept: b'', ''Proxy-Connection: close'', ''Connection: close'', []])"
proof -
  let ?first = "''GET /x HTTP/1.0''" and ?hs = "[''Host: a'', ''Connection: x'', ''Accept: b'']" and ?dest = "''10.0.0.1''"
  have c: "clean_line ?first" "CHR '' '' \<in> set ?first" "good_headers ?hs" "clean_line ?dest" by code_simp+
  have l: "length (lines_text (?first # ?hs)) + length ?dest \<le> 2 ^ 29" by (simp add: lines_text_def)
  have r: "request_line (case last_host ?hs of None \<Rightarrow> ?dest | Some host \<Rightarrow> host) ?first = ''GET http://a/x HTTP/1.0''"
    "filter (\<lambda>l. \<not> is_connection l) ?hs @ closing_lines ?dest (last_host ?hs \<noteq> None) =
      [''Host: a'', ''Accept: b'', ''Proxy-Connection: close'', ''Connection: close'', []]" by code_simp+
  show ?thesis using httpr_head_rewritten [OF c l, unfolded r] by simp
qed

text \<open>
  C18: The streams of a client of the HTTP relay that has a connection to the proxy server. What the client
  sent is the head of a request and its body. The server was told the rewritten head, with the answer
  to a challenge in front of its headers, and the body as far as it was read, or nothing before the
  request is sent. The client was told nothing, or, once relaying, lines that the server sent up to an
  empty one and then exactly what followed them.
\<close>

theorem httpr_streams:
  assumes "be_os_ok os" "rs_reach os http_relay_subsys cfg c cs" "rc_bev c Client = Some b" "rc_bev c Relay = Some r"
  shows "(\<exists>head body line hdrs auth. bytes_read (be_fd b) cs = head @ body @ be_input b \<and>
      httpr_rewrite (fmt_http_host c) head = Some (line, hdrs) \<and> auth_text auth \<and>
      (bytes_written (be_fd r) cs @ be_output r = c_bytes line @ auth @ hdrs @ body \<or>
       bytes_written (be_fd r) cs @ be_output r = [] \<and> rc_state c = httpr_recv_request_headers)) \<and>
    (if be_readcb b = Some Cb_Ss_Client then bytes_written (be_fd b) cs @ be_output b = []
     else \<exists>lost shown ls rest. bytes_read (be_fd r) cs = lost @ shown @ rest @ be_input r \<and>
       lines_are (ls @ [[]]) shown \<and> bytes_written (be_fd b) cs @ be_output b = lines_text (ls @ [[]]) @ rest)"
  using reach_httpr_streams [OF assms] unfolding httpr_told_def httpr_answered_def .

theorem httpr_streams_witness:
  "\<exists>c cs b r head line hdrs auth body. rs_reach (script_os [sample_request] [sample_status, sample_body]) http_relay_subsys sample_rs_config c cs \<and>
    rc_bev c Client = Some b \<and> rc_bev c Relay = Some r \<and> rc_state c = httpr_reply_came \<and>
    bytes_read (be_fd b) cs = head @ body @ be_input b \<and> httpr_rewrite (fmt_http_host c) head = Some (line, hdrs) \<and>
    bytes_written (be_fd r) cs @ be_output r = c_bytes line @ auth @ hdrs @ body"
proof -
  have "\<exists>c cs b r. sample_relay_os [sample_request] [sample_status, sample_body] sample_relay_events = Some (c, cs) \<and>
    rc_bev c Client = Some b \<and> rc_bev c Relay = Some r \<and> rc_state c = httpr_reply_came"
    by (simp add: rs_eval relay_eval)
  then obtain c cs b r where s: "sample_relay_os [sample_request] [sample_status, sample_body] sample_relay_events = Some (c, cs)"
    and b: "rc_bev c Client = Some b" "rc_bev c Relay = Some r" "rc_state c = httpr_reply_came" by blast
  have rs: "rs_reach (script_os [sample_request] [sample_status, sample_body]) http_relay_subsys sample_rs_config c cs"
    using s by (rule rs_life_reach)
  obtain head body line hdrs auth where "bytes_read (be_fd b) cs = head @ body @ be_input b"
    "httpr_rewrite (fmt_http_host c) head = Some (line, hdrs)" "bytes_written (be_fd r) cs @ be_output r = c_bytes line @ auth @ hdrs @ body"
    using httpr_streams [OF script_os_ok(1) rs b(1,2)] b(3) by auto
  with rs b show ?thesis by blast
qed

text \<open>
  C37: A reply that comes in several reads loses its beginning. When the status line came in an earlier
  read than the end of the headers, the client is told only lines behind it: the status line is lost.
\<close>

theorem httpr_reply_lost:
  assumes "be_os_ok os" "rs_reach os http_relay_subsys cfg c cs" "rc_bev c Client = Some b" "rc_bev c Relay = Some r"
    "be_readcb b = Some Cb_Ss_Client" "rc_state c = httpr_reply_came" "be_ev_read r"
    "rs_fire os http_relay_subsys cfg Relay Readable c cs = Some (Some c', cs')" "rc_bev c' Client = Some b'" "be_readcb b' \<noteq> Some Cb_Ss_Client"
  shows "\<exists>junk status hdrs shown rest ls. bytes_read (be_fd r) cs' = junk @ status @ hdrs @ shown @ rest \<and> status_line status \<and>
    lines_are (ls @ [[]]) shown \<and> bytes_written (be_fd b') cs' @ be_output b' = lines_text (ls @ [[]])"
proof -
  have "\<not> httpr_relaying c cs" using relaying_streams(3) [OF _ assms(3,4)] assms(5) by blast
  then obtain bv pre said heard where ph: "httpr_phase ss_cbs bv pre said heard c cs"
    using reach_httpr_state [OF assms(1,2)] assms(4,6) by (auto simp: httpr_state_def httpr_collecting_def httpr_connecting_def httpr_talking_def)
  have r: "r = bv Relay" using rs_inv_bev [OF httpr_phase_inv [OF ph], of Relay] assms(4) by simp
  obtain junk status hdrs where "heard = junk @ status @ hdrs" "status_line status"
    using httpr_phase_heard [OF ph] assms(6) by (auto simp: httpr_heard_def)
  with fire_reply_lost [OF ph assms(6) _ assms(8-10)] assms(7) r show ?thesis by (metis append.assoc)
qed

theorem httpr_reply_lost_witness:
  "\<exists>c cs c' cs' b' status shown. rs_reach (script_os [sample_request] [sample_status, sample_body]) http_relay_subsys sample_rs_config c cs \<and>
    rs_fire (script_os [sample_request] [sample_status, sample_body]) http_relay_subsys sample_rs_config Relay Readable c cs = Some (Some c', cs') \<and>
    rc_bev c' Client = Some b' \<and> be_output b' = [13, 10] \<and> status_line status \<and> bytes_written (be_fd b') cs' @ be_output b' = lines_text shown"
proof -
  let ?os = "script_os [sample_request] [sample_status, sample_body]"
  have "\<exists>c cs b r c' cs' b'. sample_relay_os [sample_request] [sample_status, sample_body] sample_relay_events = Some (c, cs) \<and>
    rc_bev c Client = Some b \<and> rc_bev c Relay = Some r \<and> be_readcb b = Some Cb_Ss_Client \<and> rc_state c = httpr_reply_came \<and> be_ev_read r \<and>
    rs_fire ?os http_relay_subsys sample_rs_config Relay Readable c cs = Some (Some c', cs') \<and>
    rc_bev c' Client = Some b' \<and> be_readcb b' \<noteq> Some Cb_Ss_Client \<and> be_output b' = [13, 10]"
    by (simp add: rs_eval relay_eval c_bytes_def)
  then obtain c cs b r c' cs' b' where s: "sample_relay_os [sample_request] [sample_status, sample_body] sample_relay_events = Some (c, cs)"
    and b: "rc_bev c Client = Some b" "rc_bev c Relay = Some r" "be_readcb b = Some Cb_Ss_Client" "rc_state c = httpr_reply_came" "be_ev_read r"
    and f: "rs_fire ?os http_relay_subsys sample_rs_config Relay Readable c cs = Some (Some c', cs')"
      "rc_bev c' Client = Some b'" "be_readcb b' \<noteq> Some Cb_Ss_Client" and o: "be_output b' = [13, 10]" by blast
  have rs: "rs_reach ?os http_relay_subsys sample_rs_config c cs" using s by (rule rs_life_reach)
  with httpr_reply_lost [OF script_os_ok(1) rs b f] f(1,2) o show ?thesis by blast
qed



end
