(* ===== verification/Spec2Isabelle.thy ===== *)
theory Spec2Isabelle
  imports Jni Redsocks_Props Conf_Props Http_Relay_Props
begin

text \<open>
  A verification development for the packet engine of Inspector, the C code under
  \<open>src/app/src/main/jni/netguard\<close>, and for the transparent proxy beside it, under
  \<open>src/app/src/main/jni/redsocks\<close>. The engine runs behind an Android VPN interface: it reads IP packets
  from a tun device, decides with the help of the Java service whether their connection is allowed,
  carries TCP, UDP and ICMP echo traffic over ordinary sockets, and writes the answers back as packets.

  \<^bold>\<open>The program.\<close> \<open>handle_events\<close> (\<open>session.c\<close>) is the loop: it counts and monitors the sessions, checks
  their timeouts, waits with \<open>epoll\<close> and hands every event to its handler. A packet of the tun device
  goes through \<open>check_tun\<close> and \<open>handle_ip\<close> (\<open>ip.c\<close>), which decodes it, finds its owner (\<open>get_uid\<close>), asks
  the service (\<open>is_address_allowed\<close>, \<open>netguard.c\<close>) and gives it to \<open>handle_tcp\<close> (\<open>tcp.c\<close>), \<open>handle_udp\<close>
  (\<open>udp.c\<close>) or \<open>handle_icmp\<close> (\<open>icmp.c\<close>). An event of a socket goes to \<open>check_tcp_socket\<close>,
  \<open>check_udp_socket\<close> or \<open>check_icmp_socket\<close>. Responses of name servers pass through
  \<open>parse_dns_response\<close> (\<open>dns.c\<close>), DHCP requests through \<open>check_dhcp\<close> (\<open>dhcp.c\<close>), and every packet is
  recorded by \<open>write_pcap_rec\<close> (\<open>pcap.c\<close>). All sessions are in one linked list of the context.

  The proxy accepts redirected connections, connects each to a proxy server, asks the server for the
  connection the program wanted (\<open>socks5.c\<close>, \<open>socks4.c\<close>, \<open>http-connect.c\<close>), and then relays both directions
  (\<open>redsocks.c\<close>). For a proxy that speaks plain HTTP it reads the head of the request first and sends a
  rewritten one (\<open>http-relay.c\<close>). It runs in callbacks of the buffered sockets of libevent. Its instances come from a
  configuration file, which \<open>parser.c\<close> reads with the sections of \<open>base.c\<close> and \<open>redsocks.c\<close>.

  \<^bold>\<open>How it is modelled.\<close> Structs are records, unions datatypes, machine integers words of their width;
  times are integers. The machine is little-endian with 64 bit pointers. A buffer is a byte list, and
  a packet is the whole read buffer with a length and the offset of its payload, so that reads behind
  the packet but inside the buffer are what they are in C. Addresses are byte lists, ports the raw
  16 bits in memory. The session list is a list of nodes with an address of their own, \<open>ng_ptr\<close>; what
  C changes through a pointer is put back at that address. A function that changes a session returns
  it with its result. \<open>None\<close> stands for undefined behaviour (an access outside a buffer or to a freed
  session) and for a loop that does not end.

  The system and the service are one record \<open>os\<close> of answers (\<open>Ng_Types\<close>), each a function of the trace
  of everything that happened before, so theorems hold for every behaviour of kernel, network, clock
  and service, whether a call fails or succeeds, unless a hypothesis says what is relied on. Every
  system call and upcall adds an event to the trace, and properties about what the engine does outside
  are stated over it. Hypotheses about the system are documented behaviour: \<open>send_contract\<close>, a \<open>send\<close>
  accepts at most what it is given, \<open>recv_contract\<close>, a \<open>recv\<close> returns at most what is asked for, and a
  clock that stands still during one pass.

  \<^bold>\<open>The theories\<close>, each with the code it models and what its lemmas show.

  \<^item> \<open>Ng_Prelude\<close>: words, bytes in both orders, checked reads and writes of buffers.
  \<^item> \<open>Util\<close> (\<open>util.c\<close>): the checksum is the RFC 1071 sum, through a locale of what the packet writers
    need of it; serial number comparison agrees with RFC 1982 except at one distance, where it is not
    an order; \<open>hex\<close> and \<open>hex2bytes\<close> are inverse.
  \<^item> \<open>Ng_Types\<close> (\<open>netguard.h\<close>), \<open>Samples\<close>, \<open>Upcalls\<close> (\<open>netguard.c\<close>): constants, sessions, the system and
    the calls into Java; concrete values for the witnesses.
  \<^item> \<open>Pcap\<close> (\<open>pcap.c\<close>): the capture file stays well formed and within its size.
  \<^item> \<open>Headers\<close>, \<open>Tcp_Write\<close>, \<open>Udp_Write\<close> (\<open>write_tcp\<close>, \<open>write_udp\<close>, \<open>dhcp.c\<close>): every packet has valid
    checksums and decodes to the values of its session; the DHCP responder writes outside its buffer.
  \<^item> \<open>Tcp_Queue\<close> (\<open>queue_tcp\<close>, the windows, the forwarding loop): the queue implements a store of segments
    ordered by sequence number (locale \<open>segment_store\<close>), so arrivals may come in any order; the bytes
    the socket accepts are always a prefix of the stream; with a willing socket forwarding completes;
    the window promises no more than there is room for.
  \<^item> \<open>Dns\<close> (\<open>dns.c\<close>): no message makes the parser loop or leave its buffers; names are read as RFC 1035
    says; blocked responses are emptied; one kind of compressed name gives a wrong offset.
  \<^item> \<open>Session_Check\<close>: the contract of a periodic session check (locales \<open>checked_session\<close> and
    \<open>accounted_session\<close>: sockets are closed once, traffic is reported once), interpreted for ICMP, UDP,
    TCP and the union of them, and the invariant \<open>ctx_ok\<close> of the session list.
  \<^item> \<open>Udp\<close>, \<open>Icmp\<close> (\<open>udp.c\<close>, \<open>icmp.c\<close>): allowed datagrams go to their destination, blocked flows are
    silent; ICMP messages get the right identification and checksum.
  \<^item> \<open>Tcp_Session\<close>, \<open>Tcp_Socket\<close>, \<open>Tcp_Handle\<close> (\<open>tcp.c\<close>): the life cycle, socket events with the SOCKS5
    handshake, packets. \<open>Tcp_Machine\<close>: an abstract TCP machine \<open>tcp_edge\<close>; every step of a session is a
    path of it, and with a proxy a connection is accepted only after the proxy granted it.
    \<open>Tcp_Packets\<close>: options, resets, the send window.
  \<^item> \<open>Scanf\<close>: the conversions of \<open>sscanf\<close>. \<open>Uid\<close> (\<open>get_uid\<close>): the cache answers as the table did.
  \<^item> \<open>Ip\<close> (\<open>handle_ip\<close>, \<open>check_tun\<close>): the session limit holds, refused destinations get nothing; IPv6
    extension headers and the IPv4 checksum test do not work.
  \<^item> \<open>Session\<close>, \<open>Session_Props\<close> (\<open>session.c\<close>): no socket is lost or closed twice, no traffic unreported, no
    idle session outlives its timeout unnoticed; the loop keeps the invariant over any run.
  \<^item> \<open>Jni\<close> (\<open>netguard.c\<close>): the interface of the library, the statistics, the record of allocations.
  \<^item> \<open>Base64\<close>, \<open>Md5\<close>, \<open>Http_Auth\<close> (\<open>redsocks/base64.c\<close>, \<open>md5.c\<close>, \<open>http-auth.c\<close>): base64 is that of RFC 4648
    and inverted by its decoder, the digest of a message in pieces is that of RFC 1321, a challenge of
    an HTTP proxy is answered as RFC 2617 says. These theories use no state of the engine.

  \<^item> \<open>Bufferevent\<close> (\<open>libevent/bufferevent_sock.c\<close>, \<open>bufferevent.c\<close>): a buffered socket, its two events and
    what enabling, disabling and suspending do to them; the system calls of the proxy as a history.
  \<^item> \<open>Redsocks\<close> (\<open>redsocks.c\<close>, \<open>utils.c\<close>), \<open>Socks\<close> (\<open>socks5.c\<close>, \<open>socks4.c\<close>), \<open>Http_Connect\<close>
    (\<open>http-connect.c\<close>): one client of the proxy from accept to its end. A handler takes the client and
    the history and returns both, \<open>rs_fire\<close> handles one event of the loop; a relay subsystem is a record
    of callbacks, as in the code.
  \<^item> \<open>Redsocks_Inv\<close>: the invariant of a client, which descriptors are open and where every byte is.
    \<open>Redsocks_Relay\<close>: each direction of a relaying client follows an abstract machine \<open>dir_step\<close> that loses,
    repeats and reorders nothing. \<open>Redsocks_Handshake\<close>: the locale \<open>relay_subsystem\<close> states what a handshake
    promises; in it the invariant is proved for every event in every phase, and for every reachable
    state of a client (\<open>rs_reach\<close>). \<open>Socks_Props\<close>, \<open>Http_Props\<close>: the SOCKS and HTTP subsystems
    keep the promises, with the dialogues of RFC 1928 and 1929 and of a \<open>CONNECT\<close> request as what is said
    and heard. \<open>Redsocks_Runs\<close>, \<open>Redsocks_Props\<close>: memory safety, streams, progress, and the runs in
    which a connection is left behind, data is lost or a challenge is read outside its string.
    What is relied on of the system is \<open>be_os_ok\<close>: a read returns at most what is asked for and a new
    descriptor is one that is not open.
  \<^item> \<open>Http_Relay\<close> (\<open>http-relay.c\<close>): the subsystem that rewrites a request. It does not keep the promises of
    \<open>relay_subsystem\<close>, since it reads from the client before it connects, and has an invariant of its own.
    \<open>Http_Relay_Text\<close>: lines, buffers and heads; how the input is cut into reads does not matter, and a
    well-formed head is rewritten as the reference \<open>sent_head\<close> says. \<open>Http_Relay_Inv\<close>: the phases of a client and
    that every event keeps them (\<open>reach_httpr_state\<close>). \<open>Http_Relay_Props\<close>: the streams of both directions, and
    the runs in which a reply loses its beginning or a client is left behind.

  \<^item> \<open>Conf_Token\<close>, \<open>Conf_Parser\<close> (\<open>parser.c\<close>): the tokens of a configuration file, the values of an entry, the
    loop over the lines with its growing buffer. \<open>Conf_Ref\<close>: a reference that cuts the whole text into
    tokens at once, and that the loop ends and computes it. \<open>Conf_Print\<close>: printed configurations are read
    back. \<open>Conf_Sections\<close>: the two sections; the locale \<open>conf_invariant\<close> lifts an invariant that the
    handlers of the sections keep to whatever file is accepted. \<open>Conf_Props\<close>: the properties, among them
    that an accepted configuration has what the back-off of the listener relies on. The proxy is
    built for 32 bit machines only, so \<open>strtoul\<close> has 32 bits. Of the resolver it is relied on that an
    answer has at least one address, of four bytes (\<open>resolver_contract\<close>).

  \<^bold>\<open>Loops and bounds.\<close> Loops over lists are structural recursions. The name loop of \<open>get_qname\<close> takes the
  26 rounds after which the code gives up; the rounds over tun packets and datagrams take the code's
  \<open>TUN_YIELD\<close> and \<open>UDP_YIELD\<close>. The loop over TCP options, the walk over IPv6 extension headers and the
  event loop may run forever and are partial functions; when the first ends is proved, the invariant
  of the last is proved over its iterations. The loop of the configuration parser is a partial function
  too, and that it ends for every file is proved. A buffer of the HTTP relay doubles an \<open>int\<close>; where that
  overflows the model has \<open>None\<close>, which the rewriting of a head excludes below $2^{29}$ bytes.

  \<^bold>\<open>Not modelled.\<close> Logging and the texts made for it, \<open>inet_ntop\<close> and \<open>inet_pton\<close>, the JNI lookups around
  an upcall, error numbers of calls whose failure is only logged, the flags of descriptors, the mutex
  (the loop runs in one thread; the stop flag, which another sets, is an answer of the system), and
  big-endian machines. Memory allocation always succeeds. A shift by more bits than the word has,
  which the window scale of a SYN allows and C leaves undefined, gives zero. Of the proxy: the
  UDP and DNS redirectors, its start (daemon, user, signals) and
  the lookup of the original destination; that closing a descriptor may end the delay of the listener
  early; removing an event never fails; the clients of an instance share only the state of the HTTP
  authentication, which the model lets the others change at any time. The other directories of
  the repository are vendored libraries, binaries, injectors whose effect lies in foreign machine code,
  C++ glue over Android internals, and Java; the bindings \<open>kraken\<close> are C code over libpcap.
\<close>

end
